(* ===== verification/Fabric_Prelude.thy ===== *)
theory Fabric_Prelude
  imports Main "HOL-Library.Word" "HOL-Library.AList" "HOL-Library.Char_ord"
    "HOL-Library.List_Lexorder"
begin

text \<open>
  Shared vocabulary of the Shuffle Fabric development: the machine integer types of the C++
  sources, the \<open>Result\<close>/\<open>Status\<close> carriers as sums, the library algorithms the sources call
  (\<open>std::lower_bound\<close>, \<open>std::binary_search\<close>, sorted insertion, \<open>std::to_string\<close>) and the
  lemmas on lists, association lists and words that the component theories share.

  A \<open>std::unordered_map\<close> is an association list with distinct keys (\<open>AList.update\<close>,
  \<open>AList.delete\<close>, \<open>map_of\<close>); its \<open>size()\<close> is the length of the list.
\<close>

section \<open>Machine integers and carriers\<close>

type_synonym u8 = "8 word"
type_synonym u16 = "16 word"
type_synonym u32 = "32 word"
type_synonym u64 = "64 word"
type_synonym bytes = "u8 list"

named_theorems alist_simps \<open>association lists as unordered maps\<close>
named_theorems codec_simps \<open>round trips of the canonical encoding\<close>
named_theorems sorted_simps \<open>strictly ascending vectors\<close>

unbundle bit_operations_syntax

section \<open>Strictly ascending vectors\<close>

abbreviation ascending :: "'a::linorder list \<Rightarrow> bool" where
  "ascending \<equiv> sorted_wrt (<)"

abbreviation key_ascending :: "('a \<Rightarrow> 'b::linorder) \<Rightarrow> 'a list \<Rightarrow> bool" where
  "key_ascending key \<equiv> sorted_wrt (\<lambda>x y. key x < key y)"

text \<open>
  \<open>std::lower_bound\<close> returns the partition point of its range: the position of the first
  element that is not less than the value.
\<close>

definition lower_bound :: "('a \<Rightarrow> 'b::linorder) \<Rightarrow> 'a list \<Rightarrow> 'b \<Rightarrow> nat" where
  "lower_bound key xs v = length (takeWhile (\<lambda>x. key x < v) xs)"

definition insert_at :: "nat \<Rightarrow> 'a \<Rightarrow> 'a list \<Rightarrow> 'a list" where
  "insert_at i x xs = take i xs @ x # drop i xs"

definition erase_at :: "nat \<Rightarrow> 'a list \<Rightarrow> 'a list" where
  "erase_at i xs = take i xs @ drop (Suc i) xs"

definition found_at :: "('a \<Rightarrow> 'b::linorder) \<Rightarrow> 'a list \<Rightarrow> 'b \<Rightarrow> bool" where
  "found_at key xs v \<longleftrightarrow>
     lower_bound key xs v < length xs \<and> key (xs ! lower_bound key xs v) = v"

lemma lower_bound_le [simp]: "lower_bound key xs v \<le> length xs"
  by (simp add: lower_bound_def length_takeWhile_le)

lemma lower_bound_Nil [simp]: "lower_bound key [] v = 0"
  by (simp add: lower_bound_def)

lemma lower_bound_Cons [simp]:
  "lower_bound key (x # xs) v = (if key x < v then Suc (lower_bound key xs v) else 0)"
  by (simp add: lower_bound_def)

lemma take_lower_bound: "take (lower_bound key xs v) xs = takeWhile (\<lambda>x. key x < v) xs"
  by (simp only: lower_bound_def flip: takeWhile_eq_take)

lemma drop_lower_bound: "drop (lower_bound key xs v) xs = dropWhile (\<lambda>x. key x < v) xs"
  by (simp only: lower_bound_def flip: dropWhile_eq_drop)

lemma found_at_Nil [simp]: "\<not> found_at key [] v"
  by (simp add: found_at_def)

lemma found_at_iff:
  "sorted_wrt (\<lambda>x y. key x < key y) xs \<Longrightarrow> found_at key xs v \<longleftrightarrow> v \<in> key ` set xs"
  by (induction xs) (auto simp: found_at_def)

lemma found_at_id_iff [sorted_simps]:
  "ascending xs \<Longrightarrow> found_at id xs v \<longleftrightarrow> v \<in> set xs"
  using found_at_iff [of id xs v] by simp

text \<open>Insertion and erasure at the partition point, the two mutations the sources perform.\<close>

definition vec_insert :: "'a::linorder \<Rightarrow> 'a list \<Rightarrow> 'a list" where
  "vec_insert v xs =
     (if found_at id xs v then xs else insert_at (lower_bound id xs v) v xs)"

definition vec_erase :: "'a::linorder \<Rightarrow> 'a list \<Rightarrow> 'a list" where
  "vec_erase v xs =
     (if found_at id xs v then erase_at (lower_bound id xs v) xs else xs)"

lemma vec_insert_Nil [simp]: "vec_insert v [] = [v]"
  by (simp add: vec_insert_def insert_at_def)

lemma vec_insert_Cons [simp]:
  "vec_insert v (x # xs) = (if x < v then x # vec_insert v xs else if x = v then x # xs else v # x # xs)"
  by (auto simp: vec_insert_def insert_at_def found_at_def)

lemma vec_erase_Nil [simp]: "vec_erase v [] = []"
  by (simp add: vec_erase_def)

lemma vec_erase_Cons [simp]:
  "vec_erase v (x # xs) = (if x < v then x # vec_erase v xs else if x = v then xs else x # xs)"
  by (auto simp: vec_erase_def erase_at_def found_at_def)

lemma set_vec_insert [sorted_simps, simp]: "set (vec_insert v xs) = insert v (set xs)"
  by (induction xs) auto

lemma set_vec_erase [sorted_simps]: "ascending xs \<Longrightarrow> set (vec_erase v xs) = set xs - {v}"
  by (induction xs) auto

lemma ascending_vec_insert [sorted_simps]: "ascending xs \<Longrightarrow> ascending (vec_insert v xs)"
  by (induction xs) auto

lemma ascending_vec_erase [sorted_simps]: "ascending xs \<Longrightarrow> ascending (vec_erase v xs)"
  by (induction xs) (auto simp: set_vec_erase)

lemma length_vec_insert:
  "ascending xs \<Longrightarrow> length (vec_insert v xs) = (if v \<in> set xs then length xs else Suc (length xs))"
  by (induction xs) auto

lemma ascending_distinct: "ascending xs \<Longrightarrow> distinct xs"
  by (induction xs) auto

lemma ascending_unique:
  assumes "ascending xs" "ascending ys" "set xs = set ys"
  shows "xs = ys"
  using assms by (simp add: ascending_distinct sorted_distinct_set_unique strict_sorted_imp_sorted)

lemma length_concat_const: "(\<And>x. x \<in> set xs \<Longrightarrow> length (f x) = n) \<Longrightarrow> length (concat (map f xs)) = n * length xs"
  by (induction xs) auto

section \<open>Record vectors, ascending by a key\<close>

lemma key_ascending_map: "key_ascending key xs \<longleftrightarrow> ascending (map key xs)"
  by (simp add: sorted_wrt_map)

lemma key_ascending_inj:
  "key_ascending key xs \<Longrightarrow> x \<in> set xs \<Longrightarrow> y \<in> set xs \<Longrightarrow> key x = key y \<Longrightarrow> x = y"
proof (induction xs)
  case (Cons z zs)
  then show ?case by (metis less_irrefl set_ConsD sorted_wrt.simps(2))
qed simp

lemma found_at_nth:
  "key_ascending key xs \<Longrightarrow> x \<in> set xs \<Longrightarrow>
   lower_bound key xs (key x) < length xs \<and> xs ! lower_bound key xs (key x) = x"
  by (induction xs) auto

lemma not_found_at:
  "key_ascending key xs \<Longrightarrow> \<not> found_at key xs v \<longleftrightarrow> (\<forall>x \<in> set xs. key x \<noteq> v)"
  by (auto simp: found_at_iff)

lemma update_at_found:
  assumes "key_ascending key xs" "x \<in> set xs" "key y = key x"
  shows "key_ascending key (xs[lower_bound key xs (key x) := y])"
    and "set (xs[lower_bound key xs (key x) := y]) = insert y (set xs - {x})"
  using assms by (induction xs) auto

lemma insert_at_sorted:
  assumes "key_ascending key xs" "\<not> found_at key xs (key y)"
  shows "key_ascending key (insert_at (lower_bound key xs (key y)) y xs)"
    and "set (insert_at (lower_bound key xs (key y)) y xs) = insert y (set xs)"
  using assms by (induction xs) (auto simp: insert_at_def found_at_def dest: in_set_takeD in_set_dropD)

lemma length_insert_at: "i \<le> length xs \<Longrightarrow> length (insert_at i x xs) = Suc (length xs)"
  by (simp add: insert_at_def)

end
