(* ===== verification/Fabric_Error.thy ===== *)
theory Fabric_Error
  imports Fabric_Prelude
begin

text \<open>
  Error codes, retry classification and the result carriers (\<open>error.hpp\<close>, \<open>error.cpp\<close>).

  \<open>ErrorCode\<close> is a C++ \<open>enum class\<close> over \<open>uint16_t\<close>, so a value is any 16-bit number: the
  durable decoders cast raw numbers into it. The model is a datatype around the 16-bit value
  with one abbreviation per enumerator. \<open>Result<T>\<close> is \<open>error_code + 'a\<close> and \<open>Status\<close> is a
  result of \<open>unit\<close>; the human-readable detail text that accompanies a refusal is not part of
  the model (no decision of the sources reads it).
\<close>

section \<open>Error codes\<close>

datatype error_code = ErrorCode (code_value: u16)

abbreviation Ok :: error_code where "Ok \<equiv> ErrorCode 0"
abbreviation InvalidArgument :: error_code where "InvalidArgument \<equiv> ErrorCode 100"
abbreviation MalformedInput :: error_code where "MalformedInput \<equiv> ErrorCode 101"
abbreviation TruncatedInput :: error_code where "TruncatedInput \<equiv> ErrorCode 102"
abbreviation OversizedInput :: error_code where "OversizedInput \<equiv> ErrorCode 103"
abbreviation TrailingGarbage :: error_code where "TrailingGarbage \<equiv> ErrorCode 104"
abbreviation UnsupportedVersion :: error_code where "UnsupportedVersion \<equiv> ErrorCode 105"
abbreviation ChecksumMismatch :: error_code where "ChecksumMismatch \<equiv> ErrorCode 106"
abbreviation IntegerOverflow :: error_code where "IntegerOverflow \<equiv> ErrorCode 107"
abbreviation InvalidUnicode :: error_code where "InvalidUnicode \<equiv> ErrorCode 108"
abbreviation EmptyValue :: error_code where "EmptyValue \<equiv> ErrorCode 109"
abbreviation LimitExceeded :: error_code where "LimitExceeded \<equiv> ErrorCode 110"
abbreviation InvalidState :: error_code where "InvalidState \<equiv> ErrorCode 111"
abbreviation UnsupportedOperation :: error_code where "UnsupportedOperation \<equiv> ErrorCode 112"
abbreviation CapabilityUnsupported :: error_code where "CapabilityUnsupported \<equiv> ErrorCode 113"
abbreviation InternalError :: error_code where "InternalError \<equiv> ErrorCode 114"
abbreviation UnknownShuffle :: error_code where "UnknownShuffle \<equiv> ErrorCode 200"
abbreviation UnknownPartition :: error_code where "UnknownPartition \<equiv> ErrorCode 201"
abbreviation UnknownChunk :: error_code where "UnknownChunk \<equiv> ErrorCode 202"
abbreviation UnknownParticipant :: error_code where "UnknownParticipant \<equiv> ErrorCode 203"
abbreviation StaleGeneration :: error_code where "StaleGeneration \<equiv> ErrorCode 204"
abbreviation StaleIncarnation :: error_code where "StaleIncarnation \<equiv> ErrorCode 205"
abbreviation StaleTopology :: error_code where "StaleTopology \<equiv> ErrorCode 206"
abbreviation StalePolicy :: error_code where "StalePolicy \<equiv> ErrorCode 207"
abbreviation StaleAttempt :: error_code where "StaleAttempt \<equiv> ErrorCode 208"
abbreviation IncarnationMismatch :: error_code where "IncarnationMismatch \<equiv> ErrorCode 209"
abbreviation GenerationMismatch :: error_code where "GenerationMismatch \<equiv> ErrorCode 210"
abbreviation DigestMismatch :: error_code where "DigestMismatch \<equiv> ErrorCode 211"
abbreviation AuthorityDenied :: error_code where "AuthorityDenied \<equiv> ErrorCode 212"
abbreviation EligibilityDenied :: error_code where "EligibilityDenied \<equiv> ErrorCode 213"
abbreviation DivergentCommit :: error_code where "DivergentCommit \<equiv> ErrorCode 214"
abbreviation LateAuthority :: error_code where "LateAuthority \<equiv> ErrorCode 215"
abbreviation TopologyMismatch :: error_code where "TopologyMismatch \<equiv> ErrorCode 216"
abbreviation PolicyMismatch :: error_code where "PolicyMismatch \<equiv> ErrorCode 217"
abbreviation ManifestInconsistent :: error_code where "ManifestInconsistent \<equiv> ErrorCode 218"
abbreviation ParticipantNotActive :: error_code where "ParticipantNotActive \<equiv> ErrorCode 219"
abbreviation DuplicateRegistration :: error_code where "DuplicateRegistration \<equiv> ErrorCode 220"
abbreviation PartitionNotOwned :: error_code where "PartitionNotOwned \<equiv> ErrorCode 221"
abbreviation InterestNotFound :: error_code where "InterestNotFound \<equiv> ErrorCode 222"
abbreviation PartitionNotProduced :: error_code where "PartitionNotProduced \<equiv> ErrorCode 223"
abbreviation FanOutCeilingExceeded :: error_code where "FanOutCeilingExceeded \<equiv> ErrorCode 300"
abbreviation FanInCeilingExceeded :: error_code where "FanInCeilingExceeded \<equiv> ErrorCode 301"
abbreviation ConcurrencyLimitExceeded :: error_code where "ConcurrencyLimitExceeded \<equiv> ErrorCode 302"
abbreviation PolicyDenied :: error_code where "PolicyDenied \<equiv> ErrorCode 303"
abbreviation BackpressureActive :: error_code where "BackpressureActive \<equiv> ErrorCode 304"
abbreviation BackpressureUnknown :: error_code where "BackpressureUnknown \<equiv> ErrorCode 305"
abbreviation NoWorkAvailable :: error_code where "NoWorkAvailable \<equiv> ErrorCode 306"
abbreviation WaveLimitReached :: error_code where "WaveLimitReached \<equiv> ErrorCode 307"
abbreviation Cancelled :: error_code where "Cancelled \<equiv> ErrorCode 308"
abbreviation ShuttingDown :: error_code where "ShuttingDown \<equiv> ErrorCode 309"
abbreviation AttemptSuperseded :: error_code where "AttemptSuperseded \<equiv> ErrorCode 310"
abbreviation EdgeAlreadyDispatched :: error_code where "EdgeAlreadyDispatched \<equiv> ErrorCode 311"
abbreviation RetryDeferred :: error_code where "RetryDeferred \<equiv> ErrorCode 312"
abbreviation DuplicateCompletion :: error_code where "DuplicateCompletion \<equiv> ErrorCode 400"
abbreviation AlreadyCompleted :: error_code where "AlreadyCompleted \<equiv> ErrorCode 401"
abbreviation PartitionIncomplete :: error_code where "PartitionIncomplete \<equiv> ErrorCode 402"
abbreviation IntegrityFailure :: error_code where "IntegrityFailure \<equiv> ErrorCode 403"
abbreviation PayloadRejected :: error_code where "PayloadRejected \<equiv> ErrorCode 404"
abbreviation AccountingMismatch :: error_code where "AccountingMismatch \<equiv> ErrorCode 405"
abbreviation PurgedHistory :: error_code where "PurgedHistory \<equiv> ErrorCode 406"
abbreviation RevalidationRequired :: error_code where "RevalidationRequired \<equiv> ErrorCode 407"
abbreviation NotCommitted :: error_code where "NotCommitted \<equiv> ErrorCode 408"
abbreviation RetryExhausted :: error_code where "RetryExhausted \<equiv> ErrorCode 500"
abbreviation RetryNotAllowed :: error_code where "RetryNotAllowed \<equiv> ErrorCode 501"
abbreviation AmbiguousOutcome :: error_code where "AmbiguousOutcome \<equiv> ErrorCode 502"
abbreviation PersistenceFailure :: error_code where "PersistenceFailure \<equiv> ErrorCode 600"
abbreviation StateCorrupt :: error_code where "StateCorrupt \<equiv> ErrorCode 601"
abbreviation StateIncompatible :: error_code where "StateIncompatible \<equiv> ErrorCode 602"
abbreviation StateImpossible :: error_code where "StateImpossible \<equiv> ErrorCode 603"
abbreviation AtomicReplaceFailed :: error_code where "AtomicReplaceFailed \<equiv> ErrorCode 604"
abbreviation StateTooLarge :: error_code where "StateTooLarge \<equiv> ErrorCode 605"
abbreviation JournalSequenceViolation :: error_code where "JournalSequenceViolation \<equiv> ErrorCode 606"
abbreviation SessionNotFound :: error_code where "SessionNotFound \<equiv> ErrorCode 700"
abbreviation SessionClosed :: error_code where "SessionClosed \<equiv> ErrorCode 701"
abbreviation ProtocolViolation :: error_code where "ProtocolViolation \<equiv> ErrorCode 702"
abbreviation DuplicateFrame :: error_code where "DuplicateFrame \<equiv> ErrorCode 703"
abbreviation SequenceViolation :: error_code where "SequenceViolation \<equiv> ErrorCode 704"
abbreviation FrameTypeUnsupported :: error_code where "FrameTypeUnsupported \<equiv> ErrorCode 705"
abbreviation HandshakeRequired :: error_code where "HandshakeRequired \<equiv> ErrorCode 706"
abbreviation IdentityMismatch :: error_code where "IdentityMismatch \<equiv> ErrorCode 707"
abbreviation ConnectionFailure :: error_code where "ConnectionFailure \<equiv> ErrorCode 708"
abbreviation PeerUnavailable :: error_code where "PeerUnavailable \<equiv> ErrorCode 709"
abbreviation ConnectionClosed :: error_code where "ConnectionClosed \<equiv> ErrorCode 710"
abbreviation ResourceExhausted :: error_code where "ResourceExhausted \<equiv> ErrorCode 800"
abbreviation QueueFull :: error_code where "QueueFull \<equiv> ErrorCode 801"
abbreviation TooManyParticipants :: error_code where "TooManyParticipants \<equiv> ErrorCode 802"
abbreviation TooManyPartitions :: error_code where "TooManyPartitions \<equiv> ErrorCode 803"
abbreviation TooManyChunks :: error_code where "TooManyChunks \<equiv> ErrorCode 804"
abbreviation TooManyPatterns :: error_code where "TooManyPatterns \<equiv> ErrorCode 805"
abbreviation TooManyTrackedEdges :: error_code where "TooManyTrackedEdges \<equiv> ErrorCode 806"

type_synonym 'a result = "error_code + 'a"
type_synonym status = "unit result"

abbreviation ok_status :: status where "ok_status \<equiv> Inr ()"

definition is_ok :: "'a result \<Rightarrow> bool" where
  "is_ok r = (case r of Inl _ \<Rightarrow> False | Inr _ \<Rightarrow> True)"

definition result_code :: "'a result \<Rightarrow> error_code" where
  "result_code r = (case r of Inl e \<Rightarrow> e | Inr _ \<Rightarrow> Ok)"

definition value_or :: "'a result \<Rightarrow> 'a \<Rightarrow> 'a" where
  "value_or r fallback = (case r of Inl _ \<Rightarrow> fallback | Inr v \<Rightarrow> v)"

lemma is_ok_simps [simp]: "is_ok (Inr v)" "\<not> is_ok (Inl e)"
  by (simp_all add: is_ok_def)

lemma result_code_simps [simp]: "result_code (Inr v) = Ok" "result_code (Inl e) = e"
  by (simp_all add: result_code_def)

lemma value_or_simps [simp]: "value_or (Inr v) d = v" "value_or (Inl e) d = d"
  by (simp_all add: value_or_def)

lemma is_ok_iff: "is_ok r \<longleftrightarrow> (\<exists>v. r = Inr v)"
  by (cases r) auto

section \<open>Names\<close>

definition error_names :: "(error_code \<times> string) list" where
  "error_names =
    [(Ok, ''Ok''),
     (InvalidArgument, ''InvalidArgument''),
     (MalformedInput, ''MalformedInput''),
     (TruncatedInput, ''TruncatedInput''),
     (OversizedInput, ''OversizedInput''),
     (TrailingGarbage, ''TrailingGarbage''),
     (UnsupportedVersion, ''UnsupportedVersion''),
     (ChecksumMismatch, ''ChecksumMismatch''),
     (IntegerOverflow, ''IntegerOverflow''),
     (InvalidUnicode, ''InvalidUnicode''),
     (EmptyValue, ''EmptyValue''),
     (LimitExceeded, ''LimitExceeded''),
     (InvalidState, ''InvalidState''),
     (UnsupportedOperation, ''UnsupportedOperation''),
     (CapabilityUnsupported, ''CapabilityUnsupported''),
     (InternalError, ''InternalError''),
     (UnknownShuffle, ''UnknownShuffle''),
     (UnknownPartition, ''UnknownPartition''),
     (UnknownChunk, ''UnknownChunk''),
     (UnknownParticipant, ''UnknownParticipant''),
     (StaleGeneration, ''StaleGeneration''),
     (StaleIncarnation, ''StaleIncarnation''),
     (StaleTopology, ''StaleTopology''),
     (StalePolicy, ''StalePolicy''),
     (StaleAttempt, ''StaleAttempt''),
     (IncarnationMismatch, ''IncarnationMismatch''),
     (GenerationMismatch, ''GenerationMismatch''),
     (DigestMismatch, ''DigestMismatch''),
     (AuthorityDenied, ''AuthorityDenied''),
     (EligibilityDenied, ''EligibilityDenied''),
     (DivergentCommit, ''DivergentCommit''),
     (LateAuthority, ''LateAuthority''),
     (TopologyMismatch, ''TopologyMismatch''),
     (PolicyMismatch, ''PolicyMismatch''),
     (ManifestInconsistent, ''ManifestInconsistent''),
     (ParticipantNotActive, ''ParticipantNotActive''),
     (DuplicateRegistration, ''DuplicateRegistration''),
     (PartitionNotOwned, ''PartitionNotOwned''),
     (InterestNotFound, ''InterestNotFound''),
     (PartitionNotProduced, ''PartitionNotProduced''),
     (FanOutCeilingExceeded, ''FanOutCeilingExceeded''),
     (FanInCeilingExceeded, ''FanInCeilingExceeded''),
     (ConcurrencyLimitExceeded, ''ConcurrencyLimitExceeded''),
     (PolicyDenied, ''PolicyDenied''),
     (BackpressureActive, ''BackpressureActive''),
     (BackpressureUnknown, ''BackpressureUnknown''),
     (NoWorkAvailable, ''NoWorkAvailable''),
     (WaveLimitReached, ''WaveLimitReached''),
     (Cancelled, ''Cancelled''),
     (ShuttingDown, ''ShuttingDown''),
     (AttemptSuperseded, ''AttemptSuperseded''),
     (EdgeAlreadyDispatched, ''EdgeAlreadyDispatched''),
     (RetryDeferred, ''RetryDeferred''),
     (DuplicateCompletion, ''DuplicateCompletion''),
     (AlreadyCompleted, ''AlreadyCompleted''),
     (PartitionIncomplete, ''PartitionIncomplete''),
     (IntegrityFailure, ''IntegrityFailure''),
     (PayloadRejected, ''PayloadRejected''),
     (AccountingMismatch, ''AccountingMismatch''),
     (PurgedHistory, ''PurgedHistory''),
     (RevalidationRequired, ''RevalidationRequired''),
     (NotCommitted, ''NotCommitted''),
     (RetryExhausted, ''RetryExhausted''),
     (RetryNotAllowed, ''RetryNotAllowed''),
     (AmbiguousOutcome, ''AmbiguousOutcome''),
     (PersistenceFailure, ''PersistenceFailure''),
     (StateCorrupt, ''StateCorrupt''),
     (StateIncompatible, ''StateIncompatible''),
     (StateImpossible, ''StateImpossible''),
     (AtomicReplaceFailed, ''AtomicReplaceFailed''),
     (StateTooLarge, ''StateTooLarge''),
     (JournalSequenceViolation, ''JournalSequenceViolation''),
     (SessionNotFound, ''SessionNotFound''),
     (SessionClosed, ''SessionClosed''),
     (ProtocolViolation, ''ProtocolViolation''),
     (DuplicateFrame, ''DuplicateFrame''),
     (SequenceViolation, ''SequenceViolation''),
     (FrameTypeUnsupported, ''FrameTypeUnsupported''),
     (HandshakeRequired, ''HandshakeRequired''),
     (IdentityMismatch, ''IdentityMismatch''),
     (ConnectionFailure, ''ConnectionFailure''),
     (PeerUnavailable, ''PeerUnavailable''),
     (ConnectionClosed, ''ConnectionClosed''),
     (ResourceExhausted, ''ResourceExhausted''),
     (QueueFull, ''QueueFull''),
     (TooManyParticipants, ''TooManyParticipants''),
     (TooManyPartitions, ''TooManyPartitions''),
     (TooManyChunks, ''TooManyChunks''),
     (TooManyPatterns, ''TooManyPatterns''),
     (TooManyTrackedEdges, ''TooManyTrackedEdges'')]"

definition error_to_string :: "error_code \<Rightarrow> string" where
  "error_to_string c =
     (case map_of error_names c of Some s \<Rightarrow> s | None \<Rightarrow> ''UnknownErrorCode'')"

definition format_error :: "error_code \<Rightarrow> string \<Rightarrow> string" where
  "format_error code detail =
     (let rendered = error_to_string code in
      if detail \<noteq> [] then rendered @ '': '' @ detail else rendered)"

section \<open>Retry classification\<close>

datatype retry_class = NotApplicable | Retriable | Deferred | Authority | Permanent

fun retry_class_to_string :: "retry_class \<Rightarrow> string" where
  "retry_class_to_string NotApplicable = ''NotApplicable''"
| "retry_class_to_string Retriable = ''Retriable''"
| "retry_class_to_string Deferred = ''Deferred''"
| "retry_class_to_string Authority = ''Authority''"
| "retry_class_to_string Permanent = ''Permanent''"

definition classify :: "error_code \<Rightarrow> retry_class" where
  "classify code =
    (if code = Ok then NotApplicable
     else if code \<in> set [ConnectionFailure, PeerUnavailable, ConnectionClosed, SessionClosed, IntegrityFailure, PayloadRejected, ChecksumMismatch, AmbiguousOutcome] then Retriable
     else if code \<in> set [BackpressureActive, BackpressureUnknown, RetryDeferred, NoWorkAvailable, WaveLimitReached, ConcurrencyLimitExceeded, QueueFull, DuplicateFrame] then Deferred
     else if code \<in> set [AuthorityDenied, EligibilityDenied, StaleGeneration, StaleIncarnation, StaleTopology, StalePolicy, StaleAttempt, IncarnationMismatch, GenerationMismatch, LateAuthority, AttemptSuperseded, TopologyMismatch, PolicyMismatch, ParticipantNotActive, PartitionNotOwned, PolicyDenied, FanOutCeilingExceeded, FanInCeilingExceeded, Cancelled, ShuttingDown, DivergentCommit] then Authority
     else Permanent)"

end
