(* ===== verification/Fabric_Bytes.thy ===== *)
theory Fabric_Bytes
  imports Fabric_Error
begin

text \<open>
  Checked 64-bit arithmetic, the resource bounds (\<open>bytes.hpp\<close>, \<open>bytes.cpp\<close>) and the typed
  identities with their canonical decimal text (\<open>identity.hpp\<close>).

  Every identity and generation of the sources is an \<open>Id\<close> over \<open>uint64_t\<close>; the C++ tags only
  keep kinds apart at compile time, so the model uses one type synonym per kind over \<open>u64\<close>.
\<close>

section \<open>Checked arithmetic\<close>

definition add_overflows :: "u64 \<Rightarrow> u64 \<Rightarrow> bool" where
  "add_overflows a b \<longleftrightarrow> a > (- 1) - b"

definition mul_overflows :: "u64 \<Rightarrow> u64 \<Rightarrow> bool" where
  "mul_overflows a b \<longleftrightarrow> b \<noteq> 0 \<and> a > (- 1) div b"

definition checked_add :: "u64 \<Rightarrow> u64 \<Rightarrow> u64 result" where
  "checked_add a b = (if add_overflows a b then Inl IntegerOverflow else Inr (a + b))"

definition checked_mul :: "u64 \<Rightarrow> u64 \<Rightarrow> u64 result" where
  "checked_mul a b = (if mul_overflows a b then Inl IntegerOverflow else Inr (a * b))"

section \<open>Limits\<close>

record limits =
  max_frame_payload_bytes :: u64
  max_message_payload_bytes :: u64
  max_allocation_bytes :: u64
  max_string_bytes :: u32
  max_endpoint_bytes :: u32
  max_collection_items :: u32
  max_chunks_per_partition :: u64
  max_partitions :: u32
  max_participants :: u32
  max_selection_patterns :: u32
  max_selection_items :: u64
  max_planned_edges :: u64
  max_tracked_edges :: u64
  max_tracked_partitions :: u64
  max_state_bytes :: u64
  max_journal_record_bytes :: u64
  max_retained_generations :: u32
  max_attempt_records_per_shuffle :: u32
  max_pending_retries :: u32
  max_wave_grants :: u32

definition default_limits :: limits where
  "default_limits = \<lparr>
     max_frame_payload_bytes = 2 ^ 20, max_message_payload_bytes = 2 ^ 23,
     max_allocation_bytes = 2 ^ 23, max_string_bytes = 4096, max_endpoint_bytes = 256,
     max_collection_items = 2 ^ 18, max_chunks_per_partition = 2 ^ 20, max_partitions = 2 ^ 22,
     max_participants = 2 ^ 20, max_selection_patterns = 2 ^ 16, max_selection_items = 2 ^ 22,
     max_planned_edges = 2 ^ 32, max_tracked_edges = 2 ^ 26, max_tracked_partitions = 2 ^ 22,
     max_state_bytes = 2 ^ 28, max_journal_record_bytes = 2 ^ 20, max_retained_generations = 8,
     max_attempt_records_per_shuffle = 2 ^ 20, max_pending_retries = 2 ^ 16,
     max_wave_grants = 2 ^ 14\<rparr>"

definition limits_validate :: "limits \<Rightarrow> status" where
  "limits_validate l =
    (if max_frame_payload_bytes l = 0 \<or> max_frame_payload_bytes l > max_message_payload_bytes l
     then Inl InvalidArgument
     else if max_allocation_bytes l = 0 \<or> max_allocation_bytes l > max_message_payload_bytes l
     then Inl InvalidArgument
     else if max_string_bytes l = 0 \<or> ucast (max_string_bytes l) > max_allocation_bytes l
     then Inl InvalidArgument
     else if max_endpoint_bytes l = 0 \<or> max_endpoint_bytes l > max_string_bytes l
     then Inl InvalidArgument
     else if max_collection_items l = 0
     then Inl InvalidArgument
     else if max_chunks_per_partition l = 0
     then Inl InvalidArgument
     else if max_partitions l = 0 \<or> max_participants l = 0
     then Inl InvalidArgument
     else if max_selection_patterns l = 0 \<or> max_selection_items l = 0
     then Inl InvalidArgument
     else if max_planned_edges l = 0 \<or> max_tracked_edges l = 0 \<or> max_tracked_partitions l = 0
     then Inl InvalidArgument
     else if max_tracked_partitions l > ucast (max_partitions l)
     then Inl InvalidArgument
     else if max_state_bytes l = 0 \<or> max_journal_record_bytes l = 0 \<or>
             max_journal_record_bytes l > max_state_bytes l
     then Inl InvalidArgument
     else if max_retained_generations l = 0
     then Inl InvalidArgument
     else if max_wave_grants l = 0 \<or> ucast (max_wave_grants l) > max_tracked_edges l
     then Inl InvalidArgument
     else ok_status)"

section \<open>Identities\<close>

type_synonym shuffle_id = u64
type_synonym shuffle_generation = u64
type_synonym topology_generation = u64
type_synonym policy_generation = u64
type_synonym partition_id = u64
type_synonym partition_generation = u64
type_synonym chunk_id = u64
type_synonym producer_id = u64
type_synonym consumer_id = u64
type_synonym wave_id = u64
type_synonym transfer_attempt_id = u64
type_synonym incarnation_id = u64
type_synonym session_id = u64
type_synonym commit_sequence = u64
type_synonym tick_id = u64

definition id_next :: "u64 \<Rightarrow> u64" where
  "id_next v = v + 1"

fun dec_digits :: "nat \<Rightarrow> string" where
  "dec_digits n =
     (if n < 10 then [char_of (48 + n)] else dec_digits (n div 10) @ [char_of (48 + n mod 10)])"

declare dec_digits.simps [simp del]

definition id_to_string :: "u64 \<Rightarrow> string" where
  "id_to_string v = dec_digits (unat v)"

fun id_parse_loop :: "u64 \<Rightarrow> string \<Rightarrow> u64 result" where
  "id_parse_loop val [] = Inr val"
| "id_parse_loop val (ch # str) =
     (if ch < CHR ''0'' \<or> ch > CHR ''9'' then Inl InvalidArgument
      else let digit = word_of_nat (of_char ch - of_char CHR ''0'') in
        if val > ((- 1) - digit) div 10 then Inl IntegerOverflow
        else id_parse_loop (val * 10 + digit) str)"

definition id_parse :: "string \<Rightarrow> u64 result" where
  "id_parse str =
     (if str = [] then Inl EmptyValue
      else if length str > 1 \<and> hd str = CHR ''0'' then Inl InvalidArgument
      else id_parse_loop 0 str)"

text \<open>The logical clock is its current tick.\<close>

definition clock_advance :: "tick_id \<Rightarrow> tick_id" where
  "clock_advance tick = id_next tick"

definition clock_raise :: "tick_id \<Rightarrow> tick_id \<Rightarrow> tick_id" where
  "clock_raise tick at = (if at > tick then at else tick)"

section \<open>Lemmas\<close>

lemma max_u64: "unat (- 1 :: u64) = 2 ^ 64 - 1"
  by (simp add: unsigned_minus_1_eq_mask mask_eq_exp_minus_1)

lemma unat64_bound: "unat (w :: u64) < 2 ^ 64"
  using unsigned_less [of w] by simp

lemma unat32_bound: "unat (w :: u32) < 2 ^ 32"
  using unsigned_less [of w] by simp

lemma unat_of_nat_u64: "n < 2 ^ 64 \<Longrightarrow> unat (word_of_nat n :: u64) = n"
  by (simp add: unat_of_nat take_bit_nat_eq_self)

lemma u64_of_nat_eq_iff: "n < 2 ^ 64 \<Longrightarrow> word_of_nat n = (w :: u64) \<longleftrightarrow> n = unat w"
  using unat_of_nat_u64 [of n] by auto

lemma add_overflows_iff: "add_overflows a b \<longleftrightarrow> 2 ^ 64 \<le> unat a + unat b"
proof -
  have b: "unat b \<le> 2 ^ 64 - 1"
    using unat64_bound [of b] by simp
  have "unat ((- 1) - b) = (2 ^ 64 - 1) - unat b"
    by (subst unat_sub) (simp_all add: max_u64)
  with b show ?thesis
    by (auto simp: add_overflows_def word_less_nat_alt)
qed

lemma checked_add_eq:
  "checked_add a b =
     (if unat a + unat b < 2 ^ 64 then Inr (a + b) else Inl IntegerOverflow)"
  by (simp add: checked_add_def add_overflows_iff)

lemma checked_add_unat:
  "checked_add a b = Inr c \<Longrightarrow> unat c = unat a + unat b"
  by (auto simp: checked_add_eq unat_word_ariths split: if_splits)

lemma mul_overflows_iff: "mul_overflows a b \<longleftrightarrow> 2 ^ 64 \<le> unat a * unat b"
proof (cases "b = 0")
  case True
  then show ?thesis by (simp add: mul_overflows_def)
next
  case False
  then have b: "0 < unat b" by (simp add: unat_gt_0)
  have "mul_overflows a b \<longleftrightarrow> (2 ^ 64 - 1) div unat b < unat a"
    using False by (simp add: mul_overflows_def word_less_nat_alt unat_div max_u64)
  also have "\<dots> \<longleftrightarrow> 2 ^ 64 - 1 < unat a * unat b"
    using div_less_iff_less_mult [OF b] by simp
  finally show ?thesis by auto
qed

lemma checked_mul_eq:
  "checked_mul a b =
     (if unat a * unat b < 2 ^ 64 then Inr (a * b) else Inl IntegerOverflow)"
  by (simp add: checked_mul_def mul_overflows_iff)

lemma checked_mul_unat:
  "checked_mul a b = Inr c \<Longrightarrow> unat c = unat a * unat b"
  by (auto simp: checked_mul_eq unat_word_ariths split: if_splits)

subsection \<open>Canonical decimal str\<close>

definition is_digit :: "char \<Rightarrow> bool" where
  "is_digit ch \<longleftrightarrow> CHR ''0'' \<le> ch \<and> ch \<le> CHR ''9''"

definition digit_val :: "char \<Rightarrow> nat" where
  "digit_val ch = of_char ch - 48"

definition dec_value :: "nat \<Rightarrow> string \<Rightarrow> nat" where
  "dec_value acc str = foldl (\<lambda>a ch. a * 10 + digit_val ch) acc str"

lemma dec_value_simps [simp]:
  "dec_value acc [] = acc"
  "dec_value acc (ch # str) = dec_value (acc * 10 + digit_val ch) str"
  "dec_value acc (str @ [ch]) = dec_value acc str * 10 + digit_val ch"
  by (simp_all add: dec_value_def)

lemma dec_value_ge: "acc \<le> dec_value acc str"
proof (induction str arbitrary: acc)
  case (Cons ch str)
  show ?case using Cons.IH [of "acc * 10 + digit_val ch"] by simp
qed simp

lemma digit_char:
  assumes "d < 10"
  shows "is_digit (char_of (48 + d))" "digit_val (char_of (48 + d)) = d"
  using assms by (simp_all add: is_digit_def digit_val_def less_eq_char_def)

lemma is_digit_val: "is_digit ch \<Longrightarrow> digit_val ch < 10 \<and> char_of (48 + digit_val ch) = ch"
  by (auto simp: is_digit_def digit_val_def less_eq_char_def)

lemma char_of_48: "char_of (48 :: nat) = CHR ''0''"
  by code_simp

lemma dec_digits_props:
  "dec_value 0 (dec_digits n) = n \<and> list_all is_digit (dec_digits n) \<and> dec_digits n \<noteq> []"
proof (induction n rule: dec_digits.induct)
  case (1 n)
  show ?case
  proof (cases "n < 10")
    case True
    then show ?thesis by (simp add: dec_digits.simps [of n] digit_char)
  next
    case False
    with 1 show ?thesis by (simp add: dec_digits.simps [of n] digit_char)
  qed
qed

lemma dec_digits_no_leading_zero:
  "0 < n \<Longrightarrow> hd (dec_digits n) \<noteq> CHR ''0''"
proof (induction n rule: dec_digits.induct)
  case (1 n)
  show ?case
  proof (cases "n < 10")
    case True
    then have "digit_val (char_of (48 + n)) \<noteq> digit_val CHR ''0''"
      using 1 by (simp add: digit_char) (simp add: digit_val_def)
    with True show ?thesis by (auto simp: dec_digits.simps [of n])
  next
    case False
    with 1 show ?thesis
      using dec_digits_props [of "n div 10"] by (simp add: dec_digits.simps [of n])
  qed
qed

lemma dec_digits_inj: "dec_digits m = dec_digits n \<Longrightarrow> m = n"
  using dec_digits_props by metis

lemma id_to_string_inj [simp]: "id_to_string a = id_to_string b \<longleftrightarrow> a = b"
  by (auto simp: id_to_string_def word_unat_eq_iff dest: dec_digits_inj)

lemma dec_digits_value:
  "list_all is_digit str \<Longrightarrow> str \<noteq> [] \<Longrightarrow> (length str > 1 \<longrightarrow> hd str \<noteq> CHR ''0'') \<Longrightarrow>
   dec_digits (dec_value 0 str) = str \<and> (length str > 1 \<longrightarrow> 0 < dec_value 0 str)"
proof (induction str rule: rev_induct)
  case Nil
  then show ?case by simp
next
  case (snoc ch str)
  have ch: "digit_val ch < 10" "char_of (48 + digit_val ch) = ch"
    using snoc.prems is_digit_val [of ch] by simp_all
  show ?case
  proof (cases "str = []")
    case True
    then show ?thesis using ch by (simp add: dec_digits.simps [of "digit_val ch"])
  next
    case False
    with snoc.prems have "hd str \<noteq> CHR ''0''"
      by (cases str) auto
    with snoc False have IH: "dec_digits (dec_value 0 str) = str"
      "length str > 1 \<longrightarrow> 0 < dec_value 0 str" by auto
    have pos: "0 < dec_value 0 str"
    proof (cases "length str > 1")
      case False
      with \<open>str \<noteq> []\<close> obtain c where c: "str = [c]" by (cases str) auto
      then have "char_of (48 + digit_val c) = c"
        using snoc.prems is_digit_val [of c] by simp
      then have "digit_val c \<noteq> 0"
        using \<open>hd str \<noteq> CHR ''0''\<close> c char_of_48 by (intro notI) simp
      then show ?thesis using c by simp
    qed (use IH in simp)
    then show ?thesis
      using IH ch by (simp add: dec_digits.simps [of "dec_value 0 str * 10 + digit_val ch"])
  qed
qed

lemma id_parse_loop_eq:
  "id_parse_loop v str = Inr w \<longleftrightarrow>
     list_all is_digit str \<and> dec_value (unat v) str = unat w"
proof (induction str arbitrary: v)
  case Nil
  then show ?case by (simp add: word_unat_eq_iff)
next
  case (Cons ch str)
  show ?case
  proof (cases "is_digit ch")
    case False
    then show ?thesis by (auto simp: is_digit_def)
  next
    case True
    define d where "d = digit_val ch"
    have range: "\<not> ch < CHR ''0''" "\<not> CHR ''9'' < ch"
      using True by (auto simp: is_digit_def)
    have d: "d < 10" "(of_char ch :: nat) - 48 = d"
      using is_digit_val [OF True] by (simp_all add: d_def digit_val_def)
    have ud: "unat (word_of_nat d :: u64) = d"
      using d by (simp add: unat_of_nat)
    have bound: "unat (((- 1) - word_of_nat d :: u64) div 10) = (2 ^ 64 - 1 - d) div 10"
    proof -
      have "unat ((- 1) - (word_of_nat d :: u64)) = 2 ^ 64 - 1 - d"
        by (subst unat_sub) (simp_all add: max_u64 ud)
      then show ?thesis by (simp add: unat_div)
    qed
    show ?thesis
    proof (cases "v > ((- 1) - word_of_nat d) div 10")
      case ov: True
      then have "2 ^ 64 \<le> unat v * 10 + d"
        using bound d(1) by (simp add: word_less_nat_alt)
      then have "2 ^ 64 \<le> dec_value (unat v * 10 + d) str"
        using dec_value_ge order_trans by blast
      then have "dec_value (unat v * 10 + d) str \<noteq> unat w"
        using unat64_bound [of w] by auto
      with ov True d range show ?thesis by (simp add: d_def)
    next
      case no: False
      then have le: "unat v * 10 + d < 2 ^ 64"
        using bound d(1) by (simp add: word_less_nat_alt not_less)
      then have "unat (v * 10 + word_of_nat d) = unat v * 10 + d"
        by (simp add: unat_word_ariths ud)
      with no True d Cons.IH [of "v * 10 + word_of_nat d"] show ?thesis
        using range by (simp add: d_def Let_def)
    qed
  qed
qed

lemma id_parse_iff: "id_parse str = Inr v \<longleftrightarrow> str = id_to_string v"
proof
  assume a: "id_parse str = Inr v"
  then have *: "str \<noteq> []" "length str > 1 \<longrightarrow> hd str \<noteq> CHR ''0''"
    "list_all is_digit str" "dec_value 0 str = unat v"
    by (auto simp: id_parse_def id_parse_loop_eq split: if_splits)
  show "str = id_to_string v"
    using dec_digits_value [OF *(3,1,2)] *(4) by (simp add: id_to_string_def)
next
  assume t: "str = id_to_string v"
  have "hd str \<noteq> CHR ''0''" if "length str > 1"
  proof (cases "unat v = 0")
    case True
    with that t show ?thesis by (simp add: id_to_string_def dec_digits.simps)
  qed (use t dec_digits_no_leading_zero in \<open>simp add: id_to_string_def\<close>)
  then show "id_parse str = Inr v"
    using dec_digits_props [of "unat v"] t
    by (auto simp: id_parse_def id_parse_loop_eq id_to_string_def)
qed

lemma clock_raise_mono: "tick \<le> clock_raise tick at" "at \<le> clock_raise tick at"
  by (auto simp: clock_raise_def)

section \<open>Properties\<close>

text \<open>
  Checked arithmetic is exact: \<open>checked_add\<close> and \<open>checked_mul\<close> return the sum and the
  product when they fit in 64 bits, and \<open>IntegerOverflow\<close> when they do not.
\<close>

theorem checked_arithmetic_exact:
  "checked_add a b =
     (if unat a + unat b < 2 ^ 64 then Inr (word_of_nat (unat a + unat b)) else Inl IntegerOverflow) \<and>
   checked_mul a b =
     (if unat a * unat b < 2 ^ 64 then Inr (word_of_nat (unat a * unat b)) else Inl IntegerOverflow)"
  by (simp add: checked_add_eq checked_mul_eq)

text \<open>
  The decimal text of an identifier is canonical: \<open>parse\<close> accepts exactly the strings that
  \<open>to_string\<close> prints, and gives the printed identifier back.
\<close>

theorem id_text_canonical: "id_parse str = Inr v \<longleftrightarrow> str = id_to_string v"
  by (rule id_parse_iff)

end
