(* ===== verification/Fabric_Hash.thy ===== *)
theory Fabric_Hash
  imports Fabric_Bytes
begin

text \<open>
  Content digests with their hexadecimal text (\<open>digest.hpp\<close>, \<open>digest.cpp\<close>), the streaming
  SHA-256 hasher and the table-driven CRC-32C (\<open>hash.hpp\<close>, \<open>hash.cpp\<close>).

  A \<open>Digest\<close> is its 32-byte array, a list here; \<open>digest_wf\<close> is the length the array type
  fixes. The 64-byte \<open>buffer_\<close> of the hasher is represented by its first \<open>buffered_\<close> bytes,
  the only ones that are ever read.
\<close>

section \<open>Digests\<close>

type_synonym digest = bytes

definition digest_wf :: "digest \<Rightarrow> bool" where
  "digest_wf d \<longleftrightarrow> length d = 32"

definition zero_digest :: digest where
  "zero_digest = replicate 32 0"

definition digest_is_zero :: "digest \<Rightarrow> bool" where
  "digest_is_zero d \<longleftrightarrow> list_all (\<lambda>b. b = 0) d"

definition kHexDigits :: string where
  "kHexDigits = ''0123456789abcdef''"

definition hex_value :: "char \<Rightarrow> int" where
  "hex_value ch =
     (if ch \<ge> CHR ''0'' \<and> ch \<le> CHR ''9'' then of_char ch - of_char CHR ''0''
      else if ch \<ge> CHR ''a'' \<and> ch \<le> CHR ''f'' then (of_char ch - of_char CHR ''a'') + 10
      else - 1)"

fun to_hex :: "bytes \<Rightarrow> string" where
  "to_hex [] = []"
| "to_hex (b # bs) =
     kHexDigits ! unat (drop_bit 4 b AND 15) # kHexDigits ! unat (b AND 15) # to_hex bs"

fun from_hex_loop :: "string \<Rightarrow> bytes result" where
  "from_hex_loop (h # l # rest) =
     (let high = hex_value h; low = hex_value l in
      if high < 0 \<or> low < 0 then Inl InvalidArgument
      else case from_hex_loop rest of
             Inl e \<Rightarrow> Inl e
           | Inr bs \<Rightarrow> Inr (word_of_int (or (push_bit 4 high) low) # bs))"
| "from_hex_loop _ = Inr []"

definition from_hex :: "string \<Rightarrow> digest result" where
  "from_hex str = (if length str \<noteq> 64 then Inl InvalidArgument else from_hex_loop str)"

section \<open>SHA-256\<close>

definition kSha256RoundConstants :: "u32 list" where
  "kSha256RoundConstants =
    concat [
      [0x428a2f98, 0x71374491, 0xb5c0fbcf, 0xe9b5dba5, 0x3956c25b, 0x59f111f1, 0x923f82a4, 0xab1c5ed5],
      [0xd807aa98, 0x12835b01, 0x243185be, 0x550c7dc3, 0x72be5d74, 0x80deb1fe, 0x9bdc06a7, 0xc19bf174],
      [0xe49b69c1, 0xefbe4786, 0x0fc19dc6, 0x240ca1cc, 0x2de92c6f, 0x4a7484aa, 0x5cb0a9dc, 0x76f988da],
      [0x983e5152, 0xa831c66d, 0xb00327c8, 0xbf597fc7, 0xc6e00bf3, 0xd5a79147, 0x06ca6351, 0x14292967],
      [0x27b70a85, 0x2e1b2138, 0x4d2c6dfc, 0x53380d13, 0x650a7354, 0x766a0abb, 0x81c2c92e, 0x92722c85],
      [0xa2bfe8a1, 0xa81a664b, 0xc24b8b70, 0xc76c51a3, 0xd192e819, 0xd6990624, 0xf40e3585, 0x106aa070],
      [0x19a4c116, 0x1e376c08, 0x2748774c, 0x34b0bcb5, 0x391c0cb3, 0x4ed8aa4a, 0x5b9cca4f, 0x682e6ff3],
      [0x748f82ee, 0x78a5636f, 0x84c87814, 0x8cc70208, 0x90befffa, 0xa4506ceb, 0xbef9a3f7, 0xc67178f2]]"

definition kSha256InitialState :: "u32 list" where
  "kSha256InitialState =
    [0x6a09e667, 0xbb67ae85, 0x3c6ef372, 0xa54ff53a, 0x510e527f, 0x9b05688c, 0x1f83d9ab, 0x5be0cd19]"

definition rotr :: "u32 \<Rightarrow> nat \<Rightarrow> u32" where
  "rotr v count = drop_bit count v OR push_bit (32 - count) v"

definition big_endian_load :: "bytes \<Rightarrow> u32" where
  "big_endian_load d =
     push_bit 24 (ucast (d ! 0)) OR push_bit 16 (ucast (d ! 1)) OR
     push_bit 8 (ucast (d ! 2)) OR ucast (d ! 3)"

definition sha_schedule_step :: "u32 list \<Rightarrow> nat \<Rightarrow> u32 list" where
  "sha_schedule_step schedule index =
     (let s0 = rotr (schedule ! (index - 15)) 7 XOR rotr (schedule ! (index - 15)) 18 XOR
               drop_bit 3 (schedule ! (index - 15));
          s1 = rotr (schedule ! (index - 2)) 17 XOR rotr (schedule ! (index - 2)) 19 XOR
               drop_bit 10 (schedule ! (index - 2))
      in schedule @ [schedule ! (index - 16) + s0 + schedule ! (index - 7) + s1])"

definition sha_schedule :: "bytes \<Rightarrow> u32 list" where
  "sha_schedule block =
     foldl sha_schedule_step (map (\<lambda>index. big_endian_load (drop (index * 4) block)) [0..<16])
       [16..<64]"

type_synonym sha_vars = "u32 \<times> u32 \<times> u32 \<times> u32 \<times> u32 \<times> u32 \<times> u32 \<times> u32"

definition sha_round :: "sha_vars \<Rightarrow> u32 \<times> u32 \<Rightarrow> sha_vars" where
  "sha_round vars kw =
     (case vars of (a, b, c, d, e, f, g, h) \<Rightarrow>
       let s1 = rotr e 6 XOR rotr e 11 XOR rotr e 25;
           choice = (e AND f) XOR ((NOT e) AND g);
           temp1 = h + s1 + choice + fst kw + snd kw;
           s0 = rotr a 2 XOR rotr a 13 XOR rotr a 22;
           majority = (a AND b) XOR (a AND c) XOR (b AND c);
           temp2 = s0 + majority
       in (temp1 + temp2, a, b, c, d + temp1, e, f, g))"

definition sha_compress :: "u32 list \<Rightarrow> bytes \<Rightarrow> u32 list" where
  "sha_compress state block =
     (let vars = (state ! 0, state ! 1, state ! 2, state ! 3, state ! 4, state ! 5, state ! 6, state ! 7)
      in case foldl sha_round vars (zip kSha256RoundConstants (sha_schedule block)) of
        (a, b, c, d, e, f, g, h) \<Rightarrow>
          [state ! 0 + a, state ! 1 + b, state ! 2 + c, state ! 3 + d,
           state ! 4 + e, state ! 5 + f, state ! 6 + g, state ! 7 + h])"

record sha256_hasher =
  sha_state :: "u32 list"
  sha_bit_length :: u64
  sha_buffer :: bytes

definition sha_reset :: sha256_hasher where
  "sha_reset = \<lparr>sha_state = kSha256InitialState, sha_bit_length = 0, sha_buffer = []\<rparr>"

fun sha_blocks :: "u32 list \<Rightarrow> bytes \<Rightarrow> u32 list \<times> bytes" where
  "sha_blocks state data =
     (if 64 \<le> length data then sha_blocks (sha_compress state (take 64 data)) (drop 64 data)
      else (state, data))"

declare sha_blocks.simps [simp del]

definition sha_update :: "sha256_hasher \<Rightarrow> bytes \<Rightarrow> sha256_hasher" where
  "sha_update h data =
     (let h1 = h\<lparr>sha_bit_length := sha_bit_length h + word_of_nat (length data) * 8\<rparr>;
          (h2, cursor) =
            (if 0 < length (sha_buffer h1) then
               let needed = 64 - length (sha_buffer h1);
                   taken = (if length data < needed then length data else needed);
                   buffer = sha_buffer h1 @ take taken data;
                   rest = drop taken data
               in if length buffer = 64
                  then (h1\<lparr>sha_state := sha_compress (sha_state h1) buffer, sha_buffer := []\<rparr>, rest)
                  else (h1\<lparr>sha_buffer := buffer\<rparr>, rest)
             else (h1, data));
          (state, rest) = sha_blocks (sha_state h2) cursor
      in h2\<lparr>sha_state := state, sha_buffer := sha_buffer h2 @ rest\<rparr>)"

text \<open>
  Between calls of \<open>update\<close> fewer than 64 bytes are buffered, so the second disjunct of the
  guard below never decides; it makes the loop total on every state.
\<close>

lemma sha_blocks_length: "length (snd (sha_blocks st data)) = length data mod 64"
proof (induction st data rule: sha_blocks.induct)
  case (1 st data)
  show ?case
  proof (cases "64 \<le> length data")
    case True
    with 1 show ?thesis by (simp add: sha_blocks.simps [of st data] le_mod_geq)
  next
    case False
    then show ?thesis by (simp add: sha_blocks.simps [of st data])
  qed
qed

lemma sha_blocks_short: "length data < 64 \<Longrightarrow> sha_blocks st data = (st, data)"
  by (simp add: sha_blocks.simps)

lemma sha_update_eq:
  assumes lt: "length (sha_buffer h) < 64"
  shows "sha_update h data =
    h\<lparr>sha_bit_length := sha_bit_length h + word_of_nat (length data) * 8,
      sha_state := fst (sha_blocks (sha_state h) (sha_buffer h @ data)),
      sha_buffer := snd (sha_blocks (sha_state h) (sha_buffer h @ data))\<rparr>"
proof (cases "sha_buffer h = []")
  case True
  then show ?thesis by (simp add: sha_update_def split_beta)
next
  case False
  define needed where "needed = 64 - length (sha_buffer h)"
  show ?thesis
  proof (cases "length data < needed")
    case short: True
    then have "length (sha_buffer h @ data) < 64"
      by (simp add: needed_def)
    with False short show ?thesis
      by (simp add: sha_update_def Let_def needed_def sha_blocks_short)
  next
    case long: False
    then have len: "64 \<le> length (sha_buffer h @ data)" and
      tk: "take 64 (sha_buffer h @ data) = sha_buffer h @ take needed data" and
      dr: "drop 64 (sha_buffer h @ data) = drop needed data"
      using lt by (simp_all add: needed_def)
    have full: "length (sha_buffer h @ take needed data) = 64"
      using long lt by (simp add: needed_def)
    have "sha_blocks (sha_state h) (sha_buffer h @ data) =
        sha_blocks (sha_compress (sha_state h) (sha_buffer h @ take needed data)) (drop needed data)"
      by (subst sha_blocks.simps) (simp only: len tk dr if_True)
    with False long full show ?thesis
      by (simp add: sha_update_def Let_def needed_def [symmetric] split_beta)
  qed
qed

lemma sha_update_buffer:
  "length (sha_buffer h) < 64 \<Longrightarrow>
   length (sha_buffer (sha_update h data)) = (length (sha_buffer h) + length data) mod 64"
  by (simp add: sha_update_eq sha_blocks_length)

function sha_pad :: "sha256_hasher \<Rightarrow> sha256_hasher" where
  "sha_pad h =
     (if length (sha_buffer h) = 56 \<or> 64 \<le> length (sha_buffer h) then h
      else sha_pad (sha_update h [0]))"
  by pat_completeness auto
termination
proof (relation "measure (\<lambda>h. (120 - length (sha_buffer h)) mod 64)")
  fix h :: sha256_hasher
  assume "\<not> (length (sha_buffer h) = 56 \<or> 64 \<le> length (sha_buffer h))"
  then have lt: "length (sha_buffer h) < 64" "length (sha_buffer h) \<noteq> 56" by auto
  show "(sha_update h [0], h) \<in> measure (\<lambda>h. (120 - length (sha_buffer h)) mod 64)"
  proof (cases "length (sha_buffer h) = 63")
    case True
    then show ?thesis by (simp add: sha_update_buffer)
  next
    case False
    with lt have "Suc (length (sha_buffer h)) < 64" by simp
    with lt show ?thesis by (auto simp: sha_update_buffer mod_if)
  qed
qed simp

declare sha_pad.simps [simp del]

definition sha_finish :: "sha256_hasher \<Rightarrow> digest" where
  "sha_finish h =
     (let length_bits = sha_bit_length h;
          h1 = sha_pad (sha_update h [0x80]);
          length_bytes =
            map (\<lambda>index. ucast (drop_bit ((7 - index) * 8) length_bits AND 0xff)) [0..<8];
          h2 = sha_update h1 length_bytes
      in concat (map (\<lambda>w. [ucast (drop_bit 24 w AND 0xff), ucast (drop_bit 16 w AND 0xff),
                            ucast (drop_bit 8 w AND 0xff), ucast (w AND 0xff)]) (sha_state h2)))"

definition sha256 :: "bytes \<Rightarrow> digest" where
  "sha256 data = sha_finish (sha_update sha_reset data)"

section \<open>CRC-32C\<close>

definition crc_bit_step :: "u32 \<Rightarrow> u32" where
  "crc_bit_step v =
     (if v AND 1 \<noteq> 0 then 0x82f63b78 XOR drop_bit 1 v else drop_bit 1 v)"

definition kCrc32cTable :: "u32 list" where
  "kCrc32cTable = map (\<lambda>index. (crc_bit_step ^^ 8) (word_of_nat index)) [0..<256]"

definition crc_update :: "u32 \<Rightarrow> u8 \<Rightarrow> u32" where
  "crc_update crc raw = kCrc32cTable ! unat ((crc XOR ucast raw) AND 0xff) XOR drop_bit 8 crc"

definition crc32c :: "bytes \<Rightarrow> u32" where
  "crc32c data = NOT (foldl crc_update 0xffffffff data)"

section \<open>Lemmas: SHA-256\<close>

text \<open>The padding rule of SHA-256 and the one-shot hash over the padded message.\<close>

definition sha_padding :: "nat \<Rightarrow> bytes" where
  "sha_padding n =
     [0x80] @ replicate ((120 - Suc n mod 64) mod 64) 0 @
     map (\<lambda>index. ucast (drop_bit ((7 - index) * 8) (word_of_nat n * 8 :: u64) AND 0xff)) [0..<8]"

definition message_block :: "bytes \<Rightarrow> nat \<Rightarrow> bytes" where
  "message_block m i = take 64 (drop (64 * i) m)"

definition sha256_reference :: "bytes \<Rightarrow> digest" where
  "sha256_reference data =
     (let m = data @ sha_padding (length data);
          state = foldl (\<lambda>st i. sha_compress st (message_block m i)) kSha256InitialState
                    [0..<length m div 64]
      in concat (map (\<lambda>w. [ucast (drop_bit 24 w AND 0xff), ucast (drop_bit 16 w AND 0xff),
                            ucast (drop_bit 8 w AND 0xff), ucast (w AND 0xff)]) state))"

lemma sha_blocks_append:
  "sha_blocks st (x @ y) = sha_blocks (fst (sha_blocks st x)) (snd (sha_blocks st x) @ y)"
proof (induction st x rule: sha_blocks.induct)
  case (1 st x)
  show ?case
  proof (cases "64 \<le> length x")
    case True
    then have "sha_blocks st (x @ y) = sha_blocks (sha_compress st (take 64 x)) (drop 64 x @ y)"
      by (subst sha_blocks.simps) simp
    with 1 [OF True] True show ?thesis
      by (simp add: sha_blocks.simps [of st x])
  next
    case False
    then show ?thesis by (simp add: sha_blocks_short)
  qed
qed

lemma sha_update_append:
  assumes "length (sha_buffer h) < 64"
  shows "sha_update (sha_update h a) b = sha_update h (a @ b)"
proof -
  have "length (sha_buffer (sha_update h a)) < 64"
    using sha_update_buffer [OF assms] by simp
  then show ?thesis
    using assms sha_blocks_append [of "sha_state h" "sha_buffer h @ a" b]
    by (simp add: sha_update_eq algebra_simps)
qed

lemma sha_pad_eq:
  "length (sha_buffer h) < 64 \<Longrightarrow>
   sha_pad h = sha_update h (replicate ((120 - length (sha_buffer h)) mod 64) 0)"
proof (induction h rule: sha_pad.induct)
  case (1 h)
  show ?case
  proof (cases "length (sha_buffer h) = 56")
    case True
    then show ?thesis
      by (simp add: sha_pad.simps [of h] sha_update_eq sha_blocks_short)
  next
    case False
    let ?b = "length (sha_buffer h)"
    have less: "length (sha_buffer (sha_update h [0])) < 64"
      using 1 by (simp add: sha_update_buffer)
    have "sha_pad h = sha_update (sha_update h [0])
        (replicate ((120 - length (sha_buffer (sha_update h [0]))) mod 64) 0)"
      using 1 False less by (simp add: sha_pad.simps [of h])
    also have "\<dots> = sha_update h (0 # replicate ((120 - Suc ?b mod 64) mod 64) 0)"
      using 1 by (simp add: sha_update_append sha_update_buffer)
    also have "0 # replicate ((120 - Suc ?b mod 64) mod 64) 0 = replicate ((120 - ?b) mod 64) (0 :: u8)"
    proof -
      have "Suc ((120 - Suc ?b mod 64) mod 64) = (120 - ?b) mod 64"
        using 1(2) False by (auto simp: mod_if)
      then show ?thesis by (metis replicate_Suc)
    qed
    finally show ?thesis .
  qed
qed

lemma sha_blocks_foldl:
  assumes "length m = 64 * k"
  shows "sha_blocks st m = (foldl (\<lambda>st i. sha_compress st (message_block m i)) st [0..<k], [])"
  using assms
proof (induction k arbitrary: st m)
  case 0
  then show ?case by (simp add: sha_blocks_short)
next
  case (Suc k)
  have "[0..<Suc k] = 0 # map Suc [0..<k]"
    by (simp add: map_Suc_upt upt_conv_Cons)
  moreover have "message_block m (Suc i) = message_block (drop 64 m) i" for i
    by (simp add: message_block_def add.commute)
  moreover have "sha_blocks st m = sha_blocks (sha_compress st (message_block m 0)) (drop 64 m)"
    using Suc.prems by (subst sha_blocks.simps) (simp add: message_block_def)
  ultimately show ?case
    using Suc.prems Suc.IH [of "drop 64 m" "sha_compress st (message_block m 0)"]
    by (simp add: foldl_map)
qed

lemma pad_zeros: "r < 64 \<Longrightarrow> (120 - r) mod 64 = (if r \<le> 56 then 56 - r else 120 - r :: nat)"
  by (simp add: mod_if)

lemma length_padded: "\<exists>k. length (data @ sha_padding (length data)) = 64 * k"
proof -
  define r q where "r = Suc (length data) mod 64" and "q = Suc (length data) div 64"
  have n: "Suc (length data) = 64 * q + r" and r: "r < 64"
    by (simp_all add: r_def q_def)
  have "length (data @ sha_padding (length data)) = Suc (length data) + (120 - r) mod 64 + 8"
    by (simp add: sha_padding_def r_def)
  also have "\<dots> = 64 * (if r \<le> 56 then Suc q else Suc (Suc q))"
    using r by (simp add: n pad_zeros)
  finally show ?thesis by blast
qed

lemma sha256_eq_reference: "sha256 data = sha256_reference data"
proof -
  let ?m = "data @ sha_padding (length data)"
  define h where "h = sha_update sha_reset data"
  have b0: "length (sha_buffer sha_reset) < 64" by (simp add: sha_reset_def)
  have bl: "sha_bit_length h = word_of_nat (length data) * 8"
    using b0 by (simp add: h_def sha_update_eq) (simp add: sha_reset_def)
  have pad: "sha_pad (sha_update h [0x80]) =
      sha_update sha_reset (data @ 0x80 # replicate ((120 - Suc (length data) mod 64) mod 64) 0)"
    using b0 sha_update_buffer [of sha_reset "data @ [0x80]"]
    by (simp add: h_def sha_update_append sha_pad_eq) (simp add: sha_reset_def)
  obtain k where k: "length ?m = 64 * k"
    using length_padded by blast
  have st: "sha_state (sha_update (sha_pad (sha_update h [0x80]))
      (map (\<lambda>index. ucast (drop_bit ((7 - index) * 8) (sha_bit_length h) AND 0xff)) [0..<8])) =
      fst (sha_blocks kSha256InitialState ?m)"
    unfolding pad sha_update_append [OF b0] bl
    by (subst sha_update_eq [OF b0]) (simp add: sha_padding_def sha_reset_def)
  show ?thesis
    using st k sha_blocks_foldl [OF k, of kSha256InitialState]
    by (simp add: sha256_def sha_finish_def Let_def h_def [symmetric] sha256_reference_def)
qed

lemma length_sha_compress [simp]: "length (sha_compress st block) = 8"
  by (simp add: sha_compress_def Let_def split: prod.splits)

lemma length_sha256 [simp]: "length (sha256 data) = 32"
proof -
  have len: "length (foldl (\<lambda>st i. sha_compress st (f i)) kSha256InitialState [0..<k]) = 8" for f k
    by (induction k) (simp_all add: kSha256InitialState_def)
  have "length (concat (map (\<lambda>w. [a w, b w, c w, d w]) xs)) = 4 * length xs"
    for a b c d :: "u32 \<Rightarrow> u8" and xs
    by (induction xs) auto
  then show ?thesis
    by (simp add: sha256_eq_reference sha256_reference_def Let_def len)
qed

section \<open>Lemmas: CRC-32C\<close>

lemma bit_crc_step:
  "bit (crc_bit_step v) n \<longleftrightarrow> (bit v (Suc n) \<noteq> (bit v 0 \<and> bit (0x82f63b78 :: u32) n))"
  by (auto simp: crc_bit_step_def bit_xor_iff bit_drop_bit_eq and_one_eq odd_iff_mod_2_eq_one [symmetric]
        bit_0 split: if_splits)

lemma crc_step_xor: "crc_bit_step (a XOR b) = crc_bit_step a XOR crc_bit_step b"
  by (rule bit_word_eqI) (auto simp: bit_crc_step bit_xor_iff)

lemma crc_steps_xor:
  "(crc_bit_step ^^ k) (a XOR b) = (crc_bit_step ^^ k) a XOR (crc_bit_step ^^ k) b"
  by (induction k) (simp_all add: crc_step_xor)

lemma crc_step_inj: "crc_bit_step a = crc_bit_step b \<Longrightarrow> a = b"
proof (rule bit_word_eqI)
  fix n
  assume eq: "crc_bit_step a = crc_bit_step b" and n: "n < LENGTH(32)"
  have top: "bit (0x82f63b78 :: u32) 31" by simp
  have hi: "\<not> bit (v :: u32) 32" for v
    using bit_imp_le_length [of v 32] by auto
  have low: "bit a 0 = bit b 0"
    using arg_cong [OF eq, of "\<lambda>v. bit v 31"] top
    by (simp add: bit_crc_step hi)
  show "bit a n = bit b n"
  proof (cases n)
    case (Suc m)
    then show ?thesis
      using arg_cong [OF eq, of "\<lambda>v. bit v m"] low by (auto simp: bit_crc_step)
  qed (use low in simp)
qed

lemma crc_steps_inj: "(crc_bit_step ^^ k) a = (crc_bit_step ^^ k) b \<Longrightarrow> a = b"
  by (induction k) (auto dest: crc_step_inj)

lemma crc_steps_low_zero:
  "(\<And>i. i < k \<Longrightarrow> \<not> bit v i) \<Longrightarrow> (crc_bit_step ^^ k) v = drop_bit k v"
proof (induction k arbitrary: v)
  case (Suc k)
  have "crc_bit_step v = drop_bit 1 v"
    using Suc.prems [of 0] by (intro bit_word_eqI) (simp add: bit_crc_step bit_drop_bit_eq)
  moreover have "(crc_bit_step ^^ k) (drop_bit 1 v) = drop_bit k (drop_bit 1 v)"
    using Suc.prems by (intro Suc.IH) (simp add: bit_drop_bit_eq)
  ultimately show ?case
    by (simp add: funpow_swap1 drop_bit_drop_bit)
qed simp

lemma crc_steps_8: "(crc_bit_step ^^ 8) v = (crc_bit_step ^^ 8) (v AND 0xff) XOR drop_bit 8 v"
proof -
  define m :: u32 where "m = 0xff"
  have "m = mask 8" by (simp add: m_def mask_eq_exp_minus_1)
  then have m: "bit m i \<longleftrightarrow> i < 8" for i
    by (auto simp: bit_mask_iff)
  have "v = (v AND m) XOR (v AND NOT m)"
    by (rule bit_word_eqI) (auto simp: bit_xor_iff bit_and_iff bit_not_iff)
  then have "(crc_bit_step ^^ 8) v =
      (crc_bit_step ^^ 8) (v AND m) XOR (crc_bit_step ^^ 8) (v AND NOT m)"
    by (metis crc_steps_xor)
  moreover have "(crc_bit_step ^^ 8) (v AND NOT m) = drop_bit 8 (v AND NOT m)"
    by (rule crc_steps_low_zero) (auto simp: bit_and_iff bit_not_iff m)
  moreover have "drop_bit 8 (v AND NOT m) = drop_bit 8 v"
    by (rule bit_word_eqI)
       (auto simp: bit_drop_bit_eq bit_and_iff bit_not_iff m dest: bit_imp_le_length)
  ultimately show ?thesis by (simp add: m_def)
qed

lemma kCrc32cTable_nth: "v < 256 \<Longrightarrow> kCrc32cTable ! unat v = (crc_bit_step ^^ 8) v"
  by (simp add: kCrc32cTable_def word_less_nat_alt)

lemma crc_update_eq: "crc_update crc raw = (crc_bit_step ^^ 8) (crc XOR ucast raw)"
proof -
  let ?x = "crc XOR ucast raw"
  have "?x AND 0xff \<le> 0xff"
    by (rule word_and_le1)
  then have "?x AND 0xff < 256"
    by (rule le_less_trans) simp
  moreover have "drop_bit 8 ?x = drop_bit 8 crc"
    by (rule bit_word_eqI) (auto simp: bit_drop_bit_eq bit_xor_iff bit_ucast_iff dest: bit_imp_le_length)
  ultimately show ?thesis
    using crc_steps_8 [of ?x] by (simp add: crc_update_def kCrc32cTable_nth)
qed

text \<open>The bit-serial definition of the reflected Castagnoli polynomial, as a reference.\<close>

definition crc32c_reference :: "bytes \<Rightarrow> u32" where
  "crc32c_reference data =
     NOT (foldl (\<lambda>crc raw. (crc_bit_step ^^ 8) (crc XOR ucast raw)) 0xffffffff data)"

lemma crc32c_eq_reference: "crc32c data = crc32c_reference data"
  by (simp add: crc32c_def crc32c_reference_def crc_update_eq cong: foldl_cong)

lemma xor_cancel: "(a :: 'a::len word) XOR c = b XOR c \<longleftrightarrow> a = b"
  by (metis xor.assoc xor_self_eq xor.right_neutral)

lemma crc_update_inj_state: "crc_update c b = crc_update c' b \<longleftrightarrow> c = c'"
  by (auto simp: crc_update_eq xor_cancel dest: crc_steps_inj)

lemma crc_update_inj_byte: "crc_update c b = crc_update c b' \<longleftrightarrow> b = b'"
proof
  assume "crc_update c b = crc_update c b'"
  then have eq: "(ucast b :: u32) = ucast b'"
    by (auto simp: crc_update_eq xor_cancel xor.commute [of c] dest!: crc_steps_inj)
  show "b = b'"
  proof (rule bit_word_eqI)
    fix n assume "n < LENGTH(8)"
    then show "bit b n = bit b' n"
      using arg_cong [OF eq, of "\<lambda>w. bit w n"] by (simp add: bit_ucast_iff)
  qed
qed simp

lemma crc_fold_inj: "foldl crc_update c xs = foldl crc_update c' xs \<longleftrightarrow> c = c'"
  by (induction xs arbitrary: c c') (simp_all add: crc_update_inj_state)

lemma crc32c_byte_change:
  "b \<noteq> b' \<Longrightarrow> crc32c (xs @ b # ys) \<noteq> crc32c (xs @ b' # ys)"
  by (simp add: crc32c_def crc_fold_inj crc_update_inj_byte bit.compl_eq_compl_iff)

section \<open>Lemmas: hexadecimal text\<close>

lemma hex_value_digit: "k < 16 \<Longrightarrow> hex_value (kHexDigits ! k) = int k"
proof -
  assume "k < 16"
  then have "k \<in> set [0..<16]" by simp
  then show ?thesis
    by (simp add: upt_rec kHexDigits_def) (auto simp: hex_value_def less_eq_char_def)
qed

lemma hex_value_inv:
  assumes "0 \<le> hex_value ch"
  shows "nat (hex_value ch) < 16 \<and> kHexDigits ! nat (hex_value ch) = ch"
proof -
  define n where "n = (of_char ch :: nat)"
  have ch: "ch = char_of n" by (simp add: n_def)
  have "n \<in> {48..<58} \<union> {97..<103}"
    using assms by (auto simp: hex_value_def less_eq_char_def n_def split: if_splits)
  then have "n \<in> set ([48..<58] @ [97..<103])"
    by (simp only: set_append set_upt)
  moreover have "list_all (\<lambda>n. nat (hex_value (char_of n)) < 16 \<and>
      kHexDigits ! nat (hex_value (char_of n)) = char_of n) ([48..<58] @ [97..<103])"
    by code_simp
  ultimately show ?thesis
    unfolding ch list_all_iff by blast
qed

lemma hex_byte:
  "word_of_int (or (push_bit 4 (uint (drop_bit 4 b AND 15))) (uint (b AND 15))) = (b :: u8)"
proof -
  define m :: u8 where "m = 15"
  have "m = mask 4" by (simp add: m_def mask_eq_exp_minus_1)
  then have m: "bit m i \<longleftrightarrow> i < 4" for i
    by (auto simp: bit_mask_iff)
  have "word_of_int (or (push_bit 4 (uint (drop_bit 4 b AND m))) (uint (b AND m))) = b"
    by (rule bit_word_eqI) (auto simp: bit_simps m)
  then show ?thesis by (simp add: m_def)
qed

lemma nibble_less: "unat ((b :: u8) AND 15) < 16"
proof -
  have "b AND 15 \<le> 15" by (rule word_and_le1)
  then show ?thesis by (simp add: word_le_nat_alt)
qed

lemma length_to_hex [simp]: "length (to_hex bs) = 2 * length bs"
  by (induction bs) auto

lemma from_hex_loop_to_hex: "from_hex_loop (to_hex bs) = Inr bs"
  by (induction bs) (simp_all add: Let_def hex_value_digit nibble_less hex_byte)

lemma hex_nibbles:
  fixes h l :: nat
  assumes "h < 16" "l < 16"
  defines "b \<equiv> (word_of_int (or (push_bit 4 (int h)) (int l)) :: u8)"
  shows "unat (drop_bit 4 b AND 15) = h \<and> unat (b AND 15) = l"
proof -
  have "(h, l) \<in> set (List.product [0..<16] [0..<16])"
    using assms by simp
  moreover have "list_all (\<lambda>(h, l). let b = (word_of_int (or (push_bit 4 (int h)) (int l)) :: u8) in
      unat (drop_bit 4 b AND 15) = h \<and> unat (b AND 15) = l) (List.product [0..<16] [0..<16])"
    by code_simp
  ultimately show ?thesis
    by (auto simp: list_all_iff b_def Let_def)
qed

lemma to_hex_from_hex_loop:
  "from_hex_loop str = Inr bs \<Longrightarrow> even (length str) \<Longrightarrow> to_hex bs = str"
proof (induction str arbitrary: bs rule: from_hex_loop.induct)
  case (1 h l rest)
  define hi lo where "hi = hex_value h" and "lo = hex_value l"
  from 1 obtain cs where cs: "0 \<le> hi" "0 \<le> lo" "from_hex_loop rest = Inr cs"
    "bs = word_of_int (or (push_bit 4 hi) lo) # cs"
    by (auto simp: Let_def hi_def lo_def split: if_splits sum.splits)
  moreover have "to_hex cs = rest" using 1 cs by (simp add: hi_def lo_def)
  moreover have "nat hi < 16" "nat lo < 16" "kHexDigits ! nat hi = h" "kHexDigits ! nat lo = l"
    using hex_value_inv [of h] hex_value_inv [of l] cs(1,2) by (simp_all add: hi_def lo_def)
  ultimately show ?case
    using hex_nibbles [of "nat hi" "nat lo"] by simp
qed simp_all

lemma from_hex_iff: "from_hex str = Inr d \<longleftrightarrow> digest_wf d \<and> str = to_hex d"
proof
  assume "from_hex str = Inr d"
  then have *: "length str = 64" "from_hex_loop str = Inr d"
    by (auto simp: from_hex_def split: if_splits)
  then have "to_hex d = str" using to_hex_from_hex_loop by force
  with *(1) length_to_hex [of d] show "digest_wf d \<and> str = to_hex d"
    by (auto simp: digest_wf_def)
qed (auto simp: from_hex_def digest_wf_def from_hex_loop_to_hex)

section \<open>Properties\<close>

text \<open>
  C39. The streaming hasher computes SHA-256: whatever way the input is cut into two updates,
  the digest is the compression function folded over the 64-byte blocks of the padded message.
\<close>

theorem sha256_streaming_correct:
  "sha256 (xs @ ys) = sha256_reference (xs @ ys) \<and>
   sha_finish (sha_update (sha_update sha_reset xs) ys) = sha256_reference (xs @ ys)"
  using sha_update_append [of sha_reset xs ys] sha256_eq_reference [of "xs @ ys"]
  by (simp add: sha256_def sha_reset_def)

text \<open>
  C40. The table-driven checksum is the bitwise CRC-32C, and no change of a single byte at any
  position goes unnoticed.
\<close>

theorem crc32c_correct:
  "crc32c data = crc32c_reference data \<and> (crc32c (xs @ b # ys) = crc32c (xs @ b' # ys) \<longleftrightarrow> b = b')"
  by (metis crc32c_eq_reference crc32c_byte_change)

text \<open>
  The hexadecimal text of a digest is canonical: \<open>from_hex\<close> accepts exactly the 64
  lower-case digits that \<open>to_hex\<close> prints of a 32-byte digest.
\<close>

theorem digest_text_canonical: "from_hex str = Inr d \<longleftrightarrow> digest_wf d \<and> str = to_hex d"
  by (rule from_hex_iff)

end
