(* ===== verification/Fabric_Codec.thy ===== *)
theory Fabric_Codec
  imports Fabric_Hash "HOL-Library.State_Monad"
begin

text \<open>
  The canonical binary encoding (\<open>codec.hpp\<close>, \<open>codec.cpp\<close>): little-endian writers, the
  \<open>ByteReader\<close> with its sticky error as a state monad over the reader record, and the UTF-8
  validator.

  A \<open>ByteWriter\<close> is the byte list it has accumulated; \<open>put_x v\<close> is what the call appends.
  A reader action is a value of the library's state monad; a failed read records the first
  error, leaves the offset where it is and yields a zero value, exactly as \<open>ByteReader\<close> does.

  The locale \<open>wire_codec\<close> is the interface between the encodings and their clients: an encoder,
  a decoder and the two round-trip laws. Every primitive of the codec is an interpretation.
\<close>

section \<open>Writers\<close>

definition put_u8 :: "u8 \<Rightarrow> bytes" where
  "put_u8 v = [v]"

definition put_u16 :: "u16 \<Rightarrow> bytes" where
  "put_u16 v = put_u8 (ucast (v AND 0xff)) @ put_u8 (ucast (drop_bit 8 v AND 0xff))"

definition put_u32 :: "u32 \<Rightarrow> bytes" where
  "put_u32 v = put_u16 (ucast (v AND 0xffff)) @ put_u16 (ucast (drop_bit 16 v AND 0xffff))"

definition put_u64 :: "u64 \<Rightarrow> bytes" where
  "put_u64 v = put_u32 (ucast (v AND 0xffffffff)) @ put_u32 (ucast (drop_bit 32 v AND 0xffffffff))"

definition put_bool :: "bool \<Rightarrow> bytes" where
  "put_bool v = put_u8 (if v then 1 else 0)"

definition put_raw :: "bytes \<Rightarrow> bytes" where
  "put_raw data = data"

definition put_digest :: "digest \<Rightarrow> bytes" where
  "put_digest d = put_raw d"

definition put_byte_string :: "bytes \<Rightarrow> bytes" where
  "put_byte_string data = put_u32 (word_of_nat (length data)) @ put_raw data"

text \<open>Text is its bytes (\<open>as_bytes\<close>), so \<open>put_string\<close> writes a byte string.\<close>

definition put_string :: "bytes \<Rightarrow> bytes" where
  "put_string str = put_u32 (word_of_nat (length str)) @ put_raw str"

section \<open>UTF-8 validation\<close>

definition utf8_lead :: "u8 \<Rightarrow> (nat \<times> u32 \<times> u32) option" where
  "utf8_lead lead =
     (if lead AND 0xe0 = 0xc0 then Some (1, ucast (lead AND 0x1f), 0x80)
      else if lead AND 0xf0 = 0xe0 then Some (2, ucast (lead AND 0x0f), 0x800)
      else if lead AND 0xf8 = 0xf0 then Some (3, ucast (lead AND 0x07), 0x10000)
      else None)"

fun utf8_continue :: "u32 \<Rightarrow> bytes \<Rightarrow> u32 option" where
  "utf8_continue code_point [] = Some code_point"
| "utf8_continue code_point (b # bs) =
     (if b AND 0xc0 \<noteq> 0x80 then None
      else utf8_continue (push_bit 6 code_point OR ucast (b AND 0x3f)) bs)"

function is_valid_utf8 :: "bytes \<Rightarrow> bool" where
  "is_valid_utf8 [] = True"
| "is_valid_utf8 (lead # rest) =
     (if lead < 0x80 then is_valid_utf8 rest
      else case utf8_lead lead of
        None \<Rightarrow> False
      | Some (continuation, code_point, minimum) \<Rightarrow>
          if length rest < continuation then False
          else case utf8_continue code_point (take continuation rest) of
            None \<Rightarrow> False
          | Some code_point' \<Rightarrow>
              if code_point' < minimum \<or> code_point' > 0x10ffff then False
              else if code_point' \<ge> 0xd800 \<and> code_point' \<le> 0xdfff then False
              else is_valid_utf8 (drop continuation rest))"
  by pat_completeness auto
termination
  by (relation "measure length") auto

section \<open>The reader\<close>

record byte_reader =
  rd_data :: bytes
  rd_limits :: limits
  rd_offset :: nat
  rd_error :: error_code

type_synonym 'a reader = "(byte_reader, 'a) state"

abbreviation ret :: "'a \<Rightarrow> 'a reader" where
  "ret \<equiv> State_Monad.return"

definition mk_reader :: "bytes \<Rightarrow> limits \<Rightarrow> byte_reader" where
  "mk_reader data l = \<lparr>rd_data = data, rd_limits = l, rd_offset = 0, rd_error = Ok\<rparr>"

definition rd_remaining :: "byte_reader \<Rightarrow> nat" where
  "rd_remaining r = length (rd_data r) - rd_offset r"

definition rd_ok :: "bool reader" where
  "rd_ok = State (\<lambda>r. (rd_error r = Ok, r))"

definition rd_get_error :: "error_code reader" where
  "rd_get_error = State (\<lambda>r. (rd_error r, r))"

definition rd_fail :: "error_code \<Rightarrow> unit reader" where
  "rd_fail code = State (\<lambda>r. ((), if rd_error r = Ok then r\<lparr>rd_error := code\<rparr> else r))"

definition rd_raw :: "u64 \<Rightarrow> bytes reader" where
  "rd_raw count = State (\<lambda>r.
     if rd_error r \<noteq> Ok then ([], r)
     else if unat count > rd_remaining r then ([], r\<lparr>rd_error := TruncatedInput\<rparr>)
     else if count > max_allocation_bytes (rd_limits r) then ([], r\<lparr>rd_error := OversizedInput\<rparr>)
     else (take (unat count) (drop (rd_offset r) (rd_data r)),
           r\<lparr>rd_offset := rd_offset r + unat count\<rparr>))"

definition rd_u8 :: "u8 reader" where
  "rd_u8 = do { slice \<leftarrow> rd_raw 1; ret (if slice = [] then 0 else slice ! 0) }"

definition rd_u16 :: "u16 reader" where
  "rd_u16 = do {
     slice \<leftarrow> rd_raw 2;
     ret (if length slice \<noteq> 2 then 0 else ucast (slice ! 0) OR push_bit 8 (ucast (slice ! 1))) }"

definition rd_u32 :: "u32 reader" where
  "rd_u32 = do {
     slice \<leftarrow> rd_raw 4;
     ret (if length slice \<noteq> 4 then 0
          else foldl (\<lambda>v index. v OR push_bit (index * 8) (ucast (slice ! index))) 0 [0..<4]) }"

definition rd_u64 :: "u64 reader" where
  "rd_u64 = do {
     slice \<leftarrow> rd_raw 8;
     ret (if length slice \<noteq> 8 then 0
          else foldl (\<lambda>v index. v OR push_bit (index * 8) (ucast (slice ! index))) 0 [0..<8]) }"

definition rd_boolean :: "bool reader" where
  "rd_boolean = do {
     v \<leftarrow> rd_u8;
     ok \<leftarrow> rd_ok;
     if \<not> ok then ret False
     else if v > 1 then do { rd_fail MalformedInput; ret False }
     else ret (v = 1) }"

definition rd_digest :: "digest reader" where
  "rd_digest = do {
     slice \<leftarrow> rd_raw 32;
     ret (if length slice \<noteq> 32 then zero_digest else slice) }"

definition rd_bytes :: "u64 \<Rightarrow> bytes reader" where
  "rd_bytes max_bytes = do {
     declared \<leftarrow> rd_u32;
     ok \<leftarrow> rd_ok;
     if \<not> ok then ret []
     else if ucast declared > max_bytes then do { rd_fail OversizedInput; ret [] }
     else rd_raw (ucast declared) }"

definition rd_string :: "u32 \<Rightarrow> bytes reader" where
  "rd_string max_bytes = do {
     declared \<leftarrow> rd_u32;
     ok \<leftarrow> rd_ok;
     if \<not> ok then ret []
     else if declared > max_bytes then do { rd_fail OversizedInput; ret [] }
     else do {
       slice \<leftarrow> rd_raw (ucast declared);
       ok \<leftarrow> rd_ok;
       if \<not> ok then ret []
       else if \<not> is_valid_utf8 slice then do { rd_fail InvalidUnicode; ret [] }
       else ret slice } }"

definition rd_get_limits :: "limits reader" where
  "rd_get_limits = State (\<lambda>r. (rd_limits r, r))"

definition rd_get_remaining :: "nat reader" where
  "rd_get_remaining = State (\<lambda>r. (rd_remaining r, r))"

definition rd_collection_count :: "u64 \<Rightarrow> u32 reader" where
  "rd_collection_count max_items = do {
     declared \<leftarrow> rd_u32;
     ok \<leftarrow> rd_ok;
     l \<leftarrow> rd_get_limits;
     remaining \<leftarrow> rd_get_remaining;
     if \<not> ok then ret 0
     else if ucast declared > max_items then do { rd_fail LimitExceeded; ret 0 }
     else if declared > max_collection_items l then do { rd_fail LimitExceeded; ret 0 }
     else if unat declared > remaining then do { rd_fail MalformedInput; ret 0 }
     else ret declared }"

definition rd_require_end :: "status reader" where
  "rd_require_end = State (\<lambda>r.
     (if rd_error r \<noteq> Ok then Inl (rd_error r)
      else if rd_offset r \<noteq> length (rd_data r) then Inl TrailingGarbage
      else ok_status, r))"

section \<open>Decoder idioms and judgements\<close>

primrec le_bytes :: "nat \<Rightarrow> 'a::len word \<Rightarrow> bytes" where
  "le_bytes 0 v = []"
| "le_bytes (Suc k) v = ucast v # le_bytes k (drop_bit 8 v)"

primrec le_word :: "bytes \<Rightarrow> 'a::len word" where
  "le_word [] = 0"
| "le_word (b # bs) = ucast b OR push_bit 8 (le_word bs)"

text \<open>
  \<open>rd_check k\<close> is the idiom \<open>if (!reader.ok()) return reader.error();\<close> in front of \<open>k\<close>;
  \<open>rd_sub m k\<close> propagates the error of a nested decoder and otherwise goes on with its value.
\<close>

definition rd_check :: "'a result reader \<Rightarrow> 'a result reader" where
  "rd_check k = do { ok \<leftarrow> rd_ok; if ok then k else do { e \<leftarrow> rd_get_error; ret (Inl e) } }"

definition rd_sub :: "'a result reader \<Rightarrow> ('a \<Rightarrow> 'b result reader) \<Rightarrow> 'b result reader" where
  "rd_sub m k = do { x \<leftarrow> m; case x of Inl e \<Rightarrow> ret (Inl e) | Inr v \<Rightarrow> k v }"

definition rd_finish :: "'a result reader \<Rightarrow> 'a result reader" where
  "rd_finish k = do { end \<leftarrow> rd_require_end; case end of Inl e \<Rightarrow> ret (Inl e) | Inr _ \<Rightarrow> k }"

definition rd_rest :: "byte_reader \<Rightarrow> bytes" where
  "rd_rest r = drop (rd_offset r) (rd_data r)"

definition rd_advance :: "nat \<Rightarrow> byte_reader \<Rightarrow> byte_reader" where
  "rd_advance n r = r\<lparr>rd_offset := rd_offset r + n\<rparr>"

text \<open>
  \<open>parses L m xs v\<close>: a healthy reader standing in front of \<open>xs\<close> consumes exactly \<open>xs\<close> and
  yields \<open>v\<close>. \<open>reads L m P\<close>: whatever a healthy reader consumes satisfies \<open>P\<close>, and errors
  are sticky. \<open>decodes\<close> and \<open>decodes_ok\<close> are the same for decoders that return a result:
  a value comes back only from a reader with no error (for \<open>decodes_ok\<close>, given one).
\<close>

definition parses :: "limits \<Rightarrow> 'a reader \<Rightarrow> bytes \<Rightarrow> 'a \<Rightarrow> bool" where
  "parses L m xs v \<longleftrightarrow>
     (\<forall>r post. rd_limits r = L \<longrightarrow> rd_error r = Ok \<longrightarrow> rd_rest r = xs @ post \<longrightarrow>
        run_state m r = (v, rd_advance (length xs) r))"

definition consumed :: "byte_reader \<Rightarrow> byte_reader \<Rightarrow> bytes \<Rightarrow> bool" where
  "consumed r r' xs \<longleftrightarrow> rd_rest r = xs @ rd_rest r' \<and> r' = rd_advance (length xs) r"

definition reads :: "limits \<Rightarrow> 'a reader \<Rightarrow> ('a \<Rightarrow> bytes \<Rightarrow> bool) \<Rightarrow> bool" where
  "reads L m P \<longleftrightarrow>
     (\<forall>r v r'. rd_limits r = L \<longrightarrow> run_state m r = (v, r') \<longrightarrow>
        rd_limits r' = L \<and> (rd_error r' = Ok \<longrightarrow> rd_error r = Ok \<and> (\<exists>xs. consumed r r' xs \<and> P v xs)))"

definition decodes_ok :: "limits \<Rightarrow> 'a result reader \<Rightarrow> ('a \<Rightarrow> bytes \<Rightarrow> bool) \<Rightarrow> bool" where
  "decodes_ok L m P \<longleftrightarrow>
     (\<forall>r v r'. rd_limits r = L \<longrightarrow> rd_error r = Ok \<longrightarrow> run_state m r = (Inr v, r') \<longrightarrow>
        (\<exists>xs. consumed r r' xs \<and> P v xs))"

definition decodes :: "limits \<Rightarrow> 'a result reader \<Rightarrow> ('a \<Rightarrow> bytes \<Rightarrow> bool) \<Rightarrow> bool" where
  "decodes L m P \<longleftrightarrow> decodes_ok L m P \<and>
     (\<forall>r v r'. rd_limits r = L \<longrightarrow> run_state m r = (Inr v, r') \<longrightarrow> rd_error r = Ok)"

definition bytes_admitted :: "u64 \<Rightarrow> limits \<Rightarrow> bytes \<Rightarrow> bool" where
  "bytes_admitted max_bytes L data \<longleftrightarrow>
     4 \<le> max_allocation_bytes L \<and> length data < 2 ^ 32 \<and> length data \<le> unat max_bytes \<and>
     length data \<le> unat (max_allocation_bytes L)"

definition text_admitted :: "u32 \<Rightarrow> limits \<Rightarrow> bytes \<Rightarrow> bool" where
  "text_admitted max_bytes L str \<longleftrightarrow>
     4 \<le> max_allocation_bytes L \<and> length str \<le> unat max_bytes \<and>
     length str \<le> unat (max_allocation_bytes L) \<and> is_valid_utf8 str"

text \<open>
  A collection loop: every decoder reads a bounded count and then that many items, each with
  its own error check, as \<open>for (...) { ...; if (!reader.ok()) return reader.error(); }\<close>.
\<close>

fun rd_list :: "nat \<Rightarrow> 'a result reader \<Rightarrow> 'a list result reader" where
  "rd_list 0 m = ret (Inr [])"
| "rd_list (Suc n) m = rd_sub m (\<lambda>x. rd_sub (rd_list n m) (\<lambda>xs. ret (Inr (x # xs))))"

text \<open>A loop that reads plain values and checks the reader only afterwards.\<close>

fun rd_many :: "nat \<Rightarrow> 'a reader \<Rightarrow> 'a list reader" where
  "rd_many 0 m = ret []"
| "rd_many (Suc n) m = do { x \<leftarrow> m; xs \<leftarrow> rd_many n m; ret (x # xs) }"

text \<open>The same with an accumulator, for loops that store each item as they read it.\<close>

fun rd_fold :: "nat \<Rightarrow> ('s \<Rightarrow> 's result reader) \<Rightarrow> 's \<Rightarrow> 's result reader" where
  "rd_fold 0 f s = ret (Inr s)"
| "rd_fold (Suc n) f s = rd_sub (f s) (rd_fold n f)"

definition rd_all :: "'a result reader \<Rightarrow> bytes \<Rightarrow> limits \<Rightarrow> 'a result" where
  "rd_all m data l = fst (run_state (rd_sub m (\<lambda>v. rd_finish (ret (Inr v)))) (mk_reader data l))"

section \<open>Lemmas: little-endian words\<close>

lemma length_le_bytes [simp]: "length (le_bytes k v) = k"
  by (induction k arbitrary: v) auto

lemma le_word_bytes: "le_word (le_bytes k v) = take_bit (8 * k) v"
proof (induction k arbitrary: v)
  case (Suc k)
  then show ?case
    by (intro bit_word_eqI) (auto simp: bit_simps le_add_diff_inverse2)
qed simp

lemma le_word_bytes_full:
  "LENGTH('a) = 8 * k \<Longrightarrow> le_word (le_bytes k (v :: 'a::len word)) = v"
  by (simp add: le_word_bytes take_bit_word_eq_self)

lemma bit_le_word: "bit (le_word bs :: 'a::len word) n \<Longrightarrow> n < 8 * length bs"
proof (induction bs arbitrary: n)
  case (Cons b bs)
  then consider "bit b n" | "8 \<le> n" "bit (le_word bs :: 'a word) (n - 8)"
    by (auto simp: bit_simps)
  then show ?case
  proof cases
    case 1
    then show ?thesis using bit_imp_le_length [of b n] by simp
  next
    case 2
    then show ?thesis using Cons.IH [of "n - 8"] by simp
  qed
qed simp

lemma le_bytes_word:
  "length bs = k \<Longrightarrow> 8 * k \<le> LENGTH('a) \<Longrightarrow> le_bytes k (le_word bs :: 'a::len word) = bs"
proof (induction bs arbitrary: k)
  case (Cons b bs)
  then obtain m where m: "k = Suc m" by (cases k) auto
  have "ucast (ucast b OR push_bit 8 (le_word bs) :: 'a word) = b"
    using Cons.prems m by (intro bit_word_eqI) (auto simp: bit_simps)
  moreover have "le_bytes m (drop_bit 8 (ucast b OR push_bit 8 (le_word bs) :: 'a word)) = bs"
  proof -
    have "drop_bit 8 (ucast b OR push_bit 8 (le_word bs) :: 'a word) = le_word bs"
    proof (rule bit_word_eqI)
      fix n
      have "\<not> bit b (8 + n)"
        using bit_imp_le_length [of b "8 + n"] by auto
      moreover have "8 + n < LENGTH('a)" if "bit (le_word bs :: 'a word) n"
        using bit_le_word [OF that] Cons.prems by simp
      ultimately show "bit (drop_bit 8 (ucast b OR push_bit 8 (le_word bs) :: 'a word)) n =
          bit (le_word bs :: 'a word) n"
        by (auto simp: bit_simps)
    qed
    then show ?thesis using Cons m by simp
  qed
  ultimately show ?case using m by simp
qed simp

lemma and_ff: "(v :: 'a::len word) AND 0xff = take_bit 8 v"
  by (simp add: take_bit_eq_mask mask_eq_exp_minus_1)

lemma and_ffff: "(v :: 'a::len word) AND 0xffff = take_bit 16 v"
  by (simp add: take_bit_eq_mask mask_eq_exp_minus_1)

lemma and_ffffffff: "(v :: 'a::len word) AND 0xffffffff = take_bit 32 v"
  by (simp add: take_bit_eq_mask mask_eq_exp_minus_1)

lemma put_u16_le: "put_u16 v = le_bytes 2 v"
  by (auto simp: put_u16_def put_u8_def and_ff numeral_2_eq_2 intro!: bit_word_eqI simp: bit_simps)

lemma put_u32_le: "put_u32 v = le_bytes 4 v"
  by (auto simp: put_u32_def put_u16_le and_ffff eval_nat_numeral intro!: bit_word_eqI simp: bit_simps)

lemma put_u64_le: "put_u64 v = le_bytes 8 v"
  by (auto simp: put_u64_def put_u32_le and_ffffffff eval_nat_numeral intro!: bit_word_eqI simp: bit_simps)

lemma list_of_length_2: "length xs = 2 \<longleftrightarrow> (\<exists>a b. xs = [a, b])"
  by (auto simp: length_Suc_conv eval_nat_numeral)

lemma rd_u16_word: "length s = 2 \<Longrightarrow> ucast (s ! 0) OR push_bit 8 (ucast (s ! 1)) = (le_word s :: u16)"
  by (auto simp: list_of_length_2)

lemma rd_u32_word:
  "length s = 4 \<Longrightarrow>
   foldl (\<lambda>v index. v OR push_bit (index * 8) (ucast (s ! index))) 0 [0..<4] = (le_word s :: u32)"
  by (auto simp: length_Suc_conv eval_nat_numeral push_bit_push_bit or.assoc push_bit_or)

lemma rd_u64_word:
  "length s = 8 \<Longrightarrow>
   foldl (\<lambda>v index. v OR push_bit (index * 8) (ucast (s ! index))) 0 [0..<8] = (le_word s :: u64)"
  by (auto simp: length_Suc_conv eval_nat_numeral push_bit_push_bit or.assoc push_bit_or)

section \<open>Decoding judgements\<close>

lemma rd_advance_simps [simp]:
  "rd_advance 0 r = r"
  "rd_advance n (rd_advance m r) = rd_advance (m + n) r"
  "rd_data (rd_advance n r) = rd_data r"
  "rd_limits (rd_advance n r) = rd_limits r"
  "rd_error (rd_advance n r) = rd_error r"
  "rd_rest (rd_advance n r) = drop n (rd_rest r)"
  by (simp_all add: rd_advance_def rd_rest_def add.assoc add.commute)

lemma length_rd_rest: "length (rd_rest r) = rd_remaining r"
  by (simp add: rd_rest_def rd_remaining_def)

lemma run_state_return [simp]: "run_state (ret x) s = (x, s)"
  by (simp add: State_Monad.return_def)

lemma run_state_bind: "run_state (m \<bind> k) s = (case run_state m s of (x, s') \<Rightarrow> run_state (k x) s')"
  by (simp add: State_Monad.bind_def)

lemma consumed_nil [simp]: "consumed r r []"
  by (simp add: consumed_def)

lemma consumed_trans: "consumed r r' xs \<Longrightarrow> consumed r' r'' ys \<Longrightarrow> consumed r r'' (xs @ ys)"
  unfolding consumed_def by (metis append.assoc length_append rd_advance_simps(2))

lemma consumed_keeps: "consumed r r' xs \<Longrightarrow> rd_error r' = rd_error r \<and> rd_limits r' = rd_limits r"
  by (auto simp: consumed_def)

lemma parses_ret [intro]: "parses L (ret v) [] v"
  by (simp add: parses_def)

lemma parses_value: "v = w \<Longrightarrow> parses L (ret v) [] w"
  by (simp add: parses_ret)

lemma parses_bind:
  assumes "parses L m xs v" "parses L (k v) ys w"
  shows "parses L (m \<bind> k) (xs @ ys) w"
  using assms by (simp add: parses_def run_state_bind)

lemma parses_check: "parses L k xs v \<Longrightarrow> parses L (rd_check k) xs v"
  by (simp add: parses_def rd_check_def rd_ok_def run_state_bind)

lemma parses_sub:
  "parses L m xs (Inr v) \<Longrightarrow> parses L (k v) ys w \<Longrightarrow> parses L (rd_sub m k) (xs @ ys) w"
  unfolding rd_sub_def by (rule parses_bind, assumption, subst sum.case)

lemma parses_cong: "parses L m xs v \<Longrightarrow> xs = ys \<Longrightarrow> v = w \<Longrightarrow> parses L m ys w"
  by simp

lemma readsI:
  assumes "\<And>r v r'. rd_limits r = L \<Longrightarrow> run_state m r = (v, r') \<Longrightarrow>
    rd_limits r' = L \<and> (rd_error r' = Ok \<longrightarrow> rd_error r = Ok \<and> (\<exists>xs. consumed r r' xs \<and> P v xs))"
  shows "reads L m P"
  unfolding reads_def using assms by blast

lemma reads_bind:
  assumes m: "reads L m P" and k: "\<And>v. reads L (k v) (\<lambda>w ys. \<forall>xs. P v xs \<longrightarrow> Q w (xs @ ys))"
  shows "reads L (m \<bind> k) Q"
proof (rule readsI)
  fix r w r''
  assume L: "rd_limits r = L" and run: "run_state (m \<bind> k) r = (w, r'')"
  obtain v r' where m': "run_state m r = (v, r')" and k': "run_state (k v) r' = (w, r'')"
    using run by (auto simp: run_state_bind split: prod.splits)
  have 1: "rd_limits r' = L" "rd_error r' = Ok \<Longrightarrow> rd_error r = Ok \<and> (\<exists>xs. consumed r r' xs \<and> P v xs)"
    using m L m' unfolding reads_def by blast+
  moreover have "rd_limits r'' = L"
    "rd_error r'' = Ok \<Longrightarrow> rd_error r' = Ok \<and> (\<exists>ys. consumed r' r'' ys \<and> (\<forall>xs. P v xs \<longrightarrow> Q w (xs @ ys)))"
    using k [of v] 1(1) k' unfolding reads_def by blast+
  ultimately show "rd_limits r'' = L \<and>
      (rd_error r'' = Ok \<longrightarrow> rd_error r = Ok \<and> (\<exists>xs. consumed r r'' xs \<and> Q w xs))"
    using consumed_trans by blast
qed

lemma reads_ret: "P v [] \<Longrightarrow> reads L (ret v) P"
  by (rule readsI) (auto intro: exI [of _ "[]"])

lemma reads_mono: "reads L m P \<Longrightarrow> (\<And>v xs. P v xs \<Longrightarrow> Q v xs) \<Longrightarrow> reads L m Q"
  unfolding reads_def by blast

lemma reads_fail: "code \<noteq> Ok \<Longrightarrow> reads L (rd_fail code) (\<lambda>_ _. False)"
  by (rule readsI) (auto simp: rd_fail_def split: if_splits)

lemma reads_ok: "reads L rd_ok (\<lambda>b xs. b \<and> xs = [])"
  by (rule readsI) (auto simp: rd_ok_def)

lemma reads_limits: "reads L rd_get_limits (\<lambda>l xs. l = L \<and> xs = [])"
  by (rule readsI) (auto simp: rd_get_limits_def)

lemma reads_remaining: "reads L rd_get_remaining (\<lambda>_ xs. xs = [])"
  by (rule readsI) (auto simp: rd_get_remaining_def)

lemma reads_raw:
  "reads L (rd_raw n) (\<lambda>v xs. xs = v \<and> length v = unat n \<and> n \<le> max_allocation_bytes L)"
proof (rule readsI)
  fix r v r'
  assume L: "rd_limits r = L" and run: "run_state (rd_raw n) r = (v, r')"
  show "rd_limits r' = L \<and> (rd_error r' = Ok \<longrightarrow> rd_error r = Ok \<and>
      (\<exists>xs. consumed r r' xs \<and> xs = v \<and> length v = unat n \<and> n \<le> max_allocation_bytes L))"
  proof (cases "rd_error r = Ok \<and> unat n \<le> rd_remaining r \<and> n \<le> max_allocation_bytes L")
    case True
    then have v: "v = take (unat n) (rd_rest r)" and r': "r' = rd_advance (unat n) r"
      using run L by (auto simp: rd_raw_def rd_rest_def rd_advance_def not_less [symmetric])
    moreover have len: "length v = unat n" using True v by (simp add: length_rd_rest)
    ultimately have "consumed r r' v"
      by (simp add: consumed_def)
    then show ?thesis using True L r' len by simp
  next
    case False
    then show ?thesis using run L by (auto simp: rd_raw_def not_le split: if_splits)
  qed
qed

lemma parses_raw:
  "length xs = unat n \<Longrightarrow> n \<le> max_allocation_bytes L \<Longrightarrow> parses L (rd_raw n) xs xs"
  by (auto simp: parses_def rd_raw_def rd_advance_def length_rd_rest [symmetric]
      simp flip: rd_rest_def)

lemma decodes_imp_ok: "decodes L m P \<Longrightarrow> decodes_ok L m P"
  by (simp add: decodes_def)

lemma decodes_okI:
  assumes "\<And>r v r'. rd_limits r = L \<Longrightarrow> rd_error r = Ok \<Longrightarrow> run_state m r = (Inr v, r') \<Longrightarrow>
    \<exists>xs. consumed r r' xs \<and> P v xs"
  shows "decodes_ok L m P"
  using assms by (simp add: decodes_ok_def)

lemma decodes_okD:
  assumes "decodes_ok L m P" "rd_limits r = L" "rd_error r = Ok" "run_state m r = (Inr v, r')"
  obtains xs where "consumed r r' xs" "P v xs"
  using assms unfolding decodes_ok_def by blast

lemma decodes_ok_error [intro]: "decodes_ok L (ret (Inl e)) P"
  by (rule decodes_okI) simp

lemma decodes_error [intro]: "decodes L (ret (Inl e)) P"
  by (auto simp: decodes_def)

lemma decodes_ok_value: "P v [] \<Longrightarrow> decodes_ok L (ret (Inr v)) P"
  by (rule decodes_okI) (auto intro: exI [of _ "[]"])

lemma decodes_ok_if:
  "(c \<Longrightarrow> decodes_ok L m P) \<Longrightarrow> (\<not> c \<Longrightarrow> decodes_ok L m' P) \<Longrightarrow> decodes_ok L (if c then m else m') P"
  by simp

lemma decodes_if:
  "(c \<Longrightarrow> decodes L m P) \<Longrightarrow> (\<not> c \<Longrightarrow> decodes L m' P) \<Longrightarrow> decodes L (if c then m else m') P"
  by simp

lemma decodes_ok_mono: "decodes_ok L m P \<Longrightarrow> (\<And>v xs. P v xs \<Longrightarrow> Q v xs) \<Longrightarrow> decodes_ok L m Q"
  unfolding decodes_ok_def by blast

lemma decodes_mono: "decodes L m P \<Longrightarrow> (\<And>v xs. P v xs \<Longrightarrow> Q v xs) \<Longrightarrow> decodes L m Q"
  unfolding decodes_def using decodes_ok_mono by blast

lemma decodes_check: "decodes_ok L k P \<Longrightarrow> decodes L (rd_check k) P"
  by (auto simp: decodes_def decodes_ok_def rd_check_def rd_ok_def rd_get_error_def run_state_bind
      split: if_splits)

lemma decodes_bind:
  assumes m: "reads L m P" and k: "\<And>v. decodes L (k v) (\<lambda>w ys. \<forall>xs. P v xs \<longrightarrow> Q w (xs @ ys))"
  shows "decodes L (m \<bind> k) Q"
proof -
  have *: "rd_error r = Ok \<and> (\<exists>xs. consumed r r'' xs \<and> Q w xs)"
    if L: "rd_limits r = L" and run: "run_state (m \<bind> k) r = (Inr w, r'')" for r w r''
  proof -
    obtain v r' where m': "run_state m r = (v, r')" and k': "run_state (k v) r' = (Inr w, r'')"
      using run by (auto simp: run_state_bind split: prod.splits)
    have L': "rd_limits r' = L" using m L m' unfolding reads_def by blast
    then have e': "rd_error r' = Ok" using k [of v] k' unfolding decodes_def by blast
    then obtain xs where "rd_error r = Ok" "consumed r r' xs" "P v xs"
      using m L m' unfolding reads_def by blast
    moreover obtain ys where "consumed r' r'' ys" "\<forall>xs. P v xs \<longrightarrow> Q w (xs @ ys)"
      using decodes_okD [OF decodes_imp_ok [OF k] L' e' k'] .
    ultimately show ?thesis using consumed_trans by blast
  qed
  then show ?thesis unfolding decodes_def decodes_ok_def by blast
qed

lemma decodes_ok_sub:
  assumes m: "decodes_ok L m P"
    and k: "\<And>v. decodes_ok L (k v) (\<lambda>w ys. \<forall>xs. P v xs \<longrightarrow> Q w (xs @ ys))"
  shows "decodes_ok L (rd_sub m k) Q"
proof (rule decodes_okI)
  fix r w r''
  assume L: "rd_limits r = L" and e: "rd_error r = Ok" and run: "run_state (rd_sub m k) r = (Inr w, r'')"
  obtain v r' where m': "run_state m r = (Inr v, r')" and k': "run_state (k v) r' = (Inr w, r'')"
    using run by (auto simp: rd_sub_def run_state_bind split: prod.splits sum.splits)
  obtain xs where xs: "consumed r r' xs" "P v xs"
    using decodes_okD [OF m L e m'] .
  then have "rd_limits r' = L" "rd_error r' = Ok"
    using consumed_keeps L e by auto
  then obtain ys where "consumed r' r'' ys" "\<forall>xs. P v xs \<longrightarrow> Q w (xs @ ys)"
    using decodes_okD [OF k _ _ k'] by metis
  then show "\<exists>xs. consumed r r'' xs \<and> Q w xs"
    using xs consumed_trans by blast
qed

lemma decodes_sub:
  assumes m: "decodes L m P"
    and k: "\<And>v. decodes_ok L (k v) (\<lambda>w ys. \<forall>xs. P v xs \<longrightarrow> Q w (xs @ ys))"
  shows "decodes L (rd_sub m k) Q"
proof -
  have "rd_error r = Ok" if "rd_limits r = L" "run_state (rd_sub m k) r = (Inr w, r')" for r w r'
    using that m by (auto simp: rd_sub_def run_state_bind decodes_def split: prod.splits sum.splits)
  then show ?thesis
    using decodes_ok_sub [OF decodes_imp_ok [OF m] k] by (auto simp: decodes_def)
qed

section \<open>Interface: primitive codecs\<close>

text \<open>
  An encoder, a decoder and the set of values the limits admit: the decoder accepts exactly
  the encodings of admitted values.
\<close>

locale wire_codec =
  fixes enc :: "'a \<Rightarrow> bytes" and dec :: "'a reader" and admits :: "limits \<Rightarrow> 'a \<Rightarrow> bool"
  assumes complete: "admits L v \<Longrightarrow> parses L dec (enc v) v"
    and sound: "reads L dec (\<lambda>v xs. xs = enc v \<and> admits L v)"
begin

lemma parses_step: "admits L v \<Longrightarrow> parses L (k v) ys w \<Longrightarrow> parses L (dec \<bind> k) (enc v @ ys) w"
  by (rule parses_bind [OF complete])

lemma decodes_step:
  assumes "\<And>v. decodes L (k v) (\<lambda>w ys. admits L v \<longrightarrow> Q w (enc v @ ys))"
  shows "decodes L (dec \<bind> k) Q"
  by (rule decodes_bind [OF sound], rule decodes_mono [OF assms]) auto

lemma reads_step:
  assumes "\<And>v. reads L (k v) (\<lambda>w ys. admits L v \<longrightarrow> Q w (enc v @ ys))"
  shows "reads L (dec \<bind> k) Q"
  by (rule reads_bind [OF sound], rule reads_mono [OF assms]) auto

lemma parses_many:
  "(\<And>v. v \<in> set vs \<Longrightarrow> admits L v) \<Longrightarrow> parses L (rd_many (length vs) dec) (concat (map enc vs)) vs"
proof (induction vs)
  case (Cons v vs)
  then have "parses L (rd_many (length vs) dec) (concat (map enc vs)) vs" by simp
  then have "parses L (rd_many (length vs) dec \<bind> (\<lambda>xs. ret (v # xs))) (concat (map enc vs)) (v # vs)"
    by (rule parses_bind [where ys = "[]", simplified]) (rule parses_ret)
  with Cons.prems show ?case by (simp add: parses_step)
qed auto

lemma reads_many:
  "reads L (rd_many n dec) (\<lambda>vs xs. length vs = n \<and> xs = concat (map enc vs) \<and> (\<forall>v \<in> set vs. admits L v))"
proof (induction n)
  case 0
  then show ?case by (simp add: reads_ret)
next
  case (Suc n)
  show ?case
    by (simp, rule reads_step, rule reads_bind [OF Suc], rule reads_ret) auto
qed

lemma enc_prefix_free:
  assumes "admits L v" "admits L w" "enc v @ xs = enc w @ ys"
  shows "v = w \<and> xs = ys"
proof -
  let ?r = "mk_reader (enc v @ xs) L"
  have r: "rd_limits ?r = L" "rd_error ?r = Ok" "rd_rest ?r = enc v @ xs" "rd_rest ?r = enc w @ ys"
    using assms(3) by (simp_all add: mk_reader_def rd_rest_def)
  have "run_state dec ?r = (v, rd_advance (length (enc v)) ?r)"
    using complete [OF assms(1)] r unfolding parses_def by blast
  moreover have "run_state dec ?r = (w, rd_advance (length (enc w)) ?r)"
    using complete [OF assms(2)] r unfolding parses_def by blast
  ultimately have "v = w" by simp
  then show ?thesis using assms(3) by simp
qed

end

lemmas parses_word = parses_bind [OF parses_raw, where ys = "[]", simplified]

lemma put_u8_raw:
  "1 \<le> max_allocation_bytes L \<Longrightarrow> parses L rd_u8 (put_u8 v) v"
  unfolding rd_u8_def put_u8_def by (rule parses_word) auto

interpretation u8: wire_codec put_u8 rd_u8 "\<lambda>L _. 1 \<le> max_allocation_bytes L"
proof
  show "reads L rd_u8 (\<lambda>v xs. xs = put_u8 v \<and> 1 \<le> max_allocation_bytes L)" for L
    unfolding rd_u8_def put_u8_def
    by (rule reads_bind [OF reads_raw], rule reads_ret) (auto simp: length_Suc_conv)
qed (rule put_u8_raw)

interpretation u16: wire_codec put_u16 rd_u16 "\<lambda>L _. 2 \<le> max_allocation_bytes L"
proof
  show "parses L rd_u16 (put_u16 v) v" if "2 \<le> max_allocation_bytes L" for L v
    unfolding rd_u16_def put_u16_le
    by (rule parses_word) (use that in \<open>auto simp: rd_u16_word le_word_bytes_full simp del: One_nat_def\<close>)
  show "reads L rd_u16 (\<lambda>v xs. xs = put_u16 v \<and> 2 \<le> max_allocation_bytes L)" for L
    unfolding rd_u16_def put_u16_le
    by (rule reads_bind [OF reads_raw], rule reads_ret) (auto simp: rd_u16_word le_bytes_word simp del: One_nat_def)
qed

interpretation u32: wire_codec put_u32 rd_u32 "\<lambda>L _. 4 \<le> max_allocation_bytes L"
proof
  show "parses L rd_u32 (put_u32 v) v" if "4 \<le> max_allocation_bytes L" for L v
    unfolding rd_u32_def put_u32_le
    by (rule parses_word) (use that in \<open>auto simp: rd_u32_word le_word_bytes_full simp del: upt_rec_numeral\<close>)
  show "reads L rd_u32 (\<lambda>v xs. xs = put_u32 v \<and> 4 \<le> max_allocation_bytes L)" for L
    unfolding rd_u32_def put_u32_le
    by (rule reads_bind [OF reads_raw], rule reads_ret) (auto simp: rd_u32_word le_bytes_word simp del: upt_rec_numeral)
qed

interpretation u64: wire_codec put_u64 rd_u64 "\<lambda>L _. 8 \<le> max_allocation_bytes L"
proof
  show "parses L rd_u64 (put_u64 v) v" if "8 \<le> max_allocation_bytes L" for L v
    unfolding rd_u64_def put_u64_le
    by (rule parses_word) (use that in \<open>auto simp: rd_u64_word le_word_bytes_full simp del: upt_rec_numeral\<close>)
  show "reads L rd_u64 (\<lambda>v xs. xs = put_u64 v \<and> 8 \<le> max_allocation_bytes L)" for L
    unfolding rd_u64_def put_u64_le
    by (rule reads_bind [OF reads_raw], rule reads_ret) (auto simp: rd_u64_word le_bytes_word simp del: upt_rec_numeral)
qed

interpretation digest: wire_codec put_digest rd_digest "\<lambda>L d. digest_wf d \<and> 32 \<le> max_allocation_bytes L"
proof
  show "parses L rd_digest (put_digest d) d" if "digest_wf d \<and> 32 \<le> max_allocation_bytes L" for L d
    unfolding rd_digest_def put_digest_def put_raw_def
    by (rule parses_word) (use that in \<open>auto simp: digest_wf_def\<close>)
  show "reads L rd_digest (\<lambda>d xs. xs = put_digest d \<and> digest_wf d \<and> 32 \<le> max_allocation_bytes L)" for L
    unfolding rd_digest_def put_digest_def put_raw_def
    by (rule reads_bind [OF reads_raw], rule reads_ret) (auto simp: digest_wf_def)
qed

lemma u8_bit_value: "\<not> 1 < (v :: u8) \<Longrightarrow> v \<noteq> 1 \<Longrightarrow> v = 0"
  by (simp add: not_less word_le_nat_alt word_unat_eq_iff)

lemma parses_rd_ok: "parses L (k True) xs v \<Longrightarrow> parses L (rd_ok \<bind> k) xs v"
  by (simp add: parses_def rd_ok_def run_state_bind)

lemma reads_fail_ret: "code \<noteq> Ok \<Longrightarrow> reads L (do { rd_fail code; ret v }) P"
  by (rule reads_bind [OF reads_fail]) (auto intro: reads_ret)

interpretation boolean: wire_codec put_bool rd_boolean "\<lambda>L _. 1 \<le> max_allocation_bytes L"
proof
  show "parses L rd_boolean (put_bool v) v" if "1 \<le> max_allocation_bytes L" for L v
    unfolding rd_boolean_def put_bool_def
    by (rule u8.parses_step [where ys = "[]", simplified], use that in simp, rule parses_rd_ok) 
       (cases v; auto)
  show "reads L rd_boolean (\<lambda>v xs. xs = put_bool v \<and> 1 \<le> max_allocation_bytes L)" for L
    unfolding rd_boolean_def put_bool_def
  proof (rule u8.reads_step, rule reads_bind [OF reads_ok])
    fix v :: u8 and ok :: bool
    show "reads L (if \<not> ok then ret False
        else if 1 < v then do { rd_fail MalformedInput; ret False } else ret (v = 1))
      (\<lambda>w ys. \<forall>xs. ok \<and> xs = [] \<longrightarrow> 1 \<le> max_allocation_bytes L \<longrightarrow>
         put_u8 v @ xs @ ys = put_u8 (if w then 1 else 0) \<and> 1 \<le> max_allocation_bytes L)"
      by (auto intro!: reads_ret reads_fail_ret dest: u8_bit_value)
  qed
qed


text \<open>Length-prefixed data. Bounds on the length are part of what the decoder admits.\<close>

lemma unat_ucast_u32 [simp]: "unat (ucast (v :: u32) :: u64) = unat v"
  using unat32_bound [of v] by (simp add: unsigned_ucast_eq take_bit_nat_eq_self)

lemma unat_of_length_u32: "n < 2 ^ 32 \<Longrightarrow> unat (word_of_nat n :: u32) = n"
  by (simp add: unat_of_nat take_bit_nat_eq_self)

interpretation byte_string: wire_codec put_byte_string "rd_bytes m" "bytes_admitted m" for m
proof
  fix L data
  assume a: "bytes_admitted m L data"
  have "parses L (rd_raw (ucast (word_of_nat (length data) :: u32))) data data"
    using a by (intro parses_raw) (auto simp: bytes_admitted_def unat_of_length_u32 word_le_nat_alt)
  moreover have "\<not> m < ucast (word_of_nat (length data) :: u32)"
    using a by (simp add: bytes_admitted_def unat_of_length_u32 word_less_nat_alt)
  ultimately show "parses L (rd_bytes m) (put_byte_string data) data"
    using a unfolding rd_bytes_def put_byte_string_def put_raw_def
    by (intro u32.parses_step parses_rd_ok) (auto simp: bytes_admitted_def)
next
  fix L
  show "reads L (rd_bytes m) (\<lambda>v xs. xs = put_byte_string v \<and> bytes_admitted m L v)"
    unfolding rd_bytes_def
  proof (rule u32.reads_step, rule reads_bind [OF reads_ok])
    fix n :: u32 and ok :: bool
    let ?Q = "\<lambda>w ys. \<forall>xs. ok \<and> xs = [] \<longrightarrow> 4 \<le> max_allocation_bytes L \<longrightarrow>
         put_u32 n @ xs @ ys = put_byte_string w \<and> bytes_admitted m L w"
    have "reads L (rd_raw (ucast n)) ?Q" if "\<not> m < ucast n"
      by (rule reads_mono [OF reads_raw])
        (use that in \<open>auto simp: put_byte_string_def put_raw_def bytes_admitted_def word_le_nat_alt
           word_less_nat_alt unat32_bound [simplified]\<close>)
    then show "reads L (if \<not> ok then ret []
        else if m < ucast n then do { rd_fail OversizedInput; ret [] } else rd_raw (ucast n)) ?Q"
      by (auto intro!: reads_ret reads_fail_ret)
  qed
qed

interpretation utf8_string: wire_codec put_string "rd_string m" "text_admitted m" for m
proof
  fix L str
  assume a: "text_admitted m L str"
  then have len: "length str < 2 ^ 32"
    using unat32_bound [of m] by (simp add: text_admitted_def)
  have "parses L (rd_raw (ucast (word_of_nat (length str) :: u32))) str str"
    using a len by (intro parses_raw) (auto simp: text_admitted_def unat_of_length_u32 word_le_nat_alt)
  moreover have "\<not> m < (word_of_nat (length str) :: u32)"
    using a len by (simp add: text_admitted_def unat_of_length_u32 word_less_nat_alt)
  ultimately show "parses L (rd_string m) (put_string str) str"
    using a unfolding rd_string_def put_string_def put_raw_def
    by (intro u32.parses_step parses_rd_ok)
      (auto simp: text_admitted_def intro!: parses_bind [where ys = "[]", simplified] parses_rd_ok parses_ret)
next
  fix L
  show "reads L (rd_string m) (\<lambda>v xs. xs = put_string v \<and> text_admitted m L v)"
    unfolding rd_string_def
  proof (rule u32.reads_step, rule reads_bind [OF reads_ok])
    fix n :: u32 and ok :: bool
    let ?Q = "\<lambda>w ys. \<forall>xs. ok \<and> xs = [] \<longrightarrow> 4 \<le> max_allocation_bytes L \<longrightarrow>
         put_u32 n @ xs @ ys = put_string w \<and> text_admitted m L w"
    let ?k = "\<lambda>slice. do { ok \<leftarrow> rd_ok; if \<not> ok then ret []
       else if \<not> is_valid_utf8 slice then do { rd_fail InvalidUnicode; ret [] } else ret slice }"
    have "reads L (rd_raw (ucast n) \<bind> ?k) ?Q" if "\<not> m < n"
      by (rule reads_bind [OF reads_raw], rule reads_bind [OF reads_ok])
        (use that in \<open>auto simp: put_string_def put_raw_def text_admitted_def word_le_nat_alt
           word_less_nat_alt unat32_bound intro!: reads_ret reads_fail_ret\<close>)
    then show "reads L (if \<not> ok then ret []
        else if m < n then do { rd_fail OversizedInput; ret [] } else rd_raw (ucast n) \<bind> ?k) ?Q"
      by (auto intro!: reads_ret reads_fail_ret)
  qed
qed

section \<open>Interface: record codecs\<close>

locale record_codec =
  fixes enc :: "'a \<Rightarrow> bytes" and dec :: "'a result reader" and admits :: "limits \<Rightarrow> 'a \<Rightarrow> bool"
  assumes complete: "admits L v \<Longrightarrow> parses L dec (enc v) (Inr v)"
    and sound: "decodes L dec (\<lambda>v xs. xs = enc v \<and> admits L v)"
begin

lemma parses_step: "admits L v \<Longrightarrow> parses L (k v) ys w \<Longrightarrow> parses L (rd_sub dec k) (enc v @ ys) w"
  by (rule parses_sub [OF complete])

lemma decodes_ok_step:
  assumes "\<And>v. decodes_ok L (k v) (\<lambda>w ys. admits L v \<longrightarrow> Q w (enc v @ ys))"
  shows "decodes_ok L (rd_sub dec k) Q"
  by (rule decodes_ok_sub [OF decodes_imp_ok [OF sound]], rule decodes_ok_mono [OF assms]) auto

lemma decodes_step:
  assumes "\<And>v. decodes_ok L (k v) (\<lambda>w ys. admits L v \<longrightarrow> Q w (enc v @ ys))"
  shows "decodes L (rd_sub dec k) Q"
  by (rule decodes_sub [OF sound], rule decodes_ok_mono [OF assms]) auto

lemma parses_list:
  "(\<And>v. v \<in> set vs \<Longrightarrow> admits L v) \<Longrightarrow> parses L (rd_list (length vs) dec) (concat (map enc vs)) (Inr vs)"
proof (induction vs)
  case (Cons v vs)
  then have "parses L (rd_list (length vs) dec) (concat (map enc vs)) (Inr vs)" by simp
  then have "parses L (rd_sub (rd_list (length vs) dec) (\<lambda>xs. ret (Inr (v # xs)))) (concat (map enc vs)) (Inr (v # vs))"
    by (rule parses_sub [where ys = "[]", simplified]) (rule parses_ret)
  with Cons.prems show ?case by (simp add: parses_step)
qed auto

lemma decodes_list:
  "decodes_ok L (rd_list n dec) (\<lambda>vs xs. length vs = n \<and> xs = concat (map enc vs) \<and> (\<forall>v \<in> set vs. admits L v))"
proof (induction n)
  case 0
  then show ?case by (simp add: decodes_ok_value)
next
  case (Suc n)
  show ?case
    by (simp, rule decodes_ok_step, rule decodes_ok_sub [OF Suc], rule decodes_ok_value) auto
qed

lemma decode_exact: "rd_all dec data L = Inr v \<longleftrightarrow> data = enc v \<and> admits L v"
proof
  let ?r = "mk_reader data L"
  have r: "rd_limits ?r = L" "rd_error ?r = Ok" "rd_rest ?r = data" "rd_data ?r = data" "rd_offset ?r = 0"
    by (simp_all add: mk_reader_def rd_rest_def)
  {
    assume "data = enc v \<and> admits L v"
    then have "run_state dec ?r = (Inr v, rd_advance (length data) ?r)"
      using complete [of L v] r unfolding parses_def by simp
    then show "rd_all dec data L = Inr v"
      by (simp add: rd_all_def rd_sub_def rd_finish_def rd_require_end_def run_state_bind
          rd_advance_def mk_reader_def)
  next
    assume "rd_all dec data L = Inr v"
    then obtain r' where run: "run_state dec ?r = (Inr v, r')" and fin: "rd_error r' = Ok" "rd_offset r' = length (rd_data r')"
      by (auto simp: rd_all_def rd_sub_def rd_finish_def rd_require_end_def run_state_bind
          split: prod.splits sum.splits if_splits)
    obtain xs where "consumed ?r r' xs" "xs = enc v \<and> admits L v"
      using decodes_okD [OF decodes_imp_ok [OF sound] r(1,2) run] .
    then show "data = enc v \<and> admits L v"
      using fin r by (simp add: consumed_def rd_rest_def)
  }
qed

lemma enc_injective: "admits L v \<Longrightarrow> enc v = enc w \<Longrightarrow> admits L w \<Longrightarrow> v = w"
  using decode_exact [of "enc v" L v] decode_exact [of "enc v" L w] by simp

end

text \<open>
  The weaker contract of a decoder that is canonical only on some values: it accepts every
  encoding, returns admitted values only, and on exact values has a single preimage.
\<close>

locale record_reader =
  fixes enc :: "'a \<Rightarrow> bytes" and dec :: "'a result reader" and admits :: "limits \<Rightarrow> 'a \<Rightarrow> bool"
    and exact :: "'a \<Rightarrow> bool"
  assumes accepts: "admits L v \<Longrightarrow> parses L dec (enc v) (Inr v)"
    and admitted: "decodes L dec (\<lambda>v xs. admits L v \<and> (exact v \<longrightarrow> xs = enc v))"
begin

lemma read_back: "admits L v \<Longrightarrow> rd_all dec (enc v) L = Inr v"
  using accepts [of L v] unfolding parses_def
  by (auto simp: rd_all_def rd_sub_def rd_finish_def rd_require_end_def run_state_bind rd_advance_def
      mk_reader_def rd_rest_def)

lemma read_admits:
  assumes "rd_all dec data L = Inr v"
  shows "admits L v \<and> (exact v \<longrightarrow> data = enc v)"
proof -
  let ?r = "mk_reader data L"
  have r: "rd_limits ?r = L" "rd_error ?r = Ok" "rd_rest ?r = data"
    by (simp_all add: mk_reader_def rd_rest_def)
  obtain r' where run: "run_state dec ?r = (Inr v, r')" and fin: "rd_offset r' = length (rd_data r')"
    using assms by (auto simp: rd_all_def rd_sub_def rd_finish_def rd_require_end_def run_state_bind
        split: prod.splits sum.splits if_splits)
  obtain xs where "consumed ?r r' xs" "admits L v \<and> (exact v \<longrightarrow> xs = enc v)"
    using decodes_okD [OF decodes_imp_ok [OF admitted] r(1,2) run] .
  then show ?thesis using fin r by (simp add: consumed_def rd_rest_def)
qed

end

sublocale record_codec \<subseteq> as_reader: record_reader enc dec admits "\<lambda>_. True"
  by unfold_locales (auto intro: complete decodes_mono [OF sound])

section \<open>Counts\<close>

lemma parses_count:
  assumes "n \<le> unat m" "n \<le> unat (max_collection_items L)" "n \<le> length ys" "4 \<le> max_allocation_bytes L"
    and k: "parses L (k (word_of_nat n)) ys w"
  shows "parses L (rd_collection_count m \<bind> k) (put_u32 (word_of_nat n) @ ys) w"
proof -
  have n: "unat (word_of_nat n :: u32) = n"
    using assms(2) unat32_bound [of "max_collection_items L"] by (intro unat_of_length_u32) simp
  have "run_state (rd_collection_count m) r = (word_of_nat n, rd_advance (length (put_u32 (word_of_nat n))) r)"
    if "rd_limits r = L" "rd_error r = Ok" "rd_rest r = (put_u32 (word_of_nat n) @ ys) @ post" for r post
  proof -
    have "run_state rd_u32 r = (word_of_nat n, rd_advance (length (put_u32 (word_of_nat n))) r)"
      using u32.complete [OF assms(4), of "word_of_nat n"] that unfolding parses_def by simp
    moreover have "n \<le> rd_remaining (rd_advance (length (put_u32 (word_of_nat n))) r)"
      using that assms(3) by (simp flip: length_rd_rest)
    ultimately show ?thesis
      using assms n that
      by (simp add: rd_collection_count_def run_state_bind rd_ok_def rd_get_limits_def rd_get_remaining_def
          word_less_nat_alt)
  qed
  then show ?thesis
    using k unfolding parses_def by (simp add: run_state_bind)
qed

lemma reads_count:
  "reads L (rd_collection_count m)
     (\<lambda>n xs. xs = put_u32 n \<and> unat n \<le> unat m \<and> n \<le> max_collection_items L \<and> 4 \<le> max_allocation_bytes L)"
  unfolding rd_collection_count_def
  by (rule u32.reads_step, rule reads_bind [OF reads_ok], rule reads_bind [OF reads_limits],
      rule reads_bind [OF reads_remaining])
    (auto intro!: reads_ret reads_fail_ret simp: word_less_nat_alt word_le_nat_alt)

lemma parses_get_limits: "parses L (k L) xs v \<Longrightarrow> parses L (rd_get_limits \<bind> k) xs v"
  by (simp add: parses_def rd_get_limits_def run_state_bind)

lemma decodes_get_limits: "decodes L (k L) P \<Longrightarrow> decodes L (rd_get_limits \<bind> k) P"
  by (auto simp: decodes_def decodes_ok_def rd_get_limits_def run_state_bind)

lemma decodes_count:
  assumes "\<And>n. decodes L (k n) (\<lambda>w ys. unat n \<le> unat m \<and> n \<le> max_collection_items L \<and>
      4 \<le> max_allocation_bytes L \<longrightarrow> Q w (put_u32 n @ ys))"
  shows "decodes L (rd_collection_count m \<bind> k) Q"
  by (rule decodes_bind [OF reads_count], rule decodes_mono [OF assms]) auto

end
