(* ===== verification/Fabric_Store.thy ===== *)
theory Fabric_Store
  imports Fabric_Codec
begin

text \<open>
  The durable store (\<open>durable_store.hpp\<close>, \<open>durable_store.cpp\<close>, POSIX branches) and the sink the
  coordinator tool puts in front of it (\<open>StoreSink\<close>): snapshot files, the journal with its buffered
  scan, opening, appending, compaction.

  The directory is a \<open>host\<close>: four files and a script of what the operating system does next, so
  failed, interrupted and partial calls are part of every run. File offsets and sizes are naturals,
  since \<open>off_t\<close> keeps them far below the range of the 64-bit counters; sequences are 64-bit words.
  The transfer loops end because every iteration moves a byte or uses up an event; the scan loop ends
  because every record it accepts consumes its header.
\<close>

section \<open>The host\<close>

text \<open>
  The four files of the store directory and what the operating system will do next. Each system
  call consumes one event: a failure, a call interrupted by a signal (\<open>EINTR\<close>), or a transfer of
  fewer bytes than asked. A script that has run out lets every call succeed in full.
\<close>

datatype file_name = F_Primary | F_Previous | F_Temporary | F_Journal

datatype io_event = IO_Fail | IO_Interrupted | IO_Partial nat

record host =
  os_files :: "file_name \<Rightarrow> bytes option"
  os_events :: "io_event list"

definition pop_event :: "io_event list \<Rightarrow> io_event option \<times> io_event list" where
  "pop_event es = (case es of [] \<Rightarrow> (None, []) | event # events \<Rightarrow> (Some event, events))"

text \<open>A call that either succeeds or fails: \<open>open\<close>, \<open>fstat\<close>, \<open>ftruncate\<close>, \<open>lseek\<close>, \<open>fsync\<close>, \<open>rename\<close>, \<open>unlink\<close>.\<close>

definition syscall :: "host \<Rightarrow> bool \<times> host" where
  "syscall h = (case pop_event (os_events h) of (event, events) \<Rightarrow> (event \<noteq> Some IO_Fail, h\<lparr>os_events := events\<rparr>))"

definition set_file :: "file_name \<Rightarrow> bytes option \<Rightarrow> host \<Rightarrow> host" where
  "set_file name content h = h\<lparr>os_files := (os_files h)(name := content)\<rparr>"

definition resized :: "nat \<Rightarrow> bytes \<Rightarrow> bytes" where
  "resized fsize content = take fsize content @ replicate (fsize - length content) 0"

definition write_at :: "nat \<Rightarrow> bytes \<Rightarrow> bytes \<Rightarrow> bytes" where
  "write_at position data content =
     resized position content @ data @ drop (position + length data) content"

section \<open>Byte access\<close>

definition kSnapshotHeaderBytes :: nat where "kSnapshotHeaderBytes = 72"

definition kJournalHeaderBytes :: nat where "kJournalHeaderBytes = 24"

definition kSnapshotVersion :: u32 where "kSnapshotVersion = 1"

definition kJournalRecordMagic :: u32 where "kJournalRecordMagic = 0x4E524A31"

definition kSnapshotMagic :: bytes where
  "kSnapshotMagic = [0x53, 0x46, 0x53, 0x4E, 0x41, 0x50, 0x30, 0x31]"

definition kReadBufferBytes :: nat where "kReadBufferBytes = 65536"

definition kTransferBytes :: nat where "kTransferBytes = 1048576"

definition load_u32 :: "bytes \<Rightarrow> nat \<Rightarrow> u32" where
  "load_u32 data offset = le_word (take 4 (drop offset data))"

definition load_u64 :: "bytes \<Rightarrow> nat \<Rightarrow> u64" where
  "load_u64 data offset = le_word (take 8 (drop offset data))"

definition store_bytes :: "bytes \<Rightarrow> nat \<Rightarrow> bytes \<Rightarrow> bytes" where
  "store_bytes data offset value = take offset data @ value @ drop (offset + length value) data"

definition store_u32 :: "bytes \<Rightarrow> nat \<Rightarrow> u32 \<Rightarrow> bytes" where
  "store_u32 data offset value = store_bytes data offset (le_bytes 4 value)"

definition store_u64 :: "bytes \<Rightarrow> nat \<Rightarrow> u64 \<Rightarrow> bytes" where
  "store_u64 data offset value = store_bytes data offset (le_bytes 8 value)"

section \<open>Files\<close>

text \<open>A file opened for reading is what is left of it to read.\<close>

definition open_for_read :: "file_name \<Rightarrow> host \<Rightarrow> bytes result \<times> host" where
  "open_for_read name h =
     (case syscall h of
        (False, h1) \<Rightarrow> (Inl PersistenceFailure, h1)
      | (True, h1) \<Rightarrow>
          (case os_files h1 name of None \<Rightarrow> (Inl InvalidArgument, h1) | Some content \<Rightarrow> (Inr content, h1)))"

definition create_for_write :: "file_name \<Rightarrow> host \<Rightarrow> status \<times> host" where
  "create_for_write name h =
     (case syscall h of
        (False, h1) \<Rightarrow> (Inl PersistenceFailure, h1)
      | (True, h1) \<Rightarrow> (ok_status, set_file name (Some []) h1))"

definition ftruncate :: "file_name \<Rightarrow> nat \<Rightarrow> host \<Rightarrow> bool \<times> host" where
  "ftruncate name fsize h =
     (case syscall h of
        (False, h1) \<Rightarrow> (False, h1)
      | (True, h1) \<Rightarrow> (True, set_file name (map_option (resized fsize) (os_files h1 name)) h1))"

text \<open>The result of opening for append is the write position.\<close>

definition open_for_append :: "file_name \<Rightarrow> nat \<Rightarrow> host \<Rightarrow> nat result \<times> host" where
  "open_for_append name offset h =
     (case syscall h of
        (False, h1) \<Rightarrow> (Inl PersistenceFailure, h1)
      | (True, h1) \<Rightarrow>
        (let h2 = set_file name (Some (case os_files h1 name of None \<Rightarrow> [] | Some content \<Rightarrow> content)) h1 in
         case ftruncate name offset h2 of
           (False, h3) \<Rightarrow> (Inl PersistenceFailure, h3)
         | (True, h3) \<Rightarrow>
             (case syscall h3 of
                (False, h4) \<Rightarrow> (Inl PersistenceFailure, h4) | (True, h4) \<Rightarrow> (Inr offset, h4))))"

definition file_size :: "bytes \<Rightarrow> host \<Rightarrow> nat result \<times> host" where
  "file_size content h =
     (case syscall h of (False, h1) \<Rightarrow> (Inl PersistenceFailure, h1) | (True, h1) \<Rightarrow> (Inr (length content), h1))"

text \<open>One transfer moves at least one byte when there is one, and no more than \<open>kTransferBytes\<close>.\<close>

definition transfer_size :: "io_event option \<Rightarrow> nat \<Rightarrow> nat" where
  "transfer_size event wanted =
     (case event of Some (IO_Partial n) \<Rightarrow> min n (min wanted kTransferBytes) | _ \<Rightarrow> min wanted kTransferBytes)"

function read_upto :: "nat \<Rightarrow> bytes \<Rightarrow> io_event list \<Rightarrow> (bytes \<times> bytes) result \<times> io_event list" where
  "read_upto wanted rest es =
     (if wanted = 0 then (Inr ([], rest), es)
      else case pop_event es of
        (Some IO_Fail, es1) \<Rightarrow> (Inl PersistenceFailure, es1)
      | (Some IO_Interrupted, es1) \<Rightarrow> read_upto wanted rest es1
      | (event, es1) \<Rightarrow>
          if rest = [] then (Inr ([], []), es1)
          else
            (let n = max 1 (transfer_size event (min wanted (length rest))) in
             case read_upto (wanted - n) (drop n rest) es1 of
               (Inl e, es2) \<Rightarrow> (Inl e, es2)
             | (Inr (others, rest1), es2) \<Rightarrow> (Inr (take n rest @ others, rest1), es2)))"
  by pat_completeness auto
termination
  by (relation "measure (\<lambda>(wanted, rest, es). wanted + length es)") (auto simp: pop_event_def split: list.splits)


text \<open>
  A write that moves no byte is tried again, as the POSIX branch does. The result carries the
  position after the bytes that were written, also when a later chunk fails.
\<close>

function write_all :: "bytes \<Rightarrow> nat \<Rightarrow> bytes \<Rightarrow> io_event list \<Rightarrow> status \<times> nat \<times> bytes \<times> io_event list" where
  "write_all data position content es =
     (if data = [] then (ok_status, position, content, es)
      else case pop_event es of
        (Some IO_Fail, es1) \<Rightarrow> (Inl PersistenceFailure, position, content, es1)
      | (Some IO_Interrupted, es1) \<Rightarrow> write_all data position content es1
      | (event, es1) \<Rightarrow>
          (let n = transfer_size event (length data) in
           write_all (drop n data) (position + n) (write_at position (take n data) content) es1))"
  by pat_completeness auto
termination
  by (relation "measure (\<lambda>(data, position, content, es). length data + length es)")
    (auto simp: transfer_size_def kTransferBytes_def pop_event_def split: list.splits)

definition write_file :: "file_name \<Rightarrow> bytes \<Rightarrow> nat \<Rightarrow> host \<Rightarrow> status \<times> nat \<times> host" where
  "write_file name data position h =
     (case os_files h name of
        None \<Rightarrow> (Inl PersistenceFailure, position, h)
      | Some content \<Rightarrow>
          (case write_all data position content (os_events h) of
             (st, position1, content1, es) \<Rightarrow> (st, position1, (set_file name (Some content1) h)\<lparr>os_events := es\<rparr>)))"

definition flush_file :: "host \<Rightarrow> status \<times> host" where
  "flush_file h =
     (case syscall h of (False, h1) \<Rightarrow> (Inl PersistenceFailure, h1) | (True, h1) \<Rightarrow> (ok_status, h1))"

text \<open>\<open>write_all\<close> of the header, \<open>write_all\<close> of the payload, \<open>flush_file\<close>: each only after the one before succeeded.\<close>

definition write_flushed :: "file_name \<Rightarrow> bytes \<Rightarrow> bytes \<Rightarrow> nat \<Rightarrow> host \<Rightarrow> status \<times> nat \<times> host" where
  "write_flushed name header payload position h =
     (case write_file name header position h of
        (Inl e, position1, h1) \<Rightarrow> (Inl e, position1, h1)
      | (Inr _, position1, h1) \<Rightarrow>
        (case write_file name payload position1 h1 of
           (Inl e, position2, h2) \<Rightarrow> (Inl e, position2, h2)
         | (Inr _, position2, h2) \<Rightarrow> (case flush_file h2 of (st, h3) \<Rightarrow> (st, position2, h3))))"

text \<open>The new position is \<open>None\<close> when the call stopped before the position was set.\<close>

definition truncate_file :: "file_name \<Rightarrow> nat \<Rightarrow> host \<Rightarrow> status \<times> nat option \<times> host" where
  "truncate_file name fsize h =
     (case ftruncate name fsize h of
        (False, h1) \<Rightarrow> (Inl PersistenceFailure, None, h1)
      | (True, h1) \<Rightarrow>
        (case syscall h1 of
           (False, h2) \<Rightarrow> (Inl PersistenceFailure, None, h2)
         | (True, h2) \<Rightarrow> (case flush_file h2 of (st, h3) \<Rightarrow> (st, Some fsize, h3))))"

definition path_exists :: "file_name \<Rightarrow> host \<Rightarrow> bool \<times> host" where
  "path_exists name h = (case syscall h of (ok, h1) \<Rightarrow> (ok \<and> os_files h1 name \<noteq> None, h1))"

definition remove_quietly :: "file_name \<Rightarrow> host \<Rightarrow> host" where
  "remove_quietly name h = (case syscall h of (False, h1) \<Rightarrow> h1 | (True, h1) \<Rightarrow> set_file name None h1)"

definition rename_file :: "file_name \<Rightarrow> file_name \<Rightarrow> host \<Rightarrow> bool \<times> host" where
  "rename_file source destination h =
     (case syscall h of
        (False, h1) \<Rightarrow> (False, h1)
      | (True, h1) \<Rightarrow> (True, set_file source None (set_file destination (os_files h1 source) h1)))"

definition replace_file :: "file_name \<Rightarrow> file_name \<Rightarrow> file_name \<Rightarrow> host \<Rightarrow> status \<times> host" where
  "replace_file source destination backup h =
     (case path_exists destination h of (present, h1) \<Rightarrow>
      case (if present then rename_file destination backup h1 else (True, h1)) of
        (False, h2) \<Rightarrow> (Inl AtomicReplaceFailed, h2)
      | (True, h2) \<Rightarrow>
          (case rename_file source destination h2 of
             (False, h3) \<Rightarrow> (Inl AtomicReplaceFailed, h3) | (True, h3) \<Rightarrow> (ok_status, h3)))"

section \<open>Snapshots\<close>

definition read_exact :: "nat \<Rightarrow> bytes \<Rightarrow> host \<Rightarrow> (bytes \<times> bytes) result \<times> host" where
  "read_exact wanted rest h =
     (case read_upto wanted rest (os_events h) of
        (Inl e, es) \<Rightarrow> (Inl e, h\<lparr>os_events := es\<rparr>)
      | (Inr (got, rest1), es) \<Rightarrow>
          (if length got \<noteq> wanted then Inl TruncatedInput else Inr (got, rest1), h\<lparr>os_events := es\<rparr>))"

record snapshot_image =
  si_sequence :: u64
  si_payload :: bytes

text \<open>The checks on the header, with the size of the file; the result is the declared payload length.\<close>

definition check_snapshot_header :: "bytes \<Rightarrow> nat \<Rightarrow> limits \<Rightarrow> nat result" where
  "check_snapshot_header header fsize l =
     (if take 8 header \<noteq> kSnapshotMagic then Inl MalformedInput
      else if load_u32 header 8 \<noteq> kSnapshotVersion then Inl UnsupportedVersion
      else if load_u32 header 12 \<noteq> 0 then Inl MalformedInput
      else if load_u64 header 24 > max_state_bytes l then Inl StateTooLarge
      else if crc32c (take 32 header) \<noteq> load_u32 header 32 then Inl ChecksumMismatch
      else case checked_add (word_of_nat kSnapshotHeaderBytes) (load_u64 header 24) of
        Inl e \<Rightarrow> Inl e
      | Inr expected \<Rightarrow>
          if fsize < unat expected then Inl TruncatedInput
          else if fsize > unat expected then Inl TrailingGarbage
          else Inr (unat (load_u64 header 24)))"

definition check_snapshot_payload :: "bytes \<Rightarrow> bytes \<Rightarrow> snapshot_image result" where
  "check_snapshot_payload header payload =
     (if crc32c payload \<noteq> load_u32 header 36 then Inl ChecksumMismatch
      else if take 32 (drop 40 header) \<noteq> sha256 payload then Inl ChecksumMismatch
      else Inr \<lparr>si_sequence = load_u64 header 16, si_payload = payload\<rparr>)"

definition decode_snapshot_file :: "file_name \<Rightarrow> limits \<Rightarrow> host \<Rightarrow> snapshot_image result \<times> host" where
  "decode_snapshot_file name l h =
     (case open_for_read name h of
        (Inl e, h1) \<Rightarrow> (Inl e, h1)
      | (Inr content, h1) \<Rightarrow>
        (case file_size content h1 of
           (Inl e, h2) \<Rightarrow> (Inl e, h2)
         | (Inr fsize, h2) \<Rightarrow>
           if fsize < kSnapshotHeaderBytes then (Inl TruncatedInput, h2)
           else case read_exact kSnapshotHeaderBytes content h2 of
             (Inl e, h3) \<Rightarrow> (Inl e, h3)
           | (Inr (header, rest), h3) \<Rightarrow>
             (case check_snapshot_header header fsize l of
                Inl e \<Rightarrow> (Inl e, h3)
              | Inr payload_length \<Rightarrow>
                (case read_exact payload_length rest h3 of
                   (Inl e, h4) \<Rightarrow> (Inl e, h4)
                 | (Inr (payload, rest1), h4) \<Rightarrow> (check_snapshot_payload header payload, h4)))))"

definition read_snapshot :: "file_name \<Rightarrow> limits \<Rightarrow> host \<Rightarrow> bytes result \<times> host" where
  "read_snapshot name l h =
     (case decode_snapshot_file name l h of
        (Inl e, h1) \<Rightarrow> (Inl e, h1) | (Inr loaded, h1) \<Rightarrow> (Inr (si_payload loaded), h1))"

section \<open>The journal scan\<close>

text \<open>The buffered reader: the unread part of the file and the unread part of the buffer.\<close>

record scanner =
  js_rest :: bytes
  js_buffer :: bytes
  js_position :: nat

definition mk_scanner :: "bytes \<Rightarrow> scanner" where
  "mk_scanner content = \<lparr>js_rest = content, js_buffer = [], js_position = 0\<rparr>"

definition refill :: "scanner \<Rightarrow> io_event list \<Rightarrow> status \<times> scanner \<times> io_event list" where
  "refill sc es =
     (if js_buffer sc \<noteq> [] then (ok_status, sc, es)
      else case read_upto kReadBufferBytes (js_rest sc) es of
        (Inl e, es1) \<Rightarrow> (Inl e, sc, es1)
      | (Inr (got, rest), es1) \<Rightarrow> (ok_status, sc\<lparr>js_rest := rest, js_buffer := got\<rparr>, es1))"

text \<open>The bytes read; fewer than wanted when the file ends first.\<close>

function read_full :: "nat \<Rightarrow> scanner \<Rightarrow> io_event list \<Rightarrow> bytes result \<times> scanner \<times> io_event list" where
  "read_full wanted sc es =
     (if wanted = 0 then (Inr [], sc, es)
      else case refill sc es of
        (Inl e, sc1, es1) \<Rightarrow> (Inl e, sc1, es1)
      | (Inr _, sc1, es1) \<Rightarrow>
          if js_buffer sc1 = [] then (Inr [], sc1, es1)
          else
            (let n = min (length (js_buffer sc1)) wanted;
                 sc2 = sc1\<lparr>js_buffer := drop n (js_buffer sc1), js_position := js_position sc1 + n\<rparr>
             in case read_full (wanted - n) sc2 es1 of
               (Inl e, sc3, es2) \<Rightarrow> (Inl e, sc3, es2)
             | (Inr others, sc3, es2) \<Rightarrow> (Inr (take n (js_buffer sc1) @ others), sc3, es2)))"
  by pat_completeness auto
termination
  by (relation "measure (\<lambda>(wanted, sc, es). wanted)") auto

datatype journal_tail = JT_Clean | JT_TornTail | JT_Corrupt | JT_Missing

record journal_scan =
  jn_records :: "bytes list"
  jn_last_sequence :: u64
  jn_replayable_bytes :: nat
  jn_records_replayed :: nat
  jn_records_skipped :: nat
  jn_bytes_discarded :: nat
  jn_tail :: journal_tail

definition empty_scan :: journal_scan where
  "empty_scan = \<lparr>jn_records = [], jn_last_sequence = 0, jn_replayable_bytes = 0, jn_records_replayed = 0,
     jn_records_skipped = 0, jn_bytes_discarded = 0, jn_tail = JT_Clean\<rparr>"

text \<open>One record as the loop body sees it: the end of the file, an unusable record, or a payload.\<close>

datatype scanned_record = SR_End | SR_Refused journal_tail | SR_Record u64 bytes

definition check_journal_header :: "bytes \<Rightarrow> limits \<Rightarrow> bool" where
  "check_journal_header header l \<longleftrightarrow>
     load_u32 header 0 = kJournalRecordMagic \<and>
     unat (load_u32 header 4) \<le> unat (max_journal_record_bytes l) \<and>
     crc32c (take 16 header) = load_u32 header 16"

definition read_record :: "limits \<Rightarrow> scanner \<Rightarrow> io_event list \<Rightarrow> scanned_record result \<times> scanner \<times> io_event list" where
  "read_record l sc es =
     (case read_full kJournalHeaderBytes sc es of
        (Inl e, sc1, es1) \<Rightarrow> (Inl e, sc1, es1)
      | (Inr header, sc1, es1) \<Rightarrow>
        if length header \<noteq> kJournalHeaderBytes
        then (Inr (if js_position sc1 \<noteq> js_position sc then SR_Refused JT_TornTail else SR_End), sc1, es1)
        else if \<not> check_journal_header header l then (Inr (SR_Refused JT_Corrupt), sc1, es1)
        else case read_full (unat (load_u32 header 4)) sc1 es1 of
          (Inl e, sc2, es2) \<Rightarrow> (Inl e, sc2, es2)
        | (Inr payload, sc2, es2) \<Rightarrow>
            (Inr (if length payload \<noteq> unat (load_u32 header 4) then SR_Refused JT_TornTail
                  else if crc32c payload \<noteq> load_u32 header 20 then SR_Refused JT_Corrupt
                  else SR_Record (load_u64 header 8) payload), sc2, es2))"

definition scan_refused :: "journal_tail \<Rightarrow> nat \<Rightarrow> nat \<Rightarrow> u64 \<Rightarrow> journal_scan \<Rightarrow> journal_scan" where
  "scan_refused tail fsize record_offset last_seen scan =
     scan\<lparr>jn_tail := tail, jn_last_sequence := last_seen, jn_bytes_discarded := fsize - record_offset\<rparr>"

definition scan_record :: "u64 \<Rightarrow> u64 \<Rightarrow> u64 \<Rightarrow> bytes \<Rightarrow> nat \<Rightarrow> journal_scan \<Rightarrow> journal_scan" where
  "scan_record snapshot_sequence last_seen sequence payload position scan =
     (if sequence = last_seen \<or> sequence \<le> snapshot_sequence
      then scan\<lparr>jn_records_skipped := jn_records_skipped scan + 1, jn_replayable_bytes := position\<rparr>
      else scan\<lparr>jn_records := jn_records scan @ [payload], jn_records_replayed := jn_records_replayed scan + 1,
                jn_replayable_bytes := position\<rparr>)"

text \<open>The bytes a scanner has not handed out; every record consumes its header.\<close>

definition unread :: "scanner \<Rightarrow> bytes" where
  "unread sc = js_buffer sc @ js_rest sc"

section \<open>Lemmas: reading\<close>

declare read_upto.simps [simp del] write_all.simps [simp del] read_full.simps [simp del]

lemma split_take: "n \<le> w \<Longrightarrow> take n xs @ take (w - n) (drop n xs) = take w xs"
  by (metis le_add_diff_inverse take_add)

definition moves :: "io_event option \<Rightarrow> bool" where
  "moves event \<longleftrightarrow> event \<noteq> Some IO_Fail \<and> event \<noteq> Some IO_Interrupted"

lemma read_upto_step:
  "read_upto 0 rest es = (Inr ([], rest), es)"
  "0 < wanted \<Longrightarrow> pop_event es = (Some IO_Fail, es1) \<Longrightarrow> read_upto wanted rest es = (Inl PersistenceFailure, es1)"
  "0 < wanted \<Longrightarrow> pop_event es = (Some IO_Interrupted, es1) \<Longrightarrow> read_upto wanted rest es = read_upto wanted rest es1"
  "0 < wanted \<Longrightarrow> pop_event es = (event, es1) \<Longrightarrow> moves event \<Longrightarrow> read_upto wanted [] es = (Inr ([], []), es1)"
  "0 < wanted \<Longrightarrow> pop_event es = (event, es1) \<Longrightarrow> moves event \<Longrightarrow> rest \<noteq> [] \<Longrightarrow>
    n = max 1 (transfer_size event (min wanted (length rest))) \<Longrightarrow>
    read_upto wanted rest es = (case read_upto (wanted - n) (drop n rest) es1 of
       (Inl e, es2) \<Rightarrow> (Inl e, es2) | (Inr (others, rest1), es2) \<Rightarrow> (Inr (take n rest @ others, rest1), es2))"
proof -
  show "read_upto 0 rest es = (Inr ([], rest), es)" by (subst read_upto.simps) simp
  show "0 < wanted \<Longrightarrow> pop_event es = (Some IO_Fail, es1) \<Longrightarrow> read_upto wanted rest es = (Inl PersistenceFailure, es1)"
    by (subst read_upto.simps) simp
  show "0 < wanted \<Longrightarrow> pop_event es = (Some IO_Interrupted, es1) \<Longrightarrow> read_upto wanted rest es = read_upto wanted rest es1"
    by (subst read_upto.simps) simp
  assume e: "pop_event es = (event, es1)" "moves event" and w: "0 < wanted"
  then consider "event = None" | k where "event = Some (IO_Partial k)"
    by (cases event; cases "the event") (auto simp: moves_def)
  note ev = this
  show "read_upto wanted [] es = (Inr ([], []), es1)"
    using ev
  proof cases
    case 1
    then show ?thesis using e w by (subst read_upto.simps) simp
  next
    case (2 k)
    then show ?thesis using e w by (subst read_upto.simps) simp
  qed
  assume r: "rest \<noteq> []" "n = max 1 (transfer_size event (min wanted (length rest)))"
  show "read_upto wanted rest es = (case read_upto (wanted - n) (drop n rest) es1 of
       (Inl e, es2) \<Rightarrow> (Inl e, es2) | (Inr (others, rest1), es2) \<Rightarrow> (Inr (take n rest @ others, rest1), es2))"
    using ev
  proof cases
    case 1
    show ?thesis using e w r(1) unfolding r(2) 1 by (subst read_upto.simps) (simp add: Let_def del: One_nat_def)
  next
    case (2 k)
    show ?thesis using e w r(1) unfolding r(2) 2 by (subst read_upto.simps) (simp add: Let_def del: One_nat_def)
  qed
qed

lemma read_upto_take:
  "read_upto wanted rest es = (Inr (got, rest'), es') \<Longrightarrow> got = take wanted rest \<and> rest' = drop wanted rest"
proof (induction "wanted + length es" arbitrary: wanted rest es got rest' es' rule: less_induct)
  case less
  obtain event es1 where p: "pop_event es = (event, es1)" by fastforce
  then have len: "length es1 \<le> length es" "event \<noteq> None \<Longrightarrow> length es1 < length es"
    by (auto simp: pop_event_def split: list.splits)
  consider "wanted = 0" | "0 < wanted" "event = Some IO_Fail" | "0 < wanted" "event = Some IO_Interrupted"
    | "0 < wanted" "moves event" "rest = []" | "0 < wanted" "moves event" "rest \<noteq> []"
    by (auto simp: moves_def)
  then show ?case
  proof cases
    case 3
    then show ?thesis using less.hyps [of wanted es1 rest] less.prems p len read_upto_step(3) by auto
  next
    case 5
    let ?n = "max 1 (transfer_size event (min wanted (length rest)))"
    have n: "?n \<le> wanted" "0 < ?n" using 5 by (cases rest) (auto simp: transfer_size_def split: option.split io_event.split)
    obtain others where o: "read_upto (wanted - ?n) (drop ?n rest) es1 = (Inr (others, rest'), es')" "got = take ?n rest @ others"
      using less.prems read_upto_step(5) [OF 5(1) p 5(2,3) refl] by (auto split: prod.splits sum.splits)
    have "others = take (wanted - ?n) (drop ?n rest) \<and> rest' = drop (wanted - ?n) (drop ?n rest)"
      by (rule less.hyps [OF _ o(1)]) (use n len in linarith)
    then show ?thesis using o(2) n split_take [OF n(1), of rest] by (simp del: take_drop)
  qed (use less.prems p read_upto_step in auto)
qed

lemma read_upto_ok: "IO_Fail \<notin> set es \<Longrightarrow> \<exists>p es'. read_upto wanted rest es = (Inr p, es') \<and> set es' \<subseteq> set es"
proof (induction "wanted + length es" arbitrary: wanted rest es rule: less_induct)
  case less
  obtain event es1 where p: "pop_event es = (event, es1)" by fastforce
  then have len: "length es1 \<le> length es" "event \<noteq> None \<Longrightarrow> length es1 < length es" "set es1 \<subseteq> set es"
    "event \<noteq> Some IO_Fail"
    using less.prems by (auto simp: pop_event_def split: list.splits)
  then have nf: "IO_Fail \<notin> set es1" using less.prems by auto
  consider "wanted = 0" | "0 < wanted" "event = Some IO_Interrupted"
    | "0 < wanted" "moves event" "rest = []" | "0 < wanted" "moves event" "rest \<noteq> []"
    using len by (auto simp: moves_def)
  then show ?case
  proof cases
    case 2
    then show ?thesis using less.hyps [of wanted es1 rest] nf p len read_upto_step(3) [OF 2(1), of es es1 rest] by auto
  next
    case 4
    let ?n = "max 1 (transfer_size event (min wanted (length rest)))"
    have "\<exists>q es'. read_upto (wanted - ?n) (drop ?n rest) es1 = (Inr q, es') \<and> set es' \<subseteq> set es1"
      by (rule less.hyps [OF _ nf]) (use 4 len in linarith)
    then show ?thesis using read_upto_step(5) [OF 4(1) p 4(2,3) refl] len by fastforce
  qed (use p len read_upto_step in auto)
qed

lemma refill_unread:
  "refill sc es = (Inr u, sc1, es1) \<Longrightarrow> unread sc1 = unread sc \<and> js_position sc1 = js_position sc \<and>
     (js_buffer sc1 = [] \<longrightarrow> unread sc = [])"
  using read_upto_take [of kReadBufferBytes "js_rest sc" es]
  by (auto simp: refill_def unread_def kReadBufferBytes_def split: if_splits prod.splits sum.splits)

lemma read_full_take:
  "read_full wanted sc es = (Inr got, sc', es') \<Longrightarrow>
     got = take wanted (unread sc) \<and> unread sc' = drop wanted (unread sc) \<and> js_position sc' = js_position sc + length got"
proof (induction wanted arbitrary: sc es got sc' es' rule: less_induct)
  case (less wanted)
  show ?case
  proof (cases "wanted = 0")
    case False
    obtain sc1 es1 where r: "refill sc es = (Inr (), sc1, es1)"
      using less.prems False by (subst (asm) read_full.simps) (auto split: prod.splits sum.splits)
    note u = refill_unread [OF r]
    show ?thesis
    proof (cases "js_buffer sc1 = []")
      case True
      then show ?thesis using less.prems False r u by (subst (asm) read_full.simps) (auto simp: unread_def)
    next
      case full: False
      let ?n = "min (length (js_buffer sc1)) wanted"
      let ?sc2 = "sc1\<lparr>js_buffer := drop ?n (js_buffer sc1), js_position := js_position sc1 + ?n\<rparr>"
      obtain others where o: "read_full (wanted - ?n) ?sc2 es1 = (Inr others, sc', es')" "got = take ?n (js_buffer sc1) @ others"
        using less.prems False r full by (subst (asm) read_full.simps) (auto simp: Let_def split: prod.splits sum.splits)
      have n: "wanted - ?n < wanted" "?n \<le> wanted" using False full by (cases "js_buffer sc1"; simp)+
      note ih = less.IH [OF n(1) o(1)]
      have d: "unread ?sc2 = drop ?n (unread sc1)" "take ?n (js_buffer sc1) = take ?n (unread sc1)" by (simp_all add: unread_def)
      have "js_position sc' = js_position sc + length got" using ih u unfolding o(2) by simp
      moreover have "got = take wanted (unread sc)"
        using ih u d split_take [OF n(2), of "unread sc1"] unfolding o(2) by metis
      ultimately show ?thesis using ih u n d by simp
    qed
  qed (use less.prems in \<open>subst (asm) read_full.simps; simp\<close>)
qed

lemma read_record_consumes:
  assumes "read_record l sc es = (Inr (SR_Record sequence payload), sc', es')"
  shows "length (unread sc') < length (unread sc)"
proof -
  obtain header sc1 es1 where h: "read_full kJournalHeaderBytes sc es = (Inr header, sc1, es1)" "length header = kJournalHeaderBytes"
    and p: "read_full (unat (load_u32 header 4)) sc1 es1 = (Inr payload, sc', es')"
    using assms by (auto simp: read_record_def split: prod.splits sum.splits if_splits)
  show ?thesis using read_full_take [OF h(1)] read_full_take [OF p] h(2) by (auto simp: kJournalHeaderBytes_def)
qed

section \<open>The scan loop\<close>

function scan_loop ::
  "limits \<Rightarrow> u64 \<Rightarrow> nat \<Rightarrow> scanner \<Rightarrow> u64 \<Rightarrow> journal_scan \<Rightarrow> io_event list \<Rightarrow> journal_scan result \<times> io_event list" where
  "scan_loop l snapshot_sequence fsize sc last_seen scan es =
     (case read_record l sc es of
        (Inl e, sc1, es1) \<Rightarrow> (Inl e, es1)
      | (Inr SR_End, sc1, es1) \<Rightarrow> (Inr (scan\<lparr>jn_last_sequence := last_seen\<rparr>), es1)
      | (Inr (SR_Refused tail), sc1, es1) \<Rightarrow>
          (Inr (scan_refused tail fsize (js_position sc) last_seen scan), es1)
      | (Inr (SR_Record sequence payload), sc1, es1) \<Rightarrow>
          if sequence < last_seen
          then (Inr (scan_refused JT_Corrupt fsize (js_position sc) last_seen scan), es1)
          else scan_loop l snapshot_sequence fsize sc1 sequence
                 (scan_record snapshot_sequence last_seen sequence payload (js_position sc1) scan) es1)"
  by pat_completeness auto
termination
  by (relation "measure (\<lambda>(l, snapshot_sequence, fsize, sc, last_seen, scan, es). length (unread sc))")
    (auto dest: read_record_consumes [OF sym])

definition journal_too_large :: "limits \<Rightarrow> nat \<Rightarrow> bool" where
  "journal_too_large l fsize =
     (case checked_mul (max_state_bytes l) 4 of Inl _ \<Rightarrow> False | Inr bound \<Rightarrow> fsize > unat bound)"

text \<open>The boolean of the result is the out-parameter \<open>exists\<close>.\<close>

definition scan_journal :: "limits \<Rightarrow> u64 \<Rightarrow> host \<Rightarrow> (journal_scan \<times> bool) result \<times> host" where
  "scan_journal l snapshot_sequence h =
     (case open_for_read F_Journal h of
        (Inl e, h1) \<Rightarrow>
          (if e = InvalidArgument then Inr (empty_scan\<lparr>jn_tail := JT_Missing\<rparr>, False) else Inl e, h1)
      | (Inr content, h1) \<Rightarrow>
        (case file_size content h1 of
           (Inl e, h2) \<Rightarrow> (Inl e, h2)
         | (Inr fsize, h2) \<Rightarrow>
           if journal_too_large l fsize then (Inl StateTooLarge, h2)
           else case scan_loop l snapshot_sequence fsize (mk_scanner content) 0 empty_scan (os_events h2) of
             (Inl e, es) \<Rightarrow> (Inl e, h2\<lparr>os_events := es\<rparr>)
           | (Inr scan, es) \<Rightarrow> (Inr (scan, True), h2\<lparr>os_events := es\<rparr>)))"

section \<open>The store\<close>

record recovery_report =
  rr_snapshot_loaded :: bool
  rr_snapshot_from_previous :: bool
  rr_journal_missing :: bool
  rr_snapshot_sequence :: u64
  rr_records_replayed :: nat
  rr_records_skipped :: nat
  rr_bytes_discarded :: nat
  rr_tail :: journal_tail
  rr_last_sequence :: u64
  rr_revalidation_required :: bool

definition empty_report :: recovery_report where
  "empty_report = \<lparr>rr_snapshot_loaded = False, rr_snapshot_from_previous = False, rr_journal_missing = False,
     rr_snapshot_sequence = 0, rr_records_replayed = 0, rr_records_skipped = 0, rr_bytes_discarded = 0,
     rr_tail = JT_Missing, rr_last_sequence = 0, rr_revalidation_required = False\<rparr>"

text \<open>\<open>ds_journal\<close> is the write position of the journal handle, \<open>None\<close> while it is not open.\<close>

record durable_store =
  ds_directory :: string
  ds_limits :: limits
  ds_report :: recovery_report
  ds_records :: "bytes list"
  ds_journal :: "nat option"
  ds_opened :: bool
  ds_journal_degraded :: bool
  ds_snapshot_sequence :: u64
  ds_last_sequence :: u64
  ds_journal_bytes :: nat
  ds_appended_records :: nat

definition mk_store :: "string \<Rightarrow> limits \<Rightarrow> durable_store" where
  "mk_store directory l = \<lparr>ds_directory = directory, ds_limits = l, ds_report = empty_report, ds_records = [],
     ds_journal = None, ds_opened = False, ds_journal_degraded = False, ds_snapshot_sequence = 0,
     ds_last_sequence = 0, ds_journal_bytes = 0, ds_appended_records = 0\<rparr>"

definition ensure_journal :: "durable_store \<Rightarrow> host \<Rightarrow> status \<times> durable_store \<times> host" where
  "ensure_journal s h =
     (if ds_journal s \<noteq> None then (ok_status, s, h)
      else case open_for_append F_Journal (ds_journal_bytes s) h of
        (Inl e, h1) \<Rightarrow> (Inl e, s, h1)
      | (Inr position, h1) \<Rightarrow> (ok_status, s\<lparr>ds_journal := Some position\<rparr>, h1))"

text \<open>
  The snapshot \<open>open\<close> adopts: the primary, else the previous one, else none when neither file
  exists. The boolean says that it is the previous one.
\<close>

definition adopt_snapshot :: "limits \<Rightarrow> host \<Rightarrow> (u64 \<times> bool) option result \<times> host" where
  "adopt_snapshot l h =
     (case decode_snapshot_file F_Primary l h of
        (Inr primary, h1) \<Rightarrow> (Inr (Some (si_sequence primary, False)), h1)
      | (Inl e, h1) \<Rightarrow>
        (case decode_snapshot_file F_Previous l h1 of
           (Inr previous, h2) \<Rightarrow> (Inr (Some (si_sequence previous, True)), h2)
         | (Inl e2, h2) \<Rightarrow>
             (if e \<noteq> InvalidArgument \<or> e2 \<noteq> InvalidArgument then Inl e else Inr None, h2)))"

text \<open>The store after \<open>open\<close> has adopted a snapshot, and after it has scanned the journal.\<close>

definition snapshot_store :: "(u64 \<times> bool) option \<Rightarrow> durable_store \<Rightarrow> durable_store" where
  "snapshot_store adopted s =
     (let sequence = (case adopted of None \<Rightarrow> 0 | Some (sequence, _) \<Rightarrow> sequence) in
      (mk_store (ds_directory s) (ds_limits s))\<lparr>
        ds_snapshot_sequence := sequence,
        ds_report := empty_report\<lparr>rr_snapshot_loaded := adopted \<noteq> None,
          rr_snapshot_from_previous := (case adopted of None \<Rightarrow> False | Some (_, previous) \<Rightarrow> previous),
          rr_snapshot_sequence := sequence\<rparr>\<rparr>)"

definition scanned_report :: "journal_scan \<Rightarrow> bool \<Rightarrow> u64 \<Rightarrow> recovery_report \<Rightarrow> recovery_report" where
  "scanned_report scan present newest report =
     report\<lparr>rr_journal_missing := \<not> present, rr_tail := jn_tail scan,
       rr_records_replayed := jn_records_replayed scan, rr_records_skipped := jn_records_skipped scan,
       rr_bytes_discarded := jn_bytes_discarded scan, rr_last_sequence := newest,
       rr_revalidation_required := (\<not> rr_snapshot_loaded report \<or> rr_snapshot_from_previous report \<or>
         jn_tail scan = JT_TornTail \<or> jn_tail scan = JT_Corrupt)\<rparr>"

definition scanned_store :: "journal_scan \<Rightarrow> bool \<Rightarrow> durable_store \<Rightarrow> durable_store" where
  "scanned_store scan present s =
     (let newest = max (ds_snapshot_sequence s) (jn_last_sequence scan) in
      s\<lparr>ds_report := scanned_report scan present newest (ds_report s), ds_records := jn_records scan,
        ds_last_sequence := newest, ds_journal_bytes := jn_replayable_bytes scan\<rparr>)"

text \<open>A refused open leaves the store unopened, with what it had filled in by then.\<close>

definition store_open :: "durable_store \<Rightarrow> host \<Rightarrow> status \<times> durable_store \<times> host" where
  "store_open s h =
     (let closed = mk_store (ds_directory s) (ds_limits s) in
      if ds_directory s = [] then (Inl InvalidArgument, closed, h)
      else case syscall h of
        (False, h1) \<Rightarrow> (Inl PersistenceFailure, closed, h1)
      | (True, h1) \<Rightarrow>
        (case adopt_snapshot (ds_limits s) h1 of
           (Inl e, h2) \<Rightarrow> (Inl e, closed, h2)
         | (Inr adopted, h2) \<Rightarrow>
           (let s1 = snapshot_store adopted s in
            case scan_journal (ds_limits s1) (ds_snapshot_sequence s1) h2 of
              (Inl e, h3) \<Rightarrow> (Inl e, s1, h3)
            | (Inr (scan, present), h3) \<Rightarrow>
              (let s2 = scanned_store scan present s1 in
               if \<not> present then (ok_status, s2\<lparr>ds_opened := True\<rparr>, h3)
               else case open_for_append F_Journal (ds_journal_bytes s2) h3 of
                 (Inl e, h4) \<Rightarrow> (Inl e, s2, h4)
               | (Inr position, h4) \<Rightarrow> (ok_status, s2\<lparr>ds_journal := Some position, ds_opened := True\<rparr>, h4)))))"

definition journal_header :: "u64 \<Rightarrow> bytes \<Rightarrow> bytes" where
  "journal_header sequence payload =
     (let h0 = replicate kJournalHeaderBytes 0;
          h1 = store_u32 h0 0 kJournalRecordMagic;
          h2 = store_u32 h1 4 (word_of_nat (length payload));
          h3 = store_u64 h2 8 sequence;
          h4 = store_u32 h3 16 (crc32c (take 16 h3))
      in store_u32 h4 20 (crc32c payload))"

text \<open>
  What a failed append does: cut the file back, and give up the writer when that fails. The C++
  handle keeps its position in that case; no later append reads it.
\<close>

definition roll_back :: "nat \<Rightarrow> durable_store \<Rightarrow> host \<Rightarrow> durable_store \<times> host" where
  "roll_back offset s h =
     (case truncate_file F_Journal offset h of
        (Inl e, position, h1) \<Rightarrow>
          (s\<lparr>ds_journal_degraded := True, ds_journal := (case position of None \<Rightarrow> ds_journal s | Some p \<Rightarrow> Some p)\<rparr>, h1)
      | (Inr _, position, h1) \<Rightarrow> (s\<lparr>ds_journal := position\<rparr>, h1))"

definition check_append :: "bytes \<Rightarrow> durable_store \<Rightarrow> u64 result" where
  "check_append payload s =
     (if \<not> ds_opened s then Inl InvalidState
      else if ds_journal_degraded s then Inl PersistenceFailure
      else if length payload > unat (max_journal_record_bytes (ds_limits s)) then Inl OversizedInput
      else if length payload > 0xFFFFFFFF then Inl OversizedInput
      else checked_add (ds_last_sequence s) 1)"

definition store_append :: "bytes \<Rightarrow> durable_store \<Rightarrow> host \<Rightarrow> u64 result \<times> durable_store \<times> host" where
  "store_append payload s h =
     (case check_append payload s of
        Inl e \<Rightarrow> (Inl e, s, h)
      | Inr sequence \<Rightarrow>
        (case ensure_journal s h of
           (Inl e, s1, h1) \<Rightarrow> (Inl e, s1, h1)
         | (Inr _, s1, h1) \<Rightarrow>
           (case write_flushed F_Journal (journal_header sequence payload) payload (the (ds_journal s1)) h1 of
              (Inl e, position, h2) \<Rightarrow>
                (case roll_back (ds_journal_bytes s1) (s1\<lparr>ds_journal := Some position\<rparr>) h2 of
                   (s2, h3) \<Rightarrow> (Inl PersistenceFailure, s2, h3))
            | (Inr _, position, h2) \<Rightarrow>
                (Inr sequence,
                 s1\<lparr>ds_journal := Some position, ds_last_sequence := sequence,
                    ds_journal_bytes := ds_journal_bytes s1 + kJournalHeaderBytes + length payload,
                    ds_appended_records := ds_appended_records s1 + 1\<rparr>, h2))))"

definition snapshot_header :: "u64 \<Rightarrow> bytes \<Rightarrow> bytes" where
  "snapshot_header sequence state =
     (let h0 = store_bytes (replicate kSnapshotHeaderBytes 0) 0 kSnapshotMagic;
          h1 = store_u32 h0 8 kSnapshotVersion;
          h2 = store_u32 h1 12 0;
          h3 = store_u64 h2 16 sequence;
          h4 = store_u64 h3 24 (word_of_nat (length state));
          h5 = store_u32 h4 32 (crc32c (take 32 h4));
          h6 = store_u32 h5 36 (crc32c state)
      in store_bytes h6 40 (sha256 state))"

definition write_snapshot :: "u64 \<Rightarrow> bytes \<Rightarrow> host \<Rightarrow> status \<times> host" where
  "write_snapshot sequence state h =
     (case create_for_write F_Temporary h of
        (Inl e, h1) \<Rightarrow> (Inl e, h1)
      | (Inr _, h1) \<Rightarrow>
        (case write_flushed F_Temporary (snapshot_header sequence state) state 0 h1 of
           (Inl e, _, h2) \<Rightarrow> (Inl PersistenceFailure, remove_quietly F_Temporary h2)
         | (Inr _, _, h2) \<Rightarrow>
           (case replace_file F_Temporary F_Primary F_Previous h2 of
              (Inl e, h3) \<Rightarrow> (Inl e, remove_quietly F_Temporary h3)
            | (Inr _, h3) \<Rightarrow> (ok_status, h3))))"

definition store_compact :: "bytes \<Rightarrow> u64 \<Rightarrow> durable_store \<Rightarrow> host \<Rightarrow> status \<times> durable_store \<times> host" where
  "store_compact state upto_sequence s h =
     (if \<not> ds_opened s then (Inl InvalidState, s, h)
      else if length state > unat (max_state_bytes (ds_limits s)) then (Inl StateTooLarge, s, h)
      else if upto_sequence < ds_snapshot_sequence s \<or> upto_sequence > ds_last_sequence s
      then (Inl InvalidArgument, s, h)
      else case write_snapshot upto_sequence state h of
        (Inl e, h1) \<Rightarrow> (Inl e, s, h1)
      | (Inr _, h1) \<Rightarrow>
        (case ensure_journal s h1 of
           (Inl e, s1, h2) \<Rightarrow> (Inl PersistenceFailure, s1, h2)
         | (Inr _, s1, h2) \<Rightarrow>
           (case truncate_file F_Journal 0 h2 of
              (Inl e, position, h3) \<Rightarrow>
                (Inl PersistenceFailure,
                 s1\<lparr>ds_journal := (case position of None \<Rightarrow> ds_journal s1 | Some p \<Rightarrow> Some p)\<rparr>, h3)
            | (Inr _, position, h3) \<Rightarrow>
                (ok_status, s1\<lparr>ds_journal := position, ds_snapshot_sequence := upto_sequence, ds_journal_bytes := 0\<rparr>, h3))))"

section \<open>The store behind the coordinator\<close>

record store_sink =
  ss_store :: durable_store
  ss_host :: host
  ss_compact_every :: u32
  ss_since_compact :: u32

text \<open>
  \<open>StoreSink::persist\<close>. The snapshot it asks the attached coordinator for is an argument; \<open>None\<close> is a
  sink that is not attached.
\<close>

definition sink_compact :: "bytes result option \<Rightarrow> store_sink \<Rightarrow> store_sink" where
  "sink_compact snapshot k =
     (case snapshot of
        Some (Inr state) \<Rightarrow>
          if ss_compact_every k \<noteq> 0 \<and> ss_since_compact k \<ge> ss_compact_every k \<and> state \<noteq> [] then
            (case store_compact state (ds_last_sequence (ss_store k)) (ss_store k) (ss_host k) of
               (Inl e, s, h) \<Rightarrow> k\<lparr>ss_store := s, ss_host := h\<rparr>
             | (Inr _, s, h) \<Rightarrow> k\<lparr>ss_store := s, ss_host := h, ss_since_compact := 0\<rparr>)
          else k
      | _ \<Rightarrow> k)"

definition sink_persist :: "bytes result option \<Rightarrow> bytes \<Rightarrow> store_sink \<Rightarrow> status \<times> store_sink" where
  "sink_persist snapshot data k =
     (case store_append data (ss_store k) (ss_host k) of
        (Inl e, s, h) \<Rightarrow> (Inl e, k\<lparr>ss_store := s, ss_host := h\<rparr>)
      | (Inr _, s, h) \<Rightarrow>
          (ok_status, sink_compact snapshot
             (k\<lparr>ss_store := s, ss_host := h, ss_since_compact := ss_since_compact k + 1\<rparr>)))"

section \<open>Lemmas: complete transfers\<close>

lemma length_resized [simp]: "length (resized n xs) = n"
  by (simp add: resized_def)

lemma resized_prefix: "length xs = n \<Longrightarrow> resized n (xs @ ys) = xs"
  by (simp add: resized_def)

lemma write_at_twice: "write_at (position + length a) b (write_at position a content) = write_at position (a @ b) content"
proof -
  have "drop (position + length a + length b) (resized position content @ a @ drop (position + length a) content) =
      drop (length b) (drop (position + length a) content)"
    by simp
  moreover have "resized (position + length a) ((resized position content @ a) @ drop (position + length a) content) =
      resized position content @ a"
    by (rule resized_prefix) simp
  ultimately show ?thesis by (simp add: write_at_def add.commute add.left_commute)
qed

lemma write_at_nothing: "position \<le> length content \<Longrightarrow> write_at position [] content = content"
  by (simp add: write_at_def resized_def)

lemma length_write_at: "length (write_at position data content) = max (position + length data) (length content)"
  by (simp add: write_at_def)

lemma write_all_complete:
  assumes "IO_Fail \<notin> set es" "position \<le> length content"
  shows "\<exists>es'. write_all data position content es = (ok_status, position + length data, write_at position data content, es') \<and>
    set es' \<subseteq> set es"
  using assms
proof (induction "length data + length es" arbitrary: data position content es rule: less_induct)
  case less
  obtain event es1 where p: "pop_event es = (event, es1)" by fastforce
  then have len: "length es1 \<le> length es" "event \<noteq> None \<Longrightarrow> length es1 < length es" "set es1 \<subseteq> set es" "event \<noteq> Some IO_Fail"
    using less.prems by (auto simp: pop_event_def split: list.splits)
  have nf: "IO_Fail \<notin> set es1" using len less.prems by auto
  consider "data = []" | "data \<noteq> []" "event = Some IO_Interrupted" | "data \<noteq> []" "moves event"
    using len by (auto simp: moves_def)
  then show ?case
  proof cases
    case 1
    then show ?thesis using less.prems by (subst write_all.simps) (auto simp: write_at_nothing)
  next
    case 2
    then have "write_all data position content es = write_all data position content es1"
      using p by (subst write_all.simps) simp
    then show ?thesis using less.hyps [of data es1 position content] 2 len nf less.prems by auto
  next
    case 3
    let ?n = "transfer_size event (length data)"
    have n: "?n \<le> length data" "event = None \<Longrightarrow> 0 < ?n"
      using 3 by (auto simp: transfer_size_def kTransferBytes_def split: option.split io_event.split)
    have step: "write_all data position content es =
        write_all (drop ?n data) (position + ?n) (write_at position (take ?n data) content) es1"
      using p 3 by (subst write_all.simps) (cases event; auto simp: moves_def Let_def split: io_event.split)
    have "length (drop ?n data) + length es1 < length data + length es"
      using n len 3 by (cases event) auto
    moreover have "position + ?n \<le> length (write_at position (take ?n data) content)"
      using n by (simp add: length_write_at)
    ultimately obtain es' where "write_all (drop ?n data) (position + ?n) (write_at position (take ?n data) content) es1 =
        (ok_status, position + ?n + length (drop ?n data), write_at (position + ?n) (drop ?n data) (write_at position (take ?n data) content), es')"
        "set es' \<subseteq> set es1"
      using less.hyps nf by blast
    then show ?thesis using step n len write_at_twice [of position "take ?n data" "drop ?n data" content] by auto
  qed
qed

section \<open>Properties\<close>

text \<open>
  C23. The transfer loops end, and on a host that does not fail a call they move everything: however
  reads and writes are interrupted or cut short, \<open>write_all\<close> leaves all of the data at the position and
  \<open>read_upto\<close> returns the bytes up to the end of the file.
\<close>

theorem transfers_complete:
  assumes "IO_Fail \<notin> set es" "position \<le> length content"
  shows "(\<exists>es'. write_all data position content es = (ok_status, position + length data, write_at position data content, es')) \<and>
    (\<exists>es'. read_upto wanted content es = (Inr (take wanted content, drop wanted content), es'))"
proof -
  obtain p es' where r: "read_upto wanted content es = (Inr p, es')" using read_upto_ok [OF assms(1)] by blast
  then have "p = (take wanted content, drop wanted content)" using read_upto_take by (cases p) auto
  then show ?thesis using r write_all_complete [OF assms] by blast
qed

theorem transfers_complete_witness:
  "(\<exists>es'. write_all [7, 8, 9] 2 [1, 2] [IO_Interrupted, IO_Partial 0, IO_Partial 1] = (ok_status, 5, write_at 2 [7, 8, 9] [1, 2], es')) \<and>
   (\<exists>es'. read_upto 1 [1, 2] [IO_Interrupted, IO_Partial 0, IO_Partial 1] = (Inr ([1], [2]), es'))"
  using transfers_complete [of "[IO_Interrupted, IO_Partial 0, IO_Partial 1]" 2 "[1, 2]" "[7, 8, 9]" 1] by simp

end
