(* ===== verification/Fabric_Edge.thy ===== *)
theory Fabric_Edge
  imports Fabric_Hash
begin

text \<open>
  Edge identity and the vocabulary the scheduler, the ledger and the topology share
  (\<open>edge.hpp\<close>, \<open>edge.cpp\<close>): the edge key with its lexicographic order (the defaulted
  \<open>operator<=>\<close>) and hash, phases, outcomes, pressure readings, partition facts and the
  participant and selection enumerations with their names.

  The read-only views of \<open>edge.hpp\<close> (\<open>CompletionView\<close>, \<open>CongestionView\<close>,
  \<open>PartitionView\<close>) are functions from their key to the reading.
\<close>

section \<open>Edge keys\<close>

datatype edge_key = EdgeKey
  (ek_partition: partition_id) (ek_partition_generation: partition_generation) (ek_consumer: consumer_id)

instantiation edge_key :: linorder
begin

definition less_eq_edge_key :: "edge_key \<Rightarrow> edge_key \<Rightarrow> bool" where
  "less_eq_edge_key a b \<longleftrightarrow>
     ek_partition a < ek_partition b \<or> ek_partition a = ek_partition b \<and>
     (ek_partition_generation a < ek_partition_generation b \<or>
      ek_partition_generation a = ek_partition_generation b \<and> ek_consumer a \<le> ek_consumer b)"

definition less_edge_key :: "edge_key \<Rightarrow> edge_key \<Rightarrow> bool" where
  "less_edge_key a b \<longleftrightarrow> a \<le> b \<and> \<not> b \<le> (a :: edge_key)"

instance
  by standard (auto simp: less_eq_edge_key_def less_edge_key_def intro: edge_key.expand)

end

definition edge_key_to_string :: "edge_key \<Rightarrow> string" where
  "edge_key_to_string key =
     ''p'' @ id_to_string (ek_partition key) @ ''/g'' @ id_to_string (ek_partition_generation key) @
     ''/c'' @ id_to_string (ek_consumer key)"

definition edge_key_hash :: "edge_key \<Rightarrow> u64" where
  "edge_key_hash key =
     foldl (\<lambda>hash v. (hash XOR v) * 1099511628211) 1469598103934665603
       [ek_partition key, ek_partition_generation key, ek_consumer key]"

section \<open>Phases, status and evidence\<close>

datatype edge_phase = EP_Unknown | EP_Pending | EP_Dispatched | EP_Completed | EP_Failed | EP_Purged

fun edge_phase_to_string :: "edge_phase \<Rightarrow> string" where
  "edge_phase_to_string EP_Unknown = ''Unknown''"
| "edge_phase_to_string EP_Pending = ''Pending''"
| "edge_phase_to_string EP_Dispatched = ''Dispatched''"
| "edge_phase_to_string EP_Completed = ''Completed''"
| "edge_phase_to_string EP_Failed = ''Failed''"
| "edge_phase_to_string EP_Purged = ''Purged''"

record edge_status_rec =
  es_phase :: edge_phase
  es_reason :: error_code
  es_attempts :: u32
  es_ready_at :: tick_id
  es_producer_incarnation :: incarnation_id
  es_manifest_digest :: digest
  es_bytes :: u64
  es_authoritative :: bool

definition default_edge_status :: edge_status_rec where
  "default_edge_status = \<lparr>es_phase = EP_Unknown, es_reason = UnknownPartition, es_attempts = 0,
     es_ready_at = 0, es_producer_incarnation = 0, es_manifest_digest = zero_digest, es_bytes = 0,
     es_authoritative = False\<rparr>"

definition edge_resolved :: "edge_status_rec \<Rightarrow> bool" where
  "edge_resolved s \<longleftrightarrow> es_phase s = EP_Completed \<or> es_phase s = EP_Failed \<or> es_phase s = EP_Purged"

record pressure_reading =
  pr_level :: u32
  pr_observed :: bool
  pr_fresh :: bool
  pr_observed_at :: tick_id
  pr_reporter :: incarnation_id
  pr_policy_generation :: policy_generation

definition unknown_pressure :: pressure_reading where
  "unknown_pressure = \<lparr>pr_level = 0, pr_observed = False, pr_fresh = False, pr_observed_at = 0,
     pr_reporter = 0, pr_policy_generation = 0\<rparr>"

record partition_facts_rec =
  pf_produced :: bool
  pf_partition_generation :: partition_generation
  pf_manifest_digest :: digest
  pf_total_bytes :: u64
  pf_producer_incarnation :: incarnation_id
  pf_producer :: producer_id

definition default_partition_facts :: partition_facts_rec where
  "default_partition_facts = \<lparr>pf_produced = False, pf_partition_generation = 0,
     pf_manifest_digest = zero_digest, pf_total_bytes = 0, pf_producer_incarnation = 0,
     pf_producer = 0\<rparr>"

datatype edge_outcome =
  EO_Completed | EO_RetriableFailure | EO_PermanentFailure | EO_AuthorityRefused | EO_Cancelled

fun edge_outcome_to_string :: "edge_outcome \<Rightarrow> string" where
  "edge_outcome_to_string EO_Completed = ''Completed''"
| "edge_outcome_to_string EO_RetriableFailure = ''RetriableFailure''"
| "edge_outcome_to_string EO_PermanentFailure = ''PermanentFailure''"
| "edge_outcome_to_string EO_AuthorityRefused = ''AuthorityRefused''"
| "edge_outcome_to_string EO_Cancelled = ''Cancelled''"

section \<open>Participants and selections\<close>

datatype participant_kind = PK_Producer | PK_Consumer

fun participant_kind_to_string :: "participant_kind \<Rightarrow> string" where
  "participant_kind_to_string PK_Producer = ''Producer''"
| "participant_kind_to_string PK_Consumer = ''Consumer''"

datatype participant_state = PS_Pending | PS_Active | PS_Suspect | PS_Failed | PS_Withdrawn

fun participant_state_to_string :: "participant_state \<Rightarrow> string" where
  "participant_state_to_string PS_Pending = ''Pending''"
| "participant_state_to_string PS_Active = ''Active''"
| "participant_state_to_string PS_Suspect = ''Suspect''"
| "participant_state_to_string PS_Failed = ''Failed''"
| "participant_state_to_string PS_Withdrawn = ''Withdrawn''"

definition holds_authority :: "participant_state \<Rightarrow> bool" where
  "holds_authority state \<longleftrightarrow> state = PS_Active"

datatype selection_kind = SK_All | SK_Range | SK_List

fun selection_kind_to_string :: "selection_kind \<Rightarrow> string" where
  "selection_kind_to_string SK_All = ''All''"
| "selection_kind_to_string SK_Range = ''Range''"
| "selection_kind_to_string SK_List = ''List''"

section \<open>The completion view\<close>

text \<open>
  What the scheduler relies on when it reads \<open>CompletionView::edge_status\<close>: a store of
  deliveries in which an accepted delivery shows as a completed edge. The ledger interprets it.
\<close>

locale completion_view =
  fixes edge_status :: "'s \<Rightarrow> edge_key \<Rightarrow> edge_status_rec"
    and well_formed :: "'s \<Rightarrow> bool"
    and deliver :: "'r \<Rightarrow> 's \<Rightarrow> 's option"
    and delivered :: "'r \<Rightarrow> edge_key"
  assumes deliver_well_formed: "well_formed s \<Longrightarrow> deliver r s = Some s' \<Longrightarrow> well_formed s'"
    and deliver_completes:
      "well_formed s \<Longrightarrow> deliver r s = Some s' \<Longrightarrow> es_phase (edge_status s' (delivered r)) = EP_Completed"
begin

lemma delivered_resolved:
  "well_formed s \<Longrightarrow> deliver r s = Some s' \<Longrightarrow> edge_resolved (edge_status s' (delivered r))"
  using deliver_completes by (simp add: edge_resolved_def)

end

end
