(* ===== verification/Fabric_Ledger.thy ===== *)
theory Fabric_Ledger
  imports Fabric_Edge Fabric_Codec
begin

text \<open>
  The completion ledger (\<open>ledger.hpp\<close>, \<open>ledger.cpp\<close>): authoritative commits per partition
  generation, failure records, the current edge set, progress accounting, explanations and the
  durable encoding.

  The object is the record \<open>ledger\<close>. Its unordered maps are association lists with distinct
  keys: \<open>find\<close> is \<open>map_of\<close>, \<open>emplace\<close> of an absent key conses, \<open>operator[]\<close> assignment is
  \<open>AList.update\<close>, \<open>erase\<close> is \<open>AList.delete\<close>; the order of the list is the iteration order,
  which the sources leave unspecified. Counters are 64-bit words and wrap as they do in C++.

  Lemmas: validation decides commits; a successful commit is visible, is accounted once and
  never changes the claim an earlier commit made; generations only move forward; the counters
  agree with the records as long as no retained generation is purged; progress closes.
\<close>

section \<open>Data\<close>

record partition_commit_record =
  cr_anchor :: edge_key
  cr_shuffle :: shuffle_id
  cr_shuffle_generation :: shuffle_generation
  cr_producer :: producer_id
  cr_producer_incarnation :: incarnation_id
  cr_manifest_digest :: digest
  cr_total_bytes :: u64
  cr_topology_generation :: topology_generation
  cr_sequence :: commit_sequence
  cr_committed_at :: tick_id
  cr_completed_consumers :: "consumer_id list"
  cr_duplicate_commits :: u32

record commit_request =
  rq_edge :: edge_key
  rq_attempt :: transfer_attempt_id
  rq_wave :: wave_id
  rq_shuffle_generation :: shuffle_generation
  rq_topology_generation :: topology_generation
  rq_policy_generation :: policy_generation
  rq_producer :: producer_id
  rq_producer_incarnation :: incarnation_id
  rq_consumer :: consumer_id
  rq_consumer_incarnation :: incarnation_id
  rq_manifest_digest :: digest
  rq_observed_partition_digest :: digest
  rq_observed_chunk_digests :: "digest list"
  rq_bytes :: u64
  rq_integrity_verified :: bool

record commit_receipt =
  rc_newly_committed :: bool
  rc_edge_newly_completed :: bool
  rc_duplicate :: bool
  rc_sequence :: commit_sequence
  rc_manifest_digest :: digest
  rc_accounted_bytes :: u64

record failure_record =
  fr_key :: edge_key
  fr_code :: error_code
  fr_attempts :: u32
  fr_recorded_at :: tick_id
  fr_ready_at :: tick_id
  fr_permanent :: bool

record progress_snapshot =
  sn_shuffle :: shuffle_id
  sn_shuffle_generation :: shuffle_generation
  sn_partitions_total :: u64
  sn_partitions_committed :: u64
  sn_partitions_failed :: u64
  sn_partitions_incomplete :: u64
  sn_edges_required :: u64
  sn_edges_completed :: u64
  sn_edges_failed :: u64
  sn_edges_incomplete :: u64
  sn_edges_over_counted :: u64
  sn_bytes_committed :: u64
  sn_bytes_attempted :: u64
  sn_duplicate_commits_suppressed :: u64
  sn_retriable_failures :: u64
  sn_permanent_failures :: u64
  sn_authority_refusals :: u64
  sn_tracked_partitions :: u64
  sn_tracked_edges :: u64
  sn_tick :: tick_id

definition accounting_closes :: "progress_snapshot \<Rightarrow> bool" where
  "accounting_closes s \<longleftrightarrow> sn_edges_over_counted s = 0 \<and>
     sn_edges_completed s + sn_edges_failed s + sn_edges_incomplete s = sn_edges_required s"

record explain_entry =
  xe_code :: error_code
  xe_subject :: string
  xe_detail :: string
  xe_count :: u64

record ledger =
  ld_limits :: limits
  ld_shuffle :: shuffle_id
  ld_shuffle_generation :: shuffle_generation
  ld_partition_count :: u32
  ld_next_sequence :: commit_sequence
  ld_partitions :: "(u64 \<times> partition_commit_record) list"
  ld_failures :: "(edge_key \<times> failure_record) list"
  ld_latest_generation :: "(u64 \<times> partition_generation) list"
  ld_retained_keys :: "(u64 \<times> u64 list) list"
  ld_current_permanent_failures :: "(u64 \<times> u32) list"
  ld_failed_partitions :: "u64 list"
  ld_completed_edges :: u64
  ld_committed_partitions :: u64
  ld_failure_records :: u64
  ld_bytes_committed :: u64
  ld_duplicate_commits :: u64
  ld_attempted_bytes :: u64
  ld_retriable_failures :: u64
  ld_permanent_failures :: u64
  ld_authority_refusals :: u64

definition mk_ledger :: "limits \<Rightarrow> ledger" where
  "mk_ledger l = \<lparr>ld_limits = l, ld_shuffle = 0, ld_shuffle_generation = 0, ld_partition_count = 0,
     ld_next_sequence = 1, ld_partitions = [], ld_failures = [], ld_latest_generation = [],
     ld_retained_keys = [], ld_current_permanent_failures = [], ld_failed_partitions = [],
     ld_completed_edges = 0, ld_committed_partitions = 0, ld_failure_records = 0,
     ld_bytes_committed = 0, ld_duplicate_commits = 0, ld_attempted_bytes = 0,
     ld_retriable_failures = 0, ld_permanent_failures = 0, ld_authority_refusals = 0\<rparr>"

definition ledger_bind :: "shuffle_id \<Rightarrow> shuffle_generation \<Rightarrow> u32 \<Rightarrow> ledger \<Rightarrow> ledger" where
  "ledger_bind shuffle generation partition_count lg =
     lg\<lparr>ld_shuffle := shuffle, ld_shuffle_generation := generation, ld_partition_count := partition_count\<rparr>"

definition partition_key :: "partition_id \<Rightarrow> partition_generation \<Rightarrow> u64" where
  "partition_key part generation = push_bit 16 part XOR generation"

definition retain_generation :: "partition_generation \<Rightarrow> bool" where
  "retain_generation generation \<longleftrightarrow> generation > 0"

definition is_authority_code :: "error_code \<Rightarrow> bool" where
  "is_authority_code code \<longleftrightarrow> classify code = Authority"

definition note_attempt_bytes :: "u64 \<Rightarrow> ledger \<Rightarrow> ledger" where
  "note_attempt_bytes n lg = lg\<lparr>ld_attempted_bytes := ld_attempted_bytes lg + n\<rparr>"

section \<open>Commit\<close>

definition tracked_edges_full :: "ledger \<Rightarrow> bool" where
  "tracked_edges_full lg \<longleftrightarrow>
     ld_completed_edges lg + ld_failure_records lg + 1 > max_tracked_edges (ld_limits lg)"

definition validate_commit :: "ledger \<Rightarrow> commit_request \<Rightarrow> status" where
  "validate_commit lg request =
     (let part = ek_partition (rq_edge request); generation = ek_partition_generation (rq_edge request) in
      if part \<ge> ucast (ld_partition_count lg) then Inl UnknownPartition
      else if generation = 0 then Inl InvalidArgument
      else if \<not> retain_generation generation then Inl InvalidArgument
      else if \<not> rq_integrity_verified request then Inl IntegrityFailure
      else if digest_is_zero (rq_manifest_digest request) then Inl ManifestInconsistent
      else if rq_bytes request = 0 then Inl InvalidArgument
      else if ld_shuffle_generation lg \<noteq> 0 \<and> rq_shuffle_generation request \<noteq> ld_shuffle_generation lg
      then Inl StaleGeneration
      else if (case map_of (ld_latest_generation lg) part of
                 None \<Rightarrow> False | Some latest \<Rightarrow> generation < latest)
      then Inl StaleGeneration
      else case map_of (ld_partitions lg) (partition_key part generation) of
        None \<Rightarrow>
          if length (ld_partitions lg) \<ge> unat (max_tracked_partitions (ld_limits lg))
          then Inl TooManyTrackedEdges
          else if tracked_edges_full lg then Inl TooManyTrackedEdges
          else ok_status
      | Some record \<Rightarrow>
          if cr_manifest_digest record \<noteq> rq_manifest_digest request \<or>
             cr_producer record \<noteq> rq_producer request \<or>
             cr_producer_incarnation record \<noteq> rq_producer_incarnation request
          then Inl DivergentCommit
          else if cr_total_bytes record \<noteq> rq_bytes request then Inl AccountingMismatch
          else if \<not> found_at id (cr_completed_consumers record) (rq_consumer request) \<and>
                  tracked_edges_full lg
          then Inl TooManyTrackedEdges
          else ok_status)"

text \<open>
  What superseding the latest generation of a partition does to the counters; \<open>commit\<close> and
  \<open>retire_generation\<close> repeat this code.
\<close>

definition retire_latest :: "partition_id \<Rightarrow> partition_generation \<Rightarrow> ledger \<Rightarrow> ledger" where
  "retire_latest part latest lg =
     (let lg1 = (case map_of (ld_partitions lg) (partition_key part latest) of
                   None \<Rightarrow> lg
                 | Some previous \<Rightarrow>
                     lg\<lparr>ld_completed_edges := ld_completed_edges lg -
                           word_of_nat (length (cr_completed_consumers previous)),
                        ld_committed_partitions :=
                          (if ld_committed_partitions lg > 0 then ld_committed_partitions lg - 1
                           else ld_committed_partitions lg)\<rparr>)
      in case map_of (ld_current_permanent_failures lg1) part of
           None \<Rightarrow> lg1
         | Some retired \<Rightarrow>
             lg1\<lparr>ld_permanent_failures :=
                   (if ld_permanent_failures lg1 \<ge> ucast retired
                    then ld_permanent_failures lg1 - ucast retired else 0),
                 ld_current_permanent_failures :=
                   AList.update part 0 (ld_current_permanent_failures lg1)\<rparr>)"

definition advance_generation :: "partition_id \<Rightarrow> partition_generation \<Rightarrow> ledger \<Rightarrow> ledger" where
  "advance_generation part generation lg =
     (let lg1 = (case map_of (ld_latest_generation lg) part of
                   None \<Rightarrow> lg | Some latest \<Rightarrow> retire_latest part latest lg)
      in lg1\<lparr>ld_failed_partitions := removeAll part (ld_failed_partitions lg1),
             ld_latest_generation := AList.update part generation (ld_latest_generation lg1)\<rparr>)"

fun purge_retained ::
  "nat \<Rightarrow> u64 list \<Rightarrow> (u64 \<times> partition_commit_record) list \<Rightarrow> u64 \<Rightarrow>
   u64 list \<times> (u64 \<times> partition_commit_record) list \<times> u64" where
  "purge_retained limit [] parts completed = ([], parts, completed)"
| "purge_retained limit (oldest # retained) parts completed =
     (if length (oldest # retained) > limit then
        (case map_of parts oldest of
           None \<Rightarrow> purge_retained limit retained parts completed
         | Some purged \<Rightarrow>
             purge_retained limit retained (AList.delete oldest parts)
               (completed - word_of_nat (length (cr_completed_consumers purged))))
      else (oldest # retained, parts, completed))"

definition new_commit_record :: "ledger \<Rightarrow> commit_request \<Rightarrow> tick_id \<Rightarrow> partition_commit_record" where
  "new_commit_record lg request now = \<lparr>
     cr_anchor = EdgeKey (ek_partition (rq_edge request)) (ek_partition_generation (rq_edge request)) 0,
     cr_shuffle = ld_shuffle lg, cr_shuffle_generation = rq_shuffle_generation request,
     cr_producer = rq_producer request, cr_producer_incarnation = rq_producer_incarnation request,
     cr_manifest_digest = rq_manifest_digest request, cr_total_bytes = rq_bytes request,
     cr_topology_generation = rq_topology_generation request, cr_sequence = ld_next_sequence lg,
     cr_committed_at = now, cr_completed_consumers = [rq_consumer request], cr_duplicate_commits = 0\<rparr>"

definition commit_store :: "commit_request \<Rightarrow> tick_id \<Rightarrow> ledger \<Rightarrow> ledger" where
  "commit_store request now lg =
     (let part = ek_partition (rq_edge request); generation = ek_partition_generation (rq_edge request);
          key = partition_key part generation;
          record = new_commit_record lg request now;
          lg1 = lg\<lparr>ld_next_sequence := id_next (ld_next_sequence lg)\<rparr>;
          lg2 = (if (case map_of (ld_latest_generation lg1) part of
                       None \<Rightarrow> True | Some latest \<Rightarrow> generation > latest)
                 then advance_generation part generation lg1 else lg1)
      in lg2\<lparr>ld_bytes_committed := ld_bytes_committed lg2 + rq_bytes request,
             ld_completed_edges := ld_completed_edges lg2 + 1,
             ld_committed_partitions := ld_committed_partitions lg2 + 1,
             ld_failed_partitions := removeAll part (ld_failed_partitions lg2),
             ld_partitions := (key, record) # ld_partitions lg2\<rparr>)"

definition retained_of :: "ledger \<Rightarrow> partition_id \<Rightarrow> u64 list" where
  "retained_of lg part = (case map_of (ld_retained_keys lg) part of None \<Rightarrow> [] | Some keys \<Rightarrow> keys)"

definition retain_key :: "partition_id \<Rightarrow> u64 \<Rightarrow> ledger \<Rightarrow> ledger" where
  "retain_key part key lg =
     (case purge_retained (unat (max_retained_generations (ld_limits lg))) (retained_of lg part @ [key])
             (ld_partitions lg) (ld_completed_edges lg) of
        (retained', parts', completed') \<Rightarrow>
          lg\<lparr>ld_retained_keys := AList.update part retained' (ld_retained_keys lg),
             ld_partitions := parts', ld_completed_edges := completed'\<rparr>)"

definition commit_new :: "commit_request \<Rightarrow> tick_id \<Rightarrow> ledger \<Rightarrow> ledger" where
  "commit_new request now lg =
     retain_key (ek_partition (rq_edge request))
       (partition_key (ek_partition (rq_edge request)) (ek_partition_generation (rq_edge request)))
       (commit_store request now lg)"

definition ledger_commit :: "commit_request \<Rightarrow> tick_id \<Rightarrow> ledger \<Rightarrow> commit_receipt result \<times> ledger" where
  "ledger_commit request now lg =
     (case validate_commit lg request of
        Inl e \<Rightarrow> (Inl e, lg)
      | Inr _ \<Rightarrow>
        (let key = partition_key (ek_partition (rq_edge request)) (ek_partition_generation (rq_edge request)) in
         case map_of (ld_partitions lg) key of
           None \<Rightarrow>
             (Inr \<lparr>rc_newly_committed = True, rc_edge_newly_completed = True, rc_duplicate = False,
                   rc_sequence = ld_next_sequence lg, rc_manifest_digest = rq_manifest_digest request,
                   rc_accounted_bytes = rq_bytes request\<rparr>,
              commit_new request now lg)
         | Some record \<Rightarrow>
             if found_at id (cr_completed_consumers record) (rq_consumer request) then
               (Inr \<lparr>rc_newly_committed = False, rc_edge_newly_completed = False, rc_duplicate = True,
                     rc_sequence = cr_sequence record, rc_manifest_digest = rq_manifest_digest request,
                     rc_accounted_bytes = 0\<rparr>,
                lg\<lparr>ld_partitions := AList.update key
                     (record\<lparr>cr_duplicate_commits := cr_duplicate_commits record + 1\<rparr>) (ld_partitions lg),
                   ld_duplicate_commits := ld_duplicate_commits lg + 1\<rparr>)
             else
               (Inr \<lparr>rc_newly_committed = False, rc_edge_newly_completed = True, rc_duplicate = False,
                     rc_sequence = cr_sequence record, rc_manifest_digest = rq_manifest_digest request,
                     rc_accounted_bytes = 0\<rparr>,
                lg\<lparr>ld_partitions := AList.update key
                     (record\<lparr>cr_completed_consumers := insert_at
                        (lower_bound id (cr_completed_consumers record) (rq_consumer request))
                        (rq_consumer request) (cr_completed_consumers record)\<rparr>) (ld_partitions lg),
                   ld_completed_edges := ld_completed_edges lg + 1\<rparr>)))"

definition retire_generation ::
  "partition_id \<Rightarrow> partition_generation \<Rightarrow> ledger \<Rightarrow> status \<times> ledger" where
  "retire_generation part generation lg =
     (if part \<ge> ucast (ld_partition_count lg) then (Inl UnknownPartition, lg)
      else if (case map_of (ld_latest_generation lg) part of
                 None \<Rightarrow> False | Some latest \<Rightarrow> \<not> latest < generation)
      then (ok_status, lg)
      else (ok_status, advance_generation part generation lg))"

section \<open>Failures\<close>

definition validate_failure :: "ledger \<Rightarrow> edge_key \<Rightarrow> error_code \<Rightarrow> status" where
  "validate_failure lg key code =
     (if ek_partition key \<ge> ucast (ld_partition_count lg) then Inl UnknownPartition
      else if code = Ok then Inl InvalidArgument
      else if map_of (ld_failures lg) key = None \<and> tracked_edges_full lg then Inl TooManyTrackedEdges
      else ok_status)"

definition edge_current :: "ledger \<Rightarrow> edge_key \<Rightarrow> bool" where
  "edge_current lg key =
     (case map_of (ld_latest_generation lg) (ek_partition key) of
        None \<Rightarrow> True | Some latest \<Rightarrow> \<not> ek_partition_generation key < latest)"

definition counted_failures :: "ledger \<Rightarrow> partition_id \<Rightarrow> u32" where
  "counted_failures lg part =
     (case map_of (ld_current_permanent_failures lg) part of None \<Rightarrow> 0 | Some n \<Rightarrow> n)"

definition key_committed :: "ledger \<Rightarrow> edge_key \<Rightarrow> bool" where
  "key_committed lg key \<longleftrightarrow>
     map_of (ld_partitions lg) (partition_key (ek_partition key) (ek_partition_generation key)) \<noteq> None"

definition record_new_failure ::
  "edge_key \<Rightarrow> error_code \<Rightarrow> bool \<Rightarrow> u32 \<Rightarrow> tick_id \<Rightarrow> tick_id \<Rightarrow> ledger \<Rightarrow> ledger" where
  "record_new_failure key code permanent attempts now ready_at lg =
     (let part = ek_partition key;
          record = \<lparr>fr_key = key, fr_code = code, fr_attempts = attempts, fr_recorded_at = now,
                    fr_ready_at = ready_at, fr_permanent = permanent\<rparr>;
          lg1 = lg\<lparr>ld_failures := (key, record) # ld_failures lg,
                   ld_failure_records := ld_failure_records lg + 1\<rparr>;
          lg2 = (if permanent \<and> edge_current lg key then
                   lg1\<lparr>ld_permanent_failures := ld_permanent_failures lg1 + 1,
                       ld_current_permanent_failures := AList.update part
                         (counted_failures lg1 part + 1) (ld_current_permanent_failures lg1),
                       ld_failed_partitions :=
                         (if key_committed lg1 key then ld_failed_partitions lg1
                          else List.insert part (ld_failed_partitions lg1))\<rparr>
                 else if permanent then lg1
                 else lg1\<lparr>ld_retriable_failures := ld_retriable_failures lg1 + 1\<rparr>)
      in if is_authority_code code
         then lg2\<lparr>ld_authority_refusals := ld_authority_refusals lg2 + 1\<rparr> else lg2)"

text \<open>An edge that failed before: the record is overwritten and the counters follow the change.\<close>

definition store_failure ::
  "failure_record \<Rightarrow> edge_key \<Rightarrow> error_code \<Rightarrow> bool \<Rightarrow> u32 \<Rightarrow> tick_id \<Rightarrow> tick_id \<Rightarrow> ledger \<Rightarrow> ledger" where
  "store_failure existing key code permanent attempts now ready_at lg =
     lg\<lparr>ld_failures := AList.update key
         (existing\<lparr>fr_code := code, fr_attempts := attempts, fr_recorded_at := now,
            fr_ready_at := ready_at, fr_permanent := permanent\<rparr>) (ld_failures lg)\<rparr>"

definition shift_permanence :: "bool \<Rightarrow> bool \<Rightarrow> partition_id \<Rightarrow> ledger \<Rightarrow> ledger" where
  "shift_permanence was_permanent permanent part lg =
     (if permanent \<and> \<not> was_permanent then
        lg\<lparr>ld_permanent_failures := ld_permanent_failures lg + 1,
           ld_current_permanent_failures := AList.update part
             (counted_failures lg part + 1) (ld_current_permanent_failures lg),
           ld_retriable_failures :=
             (if ld_retriable_failures lg > 0 then ld_retriable_failures lg - 1
              else ld_retriable_failures lg)\<rparr>
      else if \<not> permanent \<and> was_permanent then
        lg\<lparr>ld_retriable_failures := ld_retriable_failures lg + 1,
           ld_current_permanent_failures := AList.update part
             (if counted_failures lg part > 0 then counted_failures lg part - 1
              else counted_failures lg part) (ld_current_permanent_failures lg),
           ld_permanent_failures :=
             (if ld_permanent_failures lg > 0 then ld_permanent_failures lg - 1
              else ld_permanent_failures lg)\<rparr>
      else lg)"

definition mark_failed :: "edge_key \<Rightarrow> ledger \<Rightarrow> ledger" where
  "mark_failed key lg =
     (if key_committed lg key then lg
      else lg\<lparr>ld_failed_partitions := List.insert (ek_partition key) (ld_failed_partitions lg)\<rparr>)"

definition shift_authority :: "bool \<Rightarrow> bool \<Rightarrow> ledger \<Rightarrow> ledger" where
  "shift_authority was_authority now_authority lg =
     (if now_authority \<and> \<not> was_authority
      then lg\<lparr>ld_authority_refusals := ld_authority_refusals lg + 1\<rparr>
      else if \<not> now_authority \<and> was_authority \<and> ld_authority_refusals lg > 0
      then lg\<lparr>ld_authority_refusals := ld_authority_refusals lg - 1\<rparr>
      else lg)"

definition record_known_failure ::
  "failure_record \<Rightarrow> edge_key \<Rightarrow> error_code \<Rightarrow> bool \<Rightarrow> u32 \<Rightarrow> tick_id \<Rightarrow> tick_id \<Rightarrow> ledger \<Rightarrow> ledger" where
  "record_known_failure existing key code permanent attempts now ready_at lg =
     (let current = edge_current lg key;
          lg1 = store_failure existing key code permanent attempts now ready_at lg;
          lg2 = (if current then shift_permanence (fr_permanent existing) permanent (ek_partition key) lg1 else lg1);
          lg3 = (if current \<and> permanent then mark_failed key lg2 else lg2)
      in shift_authority (is_authority_code (fr_code existing)) (is_authority_code code) lg3)"

lemmas known_failure_defs = record_known_failure_def store_failure_def shift_permanence_def mark_failed_def
  shift_authority_def

definition record_failure ::
  "edge_key \<Rightarrow> error_code \<Rightarrow> bool \<Rightarrow> u32 \<Rightarrow> tick_id \<Rightarrow> tick_id \<Rightarrow> ledger \<Rightarrow> status \<times> ledger" where
  "record_failure key code permanent attempts now ready_at lg =
     (if ek_partition key \<ge> ucast (ld_partition_count lg) then (Inl UnknownPartition, lg)
      else if code = Ok then (Inl InvalidArgument, lg)
      else case map_of (ld_failures lg) key of
        None \<Rightarrow>
          if tracked_edges_full lg then (Inl TooManyTrackedEdges, lg)
          else (ok_status, record_new_failure key code permanent attempts now ready_at lg)
      | Some existing \<Rightarrow>
          (ok_status, record_known_failure existing key code permanent attempts now ready_at lg))"

section \<open>Queries\<close>

definition edge_status :: "ledger \<Rightarrow> edge_key \<Rightarrow> edge_status_rec" where
  "edge_status lg key =
     (let s0 = default_edge_status\<lparr>es_reason := NotCommitted\<rparr> in
      if ek_partition key \<ge> ucast (ld_partition_count lg)
      then s0\<lparr>es_phase := EP_Unknown, es_reason := UnknownPartition\<rparr>
      else
        let commit = map_of (ld_partitions lg)
              (partition_key (ek_partition key) (ek_partition_generation key));
            failure = map_of (ld_failures lg) key;
            s1 = (case commit of
                    None \<Rightarrow> s0
                  | Some record \<Rightarrow> s0\<lparr>es_producer_incarnation := cr_producer_incarnation record,
                      es_manifest_digest := cr_manifest_digest record,
                      es_bytes := cr_total_bytes record\<rparr>);
            with_attempts = (\<lambda>s. case failure of
                    None \<Rightarrow> s
                  | Some f \<Rightarrow> s\<lparr>es_attempts := fr_attempts f, es_ready_at := fr_ready_at f\<rparr>)
        in if (case commit of None \<Rightarrow> False
               | Some record \<Rightarrow> found_at id (cr_completed_consumers record) (ek_consumer key))
           then with_attempts (s1\<lparr>es_phase := EP_Completed, es_reason := Ok, es_authoritative := True\<rparr>)
           else case failure of
             Some f \<Rightarrow>
               if fr_permanent f
               then (with_attempts s1)\<lparr>es_reason := fr_code f, es_phase := EP_Failed\<rparr>
               else if \<not> edge_current lg key
               then s1\<lparr>es_phase := EP_Purged, es_reason := PurgedHistory\<rparr>
               else (with_attempts s1)\<lparr>es_reason := fr_code f, es_phase := EP_Pending\<rparr>
           | None \<Rightarrow>
               if \<not> edge_current lg key
               then s1\<lparr>es_phase := EP_Purged, es_reason := PurgedHistory\<rparr>
               else s1\<lparr>es_phase := EP_Pending\<rparr>)"

definition commit_record :: "ledger \<Rightarrow> partition_id \<Rightarrow> partition_generation \<Rightarrow> partition_commit_record result" where
  "commit_record lg part generation =
     (case map_of (ld_partitions lg) (partition_key part generation) of
        None \<Rightarrow> Inl NotCommitted | Some record \<Rightarrow> Inr record)"

definition ledger_failure_record :: "ledger \<Rightarrow> edge_key \<Rightarrow> failure_record result" where
  "ledger_failure_record lg key =
     (case map_of (ld_failures lg) key of None \<Rightarrow> Inl NotCommitted | Some record \<Rightarrow> Inr record)"

definition ledger_progress :: "ledger \<Rightarrow> u64 \<Rightarrow> tick_id \<Rightarrow> progress_snapshot" where
  "ledger_progress lg required_edges now =
     (let partitions_total = ucast (ld_partition_count lg);
          committed = ld_committed_partitions lg;
          failed = word_of_nat (length (ld_failed_partitions lg));
          resolved = ld_completed_edges lg + ld_permanent_failures lg
      in \<lparr>sn_shuffle = ld_shuffle lg, sn_shuffle_generation = ld_shuffle_generation lg,
          sn_partitions_total = partitions_total, sn_partitions_committed = committed,
          sn_partitions_failed = failed,
          sn_partitions_incomplete =
            (if partitions_total > committed + failed then partitions_total - committed - failed else 0),
          sn_edges_required = required_edges, sn_edges_completed = ld_completed_edges lg,
          sn_edges_failed = ld_permanent_failures lg,
          sn_edges_incomplete = (if required_edges > resolved then required_edges - resolved else 0),
          sn_edges_over_counted = (if resolved > required_edges then resolved - required_edges else 0),
          sn_bytes_committed = ld_bytes_committed lg, sn_bytes_attempted = ld_attempted_bytes lg,
          sn_duplicate_commits_suppressed = ld_duplicate_commits lg,
          sn_retriable_failures = ld_retriable_failures lg,
          sn_permanent_failures = ld_permanent_failures lg,
          sn_authority_refusals = ld_authority_refusals lg,
          sn_tracked_partitions = word_of_nat (length (ld_partitions lg)),
          sn_tracked_edges = ld_completed_edges lg + ld_failure_records lg, sn_tick = now\<rparr>)"

text \<open>
  \<open>std::map\<close> keyed by the code is an association list kept in ascending order of the code;
  the loop visits the failures in the iteration order of the unordered map.
\<close>

fun explain_insert :: "failure_record \<Rightarrow> (u16 \<times> explain_entry) list \<Rightarrow> (u16 \<times> explain_entry) list" where
  "explain_insert record [] =
     [(code_value (fr_code record),
       \<lparr>xe_code = fr_code record, xe_subject = edge_key_to_string (fr_key record),
        xe_detail = ''permanent='' @ (if fr_permanent record then ''yes'' else ''no'') @
          '' attempts='' @ dec_digits (unat (fr_attempts record)) @
          '' ready_at='' @ id_to_string (fr_ready_at record), xe_count = 1\<rparr>)]"
| "explain_insert record ((code, entry) # rest) =
     (if code < code_value (fr_code record) then (code, entry) # explain_insert record rest
      else if code = code_value (fr_code record) then
        (code, entry\<lparr>xe_count := xe_count entry + 1,
           xe_subject := (if edge_key_to_string (fr_key record) < xe_subject entry
                          then edge_key_to_string (fr_key record) else xe_subject entry)\<rparr>) # rest
      else explain_insert record [] @ (code, entry) # rest)"

definition ledger_explain :: "ledger \<Rightarrow> explain_entry list" where
  "ledger_explain lg =
     map snd (foldl (\<lambda>grouped entry. explain_insert (snd entry) grouped) [] (ld_failures lg)) @
     (if ld_duplicate_commits lg > 0
      then [\<lparr>xe_code = DuplicateCompletion, xe_subject = ''ledger'',
             xe_detail = ''duplicate completions suppressed without double accounting'',
             xe_count = ld_duplicate_commits lg\<rparr>]
      else [])"

definition explanation_render :: "explain_entry list \<Rightarrow> string" where
  "explanation_render entries =
     (if entries = [] then ''no recorded refusals or failures'' @ [CHR 0x0A]
      else concat (map (\<lambda>entry. id_to_string (xe_count entry) @ ''x '' @ error_to_string (xe_code entry) @
             '' ['' @ xe_subject entry @ ''] '' @ xe_detail entry @ [CHR 0x0A]) entries))"

section \<open>Durable encoding\<close>

definition put_commit_record :: "partition_commit_record \<Rightarrow> bytes" where
  "put_commit_record record =
     put_u64 (ek_partition (cr_anchor record)) @
     put_u64 (ek_partition_generation (cr_anchor record)) @
     put_u64 (cr_shuffle record) @
     put_u64 (cr_shuffle_generation record) @
     put_u64 (cr_producer record) @
     put_u64 (cr_producer_incarnation record) @
     put_digest (cr_manifest_digest record) @
     put_u64 (cr_total_bytes record) @
     put_u64 (cr_topology_generation record) @
     put_u64 (cr_sequence record) @
     put_u64 (cr_committed_at record) @
     put_u32 (cr_duplicate_commits record) @
     put_u32 (word_of_nat (length (cr_completed_consumers record))) @
     concat (map put_u64 (cr_completed_consumers record))"

definition put_failure_record :: "failure_record \<Rightarrow> bytes" where
  "put_failure_record record =
     put_u64 (ek_partition (fr_key record)) @
     put_u64 (ek_partition_generation (fr_key record)) @
     put_u64 (ek_consumer (fr_key record)) @
     put_u16 (code_value (fr_code record)) @
     put_u32 (fr_attempts record) @
     put_u64 (fr_recorded_at record) @
     put_u64 (fr_ready_at record) @
     put_bool (fr_permanent record)"

definition ledger_encode :: "ledger \<Rightarrow> bytes" where
  "ledger_encode lg =
     put_u64 (ld_shuffle lg) @
     put_u64 (ld_shuffle_generation lg) @
     put_u32 (ld_partition_count lg) @
     put_u64 (ld_next_sequence lg) @
     put_u64 (ld_bytes_committed lg) @
     put_u64 (ld_duplicate_commits lg) @
     put_u64 (ld_attempted_bytes lg) @
     put_u64 (ld_retriable_failures lg) @
     put_u64 (ld_permanent_failures lg) @
     put_u64 (ld_authority_refusals lg) @
     put_u32 (word_of_nat (length (ld_partitions lg))) @
     concat (map (put_commit_record \<circ> snd) (sort_key fst (ld_partitions lg))) @
     put_u32 (word_of_nat (length (ld_failures lg))) @
     concat (map (put_failure_record \<circ> snd) (sort_key fst (ld_failures lg))) @
     put_u32 (word_of_nat (length (ld_latest_generation lg))) @
     concat (map (\<lambda>(key, generation). put_u64 key @ put_u64 generation)
       (sort_key fst (ld_latest_generation lg)))"

definition rd_u64_item :: "u64 result reader" where
  "rd_u64_item = do { v \<leftarrow> rd_u64; ret (Inr v) }"

definition rd_commit_record :: "partition_commit_record result reader" where
  "rd_commit_record = do {
     part \<leftarrow> rd_u64;
     generation \<leftarrow> rd_u64;
     shuffle \<leftarrow> rd_u64;
     shuffle_generation \<leftarrow> rd_u64;
     producer \<leftarrow> rd_u64;
     producer_incarnation \<leftarrow> rd_u64;
     manifest_digest \<leftarrow> rd_digest;
     total_bytes \<leftarrow> rd_u64;
     topology_generation \<leftarrow> rd_u64;
     sequence \<leftarrow> rd_u64;
     committed_at \<leftarrow> rd_u64;
     duplicate_commits \<leftarrow> rd_u32;
     l \<leftarrow> rd_get_limits;
     consumer_count \<leftarrow> rd_collection_count (ucast (max_collection_items l));
     rd_sub (rd_list (unat consumer_count) rd_u64_item) (\<lambda>consumers.
       rd_check (ret (Inr
         \<lparr>cr_anchor = EdgeKey part generation 0, cr_shuffle = shuffle,
          cr_shuffle_generation = shuffle_generation, cr_producer = producer,
          cr_producer_incarnation = producer_incarnation, cr_manifest_digest = manifest_digest,
          cr_total_bytes = total_bytes, cr_topology_generation = topology_generation,
          cr_sequence = sequence, cr_committed_at = committed_at,
          cr_completed_consumers = consumers, cr_duplicate_commits = duplicate_commits\<rparr>))) }"

definition rd_ledger_partition :: "u32 \<Rightarrow> (u64 \<times> partition_commit_record) list \<Rightarrow>
    (u64 \<times> partition_commit_record) list result reader" where
  "rd_ledger_partition partition_count parts =
     rd_sub rd_commit_record (\<lambda>record.
       let part = ek_partition (cr_anchor record);
           key = partition_key part (ek_partition_generation (cr_anchor record))
       in if part \<ge> ucast partition_count then ret (Inl StateImpossible)
          else if \<not> ascending (cr_completed_consumers record) then ret (Inl StateCorrupt)
          else if map_of parts key \<noteq> None then ret (Inl StateCorrupt)
          else ret (Inr ((key, record) # parts)))"

definition rd_failure_record :: "failure_record result reader" where
  "rd_failure_record = do {
     part \<leftarrow> rd_u64;
     generation \<leftarrow> rd_u64;
     consumer \<leftarrow> rd_u64;
     code \<leftarrow> rd_u16;
     attempts \<leftarrow> rd_u32;
     recorded_at \<leftarrow> rd_u64;
     ready_at \<leftarrow> rd_u64;
     permanent \<leftarrow> rd_boolean;
     rd_check (
       if code = 0 \<or> code > code_value TooManyTrackedEdges then ret (Inl StateImpossible)
       else ret (Inr \<lparr>fr_key = EdgeKey part generation consumer, fr_code = ErrorCode code,
              fr_attempts = attempts, fr_recorded_at = recorded_at, fr_ready_at = ready_at,
              fr_permanent = permanent\<rparr>)) }"

definition rd_ledger_failure :: "(edge_key \<times> failure_record) list \<Rightarrow>
    (edge_key \<times> failure_record) list result reader" where
  "rd_ledger_failure failures =
     rd_sub rd_failure_record (\<lambda>record.
       if map_of failures (fr_key record) \<noteq> None then ret (Inl StateCorrupt)
       else ret (Inr ((fr_key record, record) # failures)))"

definition rd_ledger_generation :: "(u64 \<times> u64) list \<Rightarrow> (u64 \<times> u64) list result reader" where
  "rd_ledger_generation generations = do {
     key \<leftarrow> rd_u64;
     generation \<leftarrow> rd_u64;
     rd_check (ret (Inr (AList.update key generation generations))) }"

text \<open>Derived counters are recomputed from the decoded records.\<close>

definition recount_partition :: "ledger \<Rightarrow> u64 \<times> partition_commit_record \<Rightarrow> ledger" where
  "recount_partition lg entry =
     (let record = snd entry in
      if map_of (ld_latest_generation lg) (ek_partition (cr_anchor record)) =
           Some (ek_partition_generation (cr_anchor record))
      then lg\<lparr>ld_completed_edges := ld_completed_edges lg +
                word_of_nat (length (cr_completed_consumers record)),
              ld_committed_partitions := ld_committed_partitions lg + 1\<rparr>
      else lg)"

definition recount_failure :: "ledger \<Rightarrow> edge_key \<times> failure_record \<Rightarrow> ledger" where
  "recount_failure lg entry =
     (let record = snd entry; key = fr_key record; part = ek_partition key in
      if \<not> fr_permanent record \<or> \<not> edge_current lg key then lg
      else lg\<lparr>ld_permanent_failures := ld_permanent_failures lg + 1,
              ld_current_permanent_failures :=
                AList.update part (counted_failures lg part + 1) (ld_current_permanent_failures lg),
              ld_failed_partitions :=
                (if key_committed lg key then ld_failed_partitions lg
                 else List.insert part (ld_failed_partitions lg))\<rparr>)"

definition ledger_recount :: "ledger \<Rightarrow> ledger" where
  "ledger_recount lg =
     (let lg1 = lg\<lparr>ld_completed_edges := 0, ld_committed_partitions := 0, ld_permanent_failures := 0,
                   ld_current_permanent_failures := [], ld_failed_partitions := []\<rparr>;
          lg2 = foldl recount_partition lg1 (ld_partitions lg1);
          lg3 = foldl recount_failure lg2 (ld_failures lg2)
      in lg3\<lparr>ld_failure_records := word_of_nat (length (ld_failures lg3))\<rparr>)"

definition rd_ledger :: "ledger result reader" where
  "rd_ledger = do {
     shuffle \<leftarrow> rd_u64;
     shuffle_generation \<leftarrow> rd_u64;
     partition_count \<leftarrow> rd_u32;
     next_sequence \<leftarrow> rd_u64;
     bytes_committed \<leftarrow> rd_u64;
     duplicate_commits \<leftarrow> rd_u64;
     attempted_bytes \<leftarrow> rd_u64;
     retriable_failures \<leftarrow> rd_u64;
     permanent_failures \<leftarrow> rd_u64;
     authority_refusals \<leftarrow> rd_u64;
     l \<leftarrow> rd_get_limits;
     rd_check (do {
       partition_records \<leftarrow> rd_collection_count (max_tracked_partitions l);
       rd_sub (rd_fold (unat partition_records) (rd_ledger_partition partition_count) []) (\<lambda>parts. do {
         failure_count \<leftarrow> rd_collection_count (max_tracked_edges l);
         rd_sub (rd_fold (unat failure_count) rd_ledger_failure []) (\<lambda>failures. do {
           generation_records \<leftarrow> rd_collection_count (ucast (max_partitions l));
           rd_sub (rd_fold (unat generation_records) rd_ledger_generation []) (\<lambda>generations.
             rd_check (ret (Inr (ledger_recount ((mk_ledger l)
               \<lparr>ld_shuffle := shuffle, ld_shuffle_generation := shuffle_generation,
                ld_partition_count := partition_count, ld_next_sequence := next_sequence,
                ld_bytes_committed := bytes_committed, ld_duplicate_commits := duplicate_commits,
                ld_attempted_bytes := attempted_bytes, ld_retriable_failures := retriable_failures,
                ld_permanent_failures := permanent_failures,
                ld_authority_refusals := authority_refusals, ld_partitions := parts,
                ld_failures := failures, ld_latest_generation := generations\<rparr>))))) }) }) }) }"

section \<open>Specification\<close>

definition rec_part :: "partition_commit_record \<Rightarrow> partition_id" where
  "rec_part r = ek_partition (cr_anchor r)"

definition rec_gen :: "partition_commit_record \<Rightarrow> partition_generation" where
  "rec_gen r = ek_partition_generation (cr_anchor r)"

definition record_wf :: "ledger \<Rightarrow> u64 \<Rightarrow> partition_commit_record \<Rightarrow> bool" where
  "record_wf lg key r \<longleftrightarrow> key = partition_key (rec_part r) (rec_gen r) \<and>
     rec_part r < ucast (ld_partition_count lg) \<and> ascending (cr_completed_consumers r) \<and>
     cr_total_bytes r \<noteq> 0 \<and> \<not> digest_is_zero (cr_manifest_digest r) \<and>
     (\<exists>latest. map_of (ld_latest_generation lg) (rec_part r) = Some latest \<and> rec_gen r \<le> latest)"

definition retained_inv :: "ledger \<Rightarrow> bool" where
  "retained_inv lg \<longleftrightarrow>
     (\<forall>part. distinct (retained_of lg part) \<and> set (retained_of lg part) \<subseteq> dom (map_of (ld_partitions lg))) \<and>
     (\<forall>p q. p \<noteq> q \<longrightarrow> set (retained_of lg p) \<inter> set (retained_of lg q) = {})"

definition ledger_inv :: "ledger \<Rightarrow> bool" where
  "ledger_inv lg \<longleftrightarrow>
     distinct (map fst (ld_partitions lg)) \<and> distinct (map fst (ld_failures lg)) \<and>
     (\<forall>key r. map_of (ld_partitions lg) key = Some r \<longrightarrow> record_wf lg key r) \<and> retained_inv lg"

text \<open>The part of a commit record that is a claim about content, and never changes.\<close>

definition same_claim :: "partition_commit_record \<Rightarrow> partition_commit_record \<Rightarrow> bool" where
  "same_claim r r' \<longleftrightarrow>
     cr_anchor r' = cr_anchor r \<and> cr_shuffle r' = cr_shuffle r \<and>
     cr_shuffle_generation r' = cr_shuffle_generation r \<and> cr_producer r' = cr_producer r \<and>
     cr_producer_incarnation r' = cr_producer_incarnation r \<and>
     cr_manifest_digest r' = cr_manifest_digest r \<and> cr_total_bytes r' = cr_total_bytes r \<and>
     cr_topology_generation r' = cr_topology_generation r \<and> cr_sequence r' = cr_sequence r \<and>
     cr_committed_at r' = cr_committed_at r \<and>
     set (cr_completed_consumers r) \<subseteq> set (cr_completed_consumers r')"

definition latest_after :: "ledger \<Rightarrow> partition_id \<Rightarrow> partition_generation \<Rightarrow> u64 \<rightharpoonup> u64" where
  "latest_after lg part generation =
     (if (case map_of (ld_latest_generation lg) part of None \<Rightarrow> True | Some latest \<Rightarrow> generation > latest)
      then (map_of (ld_latest_generation lg))(part \<mapsto> generation) else map_of (ld_latest_generation lg))"

definition purged_keys :: "ledger \<Rightarrow> partition_id \<Rightarrow> u64 \<Rightarrow> u64 list" where
  "purged_keys lg part key =
     take (Suc (length (retained_of lg part)) - unat (max_retained_generations (ld_limits lg)))
       (retained_of lg part @ [key])"

definition kept_keys :: "ledger \<Rightarrow> partition_id \<Rightarrow> u64 \<Rightarrow> u64 list" where
  "kept_keys lg part key =
     drop (Suc (length (retained_of lg part)) - unat (max_retained_generations (ld_limits lg)))
       (retained_of lg part @ [key])"

definition request_key :: "commit_request \<Rightarrow> u64" where
  "request_key request = partition_key (ek_partition (rq_edge request)) (ek_partition_generation (rq_edge request))"

definition delivered_edge :: "commit_request \<Rightarrow> edge_key" where
  "delivered_edge request =
     EdgeKey (ek_partition (rq_edge request)) (ek_partition_generation (rq_edge request)) (rq_consumer request)"

text \<open>A commit as a delivery: accepted or not.\<close>

definition deliver_commit :: "commit_request \<times> tick_id \<Rightarrow> ledger \<Rightarrow> ledger option" where
  "deliver_commit r lg =
     (case ledger_commit (fst r) (snd r) lg of (Inl _, _) \<Rightarrow> None | (Inr _, lg') \<Rightarrow> Some lg')"

text \<open>The mutations of a ledger.\<close>

inductive ledger_step :: "ledger \<Rightarrow> ledger \<Rightarrow> bool" where
  step_commit: "ledger_step lg (snd (ledger_commit request now lg))"
| step_retire: "ledger_step lg (snd (retire_generation part generation lg))"
| step_failure: "ledger_step lg (snd (record_failure key code permanent attempts now ready_at lg))"
| step_attempt_bytes: "ledger_step lg (note_attempt_bytes n lg)"

text \<open>
  Accounting of the current edge set: the completions of the latest generation of each
  partition. Generations below \<open>2 ^ 16\<close> keep the packed keys of \<open>partition_key\<close> apart.
\<close>

definition current_record :: "ledger \<Rightarrow> partition_commit_record \<Rightarrow> bool" where
  "current_record lg r \<longleftrightarrow> map_of (ld_latest_generation lg) (rec_part r) = Some (rec_gen r)"

definition current_completions :: "ledger \<Rightarrow> nat" where
  "current_completions lg =
     (\<Sum>(key, r)\<leftarrow>ld_partitions lg. if current_record lg r then length (cr_completed_consumers r) else 0)"

definition accounted :: "ledger \<Rightarrow> bool" where
  "accounted lg \<longleftrightarrow> ld_completed_edges lg = word_of_nat (current_completions lg)"

definition narrow :: "ledger \<Rightarrow> bool" where
  "narrow lg \<longleftrightarrow>
     (\<forall>key r. map_of (ld_partitions lg) key = Some r \<longrightarrow> rec_gen r < 2 ^ 16) \<and>
     (\<forall>part g. map_of (ld_latest_generation lg) part = Some g \<longrightarrow> g < 2 ^ 16)"

text \<open>Steps whose generations stay below \<open>2 ^ 16\<close> and whose commits purge no generation.\<close>

inductive narrow_step :: "ledger \<Rightarrow> ledger \<Rightarrow> bool" where
  narrow_commit: "ek_partition_generation (rq_edge request) < 2 ^ 16 \<Longrightarrow>
     length (retained_of lg (ek_partition (rq_edge request))) < unat (max_retained_generations (ld_limits lg)) \<Longrightarrow>
     narrow_step lg (snd (ledger_commit request now lg))"
| narrow_retire: "generation < 2 ^ 16 \<Longrightarrow> narrow_step lg (snd (retire_generation part generation lg))"
| narrow_failure: "narrow_step lg (snd (record_failure key code permanent attempts now ready_at lg))"
| narrow_attempt_bytes: "narrow_step lg (note_attempt_bytes n lg)"

text \<open>A delivery used to instantiate the theorems.\<close>

definition delivery :: "partition_id \<Rightarrow> partition_generation \<Rightarrow> consumer_id \<Rightarrow> commit_request" where
  "delivery part generation consumer =
     \<lparr>rq_edge = EdgeKey part generation consumer, rq_attempt = 1, rq_wave = 1, rq_shuffle_generation = 1,
      rq_topology_generation = 1, rq_policy_generation = 1, rq_producer = 7, rq_producer_incarnation = 1,
      rq_consumer = consumer, rq_consumer_incarnation = 1, rq_manifest_digest = replicate 32 1,
      rq_observed_partition_digest = replicate 32 1, rq_observed_chunk_digests = [], rq_bytes = 64,
      rq_integrity_verified = True\<rparr>"

definition fresh_ledger :: ledger where
  "fresh_ledger = ledger_bind 1 1 4 (mk_ledger (default_limits\<lparr>max_retained_generations := 1\<rparr>))"

definition first_delivery :: ledger where
  "first_delivery = snd (ledger_commit (delivery 0 1 5) 3 fresh_ledger)"

section \<open>Lemmas: purging\<close>

lemma purge_retained_retained: "fst (purge_retained n keys parts c) = drop (length keys - n) keys"
  by (induction n keys parts c rule: purge_retained.induct) (auto simp: Suc_diff_le split: option.splits)

lemma purge_retained_parts:
  "map_of (fst (snd (purge_retained n keys parts c))) key =
     (if key \<in> set (take (length keys - n) keys) then None else map_of parts key)"
  by (induction n keys parts c rule: purge_retained.induct)
    (auto simp: Suc_diff_le delete_conv' split: option.splits)

lemma purge_retained_distinct:
  "distinct (map fst parts) \<Longrightarrow> distinct (map fst (fst (snd (purge_retained n keys parts c))))"
  by (induction n keys parts c rule: purge_retained.induct) (auto simp: distinct_delete split: option.splits)

lemma purge_retained_none: "length keys \<le> n \<Longrightarrow> purge_retained n keys parts c = (keys, parts, c)"
  by (cases keys) auto

section \<open>Lemmas: the frame of the commit\<close>

lemma retire_latest_frame [simp]:
  "ld_partitions (retire_latest p g lg) = ld_partitions lg"
  "ld_failures (retire_latest p g lg) = ld_failures lg"
  "ld_latest_generation (retire_latest p g lg) = ld_latest_generation lg"
  "ld_retained_keys (retire_latest p g lg) = ld_retained_keys lg"
  "ld_limits (retire_latest p g lg) = ld_limits lg"
  "ld_partition_count (retire_latest p g lg) = ld_partition_count lg"
  "ld_next_sequence (retire_latest p g lg) = ld_next_sequence lg"
  "ld_bytes_committed (retire_latest p g lg) = ld_bytes_committed lg"
  "ld_shuffle_generation (retire_latest p g lg) = ld_shuffle_generation lg"
  "ld_duplicate_commits (retire_latest p g lg) = ld_duplicate_commits lg"
  "ld_failure_records (retire_latest p g lg) = ld_failure_records lg"
  by (simp_all add: retire_latest_def Let_def split: option.splits)

lemma advance_generation_frame [simp]:
  "ld_partitions (advance_generation p g lg) = ld_partitions lg"
  "ld_failures (advance_generation p g lg) = ld_failures lg"
  "ld_latest_generation (advance_generation p g lg) = AList.update p g (ld_latest_generation lg)"
  "ld_retained_keys (advance_generation p g lg) = ld_retained_keys lg"
  "ld_limits (advance_generation p g lg) = ld_limits lg"
  "ld_partition_count (advance_generation p g lg) = ld_partition_count lg"
  "ld_next_sequence (advance_generation p g lg) = ld_next_sequence lg"
  "ld_bytes_committed (advance_generation p g lg) = ld_bytes_committed lg"
  "ld_shuffle_generation (advance_generation p g lg) = ld_shuffle_generation lg"
  "ld_duplicate_commits (advance_generation p g lg) = ld_duplicate_commits lg"
  "ld_failure_records (advance_generation p g lg) = ld_failure_records lg"
  by (simp_all add: advance_generation_def Let_def split: option.splits)

lemma commit_store_frame [simp]:
  "ld_failures (commit_store request now lg) = ld_failures lg"
  "ld_retained_keys (commit_store request now lg) = ld_retained_keys lg"
  "ld_limits (commit_store request now lg) = ld_limits lg"
  "ld_partition_count (commit_store request now lg) = ld_partition_count lg"
  "ld_shuffle_generation (commit_store request now lg) = ld_shuffle_generation lg"
  "ld_failure_records (commit_store request now lg) = ld_failure_records lg"
  "ld_bytes_committed (commit_store request now lg) = ld_bytes_committed lg + rq_bytes request"
  "retained_of (commit_store request now lg) part = retained_of lg part"
  by (simp_all add: commit_store_def Let_def retained_of_def)

lemma commit_store_partitions [simp]:
  "ld_partitions (commit_store request now lg) =
     (partition_key (ek_partition (rq_edge request)) (ek_partition_generation (rq_edge request)),
      new_commit_record lg request now) # ld_partitions lg"
  by (simp add: commit_store_def Let_def)

lemma commit_store_latest [simp]:
  "map_of (ld_latest_generation (commit_store request now lg)) =
     latest_after lg (ek_partition (rq_edge request)) (ek_partition_generation (rq_edge request))"
  by (simp add: commit_store_def Let_def latest_after_def update_conv' split: option.splits)

lemma retain_key_frame [simp]:
  "ld_failures (retain_key part key lg) = ld_failures lg"
  "ld_limits (retain_key part key lg) = ld_limits lg"
  "ld_partition_count (retain_key part key lg) = ld_partition_count lg"
  "ld_latest_generation (retain_key part key lg) = ld_latest_generation lg"
  "ld_shuffle_generation (retain_key part key lg) = ld_shuffle_generation lg"
  "ld_failure_records (retain_key part key lg) = ld_failure_records lg"
  "ld_bytes_committed (retain_key part key lg) = ld_bytes_committed lg"
  by (simp_all add: retain_key_def split: prod.splits)

lemma retain_key_partitions:
  "map_of (ld_partitions (retain_key part key lg)) k =
     (if k \<in> set (purged_keys lg part key) then None else map_of (ld_partitions lg) k)"
  using purge_retained_parts [of "unat (max_retained_generations (ld_limits lg))" "retained_of lg part @ [key]"
      "ld_partitions lg" "ld_completed_edges lg" k]
  by (simp add: retain_key_def purged_keys_def case_prod_beta)

lemma retain_key_retained:
  "retained_of (retain_key part key lg) p = (if p = part then kept_keys lg part key else retained_of lg p)"
  using purge_retained_retained [of "unat (max_retained_generations (ld_limits lg))" "retained_of lg part @ [key]"
      "ld_partitions lg" "ld_completed_edges lg"]
  by (simp add: retained_of_def retain_key_def kept_keys_def update_conv' case_prod_beta)

lemma retain_key_distinct:
  "distinct (map fst (ld_partitions lg)) \<Longrightarrow> distinct (map fst (ld_partitions (retain_key part key lg)))"
  using purge_retained_distinct [of "ld_partitions lg" "unat (max_retained_generations (ld_limits lg))"
      "retained_of lg part @ [key]" "ld_completed_edges lg"]
  by (simp add: retain_key_def case_prod_beta)

lemma purged_kept: "set (purged_keys lg part key) \<union> set (kept_keys lg part key) = insert key (set (retained_of lg part))"
proof -
  have "purged_keys lg part key @ kept_keys lg part key = retained_of lg part @ [key]"
    unfolding purged_keys_def kept_keys_def by (rule append_take_drop_id)
  then have "set (purged_keys lg part key @ kept_keys lg part key) = set (retained_of lg part @ [key])"
    by simp
  then show ?thesis by simp
qed

lemma key_not_purged:
  assumes "max_retained_generations (ld_limits lg) \<noteq> 0" "key \<notin> set (retained_of lg part)"
  shows "key \<notin> set (purged_keys lg part key)"
proof -
  have "0 < unat (max_retained_generations (ld_limits lg))" using assms(1) by (simp add: unat_gt_0)
  then have "Suc (length (retained_of lg part)) - unat (max_retained_generations (ld_limits lg)) \<le> length (retained_of lg part)"
    by simp
  then show ?thesis using assms(2) by (auto simp: purged_keys_def dest: in_set_takeD)
qed

section \<open>Lemmas: the ledger invariant\<close>

lemma validate_commitD:
  assumes "validate_commit lg request = Inr u"
  shows "ek_partition (rq_edge request) < ucast (ld_partition_count lg)"
    "ek_partition_generation (rq_edge request) \<noteq> 0" "rq_integrity_verified request"
    "\<not> digest_is_zero (rq_manifest_digest request)" "rq_bytes request \<noteq> 0"
    "map_of (ld_latest_generation lg) (ek_partition (rq_edge request)) = Some latest \<Longrightarrow>
       latest \<le> ek_partition_generation (rq_edge request)"
    "map_of (ld_partitions lg) (partition_key (ek_partition (rq_edge request))
        (ek_partition_generation (rq_edge request))) = Some record \<Longrightarrow>
       cr_manifest_digest record = rq_manifest_digest request \<and> cr_producer record = rq_producer request \<and>
       cr_producer_incarnation record = rq_producer_incarnation request \<and> cr_total_bytes record = rq_bytes request"
  using assms by (auto simp: validate_commit_def Let_def not_le not_less split: if_splits option.splits)

lemma mk_ledger_inv: "ledger_inv (ledger_bind sh g n (mk_ledger l))"
  by (simp add: ledger_inv_def mk_ledger_def ledger_bind_def retained_inv_def retained_of_def)

lemma latest_after_mono:
  "map_of (ld_latest_generation lg) p = Some g \<Longrightarrow> \<exists>g'. latest_after lg part generation p = Some g' \<and> g \<le> g'"
  by (auto simp: latest_after_def split: option.splits)

lemma latest_after_self:
  "\<exists>g'. latest_after lg part generation part = Some g' \<and> generation \<le> g'"
  by (auto simp: latest_after_def not_less split: option.splits)

lemma record_wf_store:
  assumes "record_wf lg key r"
  shows "record_wf (commit_store request now lg) key r"
  using assms latest_after_mono unfolding record_wf_def by fastforce

lemma record_wf_new:
  assumes "validate_commit lg request = Inr u"
  shows "record_wf (commit_store request now lg)
    (partition_key (ek_partition (rq_edge request)) (ek_partition_generation (rq_edge request)))
    (new_commit_record lg request now)"
  using validate_commitD [OF assms] latest_after_self
  by (auto simp: record_wf_def new_commit_record_def rec_part_def rec_gen_def)

lemma retain_key_retained_inv:
  assumes inv: "retained_inv lg" and lg': "\<And>p. retained_of lg' p = retained_of lg p"
    and parts: "ld_partitions lg' = (key, r) # ld_partitions lg" and new: "map_of (ld_partitions lg) key = None"
  shows "retained_inv (retain_key part key lg')"
proof -
  let ?R = "retained_of lg" and ?D = "dom (map_of (ld_partitions lg))"
  let ?P = "set (purged_keys lg' part key)" and ?K = "kept_keys lg' part key"
  have R: "distinct (?R p)" "set (?R p) \<subseteq> ?D" "p \<noteq> q \<Longrightarrow> set (?R p) \<inter> set (?R q) = {}" for p q
    using inv by (simp_all add: retained_inv_def)
  have "key \<notin> ?D" using new by auto
  then have kR: "key \<notin> set (?R p)" for p using R(2) by blast
  have dist: "distinct (retained_of lg' part @ [key])" using R(1) kR by (simp add: lg')
  have K: "distinct ?K" "set ?K \<inter> ?P = {}"
  proof -
    show "distinct ?K" unfolding kept_keys_def by (rule distinct_drop [OF dist])
    show "set ?K \<inter> ?P = {}"
      using set_take_disj_set_drop_if_distinct [OF dist order_refl] unfolding kept_keys_def purged_keys_def by blast
  qed
  have KP: "set ?K \<subseteq> insert key (set (?R part))" "?P \<subseteq> insert key (set (?R part))"
    using purged_kept [of lg' part key] by (auto simp: lg')
  have dom: "dom (map_of (ld_partitions (retain_key part key lg'))) = insert key ?D - ?P"
    by (auto simp: dom_def retain_key_partitions parts split: if_splits)
  have 1: "set ?K \<subseteq> insert key ?D - ?P" using K KP R(2) [of part] by blast
  have 2: "set (?R p) \<subseteq> insert key ?D - ?P" if "p \<noteq> part" for p
    using KP(2) R(2) [of p] R(3) [OF that] kR [of p] by blast
  have 3: "set ?K \<inter> set (?R p) = {}" if "p \<noteq> part" for p
    using KP(1) R(3) [OF that] kR [of p] by blast
  have 4: "set (if p = part then ?K else ?R p) \<inter> set (if q = part then ?K else ?R q) = {}" if "p \<noteq> q" for p q
    using that R(3) [of p q] 3 [of p] 3 [of q] by auto
  show ?thesis
    unfolding retained_inv_def retain_key_retained lg' dom using K(1) R(1) 1 2 4 by simp
qed

lemma commit_new_inv:
  assumes inv: "ledger_inv lg" and v: "validate_commit lg request = Inr u"
    and new: "map_of (ld_partitions lg) (partition_key (ek_partition (rq_edge request))
      (ek_partition_generation (rq_edge request))) = None"
  shows "ledger_inv (commit_new request now lg)"
proof -
  let ?s = "commit_store request now lg"
  let ?k = "partition_key (ek_partition (rq_edge request)) (ek_partition_generation (rq_edge request))"
  have "distinct (map fst (ld_partitions ?s))"
    using inv new by (auto simp: ledger_inv_def map_of_eq_None_iff)
  moreover have "record_wf ?s key r" if "map_of (ld_partitions ?s) key = Some r" for key r
    using that inv record_wf_new [OF v] record_wf_store by (auto simp: ledger_inv_def split: if_splits)
  moreover have "record_wf (retain_key p k ?s) key r = record_wf ?s key r" for p k key r
    by (simp add: record_wf_def)
  moreover have "retained_inv (retain_key (ek_partition (rq_edge request)) ?k ?s)"
    using inv new by (intro retain_key_retained_inv [of lg]) (auto simp: ledger_inv_def)
  ultimately show ?thesis
    using inv by (auto simp: ledger_inv_def commit_new_def retain_key_distinct retain_key_partitions split: if_splits)
qed

lemma record_update_inv:
  assumes inv: "ledger_inv lg" and r: "map_of (ld_partitions lg) key = Some r"
    and r': "cr_anchor r' = cr_anchor r" "cr_total_bytes r' = cr_total_bytes r"
      "cr_manifest_digest r' = cr_manifest_digest r" "ascending (cr_completed_consumers r')"
    and lg': "ld_partitions lg' = AList.update key r' (ld_partitions lg)" "ld_failures lg' = ld_failures lg"
      "ld_latest_generation lg' = ld_latest_generation lg" "ld_partition_count lg' = ld_partition_count lg"
      "ld_retained_keys lg' = ld_retained_keys lg"
  shows "ledger_inv lg'"
proof -
  have "retained_of lg' p = retained_of lg p" for p by (simp add: retained_of_def lg')
  then have "retained_inv lg'"
    using inv by (auto simp: ledger_inv_def retained_inv_def lg' update_conv')
  moreover have "record_wf lg' k x" if "map_of (ld_partitions lg') k = Some x" for k x
    using that inv r r' by (auto simp: ledger_inv_def lg' update_conv' record_wf_def rec_part_def rec_gen_def split: if_splits)
  ultimately show ?thesis
    using inv by (simp add: ledger_inv_def lg' distinct_update)
qed

lemma insert_consumer_ascending:
  "ascending xs \<Longrightarrow> \<not> found_at id xs c \<Longrightarrow> ascending (insert_at (lower_bound id xs c) c xs)"
  using ascending_vec_insert [of xs c] by (simp add: vec_insert_def)

lemma ledger_commit_inv:
  assumes inv: "ledger_inv lg"
  shows "ledger_inv (snd (ledger_commit request now lg))"
proof (cases "validate_commit lg request")
  case (Inr u)
  let ?k = "partition_key (ek_partition (rq_edge request)) (ek_partition_generation (rq_edge request))"
  show ?thesis
  proof (cases "map_of (ld_partitions lg) ?k")
    case None
    then show ?thesis using commit_new_inv [OF inv Inr] Inr by (simp add: ledger_commit_def)
  next
    case (Some r)
    have asc: "ascending (cr_completed_consumers r)"
      using inv Some by (simp add: ledger_inv_def record_wf_def)
    show ?thesis
    proof (cases "found_at id (cr_completed_consumers r) (rq_consumer request)")
      case True
      then show ?thesis
        using Some Inr asc by (simp add: ledger_commit_def Let_def) (rule record_update_inv [OF inv Some], auto)
    next
      case False
      then show ?thesis
        using Some Inr insert_consumer_ascending [OF asc False]
        by (simp add: ledger_commit_def Let_def) (rule record_update_inv [OF inv Some], auto)
    qed
  qed
qed (use inv in \<open>simp add: ledger_commit_def\<close>)

lemma advance_generation_inv:
  assumes inv: "ledger_inv lg"
    and new: "\<And>latest. map_of (ld_latest_generation lg) part = Some latest \<Longrightarrow> latest \<le> generation"
  shows "ledger_inv (advance_generation part generation lg)"
proof -
  have "retained_of (advance_generation part generation lg) p = retained_of lg p" for p
    by (simp add: retained_of_def)
  moreover have "record_wf (advance_generation part generation lg) key r" if "record_wf lg key r" for key r
    using that new by (auto simp: record_wf_def update_conv')
  ultimately show ?thesis
    using inv by (auto simp: ledger_inv_def retained_inv_def)
qed

lemma retire_generation_inv: "ledger_inv lg \<Longrightarrow> ledger_inv (snd (retire_generation part generation lg))"
  by (auto simp: retire_generation_def not_less intro!: advance_generation_inv split: option.splits)

section \<open>Lemmas: commits\<close>

lemma record_new_failure_frame [simp]:
  "ld_partitions (record_new_failure key code perm att now rdy lg) = ld_partitions lg"
  "ld_latest_generation (record_new_failure key code perm att now rdy lg) = ld_latest_generation lg"
  "ld_retained_keys (record_new_failure key code perm att now rdy lg) = ld_retained_keys lg"
  "ld_partition_count (record_new_failure key code perm att now rdy lg) = ld_partition_count lg"
  "ld_completed_edges (record_new_failure key code perm att now rdy lg) = ld_completed_edges lg"
  "ld_bytes_committed (record_new_failure key code perm att now rdy lg) = ld_bytes_committed lg"
  "ld_limits (record_new_failure key code perm att now rdy lg) = ld_limits lg"
  by (simp_all add: record_new_failure_def Let_def)

lemma record_new_failure_failures:
  "map fst (ld_failures (record_new_failure key code perm att now rdy lg)) = key # map fst (ld_failures lg)"
  by (simp add: record_new_failure_def Let_def)

lemma record_known_failure_frame [simp]:
  "ld_partitions (record_known_failure f key code perm att now rdy lg) = ld_partitions lg"
  "ld_latest_generation (record_known_failure f key code perm att now rdy lg) = ld_latest_generation lg"
  "ld_retained_keys (record_known_failure f key code perm att now rdy lg) = ld_retained_keys lg"
  "ld_partition_count (record_known_failure f key code perm att now rdy lg) = ld_partition_count lg"
  "ld_completed_edges (record_known_failure f key code perm att now rdy lg) = ld_completed_edges lg"
  "ld_bytes_committed (record_known_failure f key code perm att now rdy lg) = ld_bytes_committed lg"
  "ld_limits (record_known_failure f key code perm att now rdy lg) = ld_limits lg"
  by (simp_all add: known_failure_defs Let_def)

lemma record_known_failure_failures:
  "\<exists>r. ld_failures (record_known_failure f key code perm att now rdy lg) = AList.update key r (ld_failures lg)"
  by (simp add: known_failure_defs Let_def) blast

lemma record_failure_frame:
  "ld_partitions (snd (record_failure key code perm att now rdy lg)) = ld_partitions lg"
  "ld_latest_generation (snd (record_failure key code perm att now rdy lg)) = ld_latest_generation lg"
  "ld_retained_keys (snd (record_failure key code perm att now rdy lg)) = ld_retained_keys lg"
  "ld_partition_count (snd (record_failure key code perm att now rdy lg)) = ld_partition_count lg"
  "ld_completed_edges (snd (record_failure key code perm att now rdy lg)) = ld_completed_edges lg"
  "ld_bytes_committed (snd (record_failure key code perm att now rdy lg)) = ld_bytes_committed lg"
  "ld_limits (snd (record_failure key code perm att now rdy lg)) = ld_limits lg"
  by (simp_all add: record_failure_def split: option.splits)

lemma record_failure_distinct:
  "distinct (map fst (ld_failures lg)) \<Longrightarrow>
   distinct (map fst (ld_failures (snd (record_failure key code perm att now rdy lg))))"
proof (cases "map_of (ld_failures lg) key")
  case (Some f)
  obtain r where "ld_failures (record_known_failure f key code perm att now rdy lg) = AList.update key r (ld_failures lg)"
    using record_known_failure_failures by blast
  then show "distinct (map fst (ld_failures lg)) \<Longrightarrow> ?thesis"
    using Some by (simp add: record_failure_def distinct_update)
next
  case None
  then show "distinct (map fst (ld_failures lg)) \<Longrightarrow> ?thesis"
    using None [unfolded map_of_eq_None_iff] by (simp add: record_failure_def record_new_failure_failures)
qed

lemma record_failure_inv:
  "ledger_inv lg \<Longrightarrow> ledger_inv (snd (record_failure key code perm att now rdy lg))"
  by (simp add: ledger_inv_def record_failure_distinct record_failure_frame record_wf_def retained_inv_def retained_of_def)

lemma note_attempt_bytes_inv: "ledger_inv lg \<Longrightarrow> ledger_inv (note_attempt_bytes n lg)"
  by (simp add: note_attempt_bytes_def ledger_inv_def record_wf_def retained_inv_def retained_of_def)

lemma ledger_step_inv: "ledger_step lg lg' \<Longrightarrow> ledger_inv lg \<Longrightarrow> ledger_inv lg'"
  by (induction rule: ledger_step.induct)
    (auto intro: ledger_commit_inv retire_generation_inv record_failure_inv note_attempt_bytes_inv)

lemma ledger_reachable_inv:
  "ledger_step\<^sup>*\<^sup>* (ledger_bind sh g n (mk_ledger l)) lg \<Longrightarrow> ledger_inv lg"
  by (induction rule: rtranclp_induct) (auto intro: mk_ledger_inv ledger_step_inv)

lemma commit_status: "(\<exists>receipt. fst (ledger_commit request now lg) = Inr receipt) \<longleftrightarrow> validate_commit lg request = ok_status"
  by (auto simp: ledger_commit_def Let_def split: sum.splits option.splits)

lemma commit_refused: "fst (ledger_commit request now lg) = Inl e \<longleftrightarrow> validate_commit lg request = Inl e"
  by (auto simp: ledger_commit_def Let_def split: sum.splits option.splits)

text \<open>What a successful commit leaves in the record of its key.\<close>

lemma commit_record_after:
  assumes inv: "ledger_inv lg" and lim: "max_retained_generations (ld_limits lg) \<noteq> 0"
    and ok: "validate_commit lg request = ok_status"
  obtains r where "map_of (ld_partitions (snd (ledger_commit request now lg))) (request_key request) = Some r"
    "cr_manifest_digest r = rq_manifest_digest request" "cr_producer r = rq_producer request"
    "cr_producer_incarnation r = rq_producer_incarnation request" "cr_total_bytes r = rq_bytes request"
    "rq_consumer request \<in> set (cr_completed_consumers r)" "ascending (cr_completed_consumers r)"
proof (cases "map_of (ld_partitions lg) (request_key request)")
  case None
  let ?s = "commit_store request now lg"
  have "request_key request \<notin> set (retained_of lg (ek_partition (rq_edge request)))"
    using inv None by (fastforce simp: ledger_inv_def retained_inv_def)
  then have "request_key request \<notin> set (purged_keys ?s (ek_partition (rq_edge request)) (request_key request))"
    using lim by (intro key_not_purged) simp_all
  then have "map_of (ld_partitions (snd (ledger_commit request now lg))) (request_key request) =
      Some (new_commit_record lg request now)"
    using None ok by (simp add: ledger_commit_def commit_new_def request_key_def retain_key_partitions)
  then show thesis by (rule that) (simp_all add: new_commit_record_def)
next
  case (Some r)
  have asc: "ascending (cr_completed_consumers r)"
    using inv Some by (simp add: ledger_inv_def record_wf_def)
  note same = validate_commitD(7) [OF ok Some [unfolded request_key_def]]
  show thesis
  proof (cases "found_at id (cr_completed_consumers r) (rq_consumer request)")
    case True
    then show thesis
      using Some ok asc same that [of "r\<lparr>cr_duplicate_commits := cr_duplicate_commits r + 1\<rparr>"]
      by (simp add: ledger_commit_def request_key_def update_conv' found_at_id_iff)
  next
    case False
    let ?cs = "insert_at (lower_bound id (cr_completed_consumers r) (rq_consumer request)) (rq_consumer request)
      (cr_completed_consumers r)"
    have "ascending ?cs" "rq_consumer request \<in> set ?cs"
      using insert_consumer_ascending [OF asc False] by (auto simp: insert_at_def)
    then show thesis
      using Some ok asc same False that [of "r\<lparr>cr_completed_consumers := ?cs\<rparr>"]
      by (simp add: ledger_commit_def request_key_def update_conv')
  qed
qed

lemma commit_partition_count [simp]:
  "ld_partition_count (snd (ledger_commit request now lg)) = ld_partition_count lg"
  by (auto simp: ledger_commit_def Let_def commit_new_def split: sum.splits option.splits)

lemma commit_limits [simp]: "ld_limits (snd (ledger_commit request now lg)) = ld_limits lg"
  by (auto simp: ledger_commit_def Let_def commit_new_def split: sum.splits option.splits)

lemma commit_visible:
  assumes inv: "ledger_inv lg" and lim: "max_retained_generations (ld_limits lg) \<noteq> 0"
    and ok: "validate_commit lg request = ok_status"
  shows "es_phase (edge_status (snd (ledger_commit request now lg)) (delivered_edge request)) = EP_Completed \<and>
    es_authoritative (edge_status (snd (ledger_commit request now lg)) (delivered_edge request)) \<and>
    es_manifest_digest (edge_status (snd (ledger_commit request now lg)) (delivered_edge request)) = rq_manifest_digest request \<and>
    es_bytes (edge_status (snd (ledger_commit request now lg)) (delivered_edge request)) = rq_bytes request"
proof -
  obtain r where r: "map_of (ld_partitions (snd (ledger_commit request now lg))) (request_key request) = Some r"
    "cr_manifest_digest r = rq_manifest_digest request" "cr_total_bytes r = rq_bytes request"
    "rq_consumer request \<in> set (cr_completed_consumers r)" "ascending (cr_completed_consumers r)"
    using commit_record_after [OF inv lim ok] by metis
  then show ?thesis
    using validate_commitD(1) [OF ok]
    by (simp add: edge_status_def Let_def delivered_edge_def request_key_def not_le [symmetric] found_at_id_iff
        split: option.splits)
qed

lemma commit_again:
  assumes inv: "ledger_inv lg" and lim: "max_retained_generations (ld_limits lg) \<noteq> 0"
    and ok: "validate_commit lg request = ok_status"
    and lg': "lg' = snd (ledger_commit request now lg)"
    and again: "fst (ledger_commit request now' lg') = Inr receipt"
  shows "rc_duplicate receipt \<and> \<not> rc_newly_committed receipt \<and> \<not> rc_edge_newly_completed receipt \<and>
    rc_accounted_bytes receipt = 0 \<and>
    ld_bytes_committed (snd (ledger_commit request now' lg')) = ld_bytes_committed lg' \<and>
    ld_completed_edges (snd (ledger_commit request now' lg')) = ld_completed_edges lg' \<and>
    ld_committed_partitions (snd (ledger_commit request now' lg')) = ld_committed_partitions lg'"
proof -
  obtain r where r: "map_of (ld_partitions lg') (request_key request) = Some r"
    "rq_consumer request \<in> set (cr_completed_consumers r)" "ascending (cr_completed_consumers r)"
    using commit_record_after [OF inv lim ok] lg' by metis
  have v: "validate_commit lg' request = ok_status"
    using again commit_status by blast
  show ?thesis
    using again r v by (auto simp: ledger_commit_def request_key_def found_at_id_iff)
qed

lemma set_insert_at: "set (insert_at i x xs) = insert x (set xs)"
proof -
  have "set xs = set (take i xs @ drop i xs)" by simp
  then show ?thesis unfolding insert_at_def by (simp del: append_take_drop_id)
qed

lemma commit_claims:
  assumes inv: "ledger_inv lg" and r: "map_of (ld_partitions lg) key = Some r"
    and r': "map_of (ld_partitions (snd (ledger_commit request now lg))) key = Some r'"
  shows "same_claim r r'"
proof (cases "validate_commit lg request")
  case (Inl e)
  then show ?thesis using r r' by (simp add: ledger_commit_def same_claim_def)
next
  case (Inr u)
  show ?thesis
  proof (cases "map_of (ld_partitions lg) (request_key request)")
    case None
    then have "key \<noteq> request_key request" using r by auto
    then show ?thesis
      using None Inr r r'
      by (auto simp: ledger_commit_def request_key_def commit_new_def retain_key_partitions same_claim_def split: if_splits)
  next
    case (Some x)
    then show ?thesis
      using Inr r r'
      by (auto simp: ledger_commit_def request_key_def Let_def update_conv' same_claim_def set_insert_at
          split: if_splits)
  qed
qed

lemma ledger_step_claims:
  assumes "ledger_step lg lg'" "ledger_inv lg" "map_of (ld_partitions lg) key = Some r"
    and "map_of (ld_partitions lg') key = Some r'"
  shows "same_claim r r'"
  using assms
proof (induction rule: ledger_step.induct)
  case (step_commit lg request now)
  then show ?case using commit_claims by blast
qed (auto simp: retire_generation_def record_failure_frame note_attempt_bytes_def same_claim_def split: if_splits)

lemma commit_latest:
  "\<exists>m. map_of (ld_latest_generation (snd (ledger_commit request now lg))) = m \<and>
     (\<forall>p g. map_of (ld_latest_generation lg) p = Some g \<longrightarrow> (\<exists>g'. m p = Some g' \<and> g \<le> g'))"
  using latest_after_mono by (auto simp: ledger_commit_def Let_def commit_new_def split: sum.splits option.splits)

lemma ledger_step_latest:
  assumes "ledger_step lg lg'" "map_of (ld_latest_generation lg) p = Some g"
  shows "\<exists>g'. map_of (ld_latest_generation lg') p = Some g' \<and> g \<le> g'"
  using assms
proof (induction rule: ledger_step.induct)
  case (step_commit lg request now)
  then show ?case using commit_latest by blast
next
  case (step_retire lg part generation)
  then show ?case
    by (auto simp: retire_generation_def update_conv' split: option.splits if_splits)
qed (auto simp: record_failure_frame note_attempt_bytes_def)

lemma ledger_run_latest:
  "ledger_step\<^sup>*\<^sup>* lg lg' \<Longrightarrow> map_of (ld_latest_generation lg) p = Some g \<Longrightarrow>
   \<exists>g'. map_of (ld_latest_generation lg') p = Some g' \<and> g \<le> g'"
proof (induction rule: rtranclp_induct)
  case (step y z)
  then obtain g1 where g1: "map_of (ld_latest_generation y) p = Some g1" "g \<le> g1" by blast
  obtain g2 where "map_of (ld_latest_generation z) p = Some g2" "g1 \<le> g2"
    using ledger_step_latest [OF step(2) g1(1)] by blast
  then show ?case using g1(2) by auto
qed auto

lemma commit_stale:
  assumes "map_of (ld_latest_generation lg) (ek_partition (rq_edge request)) = Some g"
    and "ek_partition_generation (rq_edge request) < g"
  shows "\<exists>e. fst (ledger_commit request now lg) = Inl e \<and> snd (ledger_commit request now lg) = lg"
proof -
  have "\<exists>e. validate_commit lg request = Inl e"
    using assms by (auto simp: validate_commit_def Let_def)
  then show ?thesis by (auto simp: ledger_commit_def)
qed

section \<open>Lemmas: accounting\<close>

lemma unat_less_bit:
  assumes "unat (w :: 'a::len word) < 2 ^ n" "n \<le> m"
  shows "\<not> bit w m"
proof -
  have "take_bit n (unat w) = unat w" using assms(1) by (simp add: take_bit_nat_eq_self)
  then have "\<not> bit (unat w) m" using assms(2) by (metis bit_take_bit_iff not_le)
  then show ?thesis by (simp add: bit_unsigned_iff)
qed

lemma partition_key_inj:
  assumes "p < 2 ^ 32" "p' < 2 ^ 32" "g < 2 ^ 16" "g' < 2 ^ 16"
  shows "partition_key p g = partition_key p' g' \<longleftrightarrow> p = p' \<and> g = g'"
proof
  assume eq: "partition_key p g = partition_key p' g'"
  have gb: "\<not> bit g m" "\<not> bit g' m" if "16 \<le> m" for m
    using that assms(3,4) unat_less_bit [of g 16 m] unat_less_bit [of g' 16 m] by (simp_all add: word_less_nat_alt)
  have pb: "\<not> bit p m" "\<not> bit p' m" if "32 \<le> m" for m
    using that assms(1,2) unat_less_bit [of p 32 m] unat_less_bit [of p' 32 m] by (simp_all add: word_less_nat_alt)
  have bits: "bit (partition_key p g) m = bit (partition_key p' g') m" for m using eq by simp
  have "bit p m = bit p' m" for m
  proof (cases "m < 32")
    case True
    then show ?thesis using bits [of "m + 16"] gb [of "m + 16"] by (simp add: partition_key_def bit_simps)
  qed (use pb in auto)
  moreover have "bit g m = bit g' m" for m
  proof (cases "m < 16")
    case True
    then show ?thesis using bits [of m] bit_imp_le_length [of g m] by (simp add: partition_key_def bit_simps)
  qed (use gb in auto)
  ultimately show "p = p' \<and> g = g'" by (simp add: bit_eq_iff)
qed simp

lemma sum_at_key:
  "distinct (map fst al) \<Longrightarrow>
   (\<Sum>(k, r)\<leftarrow>al. if k = key then h r else 0) = (case map_of al key of None \<Rightarrow> 0 | Some r \<Rightarrow> (h r :: nat))"
proof (induction al)
  case (Cons e al)
  obtain k r where e: "e = (k, r)" by fastforce
  have "map_of al key = None" if "k = key" using Cons.prems that e by (simp add: map_of_eq_None_iff)
  then show ?case using Cons e by auto
qed simp

lemma sum_update:
  "distinct (map fst al) \<Longrightarrow> map_of al key = Some r \<Longrightarrow>
   (\<Sum>(k, x)\<leftarrow>AList.update key r' al. h x) + h r = (\<Sum>(k, x)\<leftarrow>al. h x) + (h r' :: nat)"
proof (induction al)
  case (Cons e al)
  then show ?case by (cases e) (auto split: if_splits)
qed simp

lemma part_u32: "part < ucast (n :: u32) \<Longrightarrow> part < (2 ^ 32 :: u64)"
  using unat32_bound [of n] by (simp add: word_less_nat_alt)

lemma record_at_key:
  assumes inv: "ledger_inv lg" and nar: "narrow lg" and r: "map_of (ld_partitions lg) (partition_key p g) = Some r"
    and "p < ucast (ld_partition_count lg)" "g < 2 ^ 16"
  shows "rec_part r = p \<and> rec_gen r = g"
proof -
  have "record_wf lg (partition_key p g) r" using inv r by (simp add: ledger_inv_def)
  then have "partition_key (rec_part r) (rec_gen r) = partition_key p g" "rec_part r < ucast (ld_partition_count lg)"
    by (simp_all add: record_wf_def)
  moreover have "rec_gen r < 2 ^ 16" using nar r by (auto simp: narrow_def)
  ultimately show ?thesis
    using partition_key_inj [OF part_u32 part_u32 _ assms(5), of "rec_part r" "ld_partition_count lg" p] assms(4) by blast
qed

lemma retire_latest_completed:
  "ld_completed_edges (retire_latest part latest lg) =
     ld_completed_edges lg - word_of_nat (case map_of (ld_partitions lg) (partition_key part latest) of
       None \<Rightarrow> 0 | Some r \<Rightarrow> length (cr_completed_consumers r))"
  by (simp add: retire_latest_def Let_def split: option.splits)

lemma advance_generation_completed:
  "ld_completed_edges (advance_generation part generation lg) =
     (case map_of (ld_latest_generation lg) part of None \<Rightarrow> ld_completed_edges lg
      | Some latest \<Rightarrow> ld_completed_edges lg - word_of_nat (case map_of (ld_partitions lg) (partition_key part latest) of
          None \<Rightarrow> 0 | Some r \<Rightarrow> length (cr_completed_consumers r)))"
  by (simp add: advance_generation_def Let_def retire_latest_completed split: option.splits)

lemma advance_current_completions:
  assumes inv: "ledger_inv lg" and nar: "narrow lg" and p: "part < ucast (ld_partition_count lg)"
    and new: "\<And>latest. map_of (ld_latest_generation lg) part = Some latest \<Longrightarrow> latest < generation"
  shows "current_completions lg = current_completions (advance_generation part generation lg) +
    (case map_of (ld_latest_generation lg) part of None \<Rightarrow> 0
     | Some latest \<Rightarrow> (case map_of (ld_partitions lg) (partition_key part latest) of
          None \<Rightarrow> 0 | Some r \<Rightarrow> length (cr_completed_consumers r)))"
proof -
  let ?lg = "advance_generation part generation lg"
  have wf: "record_wf lg k r" if "(k, r) \<in> set (ld_partitions lg)" for k r
    using that inv by (simp add: ledger_inv_def)
  have step: "(if current_record lg r then length (cr_completed_consumers r) else 0) =
      (if current_record ?lg r then length (cr_completed_consumers r) else 0) +
      (case map_of (ld_latest_generation lg) part of None \<Rightarrow> 0
       | Some latest \<Rightarrow> if k = partition_key part latest then length (cr_completed_consumers r) else 0)"
    if kr: "(k, r) \<in> set (ld_partitions lg)" for k r
  proof -
    have m: "map_of (ld_partitions lg) k = Some r" using kr inv by (simp add: ledger_inv_def)
    obtain l where l: "map_of (ld_latest_generation lg) (rec_part r) = Some l" "rec_gen r \<le> l"
      "k = partition_key (rec_part r) (rec_gen r)" using wf [OF kr] by (auto simp: record_wf_def)
    show ?thesis
    proof (cases "rec_part r = part")
      case True
      then have "l < generation" using new l by simp
      then have "\<not> current_record ?lg r" using l True by (auto simp: current_record_def update_conv')
      moreover have "k = partition_key part l \<longleftrightarrow> rec_gen r = l"
        using record_at_key [OF inv nar _ p, of l r] nar l m True by (auto simp: narrow_def)
      ultimately show ?thesis using l True by (auto simp: current_record_def)
    next
      case False
      then have "k \<noteq> partition_key part l'" if "map_of (ld_latest_generation lg) part = Some l'" for l'
        using record_at_key [OF inv nar _ p, of l' r] nar m that by (auto simp: narrow_def)
      then show ?thesis using False by (auto simp: current_record_def update_conv' split: option.splits)
    qed
  qed
  show ?thesis
  proof (cases "map_of (ld_latest_generation lg) part")
    case None
    then have "current_completions lg = current_completions ?lg"
      unfolding current_completions_def
      by (intro arg_cong [where f = sum_list] map_cong) (use step in \<open>auto split: if_splits\<close>)
    then show ?thesis using None by simp
  next
    case (Some l)
    have "current_completions lg = (\<Sum>(k, r)\<leftarrow>ld_partitions lg.
        (if current_record ?lg r then length (cr_completed_consumers r) else 0) +
        (if k = partition_key part l then length (cr_completed_consumers r) else 0))"
      unfolding current_completions_def
      by (intro arg_cong [where f = sum_list] map_cong) (use step Some in auto)
    also have "\<dots> = current_completions ?lg +
        (\<Sum>(k, r)\<leftarrow>ld_partitions lg. if k = partition_key part l then length (cr_completed_consumers r) else 0)"
      by (simp add: current_completions_def case_prod_beta' sum_list_addf)
    finally show ?thesis
      using Some inv sum_at_key [of "ld_partitions lg" "partition_key part l" "\<lambda>r. length (cr_completed_consumers r)"]
      by (simp add: ledger_inv_def)
  qed
qed

lemma advance_accounted:
  assumes inv: "ledger_inv lg" and nar: "narrow lg" and acc: "accounted lg"
    and p: "part < ucast (ld_partition_count lg)"
    and new: "\<And>latest. map_of (ld_latest_generation lg) part = Some latest \<Longrightarrow> latest < generation"
  shows "accounted (advance_generation part generation lg)"
  using acc advance_current_completions [OF inv nar p new]
  by (simp add: accounted_def advance_generation_completed split: option.splits)

lemma advance_narrow:
  "narrow lg \<Longrightarrow> generation < 2 ^ 16 \<Longrightarrow> narrow (advance_generation part generation lg)"
  by (auto simp: narrow_def update_conv')

lemma current_completions_cong:
  assumes "ld_partitions lg' = ld_partitions lg" "map_of (ld_latest_generation lg') = map_of (ld_latest_generation lg)"
  shows "current_completions lg' = current_completions lg"
  by (simp add: current_completions_def current_record_def assms)

lemma commit_store_accounted:
  assumes inv: "ledger_inv lg" and nar: "narrow lg" and acc: "accounted lg" and v: "validate_commit lg request = ok_status"
  shows "accounted (commit_store request now lg)"
proof -
  let ?p = "ek_partition (rq_edge request)" and ?g = "ek_partition_generation (rq_edge request)"
  let ?lg1 = "lg\<lparr>ld_next_sequence := id_next (ld_next_sequence lg)\<rparr>"
  define lg2 where "lg2 = (if (case map_of (ld_latest_generation lg) ?p of None \<Rightarrow> True | Some latest \<Rightarrow> ?g > latest)
      then advance_generation ?p ?g ?lg1 else ?lg1)"
  have p: "?p < ucast (ld_partition_count lg)" using validate_commitD(1) [OF v] .
  have 1: "ledger_inv ?lg1" "narrow ?lg1" "accounted ?lg1"
    using inv nar acc
    by (simp_all add: ledger_inv_def record_wf_def retained_inv_def retained_of_def narrow_def accounted_def
        current_completions_def current_record_def)
  have acc2: "accounted lg2"
    unfolding lg2_def using advance_accounted [OF 1, of ?p ?g] 1(3) p by (auto split: option.splits)
  have latest: "map_of (ld_latest_generation lg2) ?p = Some ?g"
    using validate_commitD(6) [OF v] by (auto simp: lg2_def update_conv' not_less split: option.splits)
  have s: "ld_partitions (commit_store request now lg) = (request_key request, new_commit_record lg request now) # ld_partitions lg2"
    "map_of (ld_latest_generation (commit_store request now lg)) = map_of (ld_latest_generation lg2)"
    "ld_completed_edges (commit_store request now lg) = ld_completed_edges lg2 + 1"
    by (simp_all add: commit_store_def lg2_def Let_def request_key_def)
  have "current_record (commit_store request now lg) r = current_record lg2 r" for r
    by (simp add: current_record_def s del: commit_store_latest)
  moreover have "current_record lg2 (new_commit_record lg request now)"
    using latest by (simp add: current_record_def new_commit_record_def rec_part_def rec_gen_def)
  moreover have "length (cr_completed_consumers (new_commit_record lg request now)) = 1"
    by (simp add: new_commit_record_def)
  ultimately have "current_completions (commit_store request now lg) = Suc (current_completions lg2)"
    by (simp add: current_completions_def s del: commit_store_partitions)
  then show ?thesis using acc2 by (simp add: accounted_def s)
qed

lemma commit_accounted:
  assumes inv: "ledger_inv lg" and nar: "narrow lg" and acc: "accounted lg"
    and g: "ek_partition_generation (rq_edge request) < 2 ^ 16"
    and room: "length (retained_of lg (ek_partition (rq_edge request))) < unat (max_retained_generations (ld_limits lg))"
  shows "accounted (snd (ledger_commit request now lg))"
proof (cases "validate_commit lg request")
  case (Inl e)
  then show ?thesis using acc by (simp add: ledger_commit_def)
next
  case v: (Inr u)
  let ?p = "ek_partition (rq_edge request)" and ?g = "ek_partition_generation (rq_edge request)"
  have p: "?p < ucast (ld_partition_count lg)" using validate_commitD(1) [OF v] .
  show ?thesis
  proof (cases "map_of (ld_partitions lg) (request_key request)")
    case None
    let ?s = "commit_store request now lg"
    have "purge_retained (unat (max_retained_generations (ld_limits lg))) (retained_of lg ?p @ [request_key request])
        (ld_partitions ?s) (ld_completed_edges ?s) = (retained_of lg ?p @ [request_key request], ld_partitions ?s, ld_completed_edges ?s)"
      using room by (intro purge_retained_none) simp
    then have "accounted (retain_key ?p (request_key request) ?s) = accounted ?s"
      by (simp add: retain_key_def accounted_def current_completions_def current_record_def del: commit_store_partitions)
    then show ?thesis
      using commit_store_accounted [OF inv nar acc] v None by (simp add: ledger_commit_def commit_new_def request_key_def)
  next
    case (Some r)
    have rp: "rec_part r = ?p \<and> rec_gen r = ?g"
      using record_at_key [OF inv nar _ p g] Some by (simp add: request_key_def)
    have "record_wf lg (request_key request) r" using inv Some by (simp add: ledger_inv_def)
    then have cur: "current_record lg r"
      using rp validate_commitD(6) [OF v] by (fastforce simp: record_wf_def current_record_def)
    have upd: "(\<Sum>(k, x)\<leftarrow>AList.update (request_key request) r' (ld_partitions lg). if current_record lg x then length (cr_completed_consumers x) else 0) +
        length (cr_completed_consumers r) = current_completions lg + length (cr_completed_consumers r')"
      if "rec_part r' = rec_part r" "rec_gen r' = rec_gen r" for r'
      using sum_update [of "ld_partitions lg" "request_key request" r "\<lambda>x. if current_record lg x then length (cr_completed_consumers x) else 0" r']
        inv Some cur that by (simp add: ledger_inv_def current_completions_def current_record_def)
    have u1: "(\<Sum>(k, x)\<leftarrow>AList.update (request_key request) (r\<lparr>cr_duplicate_commits := d\<rparr>) (ld_partitions lg).
        if current_record lg x then length (cr_completed_consumers x) else 0) = current_completions lg" for d
      using upd [of "r\<lparr>cr_duplicate_commits := d\<rparr>"] by (simp add: rec_part_def rec_gen_def)
    have u2: "(\<Sum>(k, x)\<leftarrow>AList.update (request_key request) (r\<lparr>cr_completed_consumers := cs\<rparr>) (ld_partitions lg).
        if current_record lg x then length (cr_completed_consumers x) else 0) = Suc (current_completions lg)"
      if "length cs = Suc (length (cr_completed_consumers r))" for cs
      using upd [of "r\<lparr>cr_completed_consumers := cs\<rparr>"] that by (simp add: rec_part_def rec_gen_def)
    have cur': "current_record (lg\<lparr>ld_partitions := x, ld_duplicate_commits := y\<rparr>) = current_record lg"
      "current_record (lg\<lparr>ld_partitions := x, ld_completed_edges := y\<rparr>) = current_record lg" for x y
      by (simp_all add: current_record_def fun_eq_iff)
    show ?thesis
      using acc v Some u1 u2
      by (auto simp: ledger_commit_def Let_def request_key_def accounted_def current_completions_def cur' length_insert_at)
  qed
qed

section \<open>Lemmas: accounting along a run\<close>

lemma commit_narrow:
  assumes "ledger_inv lg" "narrow lg" "ek_partition_generation (rq_edge request) < 2 ^ 16"
  shows "narrow (snd (ledger_commit request now lg))"
proof (cases "validate_commit lg request")
  case (Inr u)
  show ?thesis
  proof (cases "map_of (ld_partitions lg) (request_key request)")
    case None
    then show ?thesis
      using assms Inr
      by (auto simp: ledger_commit_def commit_new_def request_key_def narrow_def retain_key_partitions
          latest_after_def new_commit_record_def rec_gen_def split: if_splits)
  next
    case (Some r)
    then show ?thesis
      using assms(2) Inr
      by (auto simp: ledger_commit_def request_key_def narrow_def Let_def update_conv' rec_gen_def split: if_splits)
  qed
qed (use assms in \<open>simp add: ledger_commit_def\<close>)

lemma record_failure_accounted:
  "accounted (snd (record_failure key code permanent attempts now ready_at lg)) = accounted lg"
  "narrow (snd (record_failure key code permanent attempts now ready_at lg)) = narrow lg"
  by (simp_all add: accounted_def narrow_def current_completions_def current_record_def record_failure_frame
)

lemma note_attempt_bytes_accounted:
  "accounted (note_attempt_bytes n lg) = accounted lg" "narrow (note_attempt_bytes n lg) = narrow lg"
  by (simp_all add: accounted_def narrow_def current_completions_def current_record_def note_attempt_bytes_def)

lemma retire_accounted:
  assumes "ledger_inv lg" "narrow lg" "accounted lg" "generation < 2 ^ 16"
  shows "accounted (snd (retire_generation part generation lg)) \<and> narrow (snd (retire_generation part generation lg))"
  using advance_accounted [OF assms(1-3), of part generation] advance_narrow [OF assms(2,4), of part] assms
  by (auto simp: retire_generation_def not_le split: option.splits)

lemma narrow_step_ledger_step: "narrow_step lg lg' \<Longrightarrow> ledger_step lg lg'"
  by (induction rule: narrow_step.induct) (rule ledger_step.intros)+

lemma narrow_step_accounted:
  "narrow_step lg lg' \<Longrightarrow> ledger_inv lg \<Longrightarrow> narrow lg \<Longrightarrow> accounted lg \<Longrightarrow> narrow lg' \<and> accounted lg'"
  by (induction rule: narrow_step.induct)
    (simp_all add: commit_narrow commit_accounted retire_accounted record_failure_accounted note_attempt_bytes_accounted)

lemma narrow_run_accounted:
  "narrow_step\<^sup>*\<^sup>* (ledger_bind sh g n (mk_ledger l)) lg \<Longrightarrow> ledger_inv lg \<and> narrow lg \<and> accounted lg"
proof (induction rule: rtranclp_induct)
  case base
  then show ?case
    by (simp add: mk_ledger_inv) (simp add: narrow_def accounted_def current_completions_def ledger_bind_def mk_ledger_def)
next
  case (step y z)
  then show ?case
    using narrow_step_accounted narrow_step_ledger_step ledger_step_inv by blast
qed

text \<open>The progress report in terms of the counters it is drawn from.\<close>

lemma progress_closes:
  assumes "unat (ld_completed_edges lg) + unat (ld_permanent_failures lg) < 2 ^ 64"
  shows "accounting_closes (ledger_progress lg required now) \<longleftrightarrow>
    unat (ld_completed_edges lg) + unat (ld_permanent_failures lg) \<le> unat required"
    and "unat (sn_edges_incomplete (ledger_progress lg required now)) =
      unat required - (unat (ld_completed_edges lg) + unat (ld_permanent_failures lg))"
proof -
  let ?r = "ld_completed_edges lg + ld_permanent_failures lg"
  have u: "unat ?r = unat (ld_completed_edges lg) + unat (ld_permanent_failures lg)"
    using assms by (simp add: unat_add_lem [THEN iffD1])
  have "sn_edges_over_counted (ledger_progress lg required now) = 0 \<longleftrightarrow> \<not> required < ?r"
    by (auto simp: ledger_progress_def Let_def)
  then show "accounting_closes (ledger_progress lg required now) \<longleftrightarrow>
    unat (ld_completed_edges lg) + unat (ld_permanent_failures lg) \<le> unat required"
    using u by (auto simp: accounting_closes_def ledger_progress_def Let_def word_less_nat_alt word_unat_eq_iff)
  show "unat (sn_edges_incomplete (ledger_progress lg required now)) =
      unat required - (unat (ld_completed_edges lg) + unat (ld_permanent_failures lg))"
    using u by (auto simp: ledger_progress_def Let_def word_less_nat_alt unat_sub_if')
qed

section \<open>Lemmas: concrete ledgers\<close>

lemma list_all_replicate: "list_all P (replicate n x) \<longleftrightarrow> n = 0 \<or> P x"
  by (auto simp: list_all_iff)

lemmas ledger_eval = delivery_def ledger_commit_def validate_commit_def commit_new_def commit_store_def
  advance_generation_def retire_latest_def retain_key_def retained_of_def new_commit_record_def tracked_edges_full_def
  partition_key_def ledger_bind_def mk_ledger_def retain_generation_def digest_is_zero_def found_at_def lower_bound_def
  id_next_def fresh_ledger_def default_limits_def list_all_replicate

lemma fresh_ledger_valid: "validate_commit fresh_ledger (delivery 0 1 5) = ok_status"
  by (simp add: ledger_eval Let_def)

lemma first_delivery_eval:
  "first_delivery = fresh_ledger\<lparr>ld_next_sequence := 2, ld_latest_generation := [(0, 1)],
     ld_partitions := [(1, new_commit_record fresh_ledger (delivery 0 1 5) 3)], ld_retained_keys := [(0, [1])],
     ld_completed_edges := 1, ld_committed_partitions := 1, ld_bytes_committed := 64\<rparr>"
  by (simp add: first_delivery_def ledger_eval Let_def)

lemma first_delivery_valid:
  "validate_commit first_delivery (delivery 0 1 5) = ok_status"
  "validate_commit first_delivery (delivery 0 2 5) = ok_status"
  by (simp_all add: first_delivery_eval ledger_eval Let_def)

lemma first_delivery_reached: "narrow_step\<^sup>*\<^sup>* fresh_ledger first_delivery"
  unfolding first_delivery_def
  by (rule r_into_rtranclp, rule narrow_commit) (simp_all add: ledger_eval)

lemma first_delivery_inv: "ledger_inv first_delivery" "narrow first_delivery" "accounted first_delivery"
  using narrow_run_accounted [OF first_delivery_reached [unfolded fresh_ledger_def]] by simp_all

lemma fresh_ledger_reached:
  "ledger_step\<^sup>*\<^sup>* (ledger_bind 1 1 4 (mk_ledger (default_limits\<lparr>max_retained_generations := 1\<rparr>))) fresh_ledger"
  by (simp add: fresh_ledger_def)

lemma concrete_retention:
  "max_retained_generations (ld_limits fresh_ledger) = 1" "max_retained_generations (ld_limits first_delivery) = 1"
  by (simp_all add: first_delivery_eval ledger_eval)

lemma accepted_commit:
  "validate_commit lg request = ok_status \<Longrightarrow> \<exists>receipt. ledger_commit request now lg = (Inr receipt, snd (ledger_commit request now lg))"
  using commit_status [of request now lg] by (metis prod.collapse)

lemma first_delivery_receipt: "\<exists>receipt. ledger_commit (delivery 0 1 5) 3 fresh_ledger = (Inr receipt, first_delivery)"
  unfolding first_delivery_def by (rule accepted_commit [OF fresh_ledger_valid])

lemma first_delivery_run:
  "ledger_step\<^sup>*\<^sup>* (ledger_bind 1 1 4 (mk_ledger (default_limits\<lparr>max_retained_generations := 1\<rparr>))) first_delivery"
  using fresh_ledger_reached unfolding first_delivery_def by (rule rtranclp.rtrancl_into_rtrancl) (rule step_commit)

section \<open>Lemmas: what purging does to the edge count\<close>

lemma sum_delete:
  fixes f :: "'b \<Rightarrow> nat"
  assumes "distinct (map fst al)" "map_of al k = Some v"
  shows "(\<Sum>(k', x)\<leftarrow>AList.delete k al. f x) + f v = (\<Sum>(k', x)\<leftarrow>al. f x)"
  using assms
proof (induction al)
  case (Cons a al)
  then show ?case
    by (cases a) (auto simp: delete_id map_of_eq_None_iff dest: weak_map_of_SomeI)
qed simp

lemma purge_undercounts:
  assumes inv: "ledger_inv lg" and nar: "narrow lg" and acc: "accounted lg"
    and v: "validate_commit lg request = ok_status"
    and new: "map_of (ld_partitions lg) (request_key request) = None"
    and lim: "max_retained_generations (ld_limits lg) = 1"
    and keep: "retained_of lg (ek_partition (rq_edge request)) = [old]"
    and r: "map_of (ld_partitions lg) old = Some r" "rec_part r = ek_partition (rq_edge request)"
  shows "ld_completed_edges (snd (ledger_commit request now lg)) + word_of_nat (length (cr_completed_consumers r)) =
    word_of_nat (current_completions (snd (ledger_commit request now lg)))"
proof -
  let ?p = "ek_partition (rq_edge request)" and ?s = "commit_store request now lg"
  let ?l = "snd (ledger_commit request now lg)"
  have ne: "old \<noteq> request_key request" using r new by auto
  have l: "?l = retain_key ?p (request_key request) ?s"
    using v new by (simp add: ledger_commit_def commit_new_def request_key_def)
  have rs: "map_of (ld_partitions ?s) old = Some r" using r ne by (simp add: request_key_def)
  have purge: "purge_retained 1 [old, request_key request] (ld_partitions ?s) (ld_completed_edges ?s) =
      ([request_key request], AList.delete old (ld_partitions ?s), ld_completed_edges ?s - word_of_nat (length (cr_completed_consumers r)))"
    using rs by simp
  have f: "ld_completed_edges ?l = ld_completed_edges ?s - word_of_nat (length (cr_completed_consumers r))"
    "ld_partitions ?l = AList.delete old (ld_partitions ?s)"
    "map_of (ld_latest_generation ?l) = map_of (ld_latest_generation ?s)"
    using purge keep lim unfolding l by (simp_all add: retain_key_def del: commit_store_partitions)
  have "record_wf lg old r" using inv r(1) by (simp add: ledger_inv_def)
  then have "old = partition_key ?p (rec_gen r)" using r(2) by (simp add: record_wf_def)
  then have g: "rec_gen r \<noteq> ek_partition_generation (rq_edge request)" using ne by (auto simp: request_key_def)
  have "latest_after lg ?p (ek_partition_generation (rq_edge request)) ?p = Some (ek_partition_generation (rq_edge request))"
    using validate_commitD(6) [OF v] by (auto simp: latest_after_def not_less split: option.splits)
  then have "\<not> current_record ?s r" using g r(2) by (simp add: current_record_def)
  moreover have "current_record ?l = current_record ?s" by (simp add: current_record_def fun_eq_iff f)
  moreover have "distinct (map fst (ld_partitions ?s))"
    using inv new by (auto simp: ledger_inv_def map_of_eq_None_iff request_key_def)
  ultimately have "current_completions ?l = current_completions ?s"
    using sum_delete [OF _ rs, of "\<lambda>x. if current_record ?s x then length (cr_completed_consumers x) else 0"]
    by (simp add: current_completions_def f(2))
  moreover have "ld_completed_edges ?s = word_of_nat (current_completions ?s)"
    using commit_store_accounted [OF inv nar acc v] by (simp add: accounted_def)
  ultimately show ?thesis by (simp add: f(1))
qed

section \<open>Lemmas: attempted bytes are bookkeeping\<close>

lemma attempted_retire_latest [simp]:
  "retire_latest part latest (lg\<lparr>ld_attempted_bytes := n\<rparr>) = (retire_latest part latest lg)\<lparr>ld_attempted_bytes := n\<rparr>"
  by (simp add: retire_latest_def Let_def split: option.split)

lemma attempted_advance [simp]:
  "advance_generation part g (lg\<lparr>ld_attempted_bytes := n\<rparr>) = (advance_generation part g lg)\<lparr>ld_attempted_bytes := n\<rparr>"
  by (simp add: advance_generation_def Let_def split: option.split)

lemma attempted_commit_store [simp]:
  "commit_store q now (lg\<lparr>ld_attempted_bytes := n\<rparr>) = (commit_store q now lg)\<lparr>ld_attempted_bytes := n\<rparr>"
proof -
  have *: "(lg\<lparr>ld_attempted_bytes := n\<rparr>)\<lparr>ld_next_sequence := x\<rparr> = (lg\<lparr>ld_next_sequence := x\<rparr>)\<lparr>ld_attempted_bytes := n\<rparr>" for x
    by simp
  show ?thesis by (simp add: commit_store_def new_commit_record_def Let_def *)
qed

lemma attempted_retain_key [simp]:
  "retain_key part key (lg\<lparr>ld_attempted_bytes := n\<rparr>) = (retain_key part key lg)\<lparr>ld_attempted_bytes := n\<rparr>"
  by (simp add: retain_key_def retained_of_def split: prod.split)

lemma attempted_tracked_edges [simp]: "tracked_edges_full (lg\<lparr>ld_attempted_bytes := n\<rparr>) = tracked_edges_full lg"
  by (simp add: tracked_edges_full_def)

lemma attempted_validate_commit [simp]: "validate_commit (lg\<lparr>ld_attempted_bytes := n\<rparr>) q = validate_commit lg q"
  by (simp add: validate_commit_def Let_def cong: option.case_cong if_cong)

lemma attempted_commit:
  "ledger_commit q now (lg\<lparr>ld_attempted_bytes := n\<rparr>) =
     (fst (ledger_commit q now lg), (snd (ledger_commit q now lg))\<lparr>ld_attempted_bytes := n\<rparr>)"
  by (simp add: ledger_commit_def commit_new_def Let_def split: sum.split option.split)

lemma attempted_retire:
  "retire_generation part g (lg\<lparr>ld_attempted_bytes := n\<rparr>) =
     (fst (retire_generation part g lg), (snd (retire_generation part g lg))\<lparr>ld_attempted_bytes := n\<rparr>)"
  by (simp add: retire_generation_def split: option.split)

lemma attempted_failure_views [simp]:
  "edge_current (lg\<lparr>ld_attempted_bytes := n\<rparr>) key = edge_current lg key"
  "counted_failures (lg\<lparr>ld_attempted_bytes := n\<rparr>) part = counted_failures lg part"
  "key_committed (lg\<lparr>ld_attempted_bytes := n\<rparr>) key = key_committed lg key"
  by (simp_all add: edge_current_def counted_failures_def key_committed_def)

lemma attempted_new_failure [simp]:
  "record_new_failure key code p a now r (lg\<lparr>ld_attempted_bytes := n\<rparr>) =
     (record_new_failure key code p a now r lg)\<lparr>ld_attempted_bytes := n\<rparr>"
  by (cases p; cases "edge_current lg key"; cases "is_authority_code code"; cases "key_committed lg key")
    (simp_all add: record_new_failure_def Let_def counted_failures_def key_committed_def)

lemma attempted_failure_steps [simp]:
  "store_failure f key code p a now r (lg\<lparr>ld_attempted_bytes := n\<rparr>) = (store_failure f key code p a now r lg)\<lparr>ld_attempted_bytes := n\<rparr>"
  "shift_permanence w p part (lg\<lparr>ld_attempted_bytes := n\<rparr>) = (shift_permanence w p part lg)\<lparr>ld_attempted_bytes := n\<rparr>"
  "mark_failed key (lg\<lparr>ld_attempted_bytes := n\<rparr>) = (mark_failed key lg)\<lparr>ld_attempted_bytes := n\<rparr>"
  "shift_authority w na (lg\<lparr>ld_attempted_bytes := n\<rparr>) = (shift_authority w na lg)\<lparr>ld_attempted_bytes := n\<rparr>"
  by (simp_all add: store_failure_def shift_permanence_def mark_failed_def shift_authority_def)

lemma attempted_known_failure [simp]:
  "record_known_failure f key code p a now r (lg\<lparr>ld_attempted_bytes := n\<rparr>) =
     (record_known_failure f key code p a now r lg)\<lparr>ld_attempted_bytes := n\<rparr>"
  by (simp add: record_known_failure_def Let_def)

lemma attempted_record_failure:
  "record_failure key code p a now r (lg\<lparr>ld_attempted_bytes := n\<rparr>) =
     (fst (record_failure key code p a now r lg), (snd (record_failure key code p a now r lg))\<lparr>ld_attempted_bytes := n\<rparr>)"
  by (simp add: record_failure_def split: option.split)

section \<open>The ledger as a completion view\<close>

lemma ledger_completion_view:
  "completion_view edge_status (\<lambda>lg. ledger_inv lg \<and> max_retained_generations (ld_limits lg) \<noteq> 0) deliver_commit
     (\<lambda>(request, now). delivered_edge request)"
proof unfold_locales
  fix lg r lg'
  assume wf: "ledger_inv lg \<and> max_retained_generations (ld_limits lg) \<noteq> 0" and d: "deliver_commit r lg = Some lg'"
  obtain request now receipt where r: "r = (request, now)" "ledger_commit request now lg = (Inr receipt, lg')"
    using d by (cases r) (auto simp: deliver_commit_def split: prod.splits sum.splits)
  show "ledger_inv lg' \<and> max_retained_generations (ld_limits lg') \<noteq> 0"
    using wf ledger_commit_inv [of lg request now] commit_limits [of request now lg] r(2) by simp
  have "validate_commit lg request = ok_status" using commit_status [of request now lg] r(2) by auto
  then show "es_phase (edge_status lg' (case r of (request, now) \<Rightarrow> delivered_edge request)) = EP_Completed"
    using commit_visible [of lg request now] wf r by simp
qed

section \<open>Properties\<close>

text \<open>
  Every ledger reached from a bound, empty one by any sequence of commits, retirements,
  failure reports and byte notes is well formed: its records sit under their own keys, inside
  the shuffle, at or below the latest generation of their partition, with a strictly ascending
  consumer list, a non-zero digest and size, and the retention lists name live records only.
\<close>

theorem reachable_ledger_well_formed:
  "ledger_step\<^sup>*\<^sup>* (ledger_bind sh g n (mk_ledger l)) lg \<Longrightarrow> ledger_inv lg"
  by (rule ledger_reachable_inv)

theorem reachable_ledger_well_formed_witness:
  "ledger_inv (snd (ledger_commit (delivery 0 1 5) 3 fresh_ledger))"
  unfolding fresh_ledger_def
  by (rule reachable_ledger_well_formed) (rule r_into_rtranclp, rule step_commit)

text \<open>
  C11. A commit is accepted exactly when \<open>validate_commit\<close> accepts it, a refused one leaves the
  ledger unchanged, and an accepted one is visible at once: the status of the delivered edge is
  an authoritative completion with the digest and the size of the request.
\<close>

theorem commit_makes_delivery_visible:
  assumes "ledger_step\<^sup>*\<^sup>* (ledger_bind sh g n (mk_ledger l)) lg"
    and "max_retained_generations (ld_limits lg) \<noteq> 0"
    and "ledger_commit request now lg = (result, lg')"
  shows "case result of
      Inl e \<Rightarrow> validate_commit lg request = Inl e \<and> lg' = lg
    | Inr receipt \<Rightarrow> validate_commit lg request = ok_status \<and>
        es_phase (edge_status lg' (delivered_edge request)) = EP_Completed \<and>
        es_authoritative (edge_status lg' (delivered_edge request)) \<and>
        es_manifest_digest (edge_status lg' (delivered_edge request)) = rq_manifest_digest request \<and>
        es_bytes (edge_status lg' (delivered_edge request)) = rq_bytes request"
proof (cases result)
  case (Inl e)
  then have "validate_commit lg request = Inl e"
    using commit_refused [of request now lg e] assms(3) by simp
  then show ?thesis using assms(3) Inl by (simp add: ledger_commit_def)
next
  case (Inr receipt)
  then have ok: "validate_commit lg request = ok_status"
    using commit_status [of request now lg] assms(3) by auto
  show ?thesis
    using commit_visible [OF ledger_reachable_inv [OF assms(1)] assms(2) ok, of now] ok assms(3) Inr by simp
qed

theorem commit_makes_delivery_visible_witness:
  "es_phase (edge_status first_delivery (delivered_edge (delivery 0 1 5))) = EP_Completed"
proof -
  obtain receipt where r: "ledger_commit (delivery 0 1 5) 3 fresh_ledger = (Inr receipt, first_delivery)"
    using first_delivery_receipt by blast
  show ?thesis using commit_makes_delivery_visible [OF fresh_ledger_reached _ r] by (simp add: concrete_retention)
qed



text \<open>
  What a commit record claims never changes: as long as it is retained, no operation alters
  the producer, incarnation, digest, size, generations, sequence or time it was committed with,
  and no completed consumer is ever dropped from it.
\<close>

theorem committed_claim_immutable:
  assumes "ledger_step\<^sup>*\<^sup>* (ledger_bind sh g n (mk_ledger l)) lg" "ledger_step lg lg'"
    and "map_of (ld_partitions lg) key = Some record" "map_of (ld_partitions lg') key = Some record'"
  shows "same_claim record record'"
  using ledger_step_claims [OF assms(2) ledger_reachable_inv [OF assms(1)] assms(3,4)] .

theorem committed_claim_immutable_witness:
  "same_claim (new_commit_record fresh_ledger (delivery 0 1 5) 3) (new_commit_record fresh_ledger (delivery 0 1 5) 3)"
proof (rule committed_claim_immutable [OF first_delivery_run, of "note_attempt_bytes 64 first_delivery" 1])
  show "ledger_step first_delivery (note_attempt_bytes 64 first_delivery)" by (rule step_attempt_bytes)
qed (simp_all add: first_delivery_eval note_attempt_bytes_def)

text \<open>
  C12. Late authority is refused: once a partition has reached a generation, then whatever
  happens to the ledger afterwards, a commit for an older generation fails and changes nothing.
\<close>

theorem superseded_generation_refused:
  assumes "map_of (ld_latest_generation lg) (ek_partition (rq_edge request)) = Some g"
    and "ek_partition_generation (rq_edge request) < g" "ledger_step\<^sup>*\<^sup>* lg lg'"
  shows "\<exists>e. ledger_commit request now lg' = (Inl e, lg')"
proof -
  obtain g' where g': "map_of (ld_latest_generation lg') (ek_partition (rq_edge request)) = Some g'" "g \<le> g'"
    using ledger_run_latest [OF assms(3,1)] by blast
  show ?thesis using commit_stale [OF g'(1), of now] assms(2) g'(2) by (metis less_le_trans prod.collapse)
qed

theorem superseded_generation_refused_witness:
  "\<exists>e. ledger_commit (delivery 0 0 5) 9 (note_attempt_bytes 64 first_delivery) = (Inl e, note_attempt_bytes 64 first_delivery)"
  by (rule superseded_generation_refused [where lg = first_delivery and g = 1])
    (auto simp: first_delivery_eval delivery_def intro: step_attempt_bytes)

text \<open>
  C35. The edge count is exact: along every run whose generations stay below \<open>2 ^ 16\<close> and
  that never exceeds the retention bound, \<open>completed_edges_\<close> is the number of consumers
  recorded for the latest generation of each partition.
\<close>

theorem completed_edges_exact:
  assumes "narrow_step\<^sup>*\<^sup>* (ledger_bind sh g n (mk_ledger l)) lg"
  shows "ld_completed_edges lg = word_of_nat (current_completions lg)"
  using narrow_run_accounted [OF assms] by (simp add: accounted_def)

theorem completed_edges_exact_witness:
  "ld_completed_edges first_delivery = word_of_nat (current_completions first_delivery)"
  by (rule completed_edges_exact [OF first_delivery_reached [unfolded fresh_ledger_def]])

text \<open>
  The progress report closes: when completed and permanently failed edges do not wrap a
  64-bit count, the report says that its accounting closes exactly when they do not exceed
  the required edges, and the incomplete edges are then the exact difference.
\<close>

theorem progress_accounting:
  assumes "unat (ld_completed_edges lg) + unat (ld_permanent_failures lg) < 2 ^ 64"
  shows "(accounting_closes (ledger_progress lg required now) \<longleftrightarrow>
      unat (ld_completed_edges lg) + unat (ld_permanent_failures lg) \<le> unat required) \<and>
    unat (sn_edges_incomplete (ledger_progress lg required now)) =
      unat required - (unat (ld_completed_edges lg) + unat (ld_permanent_failures lg))"
  using progress_closes [OF assms] by blast

theorem progress_accounting_witness:
  "unat (sn_edges_incomplete (ledger_progress first_delivery 3 9)) = 2"
  using progress_accounting [of first_delivery 3 9]
  by (simp add: first_delivery_eval fresh_ledger_def ledger_bind_def mk_ledger_def)

text \<open>
  Purging subtracts a superseded generation a second time: when the commit of a new
  generation drops the one retained record of the partition, \<open>completed_edges_\<close> ends below
  the number of current completions by the completions of the dropped record (which
  superseding it had already subtracted), and wraps when it was smaller.
\<close>

theorem purge_subtracts_twice:
  assumes "narrow_step\<^sup>*\<^sup>* (ledger_bind sh g n (mk_ledger l)) lg"
    and "validate_commit lg request = ok_status" "map_of (ld_partitions lg) (request_key request) = None"
    and "max_retained_generations (ld_limits lg) = 1"
    and "retained_of lg (ek_partition (rq_edge request)) = [old]"
    and "map_of (ld_partitions lg) old = Some record" "rec_part record = ek_partition (rq_edge request)"
  shows "ld_completed_edges (snd (ledger_commit request now lg)) + word_of_nat (length (cr_completed_consumers record)) =
    word_of_nat (current_completions (snd (ledger_commit request now lg)))"
  using purge_undercounts [OF _ _ _ assms(2-7)] narrow_run_accounted [OF assms(1)] by blast

theorem purge_subtracts_twice_witness:
  "ld_completed_edges (snd (ledger_commit (delivery 0 2 5) 4 first_delivery)) + 1 =
     word_of_nat (current_completions (snd (ledger_commit (delivery 0 2 5) 4 first_delivery)))"
  using purge_subtracts_twice [OF first_delivery_reached [unfolded fresh_ledger_def] first_delivery_valid(2),
      of 1 "new_commit_record fresh_ledger (delivery 0 1 5) 3" 4]
  by (simp add: first_delivery_eval concrete_retention request_key_def delivery_def partition_key_def retained_of_def
      new_commit_record_def rec_part_def)

text \<open>
  The packed record key separates partitions and generations while generations stay below
  \<open>2 ^ 16\<close> and partitions below \<open>2 ^ 32\<close>; beyond that two different partitions share a key.
\<close>

theorem partition_key_separates:
  "(\<forall>p p' g g'. p < 2 ^ 32 \<and> p' < 2 ^ 32 \<and> g < 2 ^ 16 \<and> g' < 2 ^ 16 \<longrightarrow>
      (partition_key p g = partition_key p' g' \<longleftrightarrow> p = p' \<and> g = g')) \<and>
   partition_key 0 65537 = partition_key 1 1"
  using partition_key_inj by (auto simp: partition_key_def)

theorem partition_key_separates_witness: "partition_key 3 7 \<noteq> partition_key 7 3"
  using partition_key_separates by simp

end
