(* ===== verification/Fabric_Vectors.thy ===== *)
theory Fabric_Vectors
  imports Fabric_Hash
begin

text \<open>
  The published SHA-256 test vector of the message \<open>abc\<close>, evaluated through the model in the
  kernel. The message schedule and the 64 rounds are evaluated separately; \<open>reduced\<close> brings a
  32-bit literal back into range after every round.
\<close>

section \<open>Specification\<close>

definition reduced :: "u32 \<Rightarrow> u32" where
  "reduced w = w"

definition abc_schedule :: "u32 list" where
  "abc_schedule =
    [0x61626380, 0x00000000, 0x00000000, 0x00000000, 0x00000000, 0x00000000, 0x00000000, 0x00000000,
     0x00000000, 0x00000000, 0x00000000, 0x00000000, 0x00000000, 0x00000000, 0x00000000, 0x00000018,
     0x61626380, 0x000f0000, 0x7da86405, 0x600003c6, 0x3e9d7b78, 0x0183fc00, 0x12dcbfdb, 0xe2e2c38e,
     0xc8215c1a, 0xb73679a2, 0xe5bc3909, 0x32663c5b, 0x9d209d67, 0xec8726cb, 0x702138a4, 0xd3b7973b,
     0x93f5997f, 0x3b68ba73, 0xaff4ffc1, 0xf10a5c62, 0x0a8b3996, 0x72af830a, 0x9409e33e, 0x24641522,
     0x9f47bf94, 0xf0a64f5a, 0x3e246a79, 0x27333ba3, 0x0c4763f2, 0x840abf27, 0x7a290d5d, 0x065c43da,
     0xfb3e89cb, 0xcc7617db, 0xb9e66c34, 0xa9993667, 0x84badedd, 0xc21462bc, 0x1487472c, 0xb20f7a99,
     0xef57b9cd, 0xebe6b238, 0x9fe3095e, 0x78bc8d4b, 0xa43fcf15, 0x668b2ff8, 0xeeaba2cc, 0x12b1edeb]"

definition abc_block :: bytes where
  "abc_block = [0x61, 0x62, 0x63, 0x80] @ replicate 59 0 @ [24]"

section \<open>Lemmas\<close>

lemma replicate_eval:
  "replicate (numeral n) x = x # replicate (pred_numeral n) x"
  by (simp add: numeral_eq_Suc)

lemma reduced_numeral [simp]: "reduced (numeral n) = word_of_nat (take_bit 32 (numeral n))"
  unfolding reduced_def by (simp only: of_nat_take_bit of_nat_numeral) (rule bit_word_eqI, simp only: bit_take_bit_iff, simp)

lemma sha_round_eval:
  "sha_round (a, b, c, d, e, f, g, h) (k, w) =
     (let temp1 = reduced (h + reduced (rotr e 6 XOR rotr e 11 XOR rotr e 25) + ((e AND f) XOR ((NOT e) AND g)) + k + w);
          temp2 = reduced (rotr a 2 XOR rotr a 13 XOR rotr a 22) + ((a AND b) XOR (a AND c) XOR (b AND c))
      in (reduced (temp1 + temp2), a, b, c, reduced (d + temp1), e, f, g))"
  by (simp add: sha_round_def Let_def reduced_def)

lemma abc_padded: "[0x61, 0x62, 0x63] @ sha_padding 3 = abc_block"
  by (simp add: sha_padding_def abc_block_def upt_rec) (simp add: replicate_eval)

lemma abc_words: "map (\<lambda>index. big_endian_load (drop (index * 4) abc_block)) [0..<16] = take 16 abc_schedule"
  by (simp add: abc_block_def abc_schedule_def big_endian_load_def upt_rec replicate_eval)

lemma abc_schedule_eval: "sha_schedule abc_block = abc_schedule"
  unfolding sha_schedule_def abc_words
  by (simp add: abc_schedule_def sha_schedule_step_def rotr_def upt_rec)

lemma abc_rounds:
  "foldl sha_round (0x6a09e667, 0xbb67ae85, 0x3c6ef372, 0xa54ff53a, 0x510e527f, 0x9b05688c, 0x1f83d9ab, 0x5be0cd19)
     (zip kSha256RoundConstants abc_schedule) =
   (0x506e3058, 0xd39a2165, 0x04d24d6c, 0xb85e2ce9, 0x5ef50f24, 0xfb121210, 0x948d25b6, 0x961f4894)"
  by (simp add: sha_round_eval rotr_def kSha256RoundConstants_def abc_schedule_def)

lemma sha256_abc:
  "sha256 [0x61, 0x62, 0x63] =
    [0xba, 0x78, 0x16, 0xbf, 0x8f, 0x01, 0xcf, 0xea, 0x41, 0x41, 0x40, 0xde, 0x5d, 0xae, 0x22, 0x23,
     0xb0, 0x03, 0x61, 0xa3, 0x96, 0x17, 0x7a, 0x9c, 0xb4, 0x10, 0xff, 0x61, 0xf2, 0x00, 0x15, 0xad]"
proof -
  have p: "[0x61, 0x62, 0x63] @ sha_padding (length [0x61, 0x62, 0x63 :: u8]) = abc_block"
    using abc_padded by (simp add: numeral_eq_Suc)
  have l: "length abc_block = 64" by (simp add: abc_block_def)
  have m: "message_block abc_block 0 = abc_block" by (simp add: message_block_def l)
  have c: "sha_compress kSha256InitialState abc_block = [0xba7816bf, 0x8f01cfea, 0x414140de, 0x5dae2223, 0xb00361a3, 0x96177a9c, 0xb410ff61, 0xf20015ad]"
    unfolding sha_compress_def abc_schedule_eval
    using abc_rounds by (simp add: kSha256InitialState_def)
  show ?thesis
    unfolding sha256_eq_reference sha256_reference_def Let_def p l
    by (simp add: m c)
qed

lemma sha256_abc_nonzero: "\<not> digest_is_zero (sha256 [0x61, 0x62, 0x63])"
  by (simp add: digest_is_zero_def sha256_abc)

end
