(* ===== verification/Fabric_Manifest.thy ===== *)
theory Fabric_Manifest
  imports Fabric_Codec Fabric_Vectors
begin

text \<open>
  Partition and chunk manifests (\<open>manifest.hpp\<close>, \<open>manifest.cpp\<close>): the descriptors, their
  structural validation, the canonical encoding, content verification and the construction of
  a manifest from a payload.

  \<open>std::span::subspan\<close> outside the span is undefined behaviour; \<open>subspan\<close> returns \<open>None\<close>
  there, and \<open>verify_partition_content\<close> propagates it, so that its absence for validated
  manifests is a theorem and not an assumption.

  Lemmas: \<open>validate_manifest\<close> accepts exactly the manifests whose chunks tile the partition
  without gap, overlap or wrap-around; \<open>decode_manifest\<close> accepts exactly the encodings of
  admitted manifests; verified content is determined by the manifest up to SHA-256 collisions;
  \<open>build_manifest\<close> produces manifests that verify against the payload they were built from.
\<close>

section \<open>Data\<close>

record chunk_descriptor =
  cd_id :: chunk_id
  cd_offset :: u64
  cd_length :: u32
  cd_digest :: digest

record partition_manifest =
  pm_shuffle :: shuffle_id
  pm_shuffle_generation :: shuffle_generation
  pm_partition :: partition_id
  pm_partition_generation :: partition_generation
  pm_producer :: producer_id
  pm_producer_incarnation :: incarnation_id
  pm_topology_generation :: topology_generation
  pm_total_bytes :: u64
  pm_chunks :: "chunk_descriptor list"

definition kMaxChunkBytes :: u32 where
  "kMaxChunkBytes = push_bit 24 1"

definition kMaxPartitionBytes :: u64 where
  "kMaxPartitionBytes = push_bit 46 1"

section \<open>Canonical encoding and digests\<close>

definition write_identity :: "partition_manifest \<Rightarrow> bytes" where
  "write_identity manifest =
     put_u64 (pm_shuffle manifest) @
     put_u64 (pm_shuffle_generation manifest) @
     put_u64 (pm_partition manifest) @
     put_u64 (pm_partition_generation manifest) @
     put_u64 (pm_producer manifest) @
     put_u64 (pm_producer_incarnation manifest) @
     put_u64 (pm_topology_generation manifest) @
     put_u64 (pm_total_bytes manifest) @
     put_u32 (word_of_nat (length (pm_chunks manifest)))"

definition write_chunk :: "chunk_descriptor \<Rightarrow> bytes" where
  "write_chunk chunk =
     put_u64 (cd_id chunk) @ put_u64 (cd_offset chunk) @ put_u32 (cd_length chunk) @
     put_digest (cd_digest chunk)"

definition write_chunks :: "partition_manifest \<Rightarrow> bytes" where
  "write_chunks manifest = concat (map write_chunk (pm_chunks manifest))"

definition compute_partition_digest :: "partition_manifest \<Rightarrow> digest" where
  "compute_partition_digest manifest =
     sha256 (put_u64 (pm_total_bytes manifest) @
             put_u32 (word_of_nat (length (pm_chunks manifest))) @ write_chunks manifest)"

definition compute_manifest_digest :: "partition_manifest \<Rightarrow> digest" where
  "compute_manifest_digest manifest = sha256 (write_identity manifest @ write_chunks manifest)"

section \<open>Validation\<close>

fun validate_chunks :: "u64 \<Rightarrow> u64 \<Rightarrow> chunk_descriptor list \<Rightarrow> u64 result" where
  "validate_chunks index expected_offset [] = Inr expected_offset"
| "validate_chunks index expected_offset (chunk # chunks) =
     (if cd_id chunk \<noteq> index then Inl ManifestInconsistent
      else if cd_length chunk = 0 then Inl ManifestInconsistent
      else if cd_length chunk > kMaxChunkBytes then Inl OversizedInput
      else if cd_offset chunk \<noteq> expected_offset then Inl ManifestInconsistent
      else if digest_is_zero (cd_digest chunk) then Inl ManifestInconsistent
      else if add_overflows (cd_offset chunk) (ucast (cd_length chunk)) then Inl IntegerOverflow
      else validate_chunks (index + 1) (cd_offset chunk + ucast (cd_length chunk)) chunks)"

definition validate_manifest :: "partition_manifest \<Rightarrow> limits \<Rightarrow> status" where
  "validate_manifest manifest l =
     (if pm_chunks manifest = [] then Inl ManifestInconsistent
      else if length (pm_chunks manifest) > unat (max_chunks_per_partition l) then Inl TooManyChunks
      else if pm_total_bytes manifest = 0 then Inl ManifestInconsistent
      else if pm_total_bytes manifest > kMaxPartitionBytes then Inl OversizedInput
      else if pm_partition manifest \<ge> ucast (max_partitions l) then Inl TooManyPartitions
      else if pm_shuffle manifest = 0 then Inl ManifestInconsistent
      else if pm_producer manifest = 0 then Inl ManifestInconsistent
      else case validate_chunks 0 0 (pm_chunks manifest) of
        Inl e \<Rightarrow> Inl e
      | Inr expected_offset \<Rightarrow>
          if expected_offset \<noteq> pm_total_bytes manifest then Inl ManifestInconsistent
          else ok_status)"

definition encode_manifest :: "partition_manifest \<Rightarrow> limits \<Rightarrow> bytes result" where
  "encode_manifest manifest l =
     (case validate_manifest manifest l of
        Inl e \<Rightarrow> Inl e
      | Inr _ \<Rightarrow> Inr (write_identity manifest @ write_chunks manifest))"

definition rd_chunk :: "chunk_descriptor result reader" where
  "rd_chunk = do {
     cid \<leftarrow> rd_u64;
     offset \<leftarrow> rd_u64;
     len \<leftarrow> rd_u32;
     d \<leftarrow> rd_digest;
     rd_check (ret (Inr \<lparr>cd_id = cid, cd_offset = offset, cd_length = len, cd_digest = d\<rparr>)) }"

text \<open>The reader is built over the same limits \<open>decode_manifest\<close> is given.\<close>

definition rd_manifest :: "partition_manifest result reader" where
  "rd_manifest = do {
     shuffle \<leftarrow> rd_u64;
     shuffle_generation \<leftarrow> rd_u64;
     part \<leftarrow> rd_u64;
     partition_generation \<leftarrow> rd_u64;
     producer \<leftarrow> rd_u64;
     producer_incarnation \<leftarrow> rd_u64;
     topology_generation \<leftarrow> rd_u64;
     total_bytes \<leftarrow> rd_u64;
     l \<leftarrow> rd_get_limits;
     chunk_count \<leftarrow> rd_collection_count (max_chunks_per_partition l);
     rd_check (rd_sub (rd_list (unat chunk_count) rd_chunk) (\<lambda>chunks.
       ret (Inr
         \<lparr>pm_shuffle = shuffle, pm_shuffle_generation = shuffle_generation,
          pm_partition = part, pm_partition_generation = partition_generation,
          pm_producer = producer, pm_producer_incarnation = producer_incarnation,
          pm_topology_generation = topology_generation, pm_total_bytes = total_bytes,
          pm_chunks = chunks\<rparr>))) }"

definition decode_manifest :: "bytes \<Rightarrow> limits \<Rightarrow> partition_manifest result" where
  "decode_manifest encoded l =
     (if length encoded > unat (max_message_payload_bytes l) then Inl OversizedInput
      else case rd_all rd_manifest encoded l of
        Inl e \<Rightarrow> Inl e
      | Inr manifest \<Rightarrow>
          (case validate_manifest manifest l of Inl e \<Rightarrow> Inl e | Inr _ \<Rightarrow> Inr manifest))"

section \<open>Content verification\<close>

definition subspan :: "'a list \<Rightarrow> nat \<Rightarrow> nat \<Rightarrow> 'a list option" where
  "subspan xs begin len =
     (if begin \<le> length xs \<and> len \<le> length xs - begin then Some (take len (drop begin xs)) else None)"

definition verify_chunk :: "chunk_descriptor \<Rightarrow> bytes \<Rightarrow> status" where
  "verify_chunk chunk payload =
     (if length payload \<noteq> unat (cd_length chunk) then Inl IntegrityFailure
      else if sha256 payload \<noteq> cd_digest chunk then Inl DigestMismatch
      else ok_status)"

fun verify_chunks :: "chunk_descriptor list \<Rightarrow> bytes \<Rightarrow> status option" where
  "verify_chunks [] content = Some ok_status"
| "verify_chunks (chunk # chunks) content =
     (case subspan content (unat (cd_offset chunk)) (unat (cd_length chunk)) of
        None \<Rightarrow> None
      | Some payload \<Rightarrow>
          (case verify_chunk chunk payload of
             Inl e \<Rightarrow> Some (Inl e)
           | Inr _ \<Rightarrow> verify_chunks chunks content))"

definition verify_partition_content :: "partition_manifest \<Rightarrow> bytes \<Rightarrow> status option" where
  "verify_partition_content manifest content =
     (if length content \<noteq> unat (pm_total_bytes manifest) then Some (Inl IntegrityFailure)
      else verify_chunks (pm_chunks manifest) content)"

section \<open>Construction\<close>

text \<open>
  The splitting loop of \<open>build_manifest\<close>. The caller has excluded a zero chunk size, for which
  the C++ loop would not advance; the guard here stops there.
\<close>

function build_chunks :: "bytes \<Rightarrow> u32 \<Rightarrow> nat \<Rightarrow> u64 \<Rightarrow> chunk_descriptor list" where
  "build_chunks content max_chunk_bytes offset index =
     (if max_chunk_bytes \<noteq> 0 \<and> offset < length content then
        (let remaining = length content - offset;
             n = min remaining (unat max_chunk_bytes)
         in \<lparr>cd_id = index, cd_offset = word_of_nat offset, cd_length = word_of_nat n,
             cd_digest = sha256 (take n (drop offset content))\<rparr>
            # build_chunks content max_chunk_bytes (offset + n) (index + 1))
      else [])"
  by pat_completeness auto
termination
  by (relation "measure (\<lambda>(content, m, offset, i). length content - offset)")
    (auto simp: min_def simp flip: unat_gt_0)

definition build_manifest ::
  "shuffle_id \<Rightarrow> shuffle_generation \<Rightarrow> partition_id \<Rightarrow> partition_generation \<Rightarrow> producer_id \<Rightarrow>
   incarnation_id \<Rightarrow> topology_generation \<Rightarrow> bytes \<Rightarrow> u32 \<Rightarrow> limits \<Rightarrow> partition_manifest result" where
  "build_manifest shuffle shuffle_generation part partition_generation producer
     producer_incarnation topology_generation content max_chunk_bytes l =
     (if max_chunk_bytes = 0 \<or> max_chunk_bytes > kMaxChunkBytes then Inl InvalidArgument
      else if content = [] then Inl InvalidArgument
      else if (word_of_nat (length content) + ucast max_chunk_bytes - 1) div ucast max_chunk_bytes
                > max_chunks_per_partition l
      then Inl TooManyChunks
      else let manifest =
         \<lparr>pm_shuffle = shuffle, pm_shuffle_generation = shuffle_generation,
          pm_partition = part, pm_partition_generation = partition_generation,
          pm_producer = producer, pm_producer_incarnation = producer_incarnation,
          pm_topology_generation = topology_generation,
          pm_total_bytes = word_of_nat (length content),
          pm_chunks = build_chunks content max_chunk_bytes 0 0\<rparr>
       in case validate_manifest manifest l of Inl e \<Rightarrow> Inl e | Inr _ \<Rightarrow> Inr manifest)"

text \<open>The deterministic payload: SHA-256 blocks of the seed and a counter, cut to size.\<close>

function synthetic_blocks :: "bytes \<Rightarrow> u64 \<Rightarrow> nat \<Rightarrow> bytes" where
  "synthetic_blocks seed counter remaining =
     (if remaining = 0 then []
      else let n = min 32 remaining
           in take n (sha256 (put_raw seed @ put_u64 counter)) @
              synthetic_blocks seed (counter + 1) (remaining - n))"
  by pat_completeness auto
termination
  by (relation "measure (\<lambda>(seed, counter, remaining). remaining)") auto

definition synthetic_partition_payload ::
  "shuffle_id \<Rightarrow> shuffle_generation \<Rightarrow> partition_id \<Rightarrow> partition_generation \<Rightarrow> u64 \<Rightarrow> bytes" where
  "synthetic_partition_payload shuffle shuffle_generation part generation sz =
     synthetic_blocks
       (put_u64 shuffle @ put_u64 shuffle_generation @ put_u64 part @ put_u64 generation)
       0 (unat sz)"

declare build_chunks.simps [simp del]
declare synthetic_blocks.simps [simp del]

section \<open>Specification\<close>

text \<open>The tiling a valid chunk list must form, over natural numbers.\<close>

fun chunks_tile :: "nat \<Rightarrow> nat \<Rightarrow> chunk_descriptor list \<Rightarrow> bool" where
  "chunks_tile index offset [] = True"
| "chunks_tile index offset (c # cs) \<longleftrightarrow>
     unat (cd_id c) = index \<and> unat (cd_offset c) = offset \<and> 0 < unat (cd_length c) \<and>
     chunks_tile (Suc index) (offset + unat (cd_length c)) cs"

definition chunk_bytes :: "chunk_descriptor list \<Rightarrow> nat" where
  "chunk_bytes cs = (\<Sum>c\<leftarrow>cs. unat (cd_length c))"

definition chunk_acceptable :: "chunk_descriptor \<Rightarrow> bool" where
  "chunk_acceptable c \<longleftrightarrow> cd_length c \<le> kMaxChunkBytes \<and> \<not> digest_is_zero (cd_digest c)"

definition manifest_well_formed :: "partition_manifest \<Rightarrow> limits \<Rightarrow> bool" where
  "manifest_well_formed m l \<longleftrightarrow>
     pm_chunks m \<noteq> [] \<and> length (pm_chunks m) \<le> unat (max_chunks_per_partition l) \<and>
     chunks_tile 0 0 (pm_chunks m) \<and> list_all chunk_acceptable (pm_chunks m) \<and>
     chunk_bytes (pm_chunks m) = unat (pm_total_bytes m) \<and> unat (pm_total_bytes m) \<le> 2 ^ 46 \<and>
     unat (pm_partition m) < unat (max_partitions l) \<and> pm_shuffle m \<noteq> 0 \<and> pm_producer m \<noteq> 0"

definition chunk_admitted :: "limits \<Rightarrow> chunk_descriptor \<Rightarrow> bool" where
  "chunk_admitted l c \<longleftrightarrow> digest_wf (cd_digest c) \<and> 32 \<le> max_allocation_bytes l"

definition manifest_admitted :: "limits \<Rightarrow> partition_manifest \<Rightarrow> bool" where
  "manifest_admitted l m \<longleftrightarrow> 8 \<le> max_allocation_bytes l \<and>
     length (pm_chunks m) \<le> unat (max_chunks_per_partition l) \<and>
     length (pm_chunks m) \<le> unat (max_collection_items l) \<and>
     (\<forall>c \<in> set (pm_chunks m). chunk_admitted l c)"

definition manifest_bytes :: "partition_manifest \<Rightarrow> bytes" where
  "manifest_bytes m = write_identity m @ write_chunks m"

definition chunk_slice :: "chunk_descriptor \<Rightarrow> bytes \<Rightarrow> bytes" where
  "chunk_slice c content = take (unat (cd_length c)) (drop (unat (cd_offset c)) content)"

text \<open>A SHA-256 collision, the event the integrity argument excludes.\<close>

definition sha_collision :: bool where
  "sha_collision \<longleftrightarrow> (\<exists>x y. x \<noteq> y \<and> length x = length y \<and> sha256 x = sha256 y)"

text \<open>A one-chunk manifest used to instantiate the theorems.\<close>

definition sample_manifest :: partition_manifest where
  "sample_manifest = \<lparr>pm_shuffle = 1, pm_shuffle_generation = 1, pm_partition = 0, pm_partition_generation = 1,
     pm_producer = 7, pm_producer_incarnation = 1, pm_topology_generation = 1, pm_total_bytes = 3,
     pm_chunks = [\<lparr>cd_id = 0, cd_offset = 0, cd_length = 3, cd_digest = sha256 [0x61, 0x62, 0x63]\<rparr>]\<rparr>"

section \<open>Lemmas: what validation accepts\<close>

lemma chunk_bytes_simps [simp]:
  "chunk_bytes [] = 0"
  "chunk_bytes (c # cs) = unat (cd_length c) + chunk_bytes cs"
  by (simp_all add: chunk_bytes_def)

lemma chunks_tile_nth:
  "chunks_tile index offset cs \<Longrightarrow> i < length cs \<Longrightarrow>
   unat (cd_id (cs ! i)) = index + i \<and> unat (cd_offset (cs ! i)) = offset + chunk_bytes (take i cs) \<and>
   0 < unat (cd_length (cs ! i))"
proof (induction cs arbitrary: index offset i)
  case (Cons c cs)
  then show ?case
    by (cases i) fastforce+
qed simp

lemma chunks_tile_bound:
  "chunks_tile index offset cs \<Longrightarrow> c \<in> set cs \<Longrightarrow>
   offset \<le> unat (cd_offset c) \<and> unat (cd_offset c) + unat (cd_length c) \<le> offset + chunk_bytes cs"
  by (induction cs arbitrary: index offset) fastforce+

lemma validate_chunks_iff:
  assumes "unat index + length cs < 2 ^ 64"
  shows "validate_chunks index off cs = Inr e \<longleftrightarrow>
    chunks_tile (unat index) (unat off) cs \<and> list_all chunk_acceptable cs \<and>
    unat off + chunk_bytes cs < 2 ^ 64 \<and> e = off + word_of_nat (chunk_bytes cs)"
  using assms
proof (induction cs arbitrary: index off)
  case (Cons c cs)
  have i: "unat (index + 1) = Suc (unat index)"
    using Cons.prems by (subst unat_plus_simple [THEN iffD1]) (auto simp: word_le_nat_alt unat_word_ariths)
  show ?case
  proof (cases "cd_id c = index \<and> cd_length c \<noteq> 0 \<and> chunk_acceptable c \<and> cd_offset c = off \<and>
      unat off + unat (cd_length c) < 2 ^ 64")
    case True
    then have ov: "\<not> add_overflows off (ucast (cd_length c))"
      by (simp add: add_overflows_iff)
    have o: "unat (off + ucast (cd_length c)) = unat off + unat (cd_length c)"
      using True by (simp add: unat_word_ariths)
    have w: "word_of_nat (unat (cd_length c)) = (ucast (cd_length c) :: u64)"
      by (simp add: word_unat_eq_iff unat_of_nat take_bit_nat_eq_self unat32_bound [THEN less_trans])
    show ?thesis
      using True ov Cons.IH [of "index + 1" "off + ucast (cd_length c)"] Cons.prems i o
      by (auto simp: chunk_acceptable_def w add.assoc unat_gt_0 not_less)
  next
    case False
    then show ?thesis
      using Cons.prems
      by (auto simp: chunk_acceptable_def add_overflows_iff word_unat_eq_iff not_less)
  qed
qed (use unat64_bound in \<open>auto simp del: take_bit_nat_def\<close>)

lemma kMaxPartitionBytes_unat: "unat kMaxPartitionBytes = 2 ^ 46"
  by (simp add: kMaxPartitionBytes_def push_bit_eq_mult)

lemma kMaxChunkBytes_unat: "unat kMaxChunkBytes = 2 ^ 24"
  by (simp add: kMaxChunkBytes_def push_bit_eq_mult)

lemma validate_manifest_iff: "validate_manifest m l = Inr u \<longleftrightarrow> manifest_well_formed m l"
proof (cases "pm_chunks m \<noteq> [] \<and> length (pm_chunks m) \<le> unat (max_chunks_per_partition l) \<and>
    pm_total_bytes m \<noteq> 0 \<and> pm_total_bytes m \<le> kMaxPartitionBytes \<and>
    unat (pm_partition m) < unat (max_partitions l) \<and> pm_shuffle m \<noteq> 0 \<and> pm_producer m \<noteq> 0")
  case True
  then have "length (pm_chunks m) < 2 ^ 64"
    using unat64_bound [of "max_chunks_per_partition l"] by linarith
  then have v: "validate_chunks 0 0 (pm_chunks m) = Inr e \<longleftrightarrow>
      chunks_tile 0 0 (pm_chunks m) \<and> list_all chunk_acceptable (pm_chunks m) \<and>
      chunk_bytes (pm_chunks m) < 2 ^ 64 \<and> e = word_of_nat (chunk_bytes (pm_chunks m))" for e
    using validate_chunks_iff [of 0 "pm_chunks m" 0 e] by simp
  have t: "unat (pm_total_bytes m) \<le> 2 ^ 46"
    using True by (simp add: word_le_nat_alt kMaxPartitionBytes_unat)
  have w: "chunk_bytes (pm_chunks m) < 2 ^ 64 \<and> word_of_nat (chunk_bytes (pm_chunks m)) = pm_total_bytes m
      \<longleftrightarrow> chunk_bytes (pm_chunks m) = unat (pm_total_bytes m)"
    using unat64_bound [of "pm_total_bytes m"] u64_of_nat_eq_iff by auto
  have g: "\<not> kMaxPartitionBytes < pm_total_bytes m" "\<not> ucast (max_partitions l) \<le> pm_partition m"
    using True by (auto simp: not_less word_le_nat_alt)
  have "validate_manifest m l = Inr u \<longleftrightarrow> validate_chunks 0 0 (pm_chunks m) = Inr (pm_total_bytes m)"
    using True g by (auto simp: validate_manifest_def split: sum.splits)
  moreover have "validate_chunks 0 0 (pm_chunks m) = Inr (pm_total_bytes m) \<longleftrightarrow>
      chunks_tile 0 0 (pm_chunks m) \<and> list_all chunk_acceptable (pm_chunks m) \<and>
      chunk_bytes (pm_chunks m) = unat (pm_total_bytes m)"
    using v [of "pm_total_bytes m"] w by metis
  ultimately show ?thesis
    using t True by (simp add: manifest_well_formed_def)
next
  case False
  have "0 < chunk_bytes cs" if "chunks_tile i off cs" "cs \<noteq> []" for i off cs
    using that by (cases cs) auto
  with False show ?thesis
    by (auto simp: validate_manifest_def manifest_well_formed_def word_le_nat_alt
        kMaxPartitionBytes_unat not_le not_less split: sum.splits)
qed

section \<open>Lemmas: the manifest codec\<close>

lemma alloc_32: "32 \<le> max_allocation_bytes l \<Longrightarrow>
  8 \<le> max_allocation_bytes l \<and> 4 \<le> max_allocation_bytes l \<and> 1 \<le> max_allocation_bytes l"
  by (simp add: word_le_nat_alt)

interpretation chunk: record_codec write_chunk rd_chunk chunk_admitted
proof
  show "parses L rd_chunk (write_chunk c) (Inr c)" if "chunk_admitted L c" for L c
    unfolding rd_chunk_def write_chunk_def
    by (rule u64.parses_step, use that in \<open>simp add: chunk_admitted_def alloc_32\<close>)+
      (rule u32.parses_step, use that in \<open>simp add: chunk_admitted_def alloc_32\<close>,
       rule digest.parses_step [where ys = "[]", simplified],
       use that in \<open>auto simp: chunk_admitted_def intro!: parses_check parses_value\<close>)
  show "decodes L rd_chunk (\<lambda>c xs. xs = write_chunk c \<and> chunk_admitted L c)" for L
    unfolding rd_chunk_def
    by (rule u64.decodes_step u32.decodes_step digest.decodes_step decodes_check decodes_ok_value)+
      (simp add: write_chunk_def chunk_admitted_def)
qed

lemma length_write_chunk: "digest_wf (cd_digest c) \<Longrightarrow> length (write_chunk c) = 52"
  by (simp add: write_chunk_def put_u64_le put_u32_le put_digest_def put_raw_def digest_wf_def)

lemma length_write_chunks:
  "(\<forall>c \<in> set (pm_chunks m). chunk_admitted l c) \<Longrightarrow> length (write_chunks m) = 52 * length (pm_chunks m)"
  unfolding write_chunks_def
  by (rule length_concat_const) (simp add: length_write_chunk chunk_admitted_def)

interpretation manifest: record_codec manifest_bytes rd_manifest manifest_admitted
proof
  fix L m
  assume a: "manifest_admitted L m"
  then have len: "length (pm_chunks m) < 2 ^ 32" "length (pm_chunks m) \<le> length (write_chunks m)"
    using length_write_chunks [of m L] unat32_bound [of "max_collection_items L"]
    by (auto simp: manifest_admitted_def)
  have alloc: "8 \<le> max_allocation_bytes L" "4 \<le> max_allocation_bytes L"
    using a by (auto simp: manifest_admitted_def word_le_nat_alt)
  have chunks: "parses L (rd_list (unat (word_of_nat (length (pm_chunks m)) :: u32)) rd_chunk)
      (write_chunks m) (Inr (pm_chunks m))"
    using chunk.parses_list [of "pm_chunks m" L] a len
    by (simp add: manifest_admitted_def write_chunks_def unat_of_length_u32)
  show "parses L rd_manifest (manifest_bytes m) (Inr m)"
    unfolding rd_manifest_def manifest_bytes_def write_identity_def append_assoc
    by (rule u64.parses_step [OF alloc(1)] parses_get_limits)+
      (rule parses_count, use a len alloc in \<open>auto simp: manifest_admitted_def
         intro!: parses_check parses_sub [OF chunks, where ys = "[]", simplified] parses_value\<close>)
next
  fix L
  show "decodes L rd_manifest (\<lambda>m xs. xs = manifest_bytes m \<and> manifest_admitted L m)"
    unfolding rd_manifest_def
    by (rule u64.decodes_step decodes_get_limits decodes_count decodes_check
        decodes_ok_sub [OF chunk.decodes_list] decodes_ok_value)+
      (auto simp: manifest_bytes_def write_identity_def write_chunks_def manifest_admitted_def
         word_le_nat_alt)
qed

lemma decode_manifest_iff:
  "decode_manifest data l = Inr m \<longleftrightarrow>
     encode_manifest m l = Inr data \<and> manifest_admitted l m \<and> length data \<le> unat (max_message_payload_bytes l)"
  using manifest.decode_exact [of data l m]
  by (auto simp: decode_manifest_def encode_manifest_def manifest_bytes_def split: sum.splits)

section \<open>Lemmas: content verification\<close>

lemma concat_chunk_slices:
  "chunks_tile index offset cs \<Longrightarrow> offset + chunk_bytes cs = length content \<Longrightarrow>
   concat (map (\<lambda>c. chunk_slice c content) cs) = drop offset content"
proof (induction cs arbitrary: index offset)
  case (Cons c cs)
  have "concat (map (\<lambda>c. chunk_slice c content) cs) = drop (offset + unat (cd_length c)) content"
    using Cons.IH [of "Suc index" "offset + unat (cd_length c)"] Cons.prems by simp
  then show ?case
    using Cons.prems
    by (simp add: chunk_slice_def) (metis add.commute append_take_drop_id drop_drop)
qed simp

lemma verify_chunks_iff:
  assumes "\<And>c. c \<in> set cs \<Longrightarrow> unat (cd_offset c) + unat (cd_length c) \<le> length content"
  shows "verify_chunks cs content \<noteq> None \<and> (verify_chunks cs content = Some (Inr u) \<longleftrightarrow>
    (\<forall>c \<in> set cs. sha256 (chunk_slice c content) = cd_digest c))"
  using assms
proof (induction cs)
  case (Cons c cs)
  have sub: "subspan content (unat (cd_offset c)) (unat (cd_length c)) = Some (chunk_slice c content)"
    using Cons.prems [of c] by (simp add: subspan_def chunk_slice_def)
  have len: "length (chunk_slice c content) = unat (cd_length c)"
    using Cons.prems [of c] by (simp add: chunk_slice_def)
  have "verify_chunks cs content \<noteq> None \<and> (verify_chunks cs content = Some (Inr u) \<longleftrightarrow>
      (\<forall>c \<in> set cs. sha256 (chunk_slice c content) = cd_digest c))"
    using Cons by simp
  then show ?case by (simp add: sub verify_chunk_def len)
qed simp

lemma verify_partition_content_iff:
  assumes "chunks_tile 0 0 (pm_chunks m)" "chunk_bytes (pm_chunks m) = unat (pm_total_bytes m)"
  shows "verify_partition_content m content \<noteq> None"
    and "verify_partition_content m content = Some (Inr u) \<longleftrightarrow>
      length content = unat (pm_total_bytes m) \<and>
      (\<forall>c \<in> set (pm_chunks m). sha256 (chunk_slice c content) = cd_digest c)"
proof -
  have b: "unat (cd_offset c) + unat (cd_length c) \<le> length content"
    if "c \<in> set (pm_chunks m)" "length content = unat (pm_total_bytes m)" for c
    using chunks_tile_bound [OF assms(1) that(1)] that assms by simp
  show "verify_partition_content m content \<noteq> None"
    using verify_chunks_iff [of "pm_chunks m" content] b by (simp add: verify_partition_content_def)
  show "verify_partition_content m content = Some (Inr u) \<longleftrightarrow>
      length content = unat (pm_total_bytes m) \<and>
      (\<forall>c \<in> set (pm_chunks m). sha256 (chunk_slice c content) = cd_digest c)"
    using verify_chunks_iff [of "pm_chunks m" content] b by (simp add: verify_partition_content_def)
qed

lemma verified_content_unique:
  assumes tile: "chunks_tile 0 0 (pm_chunks m)" "chunk_bytes (pm_chunks m) = unat (pm_total_bytes m)"
    and a: "verify_partition_content m a = Some ok_status"
    and b: "verify_partition_content m b = Some ok_status"
  shows "a = b \<or> sha_collision"
proof (rule disjCI)
  assume no: "\<not> sha_collision"
  note va = verify_partition_content_iff(2) [OF tile, THEN iffD1, OF a]
  note vb = verify_partition_content_iff(2) [OF tile, THEN iffD1, OF b]
  have eq: "chunk_slice c a = chunk_slice c b" if c: "c \<in> set (pm_chunks m)" for c
  proof -
    have "length (chunk_slice c a) = length (chunk_slice c b)"
      using va vb by (simp add: chunk_slice_def)
    then show ?thesis using va vb c no unfolding sha_collision_def by metis
  qed
  have "a = concat (map (\<lambda>c. chunk_slice c a) (pm_chunks m))"
    using concat_chunk_slices [OF tile(1), of a] va tile(2) by simp
  also have "\<dots> = concat (map (\<lambda>c. chunk_slice c b) (pm_chunks m))"
    using eq by (metis (no_types, lifting) map_eq_conv)
  also have "\<dots> = b"
    using concat_chunk_slices [OF tile(1), of b] vb tile(2) by simp
  finally show "a = b" .
qed

lemma manifest_digest_binding:
  assumes "manifest_admitted l m" "manifest_admitted l m'"
    and d: "compute_manifest_digest m = compute_manifest_digest m'"
  shows "m = m' \<or> (\<exists>x y. x \<noteq> y \<and> sha256 x = sha256 y)"
proof (cases "manifest_bytes m = manifest_bytes m'")
  case True
  then show ?thesis using manifest.enc_injective [OF assms(1) _ assms(2)] by blast
next
  case False
  then show ?thesis using d by (auto simp: compute_manifest_digest_def manifest_bytes_def)
qed

section \<open>Lemmas: construction\<close>

lemma build_chunks_step:
  assumes "mcb \<noteq> 0" "offset < length content"
  defines "n \<equiv> min (length content - offset) (unat mcb)"
  shows "build_chunks content mcb offset index =
    \<lparr>cd_id = index, cd_offset = word_of_nat offset, cd_length = word_of_nat n,
     cd_digest = sha256 (take n (drop offset content))\<rparr> # build_chunks content mcb (offset + n) (index + 1)"
    and "0 < n" "n \<le> unat mcb" "offset + n \<le> length content" "unat (word_of_nat n :: u32) = n"
proof -
  show "0 < n" "n \<le> unat mcb" "offset + n \<le> length content"
    using assms unat_gt_0 [of mcb] by (auto simp: n_def)
  then show "unat (word_of_nat n :: u32) = n"
    using unat32_bound [of mcb] by (simp add: unat_of_length_u32)
  show "build_chunks content mcb offset index =
    \<lparr>cd_id = index, cd_offset = word_of_nat offset, cd_length = word_of_nat n,
     cd_digest = sha256 (take n (drop offset content))\<rparr> # build_chunks content mcb (offset + n) (index + 1)"
    using assms by (subst build_chunks.simps) (simp add: Let_def)
qed

lemma build_chunks_end: "\<not> offset < length content \<Longrightarrow> build_chunks content mcb offset index = []"
  by (subst build_chunks.simps) simp

lemma build_chunks_tile:
  assumes "mcb \<noteq> 0" "offset \<le> length content" "unat index \<le> offset" "length content < 2 ^ 64"
  shows "chunks_tile (unat index) offset (build_chunks content mcb offset index) \<and>
    offset + chunk_bytes (build_chunks content mcb offset index) = length content \<and>
    length (build_chunks content mcb offset index) = (length content - offset + unat mcb - 1) div unat mcb \<and>
    (\<forall>c \<in> set (build_chunks content mcb offset index).
       unat (cd_length c) \<le> unat mcb \<and> cd_digest c = sha256 (chunk_slice c content))"
  using assms
proof (induction content mcb offset index rule: build_chunks.induct)
  case (1 content mcb offset index)
  show ?case
  proof (cases "offset < length content")
    case True
    define n where "n = min (length content - offset) (unat mcb)"
    note step = build_chunks_step [OF 1(2) True, folded n_def]
    have mcb: "0 < unat mcb" using 1(2) by (simp add: unat_gt_0)
    have idx: "unat (index + 1) = Suc (unat index)"
      using 1(4,5) True by (simp add: unat_word_ariths)
    have cnt: "(length content - offset + unat mcb - 1) div unat mcb =
        Suc ((length content - (offset + n) + unat mcb - 1) div unat mcb)"
    proof (cases "length content - offset \<le> unat mcb")
      case le: True
      then have n: "n = length content - offset" by (simp add: n_def)
      have "(length content - offset + unat mcb - 1) div unat mcb = 1"
        using le True mcb by (intro div_nat_eqI) auto
      moreover have "(unat mcb - Suc 0) div unat mcb = 0"
        using mcb by (intro div_less) simp
      ultimately show ?thesis using n True by simp
    next
      case False
      then have n: "n = unat mcb" by (simp add: n_def)
      have "length content - offset + unat mcb - 1 = (length content - (offset + n) + unat mcb - 1) + unat mcb"
        using False n mcb by simp
      then show ?thesis using mcb by (simp only: div_add_self2 [of "unat mcb"])
    qed
    have le: "Suc (unat index) \<le> offset + n" using step(2) 1(4) by simp
    have ih: "chunks_tile (Suc (unat index)) (offset + n) (build_chunks content mcb (offset + n) (index + 1)) \<and>
      offset + n + chunk_bytes (build_chunks content mcb (offset + n) (index + 1)) = length content \<and>
      length (build_chunks content mcb (offset + n) (index + 1)) =
        (length content - (offset + n) + unat mcb - 1) div unat mcb \<and>
      (\<forall>c \<in> set (build_chunks content mcb (offset + n) (index + 1)).
         unat (cd_length c) \<le> unat mcb \<and> cd_digest c = sha256 (chunk_slice c content))"
      using 1(1) [of "length content - offset" n] 1(2-) True le step(4) by (simp add: n_def idx)
    have off: "unat (word_of_nat offset :: u64) = offset"
      using True 1(5) by (simp add: unat_of_nat_u64)
    show ?thesis
      using ih cnt step(2,3) by (simp add: step(1,5) off chunk_slice_def)
  next
    case False
    moreover have "(unat mcb - Suc 0) div unat mcb = 0"
      using 1(2) unat_gt_0 [of mcb] by (intro div_less) simp
    ultimately show ?thesis
      using 1(3) by (simp add: build_chunks_end)
  qed
qed

lemma build_manifest_result:
  assumes "build_manifest sh sg p pg pr pi tg content mcb l = Inr m" "length content < 2 ^ 64"
  shows "validate_manifest m l = ok_status \<and> verify_partition_content m content = Some ok_status \<and>
    pm_shuffle m = sh \<and> pm_shuffle_generation m = sg \<and> pm_partition m = p \<and> pm_partition_generation m = pg \<and>
    pm_producer m = pr \<and> pm_producer_incarnation m = pi \<and> pm_topology_generation m = tg \<and>
    (\<forall>c \<in> set (pm_chunks m). cd_length c \<le> mcb)"
proof -
  have mcb: "mcb \<noteq> 0" and valid: "validate_manifest m l = ok_status"
    and m: "m = \<lparr>pm_shuffle = sh, pm_shuffle_generation = sg, pm_partition = p, pm_partition_generation = pg,
      pm_producer = pr, pm_producer_incarnation = pi, pm_topology_generation = tg,
      pm_total_bytes = word_of_nat (length content), pm_chunks = build_chunks content mcb 0 0\<rparr>"
    using assms(1) by (auto simp: build_manifest_def Let_def split: if_splits sum.splits)
  note t = build_chunks_tile [OF mcb, of 0 content 0, simplified, OF assms(2)[simplified]]
  have tot: "unat (pm_total_bytes m) = length content"
    using assms(2) m by (simp add: unat_of_nat_u64)
  have "verify_partition_content m content = Some ok_status"
    using t tot m by (subst verify_partition_content_iff(2)) (auto simp: m)
  then show ?thesis
    using valid t by (simp add: m word_le_nat_alt)
qed

lemma length_synthetic_blocks: "length (synthetic_blocks seed counter n) = n"
proof (induction seed counter n rule: synthetic_blocks.induct)
  case (1 seed counter n)
  then show ?case
    by (subst synthetic_blocks.simps) (simp add: Let_def min_def)
qed

lemma chunk_count_unat:
  assumes "mcb \<noteq> 0" "content \<noteq> []" "length content \<le> 2 ^ 46"
  shows "unat ((word_of_nat (length content) + ucast mcb - 1 :: u64) div ucast (mcb :: u32)) =
    (length content + unat mcb - 1) div unat mcb"
proof -
  have m: "0 < unat mcb" "unat mcb < 2 ^ 32" using assms(1) unat32_bound by (auto simp: unat_gt_0)
  have s: "unat (word_of_nat (length content) + ucast mcb :: u64) = length content + unat mcb"
    using assms(3) m by (simp add: unat_word_ariths unat_of_nat_u64)
  then have "unat (word_of_nat (length content) + ucast mcb - 1 :: u64) = length content + unat mcb - 1"
    using m by (subst unat_minus_one) auto
  then show ?thesis by (simp add: unat_div)
qed

lemma build_manifest_succeeds:
  assumes "mcb \<noteq> 0" "mcb \<le> kMaxChunkBytes" "content \<noteq> []" "length content \<le> 2 ^ 46"
    and "(length content + unat mcb - 1) div unat mcb \<le> unat (max_chunks_per_partition l)"
    and "unat p < unat (max_partitions l)" "sh \<noteq> 0" "pr \<noteq> 0"
    and "\<And>c. c \<in> set (build_chunks content mcb 0 0) \<Longrightarrow> \<not> digest_is_zero (cd_digest c)"
  shows "\<exists>m. build_manifest sh sg p pg pr pi tg content mcb l = Inr m"
proof -
  let ?m = "\<lparr>pm_shuffle = sh, pm_shuffle_generation = sg, pm_partition = p, pm_partition_generation = pg,
      pm_producer = pr, pm_producer_incarnation = pi, pm_topology_generation = tg,
      pm_total_bytes = word_of_nat (length content), pm_chunks = build_chunks content mcb 0 0\<rparr>"
  have len: "length content < 2 ^ 64" using assms(4) by simp
  note t = build_chunks_tile [OF assms(1), of 0 content 0, simplified, OF len [simplified]]
  have "build_chunks content mcb 0 0 \<noteq> []"
    using assms(1,3) build_chunks_step(1) [of mcb 0 content 0] by simp
  moreover have "list_all chunk_acceptable (build_chunks content mcb 0 0)"
    using t assms(2,9) by (auto simp: list_all_iff chunk_acceptable_def word_le_nat_alt)
  ultimately have "manifest_well_formed ?m l"
    using t assms(4-8) len by (simp add: manifest_well_formed_def unat_of_nat_u64)
  then have "validate_manifest ?m l = ok_status"
    by (simp add: validate_manifest_iff)
  then show ?thesis
    using assms(1-3,5) chunk_count_unat [OF assms(1,3,4)]
    by (simp add: build_manifest_def Let_def not_less word_less_nat_alt word_le_nat_alt)
qed

section \<open>Lemmas: a concrete manifest\<close>

lemma sample_manifest_tiles:
  "chunks_tile 0 0 (pm_chunks sample_manifest)"
  "chunk_bytes (pm_chunks sample_manifest) = unat (pm_total_bytes sample_manifest)"
  by (simp_all add: sample_manifest_def chunk_bytes_def)

lemma sample_manifest_verifies: "verify_partition_content sample_manifest [0x61, 0x62, 0x63] = Some ok_status"
  by (subst verify_partition_content_iff(2) [OF sample_manifest_tiles])
    (simp add: sample_manifest_def chunk_slice_def)

lemma sample_manifest_admitted: "manifest_admitted default_limits sample_manifest"
  by (simp add: manifest_admitted_def chunk_admitted_def sample_manifest_def default_limits_def digest_wf_def)

lemma sample_manifest_valid: "validate_manifest sample_manifest default_limits = ok_status"
  using sample_manifest_tiles sha256_abc_nonzero
  by (simp add: validate_manifest_iff manifest_well_formed_def)
    (simp add: sample_manifest_def default_limits_def chunk_acceptable_def kMaxChunkBytes_def)

section \<open>Properties\<close>

text \<open>
  C13. The manifest encoding is a bijection: a byte string decodes to a manifest exactly when it
  is the encoding of that manifest, the reader's limits admit it and it fits in a message.
  So decoding inverts encoding, every accepted byte string is canonical and every decoded
  manifest is valid.
\<close>

theorem manifest_decode_exact:
  "decode_manifest data l = Inr m \<longleftrightarrow>
     encode_manifest m l = Inr data \<and> manifest_admitted l m \<and> length data \<le> unat (max_message_payload_bytes l)"
  by (rule decode_manifest_iff)

text \<open>
  C37. Validation accepts exactly the well-formed manifests: a bounded, non-empty list of chunks
  numbered from 0 that tiles the partition without gap or overlap (over unbounded integers, so
  no wrap-around can fake it), with non-zero digests and identities and a bounded size.
\<close>

theorem manifest_validation_exact: "validate_manifest m l = Inr u \<longleftrightarrow> manifest_well_formed m l"
  by (rule validate_manifest_iff)

text \<open>
  Verifying content against a valid manifest never reads outside the content, and accepts
  exactly the contents of the declared size whose every chunk hashes to its digest.
\<close>

theorem content_verification_exact:
  assumes "validate_manifest m l = Inr u"
  shows "(\<exists>result. verify_partition_content m content = Some result) \<and>
    (verify_partition_content m content = Some ok_status \<longleftrightarrow>
      length content = unat (pm_total_bytes m) \<and>
      (\<forall>c \<in> set (pm_chunks m). sha256 (chunk_slice c content) = cd_digest c))"
proof -
  have "chunks_tile 0 0 (pm_chunks m)" "chunk_bytes (pm_chunks m) = unat (pm_total_bytes m)"
    using assms by (simp_all add: validate_manifest_iff manifest_well_formed_def)
  from verify_partition_content_iff [OF this, of content] show ?thesis by blast
qed

theorem content_verification_exact_witness:
  "\<exists>result. verify_partition_content sample_manifest [4, 5, 6, 7] = Some result"
  using content_verification_exact [OF sample_manifest_valid] by blast



text \<open>
  The manifest digest binds every field: two admitted manifests with the same digest are the
  same manifest, unless SHA-256 has a collision.
\<close>

theorem manifest_digest_determines:
  assumes "manifest_admitted l m" "manifest_admitted l m'"
    and "compute_manifest_digest m = compute_manifest_digest m'"
  shows "m = m' \<or> (\<exists>x y. x \<noteq> y \<and> sha256 x = sha256 y)"
  using assms by (rule manifest_digest_binding)

theorem manifest_digest_determines_witness:
  "sample_manifest = sample_manifest \<or> (\<exists>x y. x \<noteq> y \<and> sha256 x = sha256 y)"
  by (rule manifest_digest_determines [OF sample_manifest_admitted sample_manifest_admitted refl])

text \<open>
  What \<open>build_manifest\<close> returns describes the content it was given: it validates, the
  content verifies against it, it carries the identities of the call and no chunk exceeds
  the requested size.
\<close>

theorem built_manifest_correct:
  assumes "build_manifest sh sg p pg pr pi tg content mcb l = Inr m" "length content < 2 ^ 64"
  shows "validate_manifest m l = ok_status \<and> verify_partition_content m content = Some ok_status \<and>
    pm_shuffle m = sh \<and> pm_shuffle_generation m = sg \<and> pm_partition m = p \<and> pm_partition_generation m = pg \<and>
    pm_producer m = pr \<and> pm_producer_incarnation m = pi \<and> pm_topology_generation m = tg \<and>
    list_all (\<lambda>c. cd_length c \<le> mcb) (pm_chunks m)"
  using build_manifest_result [OF assms] by (simp add: list_all_iff)

theorem built_manifest_correct_witness:
  "\<exists>m. build_manifest 1 1 0 1 7 1 1 [0x61, 0x62, 0x63] 4 default_limits = Inr m \<and>
     verify_partition_content m [0x61, 0x62, 0x63] = Some ok_status"
proof -
  obtain m where m: "build_manifest 1 1 0 1 7 1 1 [0x61, 0x62, 0x63] 4 default_limits = Inr m"
    using build_manifest_succeeds [of 4 "[0x61, 0x62, 0x63]" default_limits 0 1 7 1 1 1 1] sha256_abc_nonzero
    by (auto simp: kMaxChunkBytes_def default_limits_def build_chunks.simps subspan_def)
  show ?thesis using built_manifest_correct [OF m] m by simp
qed

text \<open>
  \<open>build_manifest\<close> succeeds on every non-empty content within the bounds, as long as no
  chunk hashes to the all-zero digest.
\<close>

theorem build_manifest_total:
  assumes "mcb \<noteq> 0" "mcb \<le> kMaxChunkBytes" "content \<noteq> []" "length content \<le> 2 ^ 46"
    and "(length content + unat mcb - 1) div unat mcb \<le> unat (max_chunks_per_partition l)"
    and "unat p < unat (max_partitions l)" "sh \<noteq> 0" "pr \<noteq> 0"
    and "\<And>c. c \<in> set (build_chunks content mcb 0 0) \<Longrightarrow> \<not> digest_is_zero (cd_digest c)"
  shows "\<exists>m. build_manifest sh sg p pg pr pi tg content mcb l = Inr m"
  using assms by (rule build_manifest_succeeds)

theorem build_manifest_total_witness:
  "\<exists>m. build_manifest 1 1 0 1 7 1 1 [0x61, 0x62, 0x63] 4 default_limits = Inr m"
  using build_manifest_total [of 4 "[0x61, 0x62, 0x63]" default_limits 0 1 7 1 1 1 1] sha256_abc_nonzero
  by (simp add: kMaxChunkBytes_def default_limits_def build_chunks.simps subspan_def)

end
