(* ===== verification/Fabric_Policy.thy ===== *)
theory Fabric_Policy
  imports Fabric_Codec
begin

text \<open>
  The policy envelope (\<open>policy.hpp\<close>, \<open>policy.cpp\<close>): its records, structural validation, the
  canonical encoding and the textual description. \<open>evaluate_policy\<close> needs the topology and
  is modelled with it.

  Lemmas: what validation guarantees of an accepted envelope; encoding followed by decoding is
  the identity on valid envelopes, and everything the decoder returns is valid. The decoder is
  not injective: the 32-bit limits travel as 64-bit words whose upper half is dropped.
\<close>

section \<open>Data\<close>

record fan_bounds =
  fb_max_fan_out :: u32
  fb_max_fan_in :: u32

record concurrency_limits =
  cl_global :: u32
  cl_per_source :: u32
  cl_per_destination :: u32

record wave_limits =
  wl_max_grants_per_wave :: u32
  wl_max_edges_examined_per_wave :: u32

record retry_policy =
  rp_max_attempts :: u32
  rp_min_ticks_between_attempts :: u32

record congestion_policy =
  cp_pause_threshold :: u32
  cp_resume_threshold :: u32
  cp_require_fresh_evidence :: bool
  cp_evidence_validity_ticks :: u32

record policy_envelope =
  pe_shuffle :: shuffle_id
  pe_shuffle_generation :: shuffle_generation
  pe_generation :: policy_generation
  pe_fan :: fan_bounds
  pe_concurrency :: concurrency_limits
  pe_waves :: wave_limits
  pe_retry :: retry_policy
  pe_congestion :: congestion_policy
  pe_limits :: limits

definition default_policy :: policy_envelope where
  "default_policy = \<lparr>
     pe_shuffle = 0, pe_shuffle_generation = 0, pe_generation = 0,
     pe_fan = \<lparr>fb_max_fan_out = 64, fb_max_fan_in = 64\<rparr>,
     pe_concurrency = \<lparr>cl_global = 64, cl_per_source = 8, cl_per_destination = 8\<rparr>,
     pe_waves = \<lparr>wl_max_grants_per_wave = 256, wl_max_edges_examined_per_wave = 8192\<rparr>,
     pe_retry = \<lparr>rp_max_attempts = 3, rp_min_ticks_between_attempts = 0\<rparr>,
     pe_congestion = \<lparr>cp_pause_threshold = 80, cp_resume_threshold = 40,
       cp_require_fresh_evidence = False, cp_evidence_validity_ticks = 20\<rparr>,
     pe_limits = default_limits\<rparr>"

section \<open>Validation\<close>

definition validate_policy :: "policy_envelope \<Rightarrow> status" where
  "validate_policy policy =
     (if pe_shuffle policy = 0 then Inl InvalidArgument
      else if fb_max_fan_out (pe_fan policy) = 0 \<or> fb_max_fan_in (pe_fan policy) = 0
      then Inl InvalidArgument
      else if cl_global (pe_concurrency policy) = 0 \<or> cl_per_source (pe_concurrency policy) = 0 \<or>
              cl_per_destination (pe_concurrency policy) = 0
      then Inl InvalidArgument
      else if cl_per_source (pe_concurrency policy) > cl_global (pe_concurrency policy) \<or>
              cl_per_destination (pe_concurrency policy) > cl_global (pe_concurrency policy)
      then Inl InvalidArgument
      else if wl_max_grants_per_wave (pe_waves policy) = 0 \<or>
              wl_max_grants_per_wave (pe_waves policy) > max_wave_grants (pe_limits policy)
      then Inl InvalidArgument
      else if wl_max_edges_examined_per_wave (pe_waves policy) < wl_max_grants_per_wave (pe_waves policy)
      then Inl InvalidArgument
      else if rp_max_attempts (pe_retry policy) = 0 \<or> rp_max_attempts (pe_retry policy) > 64
      then Inl InvalidArgument
      else if cp_pause_threshold (pe_congestion policy) > 100 then Inl InvalidArgument
      else if cp_resume_threshold (pe_congestion policy) > cp_pause_threshold (pe_congestion policy)
      then Inl InvalidArgument
      else if cp_require_fresh_evidence (pe_congestion policy) \<and>
              cp_evidence_validity_ticks (pe_congestion policy) = 0
      then Inl InvalidArgument
      else limits_validate (pe_limits policy))"

section \<open>Encoding\<close>

definition encode_limits :: "limits \<Rightarrow> bytes" where
  "encode_limits l =
     put_u64 (max_frame_payload_bytes l) @
     put_u64 (max_message_payload_bytes l) @
     put_u64 (max_allocation_bytes l) @
     put_u64 (ucast (max_string_bytes l)) @
     put_u64 (ucast (max_endpoint_bytes l)) @
     put_u64 (ucast (max_collection_items l)) @
     put_u64 (max_chunks_per_partition l) @
     put_u64 (ucast (max_partitions l)) @
     put_u64 (ucast (max_participants l)) @
     put_u64 (ucast (max_selection_patterns l)) @
     put_u64 (max_selection_items l) @
     put_u64 (max_planned_edges l) @
     put_u64 (max_tracked_edges l) @
     put_u64 (max_tracked_partitions l) @
     put_u64 (max_state_bytes l) @
     put_u64 (max_journal_record_bytes l) @
     put_u64 (ucast (max_retained_generations l)) @
     put_u64 (ucast (max_attempt_records_per_shuffle l)) @
     put_u64 (ucast (max_pending_retries l)) @
     put_u64 (ucast (max_wave_grants l))"

definition decode_limits :: "limits reader" where
  "decode_limits = do {
     f0 \<leftarrow> rd_u64;
     f1 \<leftarrow> rd_u64;
     f2 \<leftarrow> rd_u64;
     f3 \<leftarrow> rd_u64;
     f4 \<leftarrow> rd_u64;
     f5 \<leftarrow> rd_u64;
     f6 \<leftarrow> rd_u64;
     f7 \<leftarrow> rd_u64;
     f8 \<leftarrow> rd_u64;
     f9 \<leftarrow> rd_u64;
     f10 \<leftarrow> rd_u64;
     f11 \<leftarrow> rd_u64;
     f12 \<leftarrow> rd_u64;
     f13 \<leftarrow> rd_u64;
     f14 \<leftarrow> rd_u64;
     f15 \<leftarrow> rd_u64;
     f16 \<leftarrow> rd_u64;
     f17 \<leftarrow> rd_u64;
     f18 \<leftarrow> rd_u64;
     f19 \<leftarrow> rd_u64;
     ret \<lparr>
        max_frame_payload_bytes = f0,
        max_message_payload_bytes = f1,
        max_allocation_bytes = f2,
        max_string_bytes = ucast f3,
        max_endpoint_bytes = ucast f4,
        max_collection_items = ucast f5,
        max_chunks_per_partition = f6,
        max_partitions = ucast f7,
        max_participants = ucast f8,
        max_selection_patterns = ucast f9,
        max_selection_items = f10,
        max_planned_edges = f11,
        max_tracked_edges = f12,
        max_tracked_partitions = f13,
        max_state_bytes = f14,
        max_journal_record_bytes = f15,
        max_retained_generations = ucast f16,
        max_attempt_records_per_shuffle = ucast f17,
        max_pending_retries = ucast f18,
        max_wave_grants = ucast f19\<rparr> }"

definition encode_policy :: "policy_envelope \<Rightarrow> bytes" where
  "encode_policy policy =
     put_u64 (pe_shuffle policy) @
     put_u64 (pe_shuffle_generation policy) @
     put_u64 (pe_generation policy) @
     put_u32 (fb_max_fan_out (pe_fan policy)) @
     put_u32 (fb_max_fan_in (pe_fan policy)) @
     put_u32 (cl_global (pe_concurrency policy)) @
     put_u32 (cl_per_source (pe_concurrency policy)) @
     put_u32 (cl_per_destination (pe_concurrency policy)) @
     put_u32 (wl_max_grants_per_wave (pe_waves policy)) @
     put_u32 (wl_max_edges_examined_per_wave (pe_waves policy)) @
     put_u32 (rp_max_attempts (pe_retry policy)) @
     put_u32 (rp_min_ticks_between_attempts (pe_retry policy)) @
     put_u32 (cp_pause_threshold (pe_congestion policy)) @
     put_u32 (cp_resume_threshold (pe_congestion policy)) @
     put_bool (cp_require_fresh_evidence (pe_congestion policy)) @
     put_u32 (cp_evidence_validity_ticks (pe_congestion policy)) @
     encode_limits (pe_limits policy)"

definition decode_policy :: "policy_envelope result reader" where
  "decode_policy = do {
     shuffle \<leftarrow> rd_u64;
     shuffle_generation \<leftarrow> rd_u64;
     generation \<leftarrow> rd_u64;
     max_fan_out \<leftarrow> rd_u32;
     max_fan_in \<leftarrow> rd_u32;
     global \<leftarrow> rd_u32;
     per_source \<leftarrow> rd_u32;
     per_destination \<leftarrow> rd_u32;
     max_grants_per_wave \<leftarrow> rd_u32;
     max_edges_examined_per_wave \<leftarrow> rd_u32;
     max_attempts \<leftarrow> rd_u32;
     min_ticks_between_attempts \<leftarrow> rd_u32;
     pause_threshold \<leftarrow> rd_u32;
     resume_threshold \<leftarrow> rd_u32;
     require_fresh_evidence \<leftarrow> rd_boolean;
     evidence_validity_ticks \<leftarrow> rd_u32;
     l \<leftarrow> decode_limits;
     rd_check (
       let policy = \<lparr>
         pe_shuffle = shuffle, pe_shuffle_generation = shuffle_generation, pe_generation = generation,
         pe_fan = \<lparr>fb_max_fan_out = max_fan_out, fb_max_fan_in = max_fan_in\<rparr>,
         pe_concurrency = \<lparr>cl_global = global, cl_per_source = per_source,
           cl_per_destination = per_destination\<rparr>,
         pe_waves = \<lparr>wl_max_grants_per_wave = max_grants_per_wave,
           wl_max_edges_examined_per_wave = max_edges_examined_per_wave\<rparr>,
         pe_retry = \<lparr>rp_max_attempts = max_attempts,
           rp_min_ticks_between_attempts = min_ticks_between_attempts\<rparr>,
         pe_congestion = \<lparr>cp_pause_threshold = pause_threshold, cp_resume_threshold = resume_threshold,
           cp_require_fresh_evidence = require_fresh_evidence,
           cp_evidence_validity_ticks = evidence_validity_ticks\<rparr>,
         pe_limits = l\<rparr>
       in case validate_policy policy of Inl e \<Rightarrow> ret (Inl e) | Inr _ \<Rightarrow> ret (Inr policy)) }"

section \<open>Description\<close>

definition u32_to_string :: "u32 \<Rightarrow> string" where
  "u32_to_string v = dec_digits (unat v)"

definition describe_policy :: "policy_envelope \<Rightarrow> string" where
  "describe_policy policy =
     ''shuffle='' @ id_to_string (pe_shuffle policy) @
     '' generation='' @ id_to_string (pe_shuffle_generation policy) @
     '' policy_generation='' @ id_to_string (pe_generation policy) @ [CHR 0x0A] @
     ''  fan_out<='' @ u32_to_string (fb_max_fan_out (pe_fan policy)) @
     '' fan_in<='' @ u32_to_string (fb_max_fan_in (pe_fan policy)) @ [CHR 0x0A] @
     ''  concurrency global='' @ u32_to_string (cl_global (pe_concurrency policy)) @
     '' per_source='' @ u32_to_string (cl_per_source (pe_concurrency policy)) @
     '' per_destination='' @ u32_to_string (cl_per_destination (pe_concurrency policy)) @ [CHR 0x0A] @
     ''  waves grants<='' @ u32_to_string (wl_max_grants_per_wave (pe_waves policy)) @
     '' examined<='' @ u32_to_string (wl_max_edges_examined_per_wave (pe_waves policy)) @ [CHR 0x0A] @
     ''  retry attempts<='' @ u32_to_string (rp_max_attempts (pe_retry policy)) @
     '' min_ticks='' @ u32_to_string (rp_min_ticks_between_attempts (pe_retry policy)) @ [CHR 0x0A] @
     ''  congestion pause>='' @ u32_to_string (cp_pause_threshold (pe_congestion policy)) @
     '' resume<='' @ u32_to_string (cp_resume_threshold (pe_congestion policy)) @
     '' fresh_required='' @ (if cp_require_fresh_evidence (pe_congestion policy) then ''yes'' else ''no'') @
     '' validity_ticks='' @ u32_to_string (cp_evidence_validity_ticks (pe_congestion policy)) @ [CHR 0x0A]"

section \<open>Lemmas\<close>

lemma ucast_down_up: "ucast (ucast (v :: u32) :: u64) = v"
  by (rule bit_word_eqI) (auto simp: bit_simps dest: bit_imp_le_length)

lemma parses_decode_limits:
  assumes "8 \<le> max_allocation_bytes L"
  shows "parses L decode_limits (encode_limits l) l"
  unfolding decode_limits_def encode_limits_def
  by (rule u64.parses_step [OF assms] u64.parses_step [OF assms, where ys = "[]", simplified]
      parses_value)+ (simp add: ucast_down_up)

lemma reads_decode_limits: "reads L decode_limits (\<lambda>l xs. True)"
  unfolding decode_limits_def by (rule u64.reads_step reads_ret)+ simp

lemma policy_rebuild:
  "\<lparr>pe_shuffle = pe_shuffle policy, pe_shuffle_generation = pe_shuffle_generation policy,
     pe_generation = pe_generation policy,
     pe_fan = \<lparr>fb_max_fan_out = fb_max_fan_out (pe_fan policy), fb_max_fan_in = fb_max_fan_in (pe_fan policy)\<rparr>,
     pe_concurrency = \<lparr>cl_global = cl_global (pe_concurrency policy),
       cl_per_source = cl_per_source (pe_concurrency policy),
       cl_per_destination = cl_per_destination (pe_concurrency policy)\<rparr>,
     pe_waves = \<lparr>wl_max_grants_per_wave = wl_max_grants_per_wave (pe_waves policy),
       wl_max_edges_examined_per_wave = wl_max_edges_examined_per_wave (pe_waves policy)\<rparr>,
     pe_retry = \<lparr>rp_max_attempts = rp_max_attempts (pe_retry policy),
       rp_min_ticks_between_attempts = rp_min_ticks_between_attempts (pe_retry policy)\<rparr>,
     pe_congestion = \<lparr>cp_pause_threshold = cp_pause_threshold (pe_congestion policy),
       cp_resume_threshold = cp_resume_threshold (pe_congestion policy),
       cp_require_fresh_evidence = cp_require_fresh_evidence (pe_congestion policy),
       cp_evidence_validity_ticks = cp_evidence_validity_ticks (pe_congestion policy)\<rparr>,
     pe_limits = pe_limits policy\<rparr> = policy"
  by simp

lemma parses_decode_policy:
  assumes "8 \<le> max_allocation_bytes L" "validate_policy policy = ok_status"
  shows "parses L decode_policy (encode_policy policy) (Inr policy)"
proof -
  have a: "8 \<le> max_allocation_bytes L" "4 \<le> max_allocation_bytes L" "1 \<le> max_allocation_bytes L"
    using assms(1) by (auto simp: word_le_nat_alt)
  show ?thesis
    unfolding decode_policy_def encode_policy_def
    by (rule u64.parses_step [OF a(1)] u32.parses_step [OF a(2)] boolean.parses_step [OF a(3)]
        parses_bind [OF parses_decode_limits [OF a(1)], where ys = "[]", simplified] parses_check)+
      (simp only: Let_def policy_rebuild assms(2) sum.case parses_value)
qed

lemma decodes_decode_policy: "decodes L decode_policy (\<lambda>policy xs. validate_policy policy = ok_status)"
  unfolding decode_policy_def
  by (rule u64.decodes_step u32.decodes_step boolean.decodes_step decodes_bind [OF reads_decode_limits]
      decodes_check)+ (auto simp: Let_def intro!: decodes_ok_value split: sum.splits)

text \<open>The upper half of a transmitted 32-bit limit is ignored.\<close>

lemma length_put_u64 [simp]: "length (put_u64 v) = 8"
  by (simp add: put_u64_le)

lemma encode_limits_split:
  "encode_limits l = take 152 (encode_limits l) @ put_u64 (ucast (max_wave_grants l))"
  by (simp add: encode_limits_def)

lemma parses_limits_upper_half:
  assumes "8 \<le> max_allocation_bytes L" "ucast w = max_wave_grants l"
  shows "parses L decode_limits (take 152 (encode_limits l) @ put_u64 w) l"
  unfolding decode_limits_def encode_limits_def
  by (simp, (rule u64.parses_step [OF assms(1)] u64.parses_step [OF assms(1), where ys = "[]", simplified]
      parses_value)+) (simp add: ucast_down_up assms(2))

lemma decode_limits_forgets:
  assumes "8 \<le> max_allocation_bytes L"
  shows "\<exists>ys. ys \<noteq> encode_limits l \<and> parses L decode_limits ys l"
proof -
  let ?w = "set_bit 32 (ucast (max_wave_grants l)) :: u64"
  have w: "ucast ?w = max_wave_grants l"
    by (rule bit_word_eqI) (auto simp: bit_simps dest: bit_imp_le_length)
  have "bit ?w 32" "\<not> bit (ucast (max_wave_grants l) :: u64) 32"
    by (auto simp: bit_simps dest: bit_imp_le_length)
  then have "put_u64 ?w \<noteq> put_u64 (ucast (max_wave_grants l))"
    using u64.enc_prefix_free [OF assms assms, of ?w "[]" "ucast (max_wave_grants l)" "[]"] by auto
  then show ?thesis
    using parses_limits_upper_half [OF assms w] encode_limits_split [of l] by (metis same_append_eq)
qed

section \<open>Properties\<close>

text \<open>
  The policy encoding round-trips and decoding validates: a healthy reader in front of the
  encoding of a valid policy consumes exactly those bytes and returns that policy, and any
  policy that \<open>decode_policy\<close> returns is valid.
\<close>

theorem policy_roundtrip:
  assumes "8 \<le> max_allocation_bytes L" "validate_policy policy = ok_status"
  shows "parses L decode_policy (encode_policy policy) (Inr policy) \<and>
    decodes L decode_policy (\<lambda>policy' xs. validate_policy policy' = ok_status)"
  using parses_decode_policy [OF assms] decodes_decode_policy by blast

theorem policy_roundtrip_witness:
  "parses default_limits decode_policy (encode_policy (default_policy\<lparr>pe_shuffle := 1, pe_shuffle_generation := 1, pe_generation := 1\<rparr>))
     (Inr (default_policy\<lparr>pe_shuffle := 1, pe_shuffle_generation := 1, pe_generation := 1\<rparr>))"
  by (rule policy_roundtrip [THEN conjunct1])
    (simp_all add: validate_policy_def default_policy_def default_limits_def limits_validate_def)

text \<open>
  The encoding of limits is not canonical: for every limits value there is a second byte
  string, different from its encoding, that \<open>decode_limits\<close> reads as the same value, because
  the upper half of a transmitted 32-bit limit is dropped.
\<close>

theorem limits_encoding_not_canonical:
  assumes "8 \<le> max_allocation_bytes L"
  shows "\<exists>data. data \<noteq> encode_limits l \<and> parses L decode_limits data l"
  using assms by (rule decode_limits_forgets)

theorem limits_encoding_not_canonical_witness:
  "\<exists>data. data \<noteq> encode_limits default_limits \<and> parses default_limits decode_limits data default_limits"
  by (rule limits_encoding_not_canonical) (simp add: default_limits_def)

end
