(* ===== verification/Fabric_Topology.thy ===== *)
theory Fabric_Topology
  imports Fabric_Edge Fabric_Policy "HOL-Library.Product_Lexorder"
begin

text \<open>
  The producer/consumer topology (\<open>topology.hpp\<close>, \<open>topology.cpp\<close>) and its policy evaluation
  (\<open>evaluate_policy\<close> of \<open>policy.cpp\<close>): selections, participant records, the interned pattern
  table, registration, lifecycle, ownership, fan-in, fan-out and planned edges.

  The object is the record \<open>topology\<close>; a mutating method returns its status and the new state.
  \<open>pattern_index_\<close>, an \<open>unordered_map\<close> that is only looked up and extended, is a map.
  Consumer lists inside a pattern and participant vectors are strictly ascending vectors, found
  by \<open>std::lower_bound\<close>.

  Lemmas: the invariant \<open>topology_inv\<close> and its preservation by every operation; validation
  accepts every reachable state; the closed forms of \<open>planned_edge_count\<close>, \<open>fan_out\<close> and
  \<open>fan_in\<close> agree with counting the required deliveries; the check functions agree with the
  registrations they announce.
\<close>

section \<open>Selections\<close>

record partition_selection =
  ps_kind :: selection_kind
  ps_begin :: partition_id
  ps_end :: partition_id
  ps_list :: "partition_id list"

definition selection_all :: partition_selection where
  "selection_all = \<lparr>ps_kind = SK_All, ps_begin = 0, ps_end = 0, ps_list = []\<rparr>"

definition selection_range :: "partition_id \<Rightarrow> partition_id \<Rightarrow> partition_selection" where
  "selection_range first limit = \<lparr>ps_kind = SK_Range, ps_begin = first, ps_end = limit, ps_list = []\<rparr>"

fun adjacent_equal :: "'a list \<Rightarrow> bool" where
  "adjacent_equal (x # y # zs) \<longleftrightarrow> y = x \<or> adjacent_equal (y # zs)"
| "adjacent_equal _ \<longleftrightarrow> False"

definition selection_from_list :: "partition_id list \<Rightarrow> limits \<Rightarrow> partition_selection result" where
  "selection_from_list partitions l =
     (if partitions = [] then Inl InvalidArgument
      else if length partitions > unat (max_selection_items l) then Inl LimitExceeded
      else if adjacent_equal (sort partitions) then Inl InvalidArgument
      else Inr \<lparr>ps_kind = SK_List, ps_begin = 0, ps_end = 0, ps_list = sort partitions\<rparr>)"

definition selection_covers :: "partition_selection \<Rightarrow> partition_id \<Rightarrow> bool" where
  "selection_covers s part =
     (case ps_kind s of
        SK_All \<Rightarrow> True
      | SK_Range \<Rightarrow> part \<ge> ps_begin s \<and> part < ps_end s
      | SK_List \<Rightarrow> found_at id (ps_list s) part)"

definition selected_count :: "partition_selection \<Rightarrow> u32 \<Rightarrow> u64 result" where
  "selected_count s partition_count =
     (case ps_kind s of
        SK_All \<Rightarrow> Inr (ucast partition_count)
      | SK_Range \<Rightarrow>
          let first = ps_begin s; limit = ps_end s in
          if first \<ge> ucast partition_count \<or> limit \<le> first then Inr 0
          else Inr (min limit (ucast partition_count) - first)
      | SK_List \<Rightarrow> Inr (word_of_nat (lower_bound id (ps_list s) (ucast partition_count))))"

fun join_ids :: "partition_id list \<Rightarrow> string" where
  "join_ids [] = ''''"
| "join_ids [p] = id_to_string p"
| "join_ids (p # ps) = id_to_string p @ '','' @ join_ids ps"

definition canonical_key :: "partition_selection \<Rightarrow> string" where
  "canonical_key s =
     (case ps_kind s of
        SK_All \<Rightarrow> ''all''
      | SK_Range \<Rightarrow> ''range:'' @ id_to_string (ps_begin s) @ '':'' @ id_to_string (ps_end s)
      | SK_List \<Rightarrow> ''list:'' @ join_ids (ps_list s))"

section \<open>State\<close>

record producer_record =
  pd_id :: producer_id
  pd_incarnation :: incarnation_id
  pd_state :: participant_state
  pd_endpoint :: bytes

record consumer_record =
  cs_id :: consumer_id
  cs_incarnation :: incarnation_id
  cs_state :: participant_state
  cs_endpoint :: bytes
  cs_pattern :: u32

record pattern_entry =
  pt_selection :: partition_selection
  pt_key :: string
  pt_consumers :: "consumer_id list"

record topology =
  tp_shuffle :: shuffle_id
  tp_shuffle_generation :: shuffle_generation
  tp_partition_count :: u32
  tp_limits :: limits
  tp_generation :: topology_generation
  tp_producers :: "producer_record list"
  tp_consumers :: "consumer_record list"
  tp_active_producers :: "producer_id list"
  tp_patterns :: "pattern_entry list"
  tp_pattern_order :: "u32 list"
  tp_pattern_index :: "string \<rightharpoonup> u32"
  tp_interned_selection_items :: u64

definition mk_topology :: "shuffle_id \<Rightarrow> shuffle_generation \<Rightarrow> u32 \<Rightarrow> limits \<Rightarrow> topology" where
  "mk_topology shuffle shuffle_generation partition_count l = \<lparr>
     tp_shuffle = shuffle, tp_shuffle_generation = shuffle_generation,
     tp_partition_count = partition_count, tp_limits = l, tp_generation = 0, tp_producers = [],
     tp_consumers = [], tp_active_producers = [], tp_patterns = [], tp_pattern_order = [],
     tp_pattern_index = Map.empty, tp_interned_selection_items = 0\<rparr>"

definition find_producer :: "producer_record list \<Rightarrow> producer_id \<Rightarrow> producer_record option" where
  "find_producer records pid =
     (let found = lower_bound pd_id records pid in
      if found = length records \<or> pd_id (records ! found) \<noteq> pid then None else Some (records ! found))"

definition find_consumer :: "consumer_record list \<Rightarrow> consumer_id \<Rightarrow> consumer_record option" where
  "find_consumer records cid =
     (let found = lower_bound cs_id records cid in
      if found = length records \<or> cs_id (records ! found) \<noteq> cid then None else Some (records ! found))"

definition counts_toward_requirement :: "participant_state \<Rightarrow> bool" where
  "counts_toward_requirement state \<longleftrightarrow> state \<noteq> PS_Withdrawn"

definition active_producer_count :: "topology \<Rightarrow> u32" where
  "active_producer_count t = word_of_nat (length (tp_active_producers t))"

definition active_consumer_count :: "topology \<Rightarrow> u32" where
  "active_consumer_count t =
     foldl (\<lambda>count record. if holds_authority (cs_state record) then count + 1 else count) 0
       (tp_consumers t)"

definition tp_pattern :: "topology \<Rightarrow> u32 \<Rightarrow> partition_selection" where
  "tp_pattern t index =
     (if unat index \<ge> length (tp_patterns t) then selection_all
      else pt_selection (tp_patterns t ! unat index))"

definition consumers_of_pattern :: "topology \<Rightarrow> u32 \<Rightarrow> consumer_id list" where
  "consumers_of_pattern t index =
     (if unat index \<ge> length (tp_patterns t) then []
      else pt_consumers (tp_patterns t ! unat index))"

definition tp_producer :: "topology \<Rightarrow> producer_id \<Rightarrow> producer_record result" where
  "tp_producer t pid =
     (case find_producer (tp_producers t) pid of
        None \<Rightarrow> Inl UnknownParticipant | Some record \<Rightarrow> Inr record)"

definition tp_consumer :: "topology \<Rightarrow> consumer_id \<Rightarrow> consumer_record result" where
  "tp_consumer t cid =
     (case find_consumer (tp_consumers t) cid of
        None \<Rightarrow> Inl UnknownParticipant | Some record \<Rightarrow> Inr record)"

section \<open>Internal mutations\<close>

definition bump_generation :: "topology \<Rightarrow> topology" where
  "bump_generation t = t\<lparr>tp_generation := id_next (tp_generation t)\<rparr>"

definition rebuild_active_producers :: "topology \<Rightarrow> topology" where
  "rebuild_active_producers t =
     t\<lparr>tp_active_producers := map pd_id (filter (\<lambda>record. holds_authority (pd_state record)) (tp_producers t))\<rparr>"

text \<open>
  \<open>std::sort\<close> by the key; keys are pairwise distinct, so the result does not depend on the
  stability of the sort.
\<close>

definition rebuild_pattern_order :: "topology \<Rightarrow> topology" where
  "rebuild_pattern_order t =
     t\<lparr>tp_pattern_order :=
        sort_key (\<lambda>index. pt_key (tp_patterns t ! unat index))
          (map word_of_nat [0..<length (tp_patterns t)])\<rparr>"

definition add_consumer_to_pattern :: "u32 \<Rightarrow> consumer_id \<Rightarrow> topology \<Rightarrow> topology" where
  "add_consumer_to_pattern pattern_index cid t =
     (if unat pattern_index \<ge> length (tp_patterns t) then t
      else let entry = tp_patterns t ! unat pattern_index in
        t\<lparr>tp_patterns := (tp_patterns t)
            [unat pattern_index := entry\<lparr>pt_consumers := vec_insert cid (pt_consumers entry)\<rparr>]\<rparr>)"

definition remove_consumer_from_pattern :: "u32 \<Rightarrow> consumer_id \<Rightarrow> topology \<Rightarrow> topology" where
  "remove_consumer_from_pattern pattern_index cid t =
     (if unat pattern_index \<ge> length (tp_patterns t) then t
      else let entry = tp_patterns t ! unat pattern_index in
        t\<lparr>tp_patterns := (tp_patterns t)
            [unat pattern_index := entry\<lparr>pt_consumers := vec_erase cid (pt_consumers entry)\<rparr>]\<rparr>)"

definition selection_items :: "partition_selection \<Rightarrow> u64" where
  "selection_items s = (if ps_kind s = SK_List then word_of_nat (length (ps_list s)) else 1)"

definition intern_pattern :: "partition_selection \<Rightarrow> topology \<Rightarrow> u32 result \<times> topology" where
  "intern_pattern s t =
     (let key = canonical_key s in
      case tp_pattern_index t key of
        Some existing \<Rightarrow> (Inr existing, t)
      | None \<Rightarrow>
          if length (tp_patterns t) \<ge> unat (max_selection_patterns (tp_limits t))
          then (Inl TooManyPatterns, t)
          else if tp_interned_selection_items t + selection_items s > max_selection_items (tp_limits t)
          then (Inl LimitExceeded, t)
          else let index = word_of_nat (length (tp_patterns t)) in
            (Inr index,
             rebuild_pattern_order
               (t\<lparr>tp_patterns := tp_patterns t @ [\<lparr>pt_selection = s, pt_key = key, pt_consumers = []\<rparr>],
                  tp_pattern_index := (tp_pattern_index t)(key \<mapsto> index),
                  tp_interned_selection_items := tp_interned_selection_items t + selection_items s\<rparr>)))"

section \<open>Checks\<close>

definition check_producer_registration :: "topology \<Rightarrow> producer_id \<Rightarrow> incarnation_id \<Rightarrow> bytes \<Rightarrow> status" where
  "check_producer_registration t pid incarnation endpoint =
     (if pid = 0 then Inl InvalidArgument
      else if incarnation = 0 then Inl InvalidArgument
      else if length endpoint > unat (max_endpoint_bytes (tp_limits t)) then Inl OversizedInput
      else case find_producer (tp_producers t) pid of
        None \<Rightarrow>
          if length (tp_producers t) \<ge> unat (max_participants (tp_limits t)) then Inl TooManyParticipants
          else ok_status
      | Some existing \<Rightarrow>
          if pd_incarnation existing = incarnation \<and> pd_endpoint existing \<noteq> endpoint
          then Inl IdentityMismatch else ok_status)"

definition check_selection :: "topology \<Rightarrow> partition_selection \<Rightarrow> status" where
  "check_selection t s =
     (case ps_kind s of
        SK_All \<Rightarrow> ok_status
      | SK_Range \<Rightarrow>
          if ps_begin s \<ge> ps_end s then Inl InvalidArgument
          else if ps_end s > ucast (tp_partition_count t) then Inl UnknownPartition
          else ok_status
      | SK_List \<Rightarrow>
          if ps_list s = [] then Inl InvalidArgument
          else if list_ex (\<lambda>part. part \<ge> ucast (tp_partition_count t)) (ps_list s)
          then Inl UnknownPartition
          else ok_status)"

definition check_consumer_registration ::
  "topology \<Rightarrow> consumer_id \<Rightarrow> incarnation_id \<Rightarrow> bytes \<Rightarrow> partition_selection \<Rightarrow> status" where
  "check_consumer_registration t cid incarnation endpoint s =
     (if cid = 0 then Inl InvalidArgument
      else if incarnation = 0 then Inl InvalidArgument
      else if length endpoint > unat (max_endpoint_bytes (tp_limits t)) then Inl OversizedInput
      else if tp_partition_count t = 0 then Inl InvalidState
      else case check_selection t s of
        Inl e \<Rightarrow> Inl e
      | Inr _ \<Rightarrow>
          if find_consumer (tp_consumers t) cid = None \<and>
             length (tp_consumers t) \<ge> unat (max_participants (tp_limits t))
          then Inl TooManyParticipants
          else if tp_pattern_index t (canonical_key s) = None then
            (if length (tp_patterns t) \<ge> unat (max_selection_patterns (tp_limits t))
             then Inl TooManyPatterns
             else if tp_interned_selection_items t + selection_items s > max_selection_items (tp_limits t)
             then Inl LimitExceeded
             else ok_status)
          else ok_status)"

text \<open>The enumeration value is in range by its type, so the first C++ guard never fires.\<close>

definition check_participant_state ::
  "topology \<Rightarrow> participant_kind \<Rightarrow> u64 \<Rightarrow> incarnation_id \<Rightarrow> participant_state \<Rightarrow> status" where
  "check_participant_state t kind pid incarnation state =
     (if pid = 0 then Inl InvalidArgument
      else if kind = PK_Producer then
        (case find_producer (tp_producers t) pid of
           None \<Rightarrow> Inl UnknownParticipant
         | Some record \<Rightarrow> if pd_incarnation record \<noteq> incarnation then Inl StaleIncarnation else ok_status)
      else
        (case find_consumer (tp_consumers t) pid of
           None \<Rightarrow> Inl UnknownParticipant
         | Some record \<Rightarrow> if cs_incarnation record \<noteq> incarnation then Inl StaleIncarnation else ok_status))"

section \<open>Registration and lifecycle\<close>

definition register_producer ::
  "producer_id \<Rightarrow> incarnation_id \<Rightarrow> bytes \<Rightarrow> topology \<Rightarrow> status \<times> topology" where
  "register_producer pid incarnation endpoint t =
     (case check_producer_registration t pid incarnation endpoint of
        Inl e \<Rightarrow> (Inl e, t)
      | Inr _ \<Rightarrow>
        (let position = lower_bound pd_id (tp_producers t) pid in
         if position < length (tp_producers t) \<and> pd_id (tp_producers t ! position) = pid then
           (let record = tp_producers t ! position in
            if pd_incarnation record = incarnation then
              (if pd_endpoint record \<noteq> endpoint then (Inl IdentityMismatch, t) else (ok_status, t))
            else
              (ok_status, bump_generation (rebuild_active_producers
                 (t\<lparr>tp_producers := (tp_producers t)[position :=
                      record\<lparr>pd_incarnation := incarnation, pd_endpoint := endpoint, pd_state := PS_Active\<rparr>]\<rparr>))))
         else if length (tp_producers t) \<ge> unat (max_participants (tp_limits t))
         then (Inl TooManyParticipants, t)
         else
           (ok_status, bump_generation (rebuild_active_producers
              (t\<lparr>tp_producers := insert_at position
                   \<lparr>pd_id = pid, pd_incarnation = incarnation, pd_state = PS_Active, pd_endpoint = endpoint\<rparr>
                   (tp_producers t)\<rparr>)))))"

definition register_consumer ::
  "consumer_id \<Rightarrow> incarnation_id \<Rightarrow> bytes \<Rightarrow> partition_selection \<Rightarrow> topology \<Rightarrow> status \<times> topology" where
  "register_consumer cid incarnation endpoint s t =
     (case check_consumer_registration t cid incarnation endpoint s of
        Inl e \<Rightarrow> (Inl e, t)
      | Inr _ \<Rightarrow>
        (case intern_pattern s t of
           (Inl e, t1) \<Rightarrow> (Inl e, t1)
         | (Inr new_pattern, t1) \<Rightarrow>
           (let position = lower_bound cs_id (tp_consumers t1) cid in
            if position < length (tp_consumers t1) \<and> cs_id (tp_consumers t1 ! position) = cid then
              (let record = tp_consumers t1 ! position in
               if cs_incarnation record = incarnation \<and> cs_pattern record = new_pattern \<and>
                  cs_endpoint record = endpoint
               then (ok_status, t1)
               else
                 (let t2 = remove_consumer_from_pattern (cs_pattern record) cid t1;
                      t3 = t2\<lparr>tp_consumers := (tp_consumers t2)[position :=
                             record\<lparr>cs_incarnation := incarnation, cs_endpoint := endpoint,
                                    cs_pattern := new_pattern, cs_state := PS_Active\<rparr>]\<rparr>
                  in (ok_status, bump_generation (add_consumer_to_pattern new_pattern cid t3))))
            else
              (let t2 = t1\<lparr>tp_consumers := insert_at position
                          \<lparr>cs_id = cid, cs_incarnation = incarnation, cs_state = PS_Active,
                           cs_endpoint = endpoint, cs_pattern = new_pattern\<rparr> (tp_consumers t1)\<rparr>
               in (ok_status, bump_generation (add_consumer_to_pattern new_pattern cid t2))))))"

definition set_producer_state ::
  "producer_id \<Rightarrow> incarnation_id \<Rightarrow> participant_state \<Rightarrow> topology \<Rightarrow> status \<times> topology" where
  "set_producer_state pid incarnation state t =
     (case check_participant_state t PK_Producer pid incarnation state of
        Inl e \<Rightarrow> (Inl e, t)
      | Inr _ \<Rightarrow>
        (let position = lower_bound pd_id (tp_producers t) pid;
             record = tp_producers t ! position
         in if pd_state record = state then (ok_status, t)
            else (ok_status, bump_generation (rebuild_active_producers
                   (t\<lparr>tp_producers := (tp_producers t)[position := record\<lparr>pd_state := state\<rparr>]\<rparr>)))))"

definition set_consumer_state ::
  "consumer_id \<Rightarrow> incarnation_id \<Rightarrow> participant_state \<Rightarrow> topology \<Rightarrow> status \<times> topology" where
  "set_consumer_state cid incarnation state t =
     (case check_participant_state t PK_Consumer cid incarnation state of
        Inl e \<Rightarrow> (Inl e, t)
      | Inr _ \<Rightarrow>
        (let position = lower_bound cs_id (tp_consumers t) cid;
             record = tp_consumers t ! position
         in if cs_state record = state then (ok_status, t)
            else
              (let was_counted = counts_toward_requirement (cs_state record);
                   now_counted = counts_toward_requirement state;
                   t1 = t\<lparr>tp_consumers := (tp_consumers t)[position := record\<lparr>cs_state := state\<rparr>]\<rparr>;
                   t2 = (if was_counted \<and> \<not> now_counted
                         then remove_consumer_from_pattern (cs_pattern record) cid t1
                         else if \<not> was_counted \<and> now_counted
                         then add_consumer_to_pattern (cs_pattern record) cid t1
                         else t1)
               in (ok_status, bump_generation t2))))"

definition withdraw_producer :: "producer_id \<Rightarrow> incarnation_id \<Rightarrow> topology \<Rightarrow> status \<times> topology" where
  "withdraw_producer pid incarnation t = set_producer_state pid incarnation PS_Withdrawn t"

definition withdraw_consumer :: "consumer_id \<Rightarrow> incarnation_id \<Rightarrow> topology \<Rightarrow> status \<times> topology" where
  "withdraw_consumer cid incarnation t = set_consumer_state cid incarnation PS_Withdrawn t"

section \<open>Queries\<close>

definition owner_index_of :: "topology \<Rightarrow> partition_id \<Rightarrow> u32 result" where
  "owner_index_of t part =
     (if part \<ge> ucast (tp_partition_count t) then Inl UnknownPartition
      else if tp_active_producers t = [] then Inl PartitionNotOwned
      else Inr (ucast (part mod word_of_nat (length (tp_active_producers t)))))"

definition owner_of :: "topology \<Rightarrow> partition_id \<Rightarrow> producer_id result" where
  "owner_of t part =
     (case owner_index_of t part of
        Inl e \<Rightarrow> Inl e
      | Inr index \<Rightarrow> Inr (tp_active_producers t ! unat index))"

definition covering_consumers :: "topology \<Rightarrow> partition_id \<Rightarrow> consumer_id list" where
  "covering_consumers t part =
     (if part \<ge> ucast (tp_partition_count t) then []
      else foldl (\<lambda>covering pattern_index.
             let entry = tp_patterns t ! unat pattern_index in
             if pt_consumers entry = [] \<or> \<not> selection_covers (pt_selection entry) part then covering
             else covering @ pt_consumers entry) [] (tp_pattern_order t))"

definition covering_consumer_count :: "topology \<Rightarrow> partition_id \<Rightarrow> nat" where
  "covering_consumer_count t part =
     (if part \<ge> ucast (tp_partition_count t) then 0
      else foldl (\<lambda>count pattern_index.
             let entry = tp_patterns t ! unat pattern_index in
             if selection_covers (pt_selection entry) part then count + length (pt_consumers entry)
             else count) 0 (tp_pattern_order t))"

definition fan_out :: "topology \<Rightarrow> partition_id \<Rightarrow> u32 result" where
  "fan_out t part =
     (if part \<ge> ucast (tp_partition_count t) then Inl UnknownPartition
      else let count = foldl (\<lambda>count entry.
             if selection_covers (pt_selection entry) part
             then count + word_of_nat (length (pt_consumers entry)) else count) (0 :: u64) (tp_patterns t)
        in if count > 0xffffffff then Inl IntegerOverflow else Inr (ucast count))"

definition fan_in :: "topology \<Rightarrow> consumer_id \<Rightarrow> u32 result" where
  "fan_in t cid =
     (case find_consumer (tp_consumers t) cid of
        None \<Rightarrow> Inl UnknownParticipant
      | Some record \<Rightarrow>
        (let producer_count = active_producer_count t in
         if producer_count = 0 then Inr 0
         else let s = pt_selection (tp_patterns t ! unat (cs_pattern record)) in
           case ps_kind s of
             SK_All \<Rightarrow> Inr (min producer_count (tp_partition_count t))
           | SK_Range \<Rightarrow>
               (case selected_count s (tp_partition_count t) of
                  Inl e \<Rightarrow> Inl e
                | Inr selected \<Rightarrow> Inr (ucast (min selected (ucast producer_count))))
           | SK_List \<Rightarrow>
               (let residues = remdups_adj (sort
                  (map (\<lambda>part. ucast (part mod ucast producer_count) :: u32) (ps_list s)))
                in if length residues > 0xffffffff then Inl IntegerOverflow
                   else Inr (word_of_nat (length residues)))))"

fun planned_edges_loop :: "u32 \<Rightarrow> u64 \<Rightarrow> pattern_entry list \<Rightarrow> u64 result" where
  "planned_edges_loop partition_count acc [] = Inr acc"
| "planned_edges_loop partition_count acc (entry # entries) =
     (if pt_consumers entry = [] then planned_edges_loop partition_count acc entries
      else case selected_count (pt_selection entry) partition_count of
        Inl e \<Rightarrow> Inl e
      | Inr selected \<Rightarrow>
        (case checked_mul (word_of_nat (length (pt_consumers entry))) selected of
           Inl e \<Rightarrow> Inl e
         | Inr contribution \<Rightarrow>
           (case checked_add acc contribution of
              Inl e \<Rightarrow> Inl e
            | Inr acc' \<Rightarrow> planned_edges_loop partition_count acc' entries)))"

definition planned_edge_count :: "topology \<Rightarrow> u64 result" where
  "planned_edge_count t = planned_edges_loop (tp_partition_count t) 0 (tp_patterns t)"

fun adjacent_ascending :: "('a \<Rightarrow> 'b::linorder) \<Rightarrow> 'a list \<Rightarrow> bool" where
  "adjacent_ascending key (x # y # zs) \<longleftrightarrow> key x < key y \<and> adjacent_ascending key (y # zs)"
| "adjacent_ascending key _ \<longleftrightarrow> True"

definition pattern_consumer_ok :: "topology \<Rightarrow> nat \<Rightarrow> consumer_id \<Rightarrow> bool" where
  "pattern_consumer_ok t index cid =
     (case find_consumer (tp_consumers t) cid of
        None \<Rightarrow> False
      | Some record \<Rightarrow> cs_pattern record = word_of_nat index \<and> counts_toward_requirement (cs_state record))"

definition topology_validate :: "topology \<Rightarrow> status" where
  "topology_validate t =
     (if tp_partition_count t = 0 then Inl InvalidArgument
      else case limits_validate (tp_limits t) of
        Inl e \<Rightarrow> Inl e
      | Inr _ \<Rightarrow>
          if \<not> adjacent_ascending pd_id (tp_producers t) then Inl InvalidState
          else if \<not> adjacent_ascending cs_id (tp_consumers t) then Inl InvalidState
          else if list_ex (\<lambda>record. unat (cs_pattern record) \<ge> length (tp_patterns t)) (tp_consumers t)
          then Inl InvalidState
          else if list_ex (\<lambda>(index, entry). \<not> adjacent_ascending id (pt_consumers entry) \<or>
                    list_ex (\<lambda>cid. \<not> pattern_consumer_ok t index cid) (pt_consumers entry))
                  (List.enumerate 0 (tp_patterns t))
          then Inl InvalidState
          else if length (tp_pattern_order t) \<noteq> length (tp_patterns t) then Inl InvalidState
          else if \<not> adjacent_ascending (\<lambda>index. pt_key (tp_patterns t ! unat index)) (tp_pattern_order t)
          then Inl InvalidState
          else ok_status)"

definition describe_topology :: "topology \<Rightarrow> string" where
  "describe_topology t =
     ''shuffle='' @ id_to_string (tp_shuffle t) @
     '' generation='' @ id_to_string (tp_shuffle_generation t) @
     '' topology_generation='' @ id_to_string (tp_generation t) @ [CHR 0x0A] @
     ''  partitions='' @ u32_to_string (tp_partition_count t) @
     '' producers='' @ dec_digits (length (tp_producers t)) @
     '' (active '' @ u32_to_string (active_producer_count t) @ '')'' @
     '' consumers='' @ dec_digits (length (tp_consumers t)) @
     '' (active '' @ u32_to_string (active_consumer_count t) @ '')'' @
     '' patterns='' @ dec_digits (length (tp_patterns t)) @ [CHR 0x0A] @
     ''  planned_edges='' @
     (case planned_edge_count t of Inl _ \<Rightarrow> ''<error>'' | Inr n \<Rightarrow> id_to_string n) @ [CHR 0x0A]"

section \<open>Policy evaluation\<close>

record policy_violation =
  pv_code :: error_code
  pv_subject :: string
  pv_detail :: string

record policy_evaluation =
  ev_planned_edges :: u64
  ev_max_fan_out :: u32
  ev_max_fan_in :: u32
  ev_violations :: "policy_violation list"

definition kMaxViolationsPerCategory :: nat where
  "kMaxViolationsPerCategory = 8"

definition acceptable :: "policy_evaluation \<Rightarrow> bool" where
  "acceptable ev \<longleftrightarrow> ev_violations ev = []"

fun evaluate_fan_out ::
  "topology \<Rightarrow> policy_envelope \<Rightarrow> u32 list \<Rightarrow> nat \<Rightarrow> policy_evaluation \<Rightarrow> policy_evaluation result" where
  "evaluate_fan_out t policy [] seen ev = Inr ev"
| "evaluate_fan_out t policy (index # indices) seen ev =
     (case fan_out t (ucast index) of
        Inl e \<Rightarrow> Inl e
      | Inr v \<Rightarrow>
        (let ev1 = ev\<lparr>ev_max_fan_out := max (ev_max_fan_out ev) v\<rparr> in
         if v > fb_max_fan_out (pe_fan policy) then
           evaluate_fan_out t policy indices (Suc seen)
             (if seen < kMaxViolationsPerCategory then
                ev1\<lparr>ev_violations := ev_violations ev1 @
                  [\<lparr>pv_code = FanOutCeilingExceeded, pv_subject = ''partition '' @ u32_to_string index,
                    pv_detail = ''fan-out '' @ u32_to_string v @ '' exceeds max_fan_out '' @
                      u32_to_string (fb_max_fan_out (pe_fan policy))\<rparr>]\<rparr>
              else ev1)
         else evaluate_fan_out t policy indices seen ev1))"

fun evaluate_fan_in ::
  "topology \<Rightarrow> policy_envelope \<Rightarrow> consumer_record list \<Rightarrow> nat \<Rightarrow> policy_evaluation \<Rightarrow> policy_evaluation result" where
  "evaluate_fan_in t policy [] seen ev = Inr ev"
| "evaluate_fan_in t policy (record # records) seen ev =
     (case fan_in t (cs_id record) of
        Inl e \<Rightarrow> Inl e
      | Inr v \<Rightarrow>
        (let ev1 = ev\<lparr>ev_max_fan_in := max (ev_max_fan_in ev) v\<rparr> in
         if v > fb_max_fan_in (pe_fan policy) then
           evaluate_fan_in t policy records (Suc seen)
             (if seen < kMaxViolationsPerCategory then
                ev1\<lparr>ev_violations := ev_violations ev1 @
                  [\<lparr>pv_code = FanInCeilingExceeded, pv_subject = ''consumer '' @ id_to_string (cs_id record),
                    pv_detail = ''fan-in '' @ u32_to_string v @ '' exceeds max_fan_in '' @
                      u32_to_string (fb_max_fan_in (pe_fan policy))\<rparr>]\<rparr>
              else ev1)
         else evaluate_fan_in t policy records seen ev1))"

definition evaluate_policy :: "topology \<Rightarrow> policy_envelope \<Rightarrow> policy_evaluation result" where
  "evaluate_policy t policy =
     (case validate_policy policy of
        Inl e \<Rightarrow> Inl e
      | Inr _ \<Rightarrow>
        if pe_shuffle policy \<noteq> tp_shuffle t \<or> pe_shuffle_generation policy \<noteq> tp_shuffle_generation t
        then Inl PolicyMismatch
        else case planned_edge_count t of
          Inl e \<Rightarrow> Inl e
        | Inr planned \<Rightarrow>
          (let ev = \<lparr>ev_planned_edges = planned, ev_max_fan_out = 0, ev_max_fan_in = 0,
             ev_violations =
               (if planned > max_planned_edges (pe_limits policy)
                then [\<lparr>pv_code = LimitExceeded, pv_subject = ''shuffle'',
                       pv_detail = ''planned edge count '' @ id_to_string planned @
                         '' exceeds max_planned_edges''\<rparr>]
                else [])\<rparr>
           in case evaluate_fan_out t policy (map word_of_nat [0..<unat (tp_partition_count t)]) 0 ev of
             Inl e \<Rightarrow> Inl e
           | Inr ev1 \<Rightarrow>
             (case evaluate_fan_in t policy (tp_consumers t) 0 ev1 of
                Inl e \<Rightarrow> Inl e
              | Inr ev2 \<Rightarrow>
                Inr (ev2\<lparr>ev_violations :=
                  sort_key (\<lambda>v. (code_value (pv_code v), pv_subject v)) (ev_violations ev2)\<rparr>))))"

section \<open>Specification\<close>

definition selection_wf :: "u32 \<Rightarrow> partition_selection \<Rightarrow> bool" where
  "selection_wf partition_count s =
     (case ps_kind s of
        SK_All \<Rightarrow> True
      | SK_Range \<Rightarrow> ps_begin s < ps_end s \<and> ps_end s \<le> ucast partition_count
      | SK_List \<Rightarrow> ps_list s \<noteq> [] \<and> ascending (ps_list s) \<and>
          (\<forall>part \<in> set (ps_list s). part < ucast partition_count))"

definition selection_canonical :: "partition_selection \<Rightarrow> bool" where
  "selection_canonical s \<longleftrightarrow> (ps_kind s = SK_List \<longrightarrow> ascending (ps_list s))"

definition participants_inv :: "topology \<Rightarrow> bool" where
  "participants_inv t \<longleftrightarrow>
     key_ascending pd_id (tp_producers t) \<and> key_ascending cs_id (tp_consumers t) \<and>
     length (tp_producers t) \<le> unat (max_participants (tp_limits t)) \<and>
     length (tp_consumers t) \<le> unat (max_participants (tp_limits t)) \<and>
     tp_active_producers t =
       map pd_id (filter (\<lambda>record. holds_authority (pd_state record)) (tp_producers t))"

definition pattern_order_of :: "string list \<Rightarrow> u32 list" where
  "pattern_order_of ks = sort_key (\<lambda>index. ks ! unat index) (map word_of_nat [0..<length ks])"

definition patterns_inv :: "topology \<Rightarrow> bool" where
  "patterns_inv t \<longleftrightarrow>
     length (tp_patterns t) \<le> unat (max_selection_patterns (tp_limits t)) \<and>
     list_all (\<lambda>entry. pt_key entry = canonical_key (pt_selection entry) \<and>
       selection_wf (tp_partition_count t) (pt_selection entry)) (tp_patterns t) \<and>
     distinct (map pt_key (tp_patterns t)) \<and>
     (\<forall>key index. tp_pattern_index t key = Some index \<longleftrightarrow>
        unat index < length (tp_patterns t) \<and> pt_key (tp_patterns t ! unat index) = key) \<and>
     tp_pattern_order t = pattern_order_of (map pt_key (tp_patterns t))"

text \<open>The consumers a pattern must list: registered under it and not withdrawn.\<close>

definition pattern_members :: "consumer_record list \<Rightarrow> nat \<Rightarrow> consumer_id set" where
  "pattern_members records index =
     cs_id ` {record \<in> set records. unat (cs_pattern record) = index \<and>
       counts_toward_requirement (cs_state record)}"

definition link_inv :: "topology \<Rightarrow> bool" where
  "link_inv t \<longleftrightarrow>
     (\<forall>record \<in> set (tp_consumers t). unat (cs_pattern record) < length (tp_patterns t)) \<and>
     (\<forall>index < length (tp_patterns t). ascending (pt_consumers (tp_patterns t ! index)) \<and>
        set (pt_consumers (tp_patterns t ! index)) = pattern_members (tp_consumers t) index)"

definition topology_inv :: "topology \<Rightarrow> bool" where
  "topology_inv t \<longleftrightarrow> participants_inv t \<and> patterns_inv t \<and> link_inv t"

definition lists_members :: "pattern_entry list \<Rightarrow> (nat \<Rightarrow> consumer_id set) \<Rightarrow> bool" where
  "lists_members ps M \<longleftrightarrow>
     (\<forall>index < length ps. ascending (pt_consumers (ps ! index)) \<and> set (pt_consumers (ps ! index)) = M index)"

lemmas topology_inv_defs = topology_inv_def participants_inv_def patterns_inv_def link_inv_def

text \<open>The deliveries the topology requires.\<close>

definition selected_partitions :: "u32 \<Rightarrow> partition_selection \<Rightarrow> partition_id set" where
  "selected_partitions partition_count s = {part. part < ucast partition_count \<and> selection_covers s part}"

definition required_consumers :: "topology \<Rightarrow> partition_id \<Rightarrow> consumer_id set" where
  "required_consumers t part =
     cs_id ` {record \<in> set (tp_consumers t). counts_toward_requirement (cs_state record) \<and>
       selection_covers (tp_pattern t (cs_pattern record)) part}"

definition required_edges :: "topology \<Rightarrow> (partition_id \<times> consumer_id) set" where
  "required_edges t =
     (SIGMA part : {part. part < ucast (tp_partition_count t)}. required_consumers t part)"

text \<open>The producers that own the partitions a selection covers.\<close>

definition serving_owners :: "topology \<Rightarrow> partition_selection \<Rightarrow> producer_id set" where
  "serving_owners t s = {owner. \<exists>part \<in> selected_partitions (tp_partition_count t) s. owner_of t part = Inr owner}"

text \<open>The states a topology object goes through: any sequence of its public mutations.\<close>

inductive topology_step :: "topology \<Rightarrow> topology \<Rightarrow> bool" where
  step_register_producer: "topology_step t (snd (register_producer pid inc ep t))"
| step_register_consumer: "selection_canonical s \<Longrightarrow> topology_step t (snd (register_consumer cid inc ep s t))"
| step_producer_state: "topology_step t (snd (set_producer_state pid inc st t))"
| step_consumer_state: "topology_step t (snd (set_consumer_state cid inc st t))"

definition same_frame :: "topology \<Rightarrow> topology \<Rightarrow> bool" where
  "same_frame t t' \<longleftrightarrow>
     tp_shuffle t' = tp_shuffle t \<and> tp_shuffle_generation t' = tp_shuffle_generation t \<and>
     tp_partition_count t' = tp_partition_count t \<and> tp_limits t' = tp_limits t"

text \<open>A topology used to instantiate the theorems: one producer and one consumer of partitions 0 and 1.\<close>

definition small_topology :: topology where
  "small_topology =
     snd (register_consumer 5 1 [] (selection_range 0 2)
       (snd (register_producer 7 1 [] (mk_topology 1 1 4 default_limits))))"

section \<open>Lemmas: lookups\<close>

lemma find_producer_iff:
  "key_ascending pd_id records \<Longrightarrow>
   find_producer records pid = Some r \<longleftrightarrow> r \<in> set records \<and> pd_id r = pid"
  using found_at_nth [of pd_id records r]
  by (auto simp: find_producer_def Let_def le_neq_trans [OF lower_bound_le])

lemma find_consumer_iff:
  "key_ascending cs_id records \<Longrightarrow>
   find_consumer records cid = Some r \<longleftrightarrow> r \<in> set records \<and> cs_id r = cid"
  using found_at_nth [of cs_id records r]
  by (auto simp: find_consumer_def Let_def le_neq_trans [OF lower_bound_le])

lemma find_producer_None:
  "key_ascending pd_id records \<Longrightarrow> find_producer records pid = None \<longleftrightarrow> \<not> found_at pd_id records pid"
  by (auto simp: find_producer_def found_at_def Let_def le_neq_trans [OF lower_bound_le])

lemma find_consumer_None:
  "key_ascending cs_id records \<Longrightarrow> find_consumer records cid = None \<longleftrightarrow> \<not> found_at cs_id records cid"
  by (auto simp: find_consumer_def found_at_def Let_def le_neq_trans [OF lower_bound_le])

section \<open>Lemmas: the invariant\<close>

lemma mk_topology_inv: "topology_inv (mk_topology sh sg n l)"
  by (simp add: topology_inv_defs mk_topology_def pattern_order_of_def pattern_members_def)

lemma bump_generation_inv [simp]: "topology_inv (bump_generation t) = topology_inv t"
  by (simp add: topology_inv_defs bump_generation_def)

lemma pattern_update_inv:
  assumes "i < length (tp_patterns t)"
  shows "patterns_inv (t\<lparr>tp_patterns := (tp_patterns t)[i := (tp_patterns t ! i)\<lparr>pt_consumers := cs\<rparr>]\<rparr>) = patterns_inv t"
proof -
  have k: "map pt_key ((tp_patterns t)[i := (tp_patterns t ! i)\<lparr>pt_consumers := cs\<rparr>]) = map pt_key (tp_patterns t)"
    using assms by (simp add: map_update list_update_same_conv)
  have n: "pt_key ((tp_patterns t)[i := (tp_patterns t ! i)\<lparr>pt_consumers := cs\<rparr>] ! j) = pt_key (tp_patterns t ! j)"
    if "j < length (tp_patterns t)" for j
    using that assms by (cases "i = j") auto
  have a: "list_all P ((tp_patterns t)[i := (tp_patterns t ! i)\<lparr>pt_consumers := cs\<rparr>]) = list_all P (tp_patterns t)"
    if "\<And>e. P (e\<lparr>pt_consumers := cs\<rparr>) = P e" for P
    using assms that by (auto simp: list_all_length nth_list_update)
  show ?thesis
    by (simp add: patterns_inv_def k n a cong: conj_cong)
qed

lemma link_inv_alt:
  "link_inv t \<longleftrightarrow>
     (\<forall>record \<in> set (tp_consumers t). unat (cs_pattern record) < length (tp_patterns t)) \<and>
     lists_members (tp_patterns t) (pattern_members (tp_consumers t))"
  by (simp add: link_inv_def lists_members_def)

lemma lists_members_cong:
  "lists_members ps M \<Longrightarrow> (\<And>i. i < length ps \<Longrightarrow> M i = N i) \<Longrightarrow> lists_members ps N"
  by (simp add: lists_members_def)

lemma remove_consumer_simps [simp]:
  "length (tp_patterns (remove_consumer_from_pattern p cid t)) = length (tp_patterns t)"
  "tp_consumers (remove_consumer_from_pattern p cid t) = tp_consumers t"
  "tp_limits (remove_consumer_from_pattern p cid t) = tp_limits t"
  "participants_inv (remove_consumer_from_pattern p cid t) = participants_inv t"
  "patterns_inv (remove_consumer_from_pattern p cid t) = patterns_inv t"
  by (simp_all add: remove_consumer_from_pattern_def Let_def participants_inv_def pattern_update_inv)

lemma add_consumer_simps [simp]:
  "length (tp_patterns (add_consumer_to_pattern p cid t)) = length (tp_patterns t)"
  "tp_consumers (add_consumer_to_pattern p cid t) = tp_consumers t"
  "tp_limits (add_consumer_to_pattern p cid t) = tp_limits t"
  "participants_inv (add_consumer_to_pattern p cid t) = participants_inv t"
  "patterns_inv (add_consumer_to_pattern p cid t) = patterns_inv t"
  by (simp_all add: add_consumer_to_pattern_def Let_def participants_inv_def pattern_update_inv)

lemma remove_consumer_members:
  "lists_members (tp_patterns t) M \<Longrightarrow>
   lists_members (tp_patterns (remove_consumer_from_pattern p cid t)) (M(unat p := M (unat p) - {cid}))"
  by (auto simp: lists_members_def remove_consumer_from_pattern_def Let_def nth_list_update sorted_simps)

lemma add_consumer_members:
  "lists_members (tp_patterns t) M \<Longrightarrow>
   lists_members (tp_patterns (add_consumer_to_pattern p cid t)) (M(unat p := insert cid (M (unat p))))"
  by (auto simp: lists_members_def add_consumer_to_pattern_def Let_def nth_list_update sorted_simps)

lemma mem_pattern_members:
  "cid \<in> pattern_members records i \<longleftrightarrow>
   (\<exists>r \<in> set records. cs_id r = cid \<and> unat (cs_pattern r) = i \<and> counts_toward_requirement (cs_state r))"
  by (auto simp: pattern_members_def)

lemma pattern_members_update:
  assumes "key_ascending cs_id records" "r \<in> set records" "cs_id r' = cs_id r"
    and "set records' = insert r' (set records - {r})"
  shows "pattern_members records' i = (pattern_members records i - {cs_id r}) \<union>
    (if unat (cs_pattern r') = i \<and> counts_toward_requirement (cs_state r') then {cs_id r} else {})"
proof -
  have u: "x = r" if "x \<in> set records" "cs_id x = cs_id r" for x
    using key_ascending_inj [OF assms(1) that(1) assms(2) that(2)] .
  have "cid \<in> pattern_members records' i \<longleftrightarrow>
    cid \<in> pattern_members records i \<and> cid \<noteq> cs_id r \<or>
    cid = cs_id r \<and> unat (cs_pattern r') = i \<and> counts_toward_requirement (cs_state r')" for cid
  proof (cases "cid = cs_id r")
    case True
    then have "cs_id x \<noteq> cid" if "x \<in> set records - {r}" for x
      using that u by blast
    then show ?thesis using True assms(3) by (simp add: mem_pattern_members assms(4))
  next
    case False
    then show ?thesis using assms(3) unfolding mem_pattern_members assms(4) by auto
  qed
  then show ?thesis by auto
qed

lemma pattern_members_insert:
  assumes "set records' = insert r (set records)"
  shows "pattern_members records' i = pattern_members records i \<union>
    (if unat (cs_pattern r) = i \<and> counts_toward_requirement (cs_state r) then {cs_id r} else {})"
  using assms by (auto simp: pattern_members_def)

lemma pattern_members_unique:
  assumes "key_ascending cs_id records" "r \<in> set records" "cs_id r \<in> pattern_members records i"
  shows "i = unat (cs_pattern r)"
  using assms key_ascending_inj unfolding mem_pattern_members by metis

text \<open>The invariant does not mention the shuffle identity or the generation.\<close>

lemma patterns_inv_consumers [simp]:
  "patterns_inv (t\<lparr>tp_consumers := cs\<rparr>) = patterns_inv t"
  "patterns_inv (t\<lparr>tp_producers := ps\<rparr>) = patterns_inv t"
  "link_inv (t\<lparr>tp_producers := ps\<rparr>) = link_inv t"
  "patterns_inv (rebuild_active_producers t) = patterns_inv t"
  "link_inv (rebuild_active_producers t) = link_inv t"
  by (simp_all add: patterns_inv_def link_inv_def rebuild_active_producers_def)

lemma insort_key_cong:
  "f x = g x \<Longrightarrow> (\<And>y. y \<in> set ys \<Longrightarrow> f y = g y) \<Longrightarrow> insort_key f x ys = insort_key g x ys"
  by (induction ys) auto

lemma sort_key_cong: "(\<And>x. x \<in> set xs \<Longrightarrow> f x = g x) \<Longrightarrow> sort_key f xs = sort_key g xs"
  by (induction xs) (auto intro: insort_key_cong)

lemma rebuild_order: "tp_pattern_order (rebuild_pattern_order t) = pattern_order_of (map pt_key (tp_patterns t))"
proof -
  have "unat (word_of_nat i :: u32) \<le> i" for i by (simp add: unat_of_nat)
  then have *: "pt_key (tp_patterns t ! unat x) = map pt_key (tp_patterns t) ! unat x"
    if "x \<in> set (map word_of_nat [0..<length (tp_patterns t)])" for x :: u32
    using that by (auto intro!: nth_map [symmetric]) (meson le_less_trans)
  show ?thesis
    unfolding rebuild_pattern_order_def pattern_order_of_def
    by (simp, rule sort_key_cong) (use * in auto)
qed

lemma check_selection_wf:
  "check_selection t s = Inr u \<Longrightarrow> selection_canonical s \<Longrightarrow> selection_wf (tp_partition_count t) s"
  by (auto simp: check_selection_def selection_wf_def selection_canonical_def list_ex_iff not_le
      split: selection_kind.splits if_splits)

lemma intern_pattern_props:
  assumes inv: "topology_inv t" and wf: "selection_wf (tp_partition_count t) s"
    and i: "intern_pattern s t = (Inr i, t')"
  shows "topology_inv t' \<and> unat i < length (tp_patterns t') \<and>
    pt_key (tp_patterns t' ! unat i) = canonical_key s \<and> tp_consumers t' = tp_consumers t \<and>
    tp_producers t' = tp_producers t \<and> tp_limits t' = tp_limits t \<and>
    tp_partition_count t' = tp_partition_count t \<and> tp_generation t' = tp_generation t"
proof (cases "tp_pattern_index t (canonical_key s)")
  case (Some j)
  then show ?thesis using i inv by (auto simp: intern_pattern_def topology_inv_def patterns_inv_def)
next
  case None
  let ?n = "length (tp_patterns t)"
  define e where "e = \<lparr>pt_selection = s, pt_key = canonical_key s, pt_consumers = []\<rparr>"
  have n: "?n < unat (max_selection_patterns (tp_limits t))"
    and i': "i = word_of_nat ?n"
    and t': "t' = rebuild_pattern_order (t\<lparr>tp_patterns := tp_patterns t @ [e],
        tp_pattern_index := (tp_pattern_index t)(canonical_key s \<mapsto> word_of_nat ?n),
        tp_interned_selection_items := tp_interned_selection_items t + selection_items s\<rparr>)"
    using i None by (auto simp: intern_pattern_def Let_def e_def split: if_splits)
  have u: "unat (word_of_nat ?n :: u32) = ?n"
    using n unat32_bound [of "max_selection_patterns (tp_limits t)"] by (simp add: unat_of_length_u32)
  have fields: "tp_patterns t' = tp_patterns t @ [e]" "tp_consumers t' = tp_consumers t"
    "tp_producers t' = tp_producers t" "tp_limits t' = tp_limits t"
    "tp_partition_count t' = tp_partition_count t" "tp_generation t' = tp_generation t"
    "tp_active_producers t' = tp_active_producers t"
    "tp_pattern_index t' = (tp_pattern_index t)(canonical_key s \<mapsto> word_of_nat ?n)"
    by (simp_all add: t' rebuild_pattern_order_def)
  have fresh: "canonical_key s \<notin> pt_key ` set (tp_patterns t)"
  proof
    assume "canonical_key s \<in> pt_key ` set (tp_patterns t)"
    then obtain k where k: "k < ?n" "pt_key (tp_patterns t ! k) = canonical_key s"
      by (auto simp: in_set_conv_nth)
    then have "unat (word_of_nat k :: u32) = k"
      using n unat32_bound [of "max_selection_patterns (tp_limits t)"] by (simp add: unat_of_length_u32)
    then have "tp_pattern_index t (canonical_key s) = Some (word_of_nat k)"
      using inv k by (simp add: topology_inv_def patterns_inv_def)
    with None show False by simp
  qed
  have "patterns_inv t'"
  proof -
    have "tp_pattern_index t' key = Some index \<longleftrightarrow>
        unat index < Suc ?n \<and> pt_key ((tp_patterns t @ [e]) ! unat index) = key" for key index
    proof (cases "unat index < ?n")
      case True
      then have "pt_key (tp_patterns t ! unat index) \<in> pt_key ` set (tp_patterns t)" by simp
      then have "pt_key (tp_patterns t ! unat index) \<noteq> canonical_key s"
        using fresh by metis
      moreover have "index \<noteq> word_of_nat ?n"
        using u True by auto
      moreover note True
      ultimately show ?thesis
        using inv by (auto simp: fields nth_append topology_inv_def patterns_inv_def)
    next
      case False
      then have "tp_pattern_index t key \<noteq> Some index"
        using inv by (simp add: topology_inv_def patterns_inv_def)
      moreover have "unat index = ?n \<longleftrightarrow> index = word_of_nat ?n"
        using u by (metis word_unat_eq_iff)
      ultimately show ?thesis
        using False by (auto simp: fields nth_append e_def less_Suc_eq)
    qed
    moreover have "tp_pattern_order t' = pattern_order_of (map pt_key (tp_patterns t'))"
      by (simp add: t' rebuild_order) (simp add: rebuild_pattern_order_def)
    ultimately show ?thesis
      using inv n wf fresh by (auto simp: patterns_inv_def topology_inv_def fields e_def)
  qed
  moreover have "link_inv t'"
    using inv
    by (auto simp: topology_inv_def link_inv_def fields nth_append less_Suc_eq e_def pattern_members_def)
  moreover have "participants_inv t'"
    using inv by (simp add: topology_inv_def participants_inv_def fields)
  ultimately show ?thesis
    by (simp add: topology_inv_def i' u fields e_def nth_append)
qed

lemma register_producer_inv:
  assumes "topology_inv t"
  shows "topology_inv (snd (register_producer pid inc ep t))"
proof -
  have asc: "key_ascending pd_id (tp_producers t)" using assms by (simp add: topology_inv_defs)
  let ?lb = "lower_bound pd_id (tp_producers t) pid"
  have upd: "key_ascending pd_id ((tp_producers t)[?lb := r'])"
    if "?lb < length (tp_producers t)" "pd_id (tp_producers t ! ?lb) = pid" "pd_id r' = pid" for r'
    using update_at_found(1) [OF asc, of "tp_producers t ! ?lb" r'] that by simp
  have ins: "key_ascending pd_id (insert_at ?lb r' (tp_producers t))"
    if "\<not> (?lb < length (tp_producers t) \<and> pd_id (tp_producers t ! ?lb) = pid)" "pd_id r' = pid" for r'
    using insert_at_sorted(1) [OF asc, of r'] that by (simp add: found_at_def)
  show ?thesis
    using assms upd ins
    by (auto simp: register_producer_def Let_def topology_inv_def participants_inv_def
        rebuild_active_producers_def bump_generation_def patterns_inv_def link_inv_def length_insert_at
        split: sum.splits)
qed

lemma consumer_update_inv:
  assumes inv: "topology_inv t" and r: "r \<in> set (tp_consumers t)" and p: "unat new_pattern < length (tp_patterns t)"
    and r': "r' = r\<lparr>cs_incarnation := inc, cs_endpoint := ep, cs_pattern := new_pattern, cs_state := PS_Active\<rparr>"
    and lb: "lb = lower_bound cs_id (tp_consumers t) (cs_id r)"
    and t2: "t2 = remove_consumer_from_pattern (cs_pattern r) (cs_id r) t"
  shows "topology_inv (add_consumer_to_pattern new_pattern (cs_id r)
    (t2\<lparr>tp_consumers := (tp_consumers t)[lb := r']\<rparr>))"
proof -
  have asc: "key_ascending cs_id (tp_consumers t)" using inv by (simp add: topology_inv_defs)
  let ?cs = "(tp_consumers t)[lb := r']" and ?M = "pattern_members (tp_consumers t)"
  have upd: "key_ascending cs_id ?cs" "set ?cs = insert r' (set (tp_consumers t) - {r})"
    using update_at_found [OF asc r, of r'] lb r' by auto
  have len: "length (tp_patterns t2) = length (tp_patterns t)" by (simp add: t2)
  have M': "pattern_members ?cs i = (if i = unat new_pattern then insert (cs_id r) (?M i) else ?M i - {cs_id r})" for i
    using pattern_members_update [OF asc r _ upd(2), of i] r' by (auto simp: counts_toward_requirement_def)
  have rem: "lists_members (tp_patterns t2) (\<lambda>i. ?M i - {cs_id r})"
  proof (rule lists_members_cong)
    show "lists_members (tp_patterns t2) (?M(unat (cs_pattern r) := ?M (unat (cs_pattern r)) - {cs_id r}))"
      using inv unfolding t2 by (intro remove_consumer_members) (simp add: topology_inv_def link_inv_alt)
    show "(?M(unat (cs_pattern r) := ?M (unat (cs_pattern r)) - {cs_id r})) i = ?M i - {cs_id r}" for i
      using pattern_members_unique [OF asc r, of i] by auto
  qed
  have "lists_members (tp_patterns (add_consumer_to_pattern new_pattern (cs_id r) (t2\<lparr>tp_consumers := ?cs\<rparr>)))
      (pattern_members ?cs)"
    by (rule lists_members_cong, rule add_consumer_members) (use rem M' in auto)
  moreover have "unat (cs_pattern x) < length (tp_patterns t)" if "x \<in> set ?cs" for x
  proof -
    have "\<forall>record \<in> set (tp_consumers t). unat (cs_pattern record) < length (tp_patterns t)"
      using inv by (simp add: topology_inv_def link_inv_def)
    then show ?thesis using that p r' unfolding upd(2) by auto
  qed
  moreover have "participants_inv (t2\<lparr>tp_consumers := ?cs\<rparr>)"
  proof -
    have "participants_inv t2" using inv by (simp add: t2 topology_inv_def)
    then show ?thesis using upd(1) by (simp add: participants_inv_def t2)
  qed
  ultimately show ?thesis
    using inv len by (simp add: topology_inv_def link_inv_alt t2)
qed

lemma consumer_insert_inv:
  assumes inv: "topology_inv t" and new: "\<not> found_at cs_id (tp_consumers t) cid"
    and p: "unat (cs_pattern r) < length (tp_patterns t)" and r: "cs_id r = cid" "cs_state r = PS_Active"
    and room: "length (tp_consumers t) < unat (max_participants (tp_limits t))"
    and lb: "lb = lower_bound cs_id (tp_consumers t) cid"
  shows "topology_inv (add_consumer_to_pattern (cs_pattern r) cid
    (t\<lparr>tp_consumers := insert_at lb r (tp_consumers t)\<rparr>))"
proof -
  have asc: "key_ascending cs_id (tp_consumers t)" using inv by (simp add: topology_inv_defs)
  let ?cs = "insert_at lb r (tp_consumers t)" and ?M = "pattern_members (tp_consumers t)"
  have ins: "key_ascending cs_id ?cs" "set ?cs = insert r (set (tp_consumers t))" "length ?cs = Suc (length (tp_consumers t))"
    using insert_at_sorted [OF asc, of r] lb r new by (auto simp: length_insert_at)
  have M': "pattern_members ?cs i = (if i = unat (cs_pattern r) then insert cid (?M i) else ?M i)" for i
    using pattern_members_insert [OF ins(2), of i] r by (auto simp: counts_toward_requirement_def)
  have "lists_members (tp_patterns (add_consumer_to_pattern (cs_pattern r) cid (t\<lparr>tp_consumers := ?cs\<rparr>)))
      (pattern_members ?cs)"
    by (rule lists_members_cong, rule add_consumer_members [where M = ?M])
      (use inv M' in \<open>auto simp: topology_inv_def link_inv_alt\<close>)
  moreover have "unat (cs_pattern x) < length (tp_patterns t)" if "x \<in> set ?cs" for x
    using that inv p by (auto simp: ins topology_inv_defs)
  moreover have "participants_inv (t\<lparr>tp_consumers := ?cs\<rparr>)"
    using inv ins room by (simp add: topology_inv_def participants_inv_def)
  ultimately show ?thesis
    using inv by (simp add: topology_inv_def link_inv_alt)
qed

lemma register_consumer_inv:
  assumes inv: "topology_inv t" and can: "selection_canonical s"
  shows "topology_inv (snd (register_consumer cid inc ep s t))"
proof (cases "check_consumer_registration t cid inc ep s")
  case (Inl e)
  then show ?thesis using inv by (simp add: register_consumer_def)
next
  case (Inr u)
  have wf: "selection_wf (tp_partition_count t) s"
    using Inr can by (auto simp: check_consumer_registration_def intro: check_selection_wf split: if_splits sum.splits)
  obtain res t1 where i: "intern_pattern s t = (res, t1)" by fastforce
  show ?thesis
  proof (cases res)
    case (Inl e)
    then have "t1 = t" using i by (auto simp: intern_pattern_def Let_def split: option.splits if_splits)
    then show ?thesis using Inl i Inr inv by (simp add: register_consumer_def)
  next
    case p: (Inr np)
    note props = intern_pattern_props [OF inv wf i [unfolded p]]
    let ?lb = "lower_bound cs_id (tp_consumers t) cid"
    show ?thesis
    proof (cases "found_at cs_id (tp_consumers t) cid")
      case True
      then have "tp_consumers t ! ?lb \<in> set (tp_consumers t)" "cs_id (tp_consumers t ! ?lb) = cid"
        by (auto simp: found_at_def)
      then show ?thesis
        using consumer_update_inv [of t1 "tp_consumers t ! ?lb" np] props True
        by (simp add: register_consumer_def Inr i p Let_def found_at_def)
    next
      case False
      have "key_ascending cs_id (tp_consumers t)" using inv by (simp add: topology_inv_defs)
      then have "length (tp_consumers t) < unat (max_participants (tp_limits t))"
        using Inr False by (auto simp: check_consumer_registration_def find_consumer_None split: if_splits sum.splits)
      then have "topology_inv (add_consumer_to_pattern np cid (t1\<lparr>tp_consumers := insert_at ?lb
          \<lparr>cs_id = cid, cs_incarnation = inc, cs_state = PS_Active, cs_endpoint = ep, cs_pattern = np\<rparr>
          (tp_consumers t)\<rparr>))"
        using consumer_insert_inv [of t1 cid "\<lparr>cs_id = cid, cs_incarnation = inc, cs_state = PS_Active,
            cs_endpoint = ep, cs_pattern = np\<rparr>" ?lb] props False by simp
      moreover have "\<not> (?lb < length (tp_consumers t) \<and> cs_id (tp_consumers t ! ?lb) = cid)"
        using False by (simp add: found_at_def)
      ultimately show ?thesis
        using props by (simp only: register_consumer_def Inr i p Let_def sum.case prod.case if_False snd_conv bump_generation_inv)
    qed
  qed
qed

lemma check_participant_producer:
  assumes "topology_inv t" "check_participant_state t PK_Producer pid inc st = Inr u"
  obtains r where "r \<in> set (tp_producers t)" "pd_id r = pid" "pd_incarnation r = inc"
    "lower_bound pd_id (tp_producers t) pid < length (tp_producers t)"
    "tp_producers t ! lower_bound pd_id (tp_producers t) pid = r"
proof -
  have asc: "key_ascending pd_id (tp_producers t)" using assms(1) by (simp add: topology_inv_defs)
  obtain r where "find_producer (tp_producers t) pid = Some r" and i: "pd_incarnation r = inc"
    using assms(2) by (auto simp: check_participant_state_def split: if_splits option.splits)
  then have "r \<in> set (tp_producers t)" "pd_id r = pid" by (simp_all add: find_producer_iff [OF asc])
  then show thesis using that i found_at_nth [OF asc] by blast
qed

lemma check_participant_consumer:
  assumes "topology_inv t" "check_participant_state t PK_Consumer cid inc st = Inr u"
  obtains r where "r \<in> set (tp_consumers t)" "cs_id r = cid" "cs_incarnation r = inc"
    "lower_bound cs_id (tp_consumers t) cid < length (tp_consumers t)"
    "tp_consumers t ! lower_bound cs_id (tp_consumers t) cid = r"
proof -
  have asc: "key_ascending cs_id (tp_consumers t)" using assms(1) by (simp add: topology_inv_defs)
  obtain r where "find_consumer (tp_consumers t) cid = Some r" and i: "cs_incarnation r = inc"
    using assms(2) by (auto simp: check_participant_state_def split: if_splits option.splits)
  then have "r \<in> set (tp_consumers t)" "cs_id r = cid" by (simp_all add: find_consumer_iff [OF asc])
  then show thesis using that i found_at_nth [OF asc] by blast
qed

lemma set_producer_state_inv:
  assumes inv: "topology_inv t"
  shows "topology_inv (snd (set_producer_state pid inc st t))"
proof (cases "check_participant_state t PK_Producer pid inc st")
  case (Inl e)
  then show ?thesis using inv by (simp add: set_producer_state_def)
next
  case (Inr u)
  obtain r where r: "r \<in> set (tp_producers t)" "pd_id r = pid"
    "tp_producers t ! lower_bound pd_id (tp_producers t) pid = r"
    using check_participant_producer [OF inv Inr] by metis
  have asc: "key_ascending pd_id (tp_producers t)" using inv by (simp add: topology_inv_defs)
  have "key_ascending pd_id ((tp_producers t)[lower_bound pd_id (tp_producers t) pid := r\<lparr>pd_state := st\<rparr>])"
    using update_at_found(1) [OF asc r(1), of "r\<lparr>pd_state := st\<rparr>"] r(2) by simp
  then show ?thesis
    using inv by (simp add: set_producer_state_def Inr Let_def r(3) topology_inv_def participants_inv_def
        rebuild_active_producers_def bump_generation_def patterns_inv_def link_inv_def)
qed

lemma consumer_state_inv:
  assumes inv: "topology_inv t" and r: "r \<in> set (tp_consumers t)"
    and lb: "lb = lower_bound cs_id (tp_consumers t) (cs_id r)"
    and t1: "t1 = t\<lparr>tp_consumers := (tp_consumers t)[lb := r\<lparr>cs_state := st\<rparr>]\<rparr>"
  shows "topology_inv
    (if counts_toward_requirement (cs_state r) \<and> \<not> counts_toward_requirement st
     then remove_consumer_from_pattern (cs_pattern r) (cs_id r) t1
     else if \<not> counts_toward_requirement (cs_state r) \<and> counts_toward_requirement st
     then add_consumer_to_pattern (cs_pattern r) (cs_id r) t1 else t1)" (is "topology_inv ?t2")
proof -
  have asc: "key_ascending cs_id (tp_consumers t)" using inv by (simp add: topology_inv_defs)
  let ?cs = "(tp_consumers t)[lb := r\<lparr>cs_state := st\<rparr>]" and ?M = "pattern_members (tp_consumers t)"
  let ?p = "unat (cs_pattern r)"
  have upd: "key_ascending cs_id ?cs" "set ?cs = insert (r\<lparr>cs_state := st\<rparr>) (set (tp_consumers t) - {r})"
    using update_at_found [OF asc r, of "r\<lparr>cs_state := st\<rparr>"] lb by auto
  have M': "pattern_members ?cs i = (?M i - {cs_id r}) \<union>
      (if ?p = i \<and> counts_toward_requirement st then {cs_id r} else {})" for i
    using pattern_members_update [OF asc r _ upd(2), of i] by simp
  have M: "cs_id r \<in> ?M i \<longleftrightarrow> i = ?p \<and> counts_toward_requirement (cs_state r)" for i
    using key_ascending_inj [OF asc _ r] r unfolding mem_pattern_members by metis
  have lm: "lists_members (tp_patterns t1) ?M"
    using inv by (simp add: t1 topology_inv_def link_inv_alt)
  have "lists_members (tp_patterns ?t2) (pattern_members ?cs)"
  proof (cases "counts_toward_requirement (cs_state r)"; cases "counts_toward_requirement st")
    assume a: "counts_toward_requirement (cs_state r)" "\<not> counts_toward_requirement st"
    then show ?thesis
      using lists_members_cong [OF remove_consumer_members [OF lm, of "cs_pattern r" "cs_id r"], of "pattern_members ?cs"] M M'
      by auto
  next
    assume a: "\<not> counts_toward_requirement (cs_state r)" "counts_toward_requirement st"
    then show ?thesis
      using lists_members_cong [OF add_consumer_members [OF lm, of "cs_pattern r" "cs_id r"], of "pattern_members ?cs"] M M'
      by auto
  next
    assume a: "counts_toward_requirement (cs_state r)" "counts_toward_requirement st"
    then have "?M i = pattern_members ?cs i" for i
      unfolding M' using M [of i] by auto
    then show ?thesis using lists_members_cong [OF lm, of "pattern_members ?cs"] a by auto
  next
    assume a: "\<not> counts_toward_requirement (cs_state r)" "\<not> counts_toward_requirement st"
    then show ?thesis using lists_members_cong [OF lm, of "pattern_members ?cs"] M M' by auto
  qed
  moreover have "unat (cs_pattern x) < length (tp_patterns t)" if "x \<in> set ?cs" for x
  proof -
    have "\<forall>record \<in> set (tp_consumers t). unat (cs_pattern record) < length (tp_patterns t)"
      using inv by (simp add: topology_inv_def link_inv_def)
    then show ?thesis using that r unfolding upd(2) by auto
  qed
  moreover have "participants_inv t1"
    using inv upd(1) by (simp add: topology_inv_def participants_inv_def t1)
  moreover have "tp_consumers ?t2 = ?cs" "length (tp_patterns ?t2) = length (tp_patterns t)"
    "patterns_inv ?t2 = patterns_inv t" "participants_inv ?t2 = participants_inv t1"
    by (simp_all add: t1)
  moreover have "patterns_inv t" using inv by (simp add: topology_inv_def)
  ultimately show ?thesis
    by (simp only: topology_inv_def link_inv_alt) blast
qed

lemma set_consumer_state_inv:
  assumes inv: "topology_inv t"
  shows "topology_inv (snd (set_consumer_state cid inc st t))"
proof (cases "check_participant_state t PK_Consumer cid inc st")
  case (Inl e)
  then show ?thesis using inv by (simp add: set_consumer_state_def)
next
  case (Inr u)
  obtain r where r: "r \<in> set (tp_consumers t)" "cs_id r = cid"
    "tp_consumers t ! lower_bound cs_id (tp_consumers t) cid = r"
    using check_participant_consumer [OF inv Inr] by metis
  show ?thesis
    using consumer_state_inv [OF inv r(1) refl refl, of st, unfolded r(2)] inv
    by (auto simp: set_consumer_state_def Inr Let_def r(3) split: if_splits)
qed

section \<open>Lemmas: counting deliveries\<close>

lemma unat_image_interval:
  "unat ` {part :: u64. a \<le> part \<and> part < b} = {unat a..<unat b}"
proof (intro set_eqI iffI)
  fix n
  assume n: "n \<in> {unat a..<unat b}"
  then have "unat (word_of_nat n :: u64) = n"
    using unat64_bound [of b] by (intro unat_of_nat_u64) simp
  then show "n \<in> unat ` {part. a \<le> part \<and> part < b}"
    using n by (intro image_eqI [of _ _ "word_of_nat n"]) (auto simp: word_le_nat_alt word_less_nat_alt)
qed (auto simp: word_le_nat_alt word_less_nat_alt)

lemma card_u64_interval: "card {part :: u64. a \<le> part \<and> part < b} = unat b - unat a"
proof -
  have "inj_on unat {part :: u64. a \<le> part \<and> part < b}"
    by (rule inj_onI) (simp add: word_unat_eq_iff)
  then show ?thesis
    using card_image unat_image_interval [of a b] by fastforce
qed

lemma finite_u64 [simp]: "finite (A :: u64 set)"
  by (rule finite_subset [OF _ finite_class.finite_UNIV]) simp

lemma lower_bound_card:
  "ascending xs \<Longrightarrow> lower_bound id xs v = card {x \<in> set xs. x < v}"
proof -
  assume asc: "ascending xs"
  then have "{x \<in> set xs. x < v} = set (takeWhile (\<lambda>x. x < v) xs)"
    by (induction xs) (auto dest: less_trans)
  then show ?thesis
    using asc distinct_card [OF distinct_takeWhile [OF ascending_distinct [OF asc]]] by (simp add: lower_bound_def)
qed

lemma word_of_unat_u32: "word_of_nat (unat (v :: u32)) = (ucast v :: u64)"
  using unat32_bound [of v] by (simp add: u64_of_nat_eq_iff)

lemma selected_count_card:
  assumes "selection_wf n s"
  shows "selected_count s n = Inr (word_of_nat (card (selected_partitions n s)))"
    and "card (selected_partitions n s) \<le> unat n"
proof -
  have le: "card (selected_partitions n s) \<le> card {part :: u64. 0 \<le> part \<and> part < ucast n}"
    by (rule card_mono) (auto simp: selected_partitions_def)
  then show "card (selected_partitions n s) \<le> unat n"
    by (simp only: card_u64_interval) simp
  show "selected_count s n = Inr (word_of_nat (card (selected_partitions n s)))"
  proof (cases "ps_kind s")
    case SK_All
    then have "selected_partitions n s = {part :: u64. 0 \<le> part \<and> part < ucast n}"
      by (auto simp: selected_partitions_def selection_covers_def)
    then show ?thesis using SK_All card_u64_interval [of 0 "ucast n"]
      by (simp add: selected_count_def word_of_unat_u32)
  next
    case SK_Range
    then have "selected_partitions n s = {part. ps_begin s \<le> part \<and> part < ps_end s}"
      using assms by (auto simp: selected_partitions_def selection_covers_def selection_wf_def)
    then have c: "card (selected_partitions n s) = unat (ps_end s) - unat (ps_begin s)"
      by (simp add: card_u64_interval)
    have b: "ps_begin s < ps_end s" "ps_end s \<le> ucast n"
      using SK_Range assms by (auto simp: selection_wf_def)
    then have "selected_count s n = Inr (ps_end s - ps_begin s)"
      using SK_Range by (auto simp: selected_count_def Let_def min_absorb1 not_le)
    moreover have "word_of_nat (unat (ps_end s) - unat (ps_begin s)) = ps_end s - ps_begin s"
      using b(1) by (simp add: of_nat_diff word_less_nat_alt)
    ultimately show ?thesis using c by simp
  next
    case SK_List
    then have "selected_partitions n s = {x \<in> set (ps_list s). x < ucast n}"
      using assms by (auto simp: selected_partitions_def selection_covers_def selection_wf_def found_at_id_iff)
    then show ?thesis using SK_List assms lower_bound_card [of "ps_list s" "ucast n"]
      by (simp add: selected_count_def selection_wf_def)
  qed
qed

lemma topology_invD:
  assumes "topology_inv t"
  shows "key_ascending pd_id (tp_producers t)" "key_ascending cs_id (tp_consumers t)"
    and "length (tp_patterns t) < 2 ^ 32" "length (tp_consumers t) < 2 ^ 32" "length (tp_producers t) < 2 ^ 32"
    and "i < length (tp_patterns t) \<Longrightarrow> selection_wf (tp_partition_count t) (pt_selection (tp_patterns t ! i))"
    and "i < length (tp_patterns t) \<Longrightarrow> ascending (pt_consumers (tp_patterns t ! i))"
    and "i < length (tp_patterns t) \<Longrightarrow> set (pt_consumers (tp_patterns t ! i)) = pattern_members (tp_consumers t) i"
    and "r \<in> set (tp_consumers t) \<Longrightarrow> unat (cs_pattern r) < length (tp_patterns t)"
    and "tp_pattern_order t = pattern_order_of (map pt_key (tp_patterns t))"
    and "distinct (map pt_key (tp_patterns t))"
proof -
  note b = unat32_bound [of "max_selection_patterns (tp_limits t)"] unat32_bound [of "max_participants (tp_limits t)"]
  have p: "participants_inv t" "patterns_inv t" "link_inv t" using assms by (simp_all add: topology_inv_def)
  show "key_ascending pd_id (tp_producers t)" "key_ascending cs_id (tp_consumers t)"
    "length (tp_consumers t) < 2 ^ 32" "length (tp_producers t) < 2 ^ 32"
    using p(1) b(2) unfolding participants_inv_def by linarith+
  show "length (tp_patterns t) < 2 ^ 32"
    using p(2) b(1) unfolding patterns_inv_def by linarith
  show "tp_pattern_order t = pattern_order_of (map pt_key (tp_patterns t))"
    "distinct (map pt_key (tp_patterns t))"
    using p(2) by (simp_all add: patterns_inv_def)
  show "i < length (tp_patterns t) \<Longrightarrow> selection_wf (tp_partition_count t) (pt_selection (tp_patterns t ! i))"
    using p(2) by (simp add: patterns_inv_def list_all_length)
  show "i < length (tp_patterns t) \<Longrightarrow> ascending (pt_consumers (tp_patterns t ! i))"
    "i < length (tp_patterns t) \<Longrightarrow> set (pt_consumers (tp_patterns t ! i)) = pattern_members (tp_consumers t) i"
    "r \<in> set (tp_consumers t) \<Longrightarrow> unat (cs_pattern r) < length (tp_patterns t)"
    using p(3) by (simp_all add: link_inv_def)
qed

lemma length_pattern_consumers:
  "topology_inv t \<Longrightarrow> i < length (tp_patterns t) \<Longrightarrow>
   length (pt_consumers (tp_patterns t ! i)) = card (pattern_members (tp_consumers t) i)"
  using distinct_card [OF ascending_distinct [OF topology_invD(7)], of t i] topology_invD(8) [of t i] by simp

lemma finite_pattern_members [simp]: "finite (pattern_members records i)"
  by (simp add: pattern_members_def)

lemma pattern_members_disjoint:
  "key_ascending cs_id records \<Longrightarrow> i \<noteq> j \<Longrightarrow> pattern_members records i \<inter> pattern_members records j = {}"
  unfolding disjoint_iff mem_pattern_members using key_ascending_inj by metis

lemma required_consumers_patterns:
  assumes inv: "topology_inv t"
  shows "required_consumers t part =
    (\<Union>i \<in> {i. i < length (tp_patterns t) \<and> selection_covers (pt_selection (tp_patterns t ! i)) part}.
       pattern_members (tp_consumers t) i)"
  using topology_invD(9) [OF inv]
  by (fastforce simp: required_consumers_def pattern_members_def tp_pattern_def)

lemma card_pattern_union:
  assumes inv: "topology_inv t" and "finite I"
  shows "card (\<Union>i \<in> I. pattern_members (tp_consumers t) i) = (\<Sum>i\<in>I. card (pattern_members (tp_consumers t) i))"
  by (rule card_UN_disjoint) (use assms pattern_members_disjoint [OF topology_invD(2) [OF inv]] in auto)

lemma card_required_consumers:
  assumes inv: "topology_inv t"
  shows "card (required_consumers t part) =
    (\<Sum>entry\<leftarrow>tp_patterns t. if selection_covers (pt_selection entry) part then length (pt_consumers entry) else 0)"
proof -
  let ?n = "length (tp_patterns t)" and ?c = "\<lambda>i. selection_covers (pt_selection (tp_patterns t ! i)) part"
  have "card (required_consumers t part) = (\<Sum>i | i < ?n \<and> ?c i. card (pattern_members (tp_consumers t) i))"
    by (simp add: required_consumers_patterns [OF inv] card_pattern_union [OF inv])
  also have "\<dots> = (\<Sum>i<?n. if ?c i then card (pattern_members (tp_consumers t) i) else 0)"
    by (subst sum.inter_filter [symmetric]) (auto intro!: sum.cong)
  also have "\<dots> = (\<Sum>i<?n. if ?c i then length (pt_consumers (tp_patterns t ! i)) else 0)"
    by (rule sum.cong) (auto simp: length_pattern_consumers [OF inv])
  finally show ?thesis
    by (simp add: sum_list_sum_nth atLeast0LessThan)
qed

lemma required_consumers_bound:
  assumes inv: "topology_inv t"
  shows "card (required_consumers t part) < 2 ^ 32"
proof -
  have "card (required_consumers t part) \<le> card (set (tp_consumers t))"
    unfolding required_consumers_def by (rule le_trans [OF card_image_le]) (auto intro!: card_mono)
  also have "\<dots> \<le> length (tp_consumers t)" by (rule card_length)
  finally show ?thesis using topology_invD(4) [OF inv] by linarith
qed

lemma foldl_count:
  "foldl (\<lambda>count entry. if P entry then count + word_of_nat (f entry) else count) (a :: 'a::len word) xs =
   a + word_of_nat (\<Sum>entry\<leftarrow>xs. if P entry then f entry else 0)"
  by (induction xs arbitrary: a) (auto simp: algebra_simps)

lemma fan_out_card:
  assumes inv: "topology_inv t" and p: "part < ucast (tp_partition_count t)"
  shows "fan_out t part = Inr (word_of_nat (card (required_consumers t part)))"
proof -
  let ?c = "card (required_consumers t part)"
  have c: "?c < 2 ^ 32" by (rule required_consumers_bound [OF inv])
  have f: "foldl (\<lambda>count entry. if selection_covers (pt_selection entry) part
      then count + word_of_nat (length (pt_consumers entry)) else count) (0 :: u64) (tp_patterns t) = word_of_nat ?c"
    using foldl_count [of "\<lambda>entry. selection_covers (pt_selection entry) part" "\<lambda>entry. length (pt_consumers entry)" 0]
    by (simp add: card_required_consumers [OF inv])
  have "\<not> (word_of_nat ?c :: u64) > 0xffffffff"
    using c by (simp add: word_less_nat_alt unat_of_nat_u64)
  moreover have "ucast (word_of_nat ?c :: u64) = (word_of_nat ?c :: u32)"
    using c by (simp add: ucast_eq unsigned_of_nat take_bit_nat_eq_self)
  ultimately show ?thesis
    using p by (simp add: fan_out_def f Let_def not_le)
qed

lemma sort_key_strict:
  assumes "distinct (map f xs)"
  shows "key_ascending f (sort_key f xs)"
proof -
  have "distinct (map f (sort_key f xs))"
    using assms by (simp add: distinct_map)
  then have "ascending (map f (sort_key f xs))"
    unfolding strict_sorted_iff by (simp only: sorted_sort_key)
  then show ?thesis by (rule key_ascending_map [THEN iffD2])
qed

lemma pattern_order_of_props:
  assumes "length ks < 2 ^ 32"
  shows "set (pattern_order_of ks) = word_of_nat ` {..<length ks}" "distinct (pattern_order_of ks)"
    and "distinct ks \<Longrightarrow> key_ascending (\<lambda>index. ks ! unat index) (pattern_order_of ks)"
    and "length (pattern_order_of ks) = length ks"
proof -
  have u: "unat (word_of_nat i :: u32) = i" if "i < length ks" for i
    using that assms by (simp add: unat_of_length_u32)
  then have inj: "inj_on (word_of_nat :: nat \<Rightarrow> u32) {..<length ks}"
    by (metis inj_onI lessThan_iff)
  show "set (pattern_order_of ks) = word_of_nat ` {..<length ks}" "length (pattern_order_of ks) = length ks"
    by (auto simp: pattern_order_of_def)
  show "distinct (pattern_order_of ks)"
    using inj by (simp add: pattern_order_of_def distinct_map lessThan_atLeast0)
  have "map (\<lambda>index. ks ! unat index) (map (word_of_nat :: nat \<Rightarrow> u32) [0..<length ks]) = ks"
    using u by (intro nth_equalityI) auto
  then show "distinct ks \<Longrightarrow> key_ascending (\<lambda>index. ks ! unat index) (pattern_order_of ks)"
    unfolding pattern_order_of_def by (intro sort_key_strict) simp
qed

lemma distinct_concat_map:
  "distinct xs \<Longrightarrow> (\<And>x. x \<in> set xs \<Longrightarrow> distinct (f x)) \<Longrightarrow>
   (\<And>x y. x \<in> set xs \<Longrightarrow> y \<in> set xs \<Longrightarrow> x \<noteq> y \<Longrightarrow> set (f x) \<inter> set (f y) = {}) \<Longrightarrow> distinct (concat (map f xs))"
proof (induction xs)
  case (Cons a xs)
  have "set (f a) \<inter> set (f x) = {}" if "x \<in> set xs" for x
    using Cons.prems that by auto
  moreover have "distinct (concat (map f xs))"
    by (rule Cons.IH) (use Cons.prems in auto)
  ultimately show ?case
    using Cons.prems by auto
qed simp

lemma foldl_append_if:
  "foldl (\<lambda>acc x. if f x = [] \<or> \<not> P x then acc else acc @ f x) acc xs = acc @ concat (map f (filter P xs))"
  by (induction xs arbitrary: acc) auto

lemma foldl_length_if:
  "foldl (\<lambda>count x. if P x then count + length (f x) else count) (n :: nat) xs = n + length (concat (map f (filter P xs)))"
  by (induction xs arbitrary: n) auto

lemma covering_consumers_props:
  assumes inv: "topology_inv t" and p: "part < ucast (tp_partition_count t)"
  shows "set (covering_consumers t part) = required_consumers t part" "distinct (covering_consumers t part)"
    and "covering_consumer_count t part = card (required_consumers t part)"
proof -
  let ?P = "\<lambda>i :: u32. selection_covers (pt_selection (tp_patterns t ! unat i)) part"
  let ?f = "\<lambda>i :: u32. pt_consumers (tp_patterns t ! unat i)"
  let ?n = "length (tp_patterns t)"
  have cov: "covering_consumers t part = concat (map ?f (filter ?P (tp_pattern_order t)))"
    using p foldl_append_if [of ?f ?P "[]" "tp_pattern_order t"]
    by (simp add: covering_consumers_def Let_def not_le [symmetric])
  have order: "set (tp_pattern_order t) = word_of_nat ` {..<?n}" "distinct (tp_pattern_order t)"
    using pattern_order_of_props(1,2) [of "map pt_key (tp_patterns t)"] topology_invD(3,10) [OF inv] by auto
  have u: "unat (word_of_nat i :: u32) = i" if "i < ?n" for i
    using that topology_invD(3) [OF inv] by (simp add: unat_of_length_u32)
  then have ord: "unat i < ?n" if "i \<in> set (tp_pattern_order t)" for i
    using that order(1) by auto
  show s: "set (covering_consumers t part) = required_consumers t part"
  proof -
    have "set (covering_consumers t part) =
        (\<Union>i \<in> {i. i < ?n \<and> selection_covers (pt_selection (tp_patterns t ! i)) part}. set (pt_consumers (tp_patterns t ! i)))"
      unfolding cov using u by (auto simp: order)
    then show ?thesis
      by (simp add: required_consumers_patterns [OF inv] topology_invD(8) [OF inv])
  qed
  have "distinct (concat (map ?f (filter ?P (tp_pattern_order t))))"
    using order(2) ord topology_invD(7,8) [OF inv] pattern_members_disjoint [OF topology_invD(2) [OF inv]]
    by (intro distinct_concat_map) (auto simp: ascending_distinct word_unat_eq_iff)
  then show d: "distinct (covering_consumers t part)" by (simp add: cov)
  have "covering_consumer_count t part = length (covering_consumers t part)"
    using p foldl_length_if [of ?P ?f 0 "tp_pattern_order t"]
    by (simp add: covering_consumer_count_def cov Let_def not_le [symmetric])
  then show "covering_consumer_count t part = card (required_consumers t part)"
    using distinct_card [OF d] s by simp
qed

lemma planned_edges_loop_eq:
  assumes "\<And>e. e \<in> set es \<Longrightarrow> selection_wf n (pt_selection e)"
    and "unat acc + (\<Sum>e\<leftarrow>es. length (pt_consumers e) * card (selected_partitions n (pt_selection e))) < 2 ^ 64"
  shows "planned_edges_loop n acc es =
    Inr (acc + word_of_nat (\<Sum>e\<leftarrow>es. length (pt_consumers e) * card (selected_partitions n (pt_selection e))))"
  using assms
proof (induction es arbitrary: acc)
  case (Cons e es)
  let ?c = "card (selected_partitions n (pt_selection e))" and ?k = "length (pt_consumers e)"
  let ?S = "\<Sum>e\<leftarrow>es. length (pt_consumers e) * card (selected_partitions n (pt_selection e))"
  show ?case
  proof (cases "pt_consumers e = []")
    case True
    then show ?thesis using Cons by simp
  next
    case False
    then have k: "0 < ?k" by simp
    have wf: "selection_wf n (pt_selection e)" using Cons.prems(1) by simp
    have sum: "unat acc + (?k * ?c + ?S) < 2 ^ 64" using Cons.prems(2) by simp
    have c: "?c < 2 ^ 64" using selected_count_card(2) [OF wf] unat32_bound [of n] by simp
    have kc: "?k * ?c < 2 ^ 64" using sum by linarith
    show ?thesis
    proof (cases "?c = 0")
      case True
      have "checked_mul (word_of_nat ?k) (0 :: u64) = Inr 0" by (simp add: checked_mul_eq mul_overflows_def)
      moreover have "checked_add acc 0 = Inr acc" using unat64_bound [of acc] by (simp add: checked_add_eq add_overflows_iff)
      ultimately show ?thesis
        using Cons.IH [of acc] Cons.prems False True selected_count_card(1) [OF wf] by simp
    next
      case c0: False
      then have "?k \<le> ?k * ?c" by (metis le_add1 mult_Suc_right not0_implies_Suc)
      then have k64: "?k < 2 ^ 64" using kc by linarith
      have m: "checked_mul (word_of_nat ?k) (word_of_nat ?c :: u64) = Inr (word_of_nat (?k * ?c))"
        using k64 c kc by (simp add: checked_mul_eq unat_of_nat_u64)
      have a: "checked_add acc (word_of_nat (?k * ?c)) = Inr (acc + word_of_nat (?k * ?c))"
        using sum kc by (simp add: checked_add_eq unat_of_nat_u64 del: of_nat_mult)
      have "unat (acc + word_of_nat (?k * ?c)) = unat acc + ?k * ?c"
        using sum kc by (simp add: unat_word_ariths unat_of_nat_u64 del: of_nat_mult)
      then have "planned_edges_loop n (acc + word_of_nat (?k * ?c)) es =
          Inr (acc + word_of_nat (?k * ?c) + word_of_nat ?S)"
        using Cons.IH [of "acc + word_of_nat (?k * ?c)"] Cons.prems sum by (simp del: of_nat_mult)
      then show ?thesis
        using False m a selected_count_card(1) [OF wf] by (simp add: add.assoc)
    qed
  qed
qed simp

lemma card_required_edges:
  assumes inv: "topology_inv t"
  shows "card (required_edges t) =
    (\<Sum>e\<leftarrow>tp_patterns t. length (pt_consumers e) * card (selected_partitions (tp_partition_count t) (pt_selection e)))"
proof -
  let ?P = "{part :: u64. part < ucast (tp_partition_count t)}" and ?n = "length (tp_patterns t)"
  let ?s = "\<lambda>i. pt_selection (tp_patterns t ! i)" and ?l = "\<lambda>i. length (pt_consumers (tp_patterns t ! i))"
  have fin: "finite (required_consumers t part)" for part by simp
  have "card (required_edges t) = (\<Sum>part\<in>?P. card (required_consumers t part))"
    unfolding required_edges_def by (rule card_SigmaI) simp_all
  also have "\<dots> = (\<Sum>part\<in>?P. \<Sum>i<?n. if selection_covers (?s i) part then ?l i else 0)"
    by (simp add: card_required_consumers [OF inv] sum_list_sum_nth atLeast0LessThan)
  also have "\<dots> = (\<Sum>i<?n. \<Sum>part\<in>?P. if selection_covers (?s i) part then ?l i else 0)"
    by (rule sum.swap)
  also have "\<dots> = (\<Sum>i<?n. ?l i * card (selected_partitions (tp_partition_count t) (?s i)))"
  proof (rule sum.cong [OF refl])
    fix i
    have "(\<Sum>part\<in>?P. if selection_covers (?s i) part then ?l i else 0) =
        (\<Sum>part\<in>selected_partitions (tp_partition_count t) (?s i). ?l i)"
      by (subst sum.inter_filter [symmetric]) (simp_all add: selected_partitions_def)
    then show "(\<Sum>part\<in>?P. if selection_covers (?s i) part then ?l i else 0) =
        ?l i * card (selected_partitions (tp_partition_count t) (?s i))"
      by simp
  qed
  finally show ?thesis by (simp add: sum_list_sum_nth atLeast0LessThan)
qed

lemma required_edges_bound:
  assumes inv: "topology_inv t"
  shows "card (required_edges t) < 2 ^ 64"
proof -
  let ?P = "{part :: u64. part < ucast (tp_partition_count t)}"
  have P: "card ?P = unat (tp_partition_count t)"
    using card_u64_interval [of 0 "ucast (tp_partition_count t)"] by simp
  have "card (required_edges t) = (\<Sum>part\<in>?P. card (required_consumers t part))"
    unfolding required_edges_def by (rule card_SigmaI) simp_all
  also have "\<dots> \<le> card ?P * (2 ^ 32 - 1)"
    using sum_bounded_above [of ?P "\<lambda>part. card (required_consumers t part)" "2 ^ 32 - 1"]
      required_consumers_bound [OF inv] by (simp add: less_Suc_eq_le [symmetric])
  also have "\<dots> \<le> (2 ^ 32 - 1) * (2 ^ 32 - 1)"
    using unat32_bound [of "tp_partition_count t"] by (intro mult_right_mono) (auto simp: P)
  also have "\<dots> < (2 :: nat) ^ 64" by simp
  finally show ?thesis .
qed

lemma planned_edge_count_card:
  assumes inv: "topology_inv t"
  shows "planned_edge_count t = Inr (word_of_nat (card (required_edges t)))"
proof -
  have "selection_wf (tp_partition_count t) (pt_selection e)" if "e \<in> set (tp_patterns t)" for e
    using that topology_invD(6) [OF inv] by (auto simp: in_set_conv_nth)
  then show ?thesis
    using planned_edges_loop_eq [of "tp_patterns t" "tp_partition_count t" 0] required_edges_bound [OF inv]
    by (simp add: planned_edge_count_def card_required_edges [OF inv])
qed

section \<open>Lemmas: ownership and fan-in\<close>

lemma active_producers_props:
  assumes "topology_inv t"
  shows "distinct (tp_active_producers t)" "length (tp_active_producers t) < 2 ^ 32"
    and "pid \<in> set (tp_active_producers t) \<longleftrightarrow> (\<exists>r \<in> set (tp_producers t). pd_id r = pid \<and> pd_state r = PS_Active)"
proof -
  have a: "tp_active_producers t = map pd_id (filter (\<lambda>record. holds_authority (pd_state record)) (tp_producers t))"
    using assms by (simp add: topology_inv_def participants_inv_def)
  have "distinct (map pd_id (tp_producers t))"
    by (rule ascending_distinct [OF key_ascending_map [THEN iffD1, OF topology_invD(1) [OF assms]]])
  then show "distinct (tp_active_producers t)"
    unfolding a by (rule distinct_map_filter)
  show "length (tp_active_producers t) < 2 ^ 32"
    using topology_invD(5) [OF assms] length_filter_le unfolding a length_map by (metis le_less_trans)
  show "pid \<in> set (tp_active_producers t) \<longleftrightarrow> (\<exists>r \<in> set (tp_producers t). pd_id r = pid \<and> pd_state r = PS_Active)"
    unfolding a by (auto simp: holds_authority_def)
qed

lemma owner_of_eq:
  assumes inv: "topology_inv t" and p: "part < ucast (tp_partition_count t)" and a: "tp_active_producers t \<noteq> []"
  shows "owner_of t part = Inr (tp_active_producers t ! (unat part mod length (tp_active_producers t)))"
proof -
  let ?k = "length (tp_active_producers t)"
  have k: "0 < ?k" "?k < 2 ^ 32" using a active_producers_props(2) [OF inv] by auto
  have "unat (part mod word_of_nat ?k :: u64) = unat part mod ?k"
    using k by (simp add: unat_mod unat_of_nat_u64)
  moreover have "unat part mod ?k < 2 ^ 32" using k by (meson less_trans mod_less_divisor)
  ultimately have "unat (ucast (part mod word_of_nat ?k :: u64) :: u32) = unat part mod ?k"
    by (simp add: unsigned_ucast_eq take_bit_nat_eq_self)
  then show ?thesis
    using p a by (simp add: owner_of_def owner_index_of_def not_le [symmetric])
qed

lemma card_mod_interval:
  assumes "0 < k"
  shows "card ((\<lambda>x. x mod k) ` {a..<b :: nat}) = min (b - a) k"
proof -
  have aux: "x = y" if "x \<le> y" "x mod k = y mod k" "y < x + k" for x y
  proof -
    have "k dvd y - x" using that by (metis mod_eq_dvd_iff_nat)
    moreover have "y - x < k" using that by linarith
    ultimately have "y - x = 0" using dvd_imp_le by fastforce
    then show ?thesis using that by simp
  qed
  have inj: "inj_on (\<lambda>x. x mod k) {a..<a + k}"
  proof (rule inj_onI)
    fix x y assume "x \<in> {a..<a + k}" "y \<in> {a..<a + k}" "x mod k = y mod k"
    then show "x = y"
      using aux [of x y] aux [of y x] by (cases "x \<le> y") auto
  qed
  show ?thesis
  proof (cases "b - a \<le> k")
    case True
    then have "inj_on (\<lambda>x. x mod k) {a..<b}" by (intro inj_on_subset [OF inj]) auto
    then show ?thesis using True by (simp add: card_image)
  next
    case False
    have "k = card ((\<lambda>x. x mod k) ` {a..<a + k})" using inj by (simp add: card_image)
    also have "\<dots> \<le> card ((\<lambda>x. x mod k) ` {a..<b})" using False by (intro card_mono) auto
    finally have "k \<le> card ((\<lambda>x. x mod k) ` {a..<b})" .
    moreover have "card ((\<lambda>x. x mod k) ` {a..<b}) \<le> card {..<k}"
      using assms by (intro card_mono) auto
    ultimately show ?thesis using False by simp
  qed
qed

lemma card_serving_owners:
  assumes inv: "topology_inv t" and a: "tp_active_producers t \<noteq> []"
  shows "card (serving_owners t s) =
    card ((\<lambda>part. unat part mod length (tp_active_producers t)) ` selected_partitions (tp_partition_count t) s)"
proof -
  let ?k = "length (tp_active_producers t)" and ?S = "selected_partitions (tp_partition_count t) s"
  have "serving_owners t s = (\<lambda>part. tp_active_producers t ! (unat part mod ?k)) ` ?S"
    using owner_of_eq [OF inv _ a] by (auto simp: serving_owners_def selected_partitions_def)
  also have "\<dots> = (!) (tp_active_producers t) ` ((\<lambda>part. unat part mod ?k) ` ?S)"
    by (simp add: image_image)
  also have "card \<dots> = card ((\<lambda>part. unat part mod ?k) ` ?S)"
    using active_producers_props(1) [OF inv] a by (intro card_image) (auto simp: inj_on_def nth_eq_iff_index_eq)
  finally show ?thesis .
qed

lemma mod_image_interval:
  assumes "0 < k"
  shows "card ((\<lambda>part. unat part mod k) ` {part :: u64. a \<le> part \<and> part < b}) = min (unat b - unat a) k"
  using card_mod_interval [OF assms, of "unat a" "unat b"]
  by (simp add: unat_image_interval [symmetric] image_image)

lemma distinct_remdups_adj_sorted: "sorted xs \<Longrightarrow> distinct (remdups_adj xs)"
  by (induction xs rule: remdups_adj.induct) (auto dest: order.antisym)

lemma length_remdups_adj_sort: "length (remdups_adj (sort xs)) = card (set xs)"
  using distinct_card [OF distinct_remdups_adj_sorted [of "sort xs"]] by simp

lemma selection_wf_nonempty:
  "selection_wf n s \<Longrightarrow> ps_kind s = SK_List \<Longrightarrow> selected_partitions n s = set (ps_list s)"
  by (auto simp: selected_partitions_def selection_covers_def selection_wf_def found_at_id_iff)

lemma owner_residue:
  fixes c :: u32
  assumes "c \<noteq> 0"
  shows "unat (ucast (part mod ucast c :: u64) :: u32) = unat part mod unat c"
proof -
  have "unat part mod unat c < 2 ^ 32"
    using assms unat32_bound [of c] by (meson less_trans mod_less_divisor unat_gt_0)
  then show ?thesis by (simp add: unsigned_ucast_eq take_bit_nat_eq_self unat_mod)
qed

lemma ucast_min_u32:
  fixes c :: u32
  assumes "n < 2 ^ 32"
  shows "ucast (min (word_of_nat n) (ucast c) :: u64) = (word_of_nat (min n (unat c)) :: u32)"
  using assms unat32_bound [of c]
  by (auto simp: min_def word_le_nat_alt unat_of_nat_u64 word_unat_eq_iff unsigned_ucast_eq take_bit_nat_eq_self
      unat_of_length_u32)

lemma card_residues:
  fixes c :: u32
  assumes "c \<noteq> 0"
  shows "card ((\<lambda>part. ucast (part mod ucast c :: u64) :: u32) ` A) = card ((\<lambda>part. unat part mod unat c) ` A)"
proof -
  have "card ((\<lambda>part. ucast (part mod ucast c :: u64) :: u32) ` A) =
      card (unat ` (\<lambda>part. ucast (part mod ucast c :: u64) :: u32) ` A)"
    by (intro card_image [symmetric] inj_onI) (simp add: word_unat_eq_iff)
  then show ?thesis by (simp add: image_image owner_residue [OF assms])
qed

lemma fan_in_card:
  assumes inv: "topology_inv t" and r: "r \<in> set (tp_consumers t)"
  shows "fan_in t (cs_id r) = Inr (word_of_nat (card (serving_owners t (tp_pattern t (cs_pattern r)))))"
proof -
  let ?k = "length (tp_active_producers t)" and ?n = "tp_partition_count t"
  let ?s = "pt_selection (tp_patterns t ! unat (cs_pattern r))"
  have find: "find_consumer (tp_consumers t) (cs_id r) = Some r"
    using r by (simp add: find_consumer_iff [OF topology_invD(2) [OF inv]])
  have s: "tp_pattern t (cs_pattern r) = ?s" and wf: "selection_wf ?n ?s"
    using topology_invD(9) [OF inv r] topology_invD(6) [OF inv] by (auto simp: tp_pattern_def)
  have k: "?k < 2 ^ 32" by (rule active_producers_props(2) [OF inv])
  then have uk: "unat (active_producer_count t) = ?k"
    by (simp add: active_producer_count_def unat_of_length_u32)
  show ?thesis
  proof (cases "?k = 0")
    case True
    then have "active_producer_count t = 0" by (simp add: active_producer_count_def)
    moreover have "serving_owners t ?s = {}"
      using True by (auto simp: serving_owners_def owner_of_def owner_index_of_def split: if_splits)
    ultimately show ?thesis by (simp add: fan_in_def find s)
  next
    case False
    then have a: "tp_active_producers t \<noteq> []" and k0: "0 < ?k" by auto
    have ap: "active_producer_count t \<noteq> 0" using uk k0 by auto
    note owners = card_serving_owners [OF inv a, of ?s]
    show ?thesis
    proof (cases "ps_kind ?s")
      case SK_All
      then have "selected_partitions ?n ?s = {part :: u64. 0 \<le> part \<and> part < ucast ?n}"
        by (auto simp: selected_partitions_def selection_covers_def)
      then have "card (serving_owners t ?s) = min (unat ?n) ?k"
        using owners mod_image_interval [OF k0, of 0 "ucast ?n"] by simp
      moreover have "min (active_producer_count t) ?n = word_of_nat (min (unat ?n) ?k)"
        using uk k by (auto simp: min_def word_le_nat_alt word_unat_eq_iff unat_of_length_u32)
      ultimately show ?thesis
        using SK_All ap by (simp add: fan_in_def find s Let_def)
    next
      case SK_Range
      then have "selected_partitions ?n ?s = {part. ps_begin ?s \<le> part \<and> part < ps_end ?s}"
        using wf by (auto simp: selected_partitions_def selection_covers_def selection_wf_def)
      then have c: "card (serving_owners t ?s) = min (card (selected_partitions ?n ?s)) ?k"
        using owners mod_image_interval [OF k0] by (simp add: card_u64_interval)
      have b: "card (selected_partitions ?n ?s) < 2 ^ 32"
        using selected_count_card(2) [OF wf] unat32_bound [of ?n] by linarith
      show ?thesis
        using SK_Range ap c selected_count_card(1) [OF wf] ucast_min_u32 [OF b, of "active_producer_count t"] uk
        by (simp add: fan_in_def find s Let_def)
    next
      case SK_List
      have c: "card ((\<lambda>part. ucast (part mod ucast (active_producer_count t) :: u64) :: u32) ` set (ps_list ?s)) =
          card (serving_owners t ?s)"
        using owners selection_wf_nonempty [OF wf SK_List] uk by (simp add: card_residues [OF ap])
      have "card (serving_owners t ?s) \<le> card {..<?k}"
        unfolding owners using k0 by (intro card_mono) auto
      then have "card (serving_owners t ?s) \<le> 0xffffffff" using k by simp
      then show ?thesis
        using SK_List ap c by (simp add: fan_in_def find s Let_def length_remdups_adj_sort)
    qed
  qed
qed

section \<open>Lemmas: reachable topologies\<close>

lemma topology_step_inv: "topology_step t t' \<Longrightarrow> topology_inv t \<Longrightarrow> topology_inv t'"
  by (induction rule: topology_step.induct)
    (auto intro: register_producer_inv register_consumer_inv set_producer_state_inv set_consumer_state_inv)

lemma topology_reachable_inv:
  "topology_step\<^sup>*\<^sup>* (mk_topology sh sg n l) t \<Longrightarrow> topology_inv t"
  by (induction rule: rtranclp_induct) (auto intro: mk_topology_inv topology_step_inv)

lemma intern_pattern_frame [simp]:
  "tp_partition_count (snd (intern_pattern s t)) = tp_partition_count t"
  "tp_limits (snd (intern_pattern s t)) = tp_limits t"
  "tp_generation (snd (intern_pattern s t)) = tp_generation t"
  "tp_shuffle (snd (intern_pattern s t)) = tp_shuffle t"
  "tp_shuffle_generation (snd (intern_pattern s t)) = tp_shuffle_generation t"
  by (auto simp: intern_pattern_def Let_def rebuild_pattern_order_def split: option.splits)

lemma pattern_ops_frame [simp]:
  "tp_partition_count (add_consumer_to_pattern p cid t) = tp_partition_count t"
  "tp_generation (add_consumer_to_pattern p cid t) = tp_generation t"
  "tp_shuffle (add_consumer_to_pattern p cid t) = tp_shuffle t"
  "tp_shuffle_generation (add_consumer_to_pattern p cid t) = tp_shuffle_generation t"
  "tp_partition_count (remove_consumer_from_pattern p cid t) = tp_partition_count t"
  "tp_generation (remove_consumer_from_pattern p cid t) = tp_generation t"
  "tp_shuffle (remove_consumer_from_pattern p cid t) = tp_shuffle t"
  "tp_shuffle_generation (remove_consumer_from_pattern p cid t) = tp_shuffle_generation t"
  by (simp_all add: add_consumer_to_pattern_def remove_consumer_from_pattern_def Let_def)

lemmas frame_defs = same_frame_def bump_generation_def rebuild_active_producers_def

lemma register_consumer_frame: "same_frame t (snd (register_consumer cid inc ep s t))"
proof -
  obtain res t1 where i: "intern_pattern s t = (res, t1)" by fastforce
  have "same_frame t t1"
    using intern_pattern_frame [of s t] i by (simp add: same_frame_def)
  then show ?thesis
    by (auto simp: register_consumer_def i Let_def frame_defs split: sum.splits)
qed

lemma topology_step_frame: "topology_step t t' \<Longrightarrow> same_frame t t'"
  by (induction rule: topology_step.induct)
    (auto simp: register_consumer_frame [unfolded same_frame_def] register_producer_def set_producer_state_def set_consumer_state_def
      Let_def frame_defs split: sum.splits)

lemma topology_reachable_frame:
  "topology_step\<^sup>*\<^sup>* t t' \<Longrightarrow> same_frame t t'"
  by (induction rule: rtranclp_induct) (auto dest!: topology_step_frame simp: same_frame_def)

lemma adjacent_ascending_iff: "adjacent_ascending key xs \<longleftrightarrow> key_ascending key xs"
proof (induction key xs rule: adjacent_ascending.induct)
  case (1 key x y zs)
  then show ?case by (auto dest: less_trans)
qed auto

lemma pattern_consumer_ok_inv:
  assumes inv: "topology_inv t" and i: "i < length (tp_patterns t)" and c: "cid \<in> set (pt_consumers (tp_patterns t ! i))"
  shows "pattern_consumer_ok t i cid"
proof -
  obtain r where r: "r \<in> set (tp_consumers t)" "cs_id r = cid" "unat (cs_pattern r) = i"
      "counts_toward_requirement (cs_state r)"
    using c topology_invD(8) [OF inv i] by (auto simp: mem_pattern_members)
  have "find_consumer (tp_consumers t) cid = Some r"
    using r by (simp add: find_consumer_iff [OF topology_invD(2) [OF inv]])
  then show ?thesis
    using r by (auto simp: pattern_consumer_ok_def)
qed

lemma topology_validate_inv:
  assumes inv: "topology_inv t" and "tp_partition_count t \<noteq> 0" "limits_validate (tp_limits t) = ok_status"
  shows "topology_validate t = ok_status"
proof -
  have pats: "\<not> list_ex (\<lambda>(index, entry). \<not> adjacent_ascending id (pt_consumers entry) \<or>
      list_ex (\<lambda>cid. \<not> pattern_consumer_ok t index cid) (pt_consumers entry)) (List.enumerate 0 (tp_patterns t))"
    using topology_invD(7) [OF inv] pattern_consumer_ok_inv [OF inv]
    by (auto simp: list_ex_iff in_set_enumerate_eq adjacent_ascending_iff)
  have refs: "\<not> list_ex (\<lambda>record. unat (cs_pattern record) \<ge> length (tp_patterns t)) (tp_consumers t)"
    using topology_invD(9) [OF inv] by (auto simp: list_ex_iff not_le)
  have len: "length (map pt_key (tp_patterns t)) < 2 ^ 32" using topology_invD(3) [OF inv] by simp
  note order = pattern_order_of_props [OF len] topology_invD(10,11) [OF inv]
  have u: "unat index < length (tp_patterns t)" if "index \<in> set (tp_pattern_order t)" for index
    using that order(1,5) len by (auto simp: unat_of_length_u32)
  have "key_ascending (\<lambda>index. pt_key (tp_patterns t ! unat index)) (tp_pattern_order t)"
    by (rule sorted_wrt_mono_rel [OF _ order(3) [OF order(6), folded order(5)]]) (use u in auto)
  then show ?thesis
    using assms(2,3) pats refs order(4) topology_invD(1,2) [OF inv]
    by (simp add: topology_validate_def adjacent_ascending_iff order(5))
qed

section \<open>Lemmas: checks, generations, fencing\<close>

lemma lower_bound_less_iff: "lower_bound key xs v < length xs \<longleftrightarrow> lower_bound key xs v \<noteq> length xs"
  using lower_bound_le [of key xs v] by (auto simp del: lower_bound_le)

lemma register_producer_status:
  "fst (register_producer pid inc ep t) = check_producer_registration t pid inc ep"
  by (auto simp: lower_bound_less_iff register_producer_def check_producer_registration_def find_producer_def Let_def
      split: sum.splits if_splits option.splits)

lemma register_consumer_status:
  "fst (register_consumer cid inc ep s t) = check_consumer_registration t cid inc ep s"
proof (cases "check_consumer_registration t cid inc ep s")
  case (Inr u)
  then obtain i t1 where "intern_pattern s t = (Inr i, t1)"
    by (auto simp: check_consumer_registration_def intern_pattern_def Let_def split: if_splits sum.splits option.splits)
  then show ?thesis using Inr by (simp add: register_consumer_def Let_def)
qed (simp add: register_consumer_def)

lemma set_producer_state_status:
  "fst (set_producer_state pid inc st t) = check_participant_state t PK_Producer pid inc st"
  by (auto simp: set_producer_state_def Let_def split: sum.splits)

lemma set_consumer_state_status:
  "fst (set_consumer_state cid inc st t) = check_participant_state t PK_Consumer cid inc st"
  by (auto simp: set_consumer_state_def Let_def split: sum.splits)

lemma intern_existing:
  assumes inv: "topology_inv t" and "intern_pattern s t = (Inr i, t1)" and "unat i < length (tp_patterns t)"
  shows "t1 = t"
  using assms topology_invD(3) [OF inv]
  by (auto simp: intern_pattern_def Let_def unat_of_length_u32 split: option.splits if_splits)

lemma register_consumer_generation:
  assumes inv: "topology_inv t"
  shows "snd (register_consumer cid inc ep s t) = t \<or>
    tp_generation (snd (register_consumer cid inc ep s t)) = id_next (tp_generation t)"
proof (cases "check_consumer_registration t cid inc ep s")
  case (Inr u)
  then obtain i t1 where i: "intern_pattern s t = (Inr i, t1)"
    by (auto simp: check_consumer_registration_def intern_pattern_def Let_def split: if_splits sum.splits option.splits)
  have f: "tp_generation t1 = tp_generation t" "tp_consumers t1 = tp_consumers t"
    using i by (auto simp: intern_pattern_def Let_def rebuild_pattern_order_def split: option.splits if_splits)
  have "t1 = t" if "k < length (tp_consumers t)" "cs_pattern (tp_consumers t ! k) = i" for k
    using intern_existing [OF inv i] topology_invD(9) [OF inv nth_mem [OF that(1)]] that(2) by simp
  then show ?thesis
    using Inr i f by (auto simp: register_consumer_def Let_def bump_generation_def)
qed (simp add: register_consumer_def)

lemma topology_step_generation:
  "topology_step t t' \<Longrightarrow> topology_inv t \<Longrightarrow> t' = t \<or> tp_generation t' = id_next (tp_generation t)"
proof (induction rule: topology_step.induct)
  case (step_register_consumer s t cid inc ep)
  then show ?case using register_consumer_generation by blast
qed (auto simp: register_producer_def set_producer_state_def set_consumer_state_def Let_def
      bump_generation_def rebuild_active_producers_def split: sum.splits)

lemma refused_unchanged:
  "fst (register_producer pid inc ep t) = Inl e \<Longrightarrow> snd (register_producer pid inc ep t) = t"
  "fst (register_consumer cid inc ep s t) = Inl e \<Longrightarrow> snd (register_consumer cid inc ep s t) = t"
  "fst (set_producer_state pid inc st t) = Inl e \<Longrightarrow> snd (set_producer_state pid inc st t) = t"
  "fst (set_consumer_state cid inc st t) = Inl e \<Longrightarrow> snd (set_consumer_state cid inc st t) = t"
proof -
  show "fst (register_consumer cid inc ep s t) = Inl e \<Longrightarrow> snd (register_consumer cid inc ep s t) = t"
    by (simp add: register_consumer_status) (simp add: register_consumer_def)
qed (auto simp: register_producer_def set_producer_state_def set_consumer_state_def Let_def
       split: sum.splits if_splits)

lemma register_producer_supersedes:
  assumes inv: "topology_inv t" and ok: "fst (register_producer pid inc ep t) = ok_status" and other: "inc' \<noteq> inc"
  shows "check_participant_state (snd (register_producer pid inc ep t)) PK_Producer pid inc' st = Inl StaleIncarnation"
proof -
  let ?t = "snd (register_producer pid inc ep t)"
  have inv': "topology_inv ?t" by (rule register_producer_inv [OF inv])
  have chk: "check_producer_registration t pid inc ep = ok_status" using ok by (simp add: register_producer_status)
  have "\<exists>r \<in> set (tp_producers ?t). pd_id r = pid \<and> pd_incarnation r = inc"
  proof (cases "found_at pd_id (tp_producers t) pid")
    case True
    let ?lb = "lower_bound pd_id (tp_producers t) pid"
    have f: "?lb < length (tp_producers t)" "pd_id (tp_producers t ! ?lb) = pid"
      using True by (auto simp: found_at_def)
    show ?thesis
    proof (cases "pd_incarnation (tp_producers t ! ?lb) = inc")
      case True
      then have "?t = t" using chk f by (simp add: register_producer_def Let_def)
      then show ?thesis using True f by (metis nth_mem)
    next
      case False
      then have "tp_producers ?t = (tp_producers t)[?lb := (tp_producers t ! ?lb)
          \<lparr>pd_incarnation := inc, pd_endpoint := ep, pd_state := PS_Active\<rparr>]"
        using chk f by (simp add: register_producer_def Let_def bump_generation_def rebuild_active_producers_def)
      then show ?thesis
        by (intro bexI [of _ "(tp_producers t ! ?lb)\<lparr>pd_incarnation := inc, pd_endpoint := ep, pd_state := PS_Active\<rparr>"])
          (use f set_update_memI [OF f(1)] in simp_all)
    qed
  next
    case False
    with chk ok show ?thesis
      by (auto simp: register_producer_def Let_def found_at_def bump_generation_def rebuild_active_producers_def
          insert_at_def split: if_splits)
  qed
  then obtain r where "find_producer (tp_producers ?t) pid = Some r" "pd_incarnation r = inc"
    by (auto simp: find_producer_iff [OF topology_invD(1) [OF inv']])
  moreover have "pid \<noteq> 0" using chk by (auto simp: check_producer_registration_def)
  ultimately show ?thesis using other by (simp add: check_participant_state_def)
qed

section \<open>Lemmas: canonical keys\<close>

lemma dec_digits_chars: "c \<in> set (dec_digits n) \<Longrightarrow> 48 \<le> (of_char c :: nat) \<and> (of_char c :: nat) < 58"
proof (induction n rule: dec_digits.induct)
  case (1 n)
  have "of_char (char_of (48 + k) :: char) = 48 + k" if "k < 10" for k :: nat
    using that by simp
  then show ?case
    using 1 by (subst (asm) (2) dec_digits.simps) (auto split: if_splits)
qed

lemma id_chars [simp]: "CHR '':'' \<notin> set (id_to_string v)" "CHR '','' \<notin> set (id_to_string v)"
  using dec_digits_chars [of "CHR '':''" "unat v"] dec_digits_chars [of "CHR '',''" "unat v"]
  by (auto simp: id_to_string_def)

lemma split_at_unique:
  "x \<notin> set a \<Longrightarrow> x \<notin> set b \<Longrightarrow> a @ x # r = b @ x # s \<longleftrightarrow> a = b \<and> r = s"
proof (induction a arbitrary: b)
  case (Cons y a)
  then show ?case by (cases b) auto
qed (case_tac b; auto)

lemma join_ids_inj: "ps \<noteq> [] \<Longrightarrow> qs \<noteq> [] \<Longrightarrow> join_ids ps = join_ids qs \<Longrightarrow> ps = qs"
proof (induction ps arbitrary: qs rule: join_ids.induct)
  case (2 p)
  have "CHR '','' \<notin> set (join_ids qs)" using 2 by (metis id_chars(2) join_ids.simps(2))
  then obtain q where "qs = [q]" using 2(2) by (cases qs rule: join_ids.cases) auto
  then show ?case using 2 by simp
next
  case (3 p p' ps)
  then have c: "CHR '','' \<in> set (join_ids qs)" by (metis append.assoc in_set_conv_decomp join_ids.simps(3) append_Cons)
  then obtain q q' qs' where q: "qs = q # q' # qs'" using 3(3) by (cases qs rule: join_ids.cases) auto
  then have "id_to_string p = id_to_string q" "join_ids (p' # ps) = join_ids (q' # qs')"
    using 3(4) split_at_unique [of "CHR '',''" "id_to_string p" "id_to_string q"] by auto
  then show ?case using 3(1) [of "q' # qs'"] q by simp
qed simp

lemma canonical_key_covers:
  assumes "canonical_key s = canonical_key s'" "selection_wf n s" "selection_wf n s'"
  shows "ps_kind s = ps_kind s' \<and> selection_covers s = selection_covers s'"
proof -
  have k: "ps_kind s = ps_kind s'"
    using assms(1) by (auto simp: canonical_key_def split: selection_kind.splits)
  show ?thesis
  proof (cases "ps_kind s")
    case SK_All
    then show ?thesis using k by (auto simp: selection_covers_def)
  next
    case SK_Range
    then have "ps_begin s = ps_begin s' \<and> ps_end s = ps_end s'"
      using assms(1) k split_at_unique [of "CHR '':''" "id_to_string (ps_begin s)" "id_to_string (ps_begin s')"]
      by (simp add: canonical_key_def)
    then show ?thesis using k SK_Range by (auto simp: selection_covers_def)
  next
    case SK_List
    then have "ps_list s = ps_list s'"
      using assms k by (intro join_ids_inj) (auto simp: canonical_key_def selection_wf_def)
    then show ?thesis using k SK_List by (auto simp: selection_covers_def)
  qed
qed

section \<open>Lemmas: a concrete topology\<close>

lemma small_topology_reached: "topology_step\<^sup>*\<^sup>* (mk_topology 1 1 4 default_limits) small_topology"
proof -
  have "topology_step (mk_topology 1 1 4 default_limits) (snd (register_producer 7 1 [] (mk_topology 1 1 4 default_limits)))"
    by (rule step_register_producer)
  moreover have "topology_step (snd (register_producer 7 1 [] (mk_topology 1 1 4 default_limits))) small_topology"
    unfolding small_topology_def by (rule step_register_consumer) (simp add: selection_canonical_def selection_range_def)
  ultimately show ?thesis by (meson r_into_rtranclp rtranclp.rtrancl_into_rtrancl)
qed

lemma registered_producer:
  "snd (register_producer 7 1 [] (mk_topology 1 1 4 default_limits)) =
     (mk_topology 1 1 4 default_limits)\<lparr>tp_generation := 1,
       tp_producers := [\<lparr>pd_id = 7, pd_incarnation = 1, pd_state = PS_Active, pd_endpoint = []\<rparr>],
       tp_active_producers := [7]\<rparr>"
  by (simp add: register_producer_def check_producer_registration_def mk_topology_def default_limits_def
      find_producer_def lower_bound_def insert_at_def rebuild_active_producers_def bump_generation_def id_next_def
      holds_authority_def Let_def)

lemma small_topology_eval:
  "tp_producers small_topology = [\<lparr>pd_id = 7, pd_incarnation = 1, pd_state = PS_Active, pd_endpoint = []\<rparr>]"
  "tp_active_producers small_topology = [7]" "tp_partition_count small_topology = 4" "tp_limits small_topology = default_limits"
  "tp_consumers small_topology = [\<lparr>cs_id = 5, cs_incarnation = 1, cs_state = PS_Active, cs_endpoint = [], cs_pattern = 0\<rparr>]"
  unfolding small_topology_def registered_producer
  by (simp_all add: register_consumer_def check_consumer_registration_def check_selection_def selection_range_def
      mk_topology_def default_limits_def intern_pattern_def selection_items_def rebuild_pattern_order_def
      find_consumer_def lower_bound_def insert_at_def add_consumer_to_pattern_def bump_generation_def Let_def)

lemma small_topology_consumer:
  "\<lparr>cs_id = 5, cs_incarnation = 1, cs_state = PS_Active, cs_endpoint = [], cs_pattern = 0\<rparr> \<in> set (tp_consumers small_topology)"
  by (simp add: small_topology_eval)

lemma default_limits_valid: "limits_validate default_limits = ok_status"
  by (simp add: limits_validate_def default_limits_def)

section \<open>Properties\<close>



text \<open>
  C33. The planned edge count is the number of required deliveries: pairs of a partition and a
  non-withdrawn consumer whose selection covers it. The 64-bit count never overflows.
\<close>

theorem planned_edges_exact:
  assumes "topology_step\<^sup>*\<^sup>* (mk_topology sh sg n l) t"
  shows "\<exists>count. planned_edge_count t = Inr count \<and> unat count = card (required_edges t)"
  using planned_edge_count_card [OF topology_reachable_inv [OF assms]]
    required_edges_bound [OF topology_reachable_inv [OF assms]]
  by (auto simp: unat_of_nat_u64)

theorem planned_edges_exact_witness:
  "\<exists>count. planned_edge_count small_topology = Inr count \<and> unat count = card (required_edges small_topology)"
  by (rule planned_edges_exact [OF small_topology_reached])

text \<open>
  The consumers a partition is delivered to are listed exactly once each, and fan-out,
  computed from the pattern table alone, is their number.
\<close>

theorem covering_consumers_exact:
  assumes "topology_step\<^sup>*\<^sup>* (mk_topology sh sg n l) t" "part < ucast (tp_partition_count t)"
  shows "set (covering_consumers t part) = required_consumers t part \<and> distinct (covering_consumers t part) \<and>
    covering_consumer_count t part = card (required_consumers t part) \<and>
    fan_out t part = Inr (word_of_nat (length (covering_consumers t part)))"
proof -
  note i = topology_reachable_inv [OF assms(1)]
  note c = covering_consumers_props [OF i assms(2)]
  show ?thesis using c fan_out_card [OF i assms(2)] distinct_card [OF c(2)] by simp
qed

theorem covering_consumers_exact_witness: "set (covering_consumers small_topology 1) = required_consumers small_topology 1"
  using covering_consumers_exact [OF small_topology_reached, of 1] by (simp add: small_topology_eval)

text \<open>
  The closed-form fan-in of a consumer is the number of distinct producers that own a
  partition the consumer selects.
\<close>

theorem fan_in_exact:
  assumes "topology_step\<^sup>*\<^sup>* (mk_topology sh sg n l) t" "record \<in> set (tp_consumers t)"
  shows "fan_in t (cs_id record) = Inr (word_of_nat (card (serving_owners t (tp_pattern t (cs_pattern record)))))"
  using fan_in_card [OF topology_reachable_inv [OF assms(1)] assms(2)] .

theorem fan_in_exact_witness:
  "fan_in small_topology 5 = Inr (word_of_nat (card (serving_owners small_topology (tp_pattern small_topology 0))))"
  using fan_in_exact [OF small_topology_reached small_topology_consumer] by simp

text \<open>
  Ownership is a total function of the active producers: each partition of the shuffle has
  an owner exactly when some producer is active, the owner is an active producer, and it is
  the one at the partition's residue in the ascending list.
\<close>

theorem ownership_exact:
  assumes "topology_step\<^sup>*\<^sup>* (mk_topology sh sg n l) t" "part < ucast (tp_partition_count t)"
    and "tp_active_producers t \<noteq> []"
  shows "owner_of t part = Inr (tp_active_producers t ! (unat part mod length (tp_active_producers t))) \<and>
    distinct (tp_active_producers t) \<and>
    set (tp_active_producers t) = pd_id ` {record \<in> set (tp_producers t). pd_state record = PS_Active}"
proof -
  note i = topology_reachable_inv [OF assms(1)]
  show ?thesis
    using owner_of_eq [OF i assms(2,3)] active_producers_props(1,3) [OF i] by auto
qed

theorem ownership_exact_witness: "owner_of small_topology 3 = Inr 7"
  using ownership_exact [OF small_topology_reached, of 3] by (simp add: small_topology_eval)

text \<open>
  The checks that precede a durable registration decide it: each mutation succeeds or fails
  exactly as its check does, and a refused mutation leaves the topology unchanged.
\<close>

theorem topology_checks_decide:
  "fst (register_producer pid inc ep t) = check_producer_registration t pid inc ep \<and>
   fst (register_consumer cid inc ep s t) = check_consumer_registration t cid inc ep s \<and>
   fst (set_producer_state pid inc st t) = check_participant_state t PK_Producer pid inc st \<and>
   fst (set_consumer_state cid inc st t) = check_participant_state t PK_Consumer cid inc st \<and>
   (is_ok (fst (register_producer pid inc ep t)) \<or> snd (register_producer pid inc ep t) = t) \<and>
   (is_ok (fst (register_consumer cid inc ep s t)) \<or> snd (register_consumer cid inc ep s t) = t) \<and>
   (is_ok (fst (set_producer_state pid inc st t)) \<or> snd (set_producer_state pid inc st t) = t) \<and>
   (is_ok (fst (set_consumer_state cid inc st t)) \<or> snd (set_consumer_state cid inc st t) = t)"
  by (simp add: register_producer_status [symmetric] register_consumer_status [symmetric]
      set_producer_state_status [symmetric] set_consumer_state_status [symmetric])
    (auto simp: is_ok_def refused_unchanged split: sum.split)

text \<open>
  The topology generation identifies the topology: every mutation of a reachable topology
  either changes nothing or moves to the next generation.
\<close>

theorem topology_generation_advances:
  assumes "topology_step\<^sup>*\<^sup>* (mk_topology sh sg n l) t" "topology_step t t'"
  shows "t' = t \<or> tp_generation t' = id_next (tp_generation t)"
  using topology_step_generation [OF assms(2) topology_reachable_inv [OF assms(1)]] .

theorem topology_generation_advances_witness:
  "snd (set_producer_state 7 1 PS_Failed small_topology) = small_topology \<or>
   tp_generation (snd (set_producer_state 7 1 PS_Failed small_topology)) = id_next (tp_generation small_topology)"
  by (rule topology_generation_advances [OF small_topology_reached step_producer_state])

text \<open>
  C36. A restarted producer fences its previous life: once an incarnation is registered, a state
  change that names any other incarnation is refused as stale.
\<close>

theorem producer_incarnation_fences:
  assumes "topology_step\<^sup>*\<^sup>* (mk_topology sh sg n l) t"
    and "register_producer pid inc ep t = (ok_status, t')" "inc' \<noteq> inc"
  shows "set_producer_state pid inc' st t' = (Inl StaleIncarnation, t')"
proof -
  have "check_participant_state t' PK_Producer pid inc' st = Inl StaleIncarnation"
    using register_producer_supersedes [OF topology_reachable_inv [OF assms(1)] _ assms(3), of pid ep] assms(2) by simp
  then show ?thesis by (simp add: set_producer_state_def)
qed

theorem producer_incarnation_fences_witness:
  "set_producer_state 7 1 PS_Active (snd (register_producer 7 2 [] small_topology)) =
     (Inl StaleIncarnation, snd (register_producer 7 2 [] small_topology))"
proof -
  have "fst (register_producer 7 2 [] small_topology) = ok_status"
    by (simp add: register_producer_status check_producer_registration_def small_topology_eval default_limits_def
        find_producer_def lower_bound_def)
  then show ?thesis
    by (intro producer_incarnation_fences [OF small_topology_reached, where inc = 2 and ep = "[]"]) (auto intro: prod_eqI)
qed

text \<open>
  Interning by canonical key is sound: two well-formed selections with the same key have the
  same kind and cover the same partitions, so sharing a pattern never changes a selection.
\<close>

theorem canonical_key_faithful:
  assumes "canonical_key s = canonical_key s'" "selection_wf n s" "selection_wf n s'"
  shows "ps_kind s = ps_kind s' \<and> selection_covers s = selection_covers s'"
  using assms by (rule canonical_key_covers)

theorem canonical_key_faithful_witness:
  "selection_covers (selection_range 0 2) = selection_covers ((selection_range 0 2)\<lparr>ps_list := [9]\<rparr>)"
  using canonical_key_faithful [of "selection_range 0 2" "(selection_range 0 2)\<lparr>ps_list := [9]\<rparr>" 4]
  by (simp add: selection_range_def canonical_key_def selection_wf_def)

end
