(* ===== verification/Fabric_Records.thy ===== *)
theory Fabric_Records
  imports Fabric_Ledger Fabric_Manifest Fabric_Topology
begin

text \<open>
  The durable record vocabulary of the coordinator (\<open>records.hpp\<close>, \<open>records.cpp\<close>): the six
  record kinds with their tags, the encoders and the bounded decoders.

  \<open>ManifestRecord\<close> holds nothing but its manifest and is modelled as one. Decoders take the
  limits they are given beside those of the reader, as in the sources. The enumerations travel
  as numbers; \<open>x_value\<close> is the cast to the number and \<open>x_of\<close> the checked cast back.

  Lemmas: every record kind interprets the codec locales, and so does the dispatch on the tag.
\<close>

section \<open>Vocabulary\<close>

datatype record_kind = RK_EpochAdvanced | RK_ShuffleState | RK_Participant | RK_Manifest | RK_Commit | RK_Failure

fun record_kind_value :: "record_kind \<Rightarrow> u16" where
  "record_kind_value RK_EpochAdvanced = 1"
| "record_kind_value RK_ShuffleState = 2"
| "record_kind_value RK_Participant = 3"
| "record_kind_value RK_Manifest = 4"
| "record_kind_value RK_Commit = 5"
| "record_kind_value RK_Failure = 6"

fun record_kind_to_string :: "record_kind \<Rightarrow> string" where
  "record_kind_to_string RK_EpochAdvanced = ''EpochAdvanced''"
| "record_kind_to_string RK_ShuffleState = ''ShuffleState''"
| "record_kind_to_string RK_Participant = ''Participant''"
| "record_kind_to_string RK_Manifest = ''Manifest''"
| "record_kind_to_string RK_Commit = ''Commit''"
| "record_kind_to_string RK_Failure = ''Failure''"

datatype shuffle_state = SS_Closed | SS_Open | SS_Cancelling | SS_Cancelled | SS_Completed | SS_Failed

fun shuffle_state_value :: "shuffle_state \<Rightarrow> u16" where
  "shuffle_state_value SS_Closed = 0"
| "shuffle_state_value SS_Open = 1"
| "shuffle_state_value SS_Cancelling = 2"
| "shuffle_state_value SS_Cancelled = 3"
| "shuffle_state_value SS_Completed = 4"
| "shuffle_state_value SS_Failed = 5"

fun shuffle_state_to_string :: "shuffle_state \<Rightarrow> string" where
  "shuffle_state_to_string SS_Closed = ''Closed''"
| "shuffle_state_to_string SS_Open = ''Open''"
| "shuffle_state_to_string SS_Cancelling = ''Cancelling''"
| "shuffle_state_to_string SS_Cancelled = ''Cancelled''"
| "shuffle_state_to_string SS_Completed = ''Completed''"
| "shuffle_state_to_string SS_Failed = ''Failed''"

fun participant_kind_value :: "participant_kind \<Rightarrow> u8" where
  "participant_kind_value PK_Producer = 1"
| "participant_kind_value PK_Consumer = 2"

fun participant_state_value :: "participant_state \<Rightarrow> u8" where
  "participant_state_value PS_Pending = 0"
| "participant_state_value PS_Active = 1"
| "participant_state_value PS_Suspect = 2"
| "participant_state_value PS_Failed = 3"
| "participant_state_value PS_Withdrawn = 4"

fun selection_kind_value :: "selection_kind \<Rightarrow> u8" where
  "selection_kind_value SK_All = 0"
| "selection_kind_value SK_Range = 1"
| "selection_kind_value SK_List = 2"

text \<open>The casts back from the wire: \<open>None\<close> is the value the decoder refuses.\<close>

definition record_kind_of :: "u16 \<Rightarrow> record_kind option" where
  "record_kind_of raw =
     (if raw = 1 then Some RK_EpochAdvanced else if raw = 2 then Some RK_ShuffleState
      else if raw = 3 then Some RK_Participant else if raw = 4 then Some RK_Manifest
      else if raw = 5 then Some RK_Commit else if raw = 6 then Some RK_Failure else None)"

definition shuffle_state_of :: "u16 \<Rightarrow> shuffle_state option" where
  "shuffle_state_of raw =
     (if raw > 5 then None
      else if raw = 0 then Some SS_Closed else if raw = 1 then Some SS_Open
      else if raw = 2 then Some SS_Cancelling else if raw = 3 then Some SS_Cancelled
      else if raw = 4 then Some SS_Completed else Some SS_Failed)"

definition participant_kind_of :: "u8 \<Rightarrow> participant_kind option" where
  "participant_kind_of raw =
     (if raw = 1 then Some PK_Producer else if raw = 2 then Some PK_Consumer else None)"

definition participant_state_of :: "u8 \<Rightarrow> participant_state option" where
  "participant_state_of raw =
     (if raw > 4 then None
      else if raw = 0 then Some PS_Pending else if raw = 1 then Some PS_Active
      else if raw = 2 then Some PS_Suspect else if raw = 3 then Some PS_Failed else Some PS_Withdrawn)"

definition selection_kind_of :: "u8 \<Rightarrow> selection_kind option" where
  "selection_kind_of raw =
     (if raw > 2 then None
      else if raw = 0 then Some SK_All else if raw = 1 then Some SK_Range else Some SK_List)"

section \<open>Records\<close>

record epoch_record =
  er_epoch :: u64
  er_opened_at :: tick_id

record shuffle_state_record =
  sr_shuffle :: shuffle_id
  sr_generation :: shuffle_generation
  sr_partition_count :: u32
  sr_policy :: policy_envelope
  sr_state :: shuffle_state
  sr_reason :: error_code
  sr_at :: tick_id

record participant_record =
  pa_kind :: participant_kind
  pa_id :: u64
  pa_incarnation :: incarnation_id
  pa_state :: participant_state
  pa_endpoint :: bytes
  pa_selection :: partition_selection
  pa_at :: tick_id

record commit_record_durable =
  cm_request :: commit_request
  cm_at :: tick_id

record failure_record_durable =
  fd_key :: edge_key
  fd_code :: error_code
  fd_permanent :: bool
  fd_attempts :: u32
  fd_recorded_at :: tick_id
  fd_ready_at :: tick_id

section \<open>Encoding and decoding\<close>

definition write_selection :: "partition_selection \<Rightarrow> bytes" where
  "write_selection selection =
     put_u8 (selection_kind_value (ps_kind selection)) @
     put_u64 (ps_begin selection) @
     put_u64 (ps_end selection) @
     put_u32 (word_of_nat (length (ps_list selection))) @
     concat (map put_u64 (ps_list selection))"

text \<open>\<open>std::is_sorted\<close>, \<open>std::adjacent_find\<close> and the emptiness rule of the list.\<close>

definition check_selection_list :: "partition_selection \<Rightarrow> partition_selection result" where
  "check_selection_list selection =
     (if ps_kind selection = SK_List then
        (if ps_list selection = [] \<or> \<not> sorted (ps_list selection) \<or> adjacent_equal (ps_list selection)
         then Inl StateCorrupt else Inr selection)
      else if ps_list selection \<noteq> [] then Inl StateCorrupt
      else Inr selection)"

definition read_selection :: "limits \<Rightarrow> partition_selection result reader" where
  "read_selection l = do {
     raw \<leftarrow> rd_u8;
     case selection_kind_of raw of
       None \<Rightarrow> ret (Inl StateImpossible)
     | Some kind \<Rightarrow> do {
         first \<leftarrow> rd_u64;
         limit \<leftarrow> rd_u64;
         count \<leftarrow> rd_collection_count (max_selection_items l);
         rd_check (do {
           parts \<leftarrow> rd_many (unat count) rd_u64;
           rd_check (ret (check_selection_list
             \<lparr>ps_kind = kind, ps_begin = first, ps_end = limit, ps_list = parts\<rparr>)) }) } }"

definition write_kind :: "record_kind \<Rightarrow> bytes" where
  "write_kind kind = put_u16 (record_kind_value kind)"

definition read_kind :: "record_kind result reader" where
  "read_kind = do {
     raw \<leftarrow> rd_u16;
     rd_check (case record_kind_of raw of
       None \<Rightarrow> ret (Inl StateCorrupt)
     | Some kind \<Rightarrow> ret (Inr kind)) }"

definition peek_record_kind :: "record_kind result reader" where
  "peek_record_kind = read_kind"

definition write_commit_request :: "commit_request \<Rightarrow> bytes" where
  "write_commit_request request =
     put_u64 (ek_partition (rq_edge request)) @
     put_u64 (ek_partition_generation (rq_edge request)) @
     put_u64 (ek_consumer (rq_edge request)) @
     put_u64 (rq_attempt request) @
     put_u64 (rq_wave request) @
     put_u64 (rq_shuffle_generation request) @
     put_u64 (rq_topology_generation request) @
     put_u64 (rq_policy_generation request) @
     put_u64 (rq_producer request) @
     put_u64 (rq_producer_incarnation request) @
     put_u64 (rq_consumer request) @
     put_u64 (rq_consumer_incarnation request) @
     put_digest (rq_manifest_digest request) @
     put_digest (rq_observed_partition_digest request) @
     put_bool (rq_integrity_verified request) @
     put_u64 (rq_bytes request) @
     put_u32 (word_of_nat (length (rq_observed_chunk_digests request))) @
     concat (map put_digest (rq_observed_chunk_digests request))"

definition check_commit_consumer :: "commit_request \<Rightarrow> commit_request result" where
  "check_commit_consumer request =
     (if ek_consumer (rq_edge request) \<noteq> rq_consumer request then Inl StateCorrupt else Inr request)"

definition read_commit_request :: "limits \<Rightarrow> commit_request result reader" where
  "read_commit_request l = do {
     part \<leftarrow> rd_u64;
     partition_generation \<leftarrow> rd_u64;
     edge_consumer \<leftarrow> rd_u64;
     attempt \<leftarrow> rd_u64;
     wave \<leftarrow> rd_u64;
     shuffle_generation \<leftarrow> rd_u64;
     topology_generation \<leftarrow> rd_u64;
     policy_generation \<leftarrow> rd_u64;
     producer \<leftarrow> rd_u64;
     producer_incarnation \<leftarrow> rd_u64;
     consumer \<leftarrow> rd_u64;
     consumer_incarnation \<leftarrow> rd_u64;
     manifest_digest \<leftarrow> rd_digest;
     observed_partition_digest \<leftarrow> rd_digest;
     integrity_verified \<leftarrow> rd_boolean;
     n \<leftarrow> rd_u64;
     chunks \<leftarrow> rd_collection_count (max_chunks_per_partition l);
     rd_check (do {
       digests \<leftarrow> rd_many (unat chunks) rd_digest;
       rd_check (ret (check_commit_consumer
         \<lparr>rq_edge = EdgeKey part partition_generation edge_consumer, rq_attempt = attempt, rq_wave = wave,
          rq_shuffle_generation = shuffle_generation, rq_topology_generation = topology_generation,
          rq_policy_generation = policy_generation, rq_producer = producer,
          rq_producer_incarnation = producer_incarnation, rq_consumer = consumer,
          rq_consumer_incarnation = consumer_incarnation, rq_manifest_digest = manifest_digest,
          rq_observed_partition_digest = observed_partition_digest, rq_observed_chunk_digests = digests,
          rq_bytes = n, rq_integrity_verified = integrity_verified\<rparr>)) }) }"

definition encode_epoch :: "epoch_record \<Rightarrow> bytes" where
  "encode_epoch record =
     write_kind RK_EpochAdvanced @ put_u64 (er_epoch record) @ put_u64 (er_opened_at record)"

definition decode_epoch :: "epoch_record result reader" where
  "decode_epoch = do {
     epoch \<leftarrow> rd_u64;
     opened_at \<leftarrow> rd_u64;
     rd_check (ret (Inr \<lparr>er_epoch = epoch, er_opened_at = opened_at\<rparr>)) }"

definition encode_shuffle_state :: "shuffle_state_record \<Rightarrow> bytes" where
  "encode_shuffle_state record =
     write_kind RK_ShuffleState @
     put_u64 (sr_shuffle record) @
     put_u64 (sr_generation record) @
     put_u32 (sr_partition_count record) @
     put_u16 (shuffle_state_value (sr_state record)) @
     put_u16 (code_value (sr_reason record)) @
     put_u64 (sr_at record) @
     encode_policy (sr_policy record)"

definition decode_shuffle_state :: "shuffle_state_record result reader" where
  "decode_shuffle_state = do {
     shuffle \<leftarrow> rd_u64;
     generation \<leftarrow> rd_u64;
     partition_count \<leftarrow> rd_u32;
     raw_state \<leftarrow> rd_u16;
     raw_reason \<leftarrow> rd_u16;
     at \<leftarrow> rd_u64;
     rd_check (case shuffle_state_of raw_state of
       None \<Rightarrow> ret (Inl StateImpossible)
     | Some state \<Rightarrow>
         rd_sub decode_policy (\<lambda>policy.
           if state = SS_Open \<and> ErrorCode raw_reason \<noteq> Ok then ret (Inl StateImpossible)
           else ret (Inr \<lparr>sr_shuffle = shuffle, sr_generation = generation,
             sr_partition_count = partition_count, sr_policy = policy, sr_state = state,
             sr_reason = ErrorCode raw_reason, sr_at = at\<rparr>))) }"

definition encode_participant :: "participant_record \<Rightarrow> bytes" where
  "encode_participant record =
     write_kind RK_Participant @
     put_u8 (participant_kind_value (pa_kind record)) @
     put_u64 (pa_id record) @
     put_u64 (pa_incarnation record) @
     put_u8 (participant_state_value (pa_state record)) @
     put_string (pa_endpoint record) @
     write_selection (pa_selection record) @
     put_u64 (pa_at record)"

definition decode_participant :: "limits \<Rightarrow> participant_record result reader" where
  "decode_participant l = do {
     raw_kind \<leftarrow> rd_u8;
     pid \<leftarrow> rd_u64;
     incarnation \<leftarrow> rd_u64;
     raw_state \<leftarrow> rd_u8;
     endpoint \<leftarrow> rd_string (max_endpoint_bytes l);
     rd_check (case participant_kind_of raw_kind of
       None \<Rightarrow> ret (Inl StateImpossible)
     | Some kind \<Rightarrow>
        (case participant_state_of raw_state of
           None \<Rightarrow> ret (Inl StateImpossible)
         | Some state \<Rightarrow>
             rd_sub (read_selection l) (\<lambda>selection. do {
               at \<leftarrow> rd_u64;
               rd_check (ret (Inr \<lparr>pa_kind = kind, pa_id = pid, pa_incarnation = incarnation,
                 pa_state = state, pa_endpoint = endpoint, pa_selection = selection, pa_at = at\<rparr>)) }))) }"

definition encode_manifest_record :: "partition_manifest \<Rightarrow> limits \<Rightarrow> bytes result" where
  "encode_manifest_record manifest l =
     (case encode_manifest manifest l of
        Inl e \<Rightarrow> Inl e
      | Inr encoded \<Rightarrow> Inr (write_kind RK_Manifest @ put_byte_string encoded))"

definition decode_manifest_record :: "limits \<Rightarrow> partition_manifest result reader" where
  "decode_manifest_record l = do {
     data \<leftarrow> rd_bytes (max_message_payload_bytes l);
     rd_check (ret (decode_manifest data l)) }"

definition encode_commit :: "commit_record_durable \<Rightarrow> bytes" where
  "encode_commit record =
     write_kind RK_Commit @ write_commit_request (cm_request record) @ put_u64 (cm_at record)"

definition decode_commit :: "limits \<Rightarrow> commit_record_durable result reader" where
  "decode_commit l =
     rd_sub (read_commit_request l) (\<lambda>request. do {
       at \<leftarrow> rd_u64;
       rd_check (ret (Inr \<lparr>cm_request = request, cm_at = at\<rparr>)) })"

definition encode_failure :: "failure_record_durable \<Rightarrow> bytes" where
  "encode_failure record =
     write_kind RK_Failure @
     put_u64 (ek_partition (fd_key record)) @
     put_u64 (ek_partition_generation (fd_key record)) @
     put_u64 (ek_consumer (fd_key record)) @
     put_u16 (code_value (fd_code record)) @
     put_bool (fd_permanent record) @
     put_u32 (fd_attempts record) @
     put_u64 (fd_recorded_at record) @
     put_u64 (fd_ready_at record)"

definition decode_failure :: "failure_record_durable result reader" where
  "decode_failure = do {
     part \<leftarrow> rd_u64;
     partition_generation \<leftarrow> rd_u64;
     consumer \<leftarrow> rd_u64;
     code \<leftarrow> rd_u16;
     permanent \<leftarrow> rd_boolean;
     attempts \<leftarrow> rd_u32;
     recorded_at \<leftarrow> rd_u64;
     ready_at \<leftarrow> rd_u64;
     rd_check (
       if code = 0 \<or> code > code_value TooManyTrackedEdges then ret (Inl StateImpossible)
       else ret (Inr \<lparr>fd_key = EdgeKey part partition_generation consumer, fd_code = ErrorCode code,
         fd_permanent = permanent, fd_attempts = attempts, fd_recorded_at = recorded_at,
         fd_ready_at = ready_at\<rparr>)) }"

section \<open>Specification\<close>

text \<open>
  The union of the records and the dispatch on the tag, as \<open>Coordinator::apply_record\<close> makes
  it: \<open>record_bytes\<close> is what the matching encoder writes.
\<close>

datatype durable_record =
    DR_Epoch epoch_record
  | DR_Shuffle shuffle_state_record
  | DR_Participant participant_record
  | DR_Manifest partition_manifest
  | DR_Commit commit_record_durable
  | DR_Failure failure_record_durable

definition decode_record :: "limits \<Rightarrow> durable_record result reader" where
  "decode_record l = rd_sub peek_record_kind (\<lambda>kind. case kind of
       RK_EpochAdvanced \<Rightarrow> rd_sub decode_epoch (\<lambda>r. ret (Inr (DR_Epoch r)))
     | RK_ShuffleState \<Rightarrow> rd_sub decode_shuffle_state (\<lambda>r. ret (Inr (DR_Shuffle r)))
     | RK_Participant \<Rightarrow> rd_sub (decode_participant l) (\<lambda>r. ret (Inr (DR_Participant r)))
     | RK_Manifest \<Rightarrow> rd_sub (decode_manifest_record l) (\<lambda>r. ret (Inr (DR_Manifest r)))
     | RK_Commit \<Rightarrow> rd_sub (decode_commit l) (\<lambda>r. ret (Inr (DR_Commit r)))
     | RK_Failure \<Rightarrow> rd_sub decode_failure (\<lambda>r. ret (Inr (DR_Failure r))))"

definition selection_durable :: "partition_selection \<Rightarrow> bool" where
  "selection_durable s \<longleftrightarrow>
     (if ps_kind s = SK_List then ps_list s \<noteq> [] \<and> sorted_wrt (<) (ps_list s) else ps_list s = [])"

definition selection_admitted :: "limits \<Rightarrow> limits \<Rightarrow> partition_selection \<Rightarrow> bool" where
  "selection_admitted l L s \<longleftrightarrow> 8 \<le> max_allocation_bytes L \<and> selection_durable s \<and>
     length (ps_list s) \<le> unat (max_selection_items l) \<and> length (ps_list s) \<le> unat (max_collection_items L)"

definition request_admitted :: "limits \<Rightarrow> limits \<Rightarrow> commit_request \<Rightarrow> bool" where
  "request_admitted l L q \<longleftrightarrow> 32 \<le> max_allocation_bytes L \<and> ek_consumer (rq_edge q) = rq_consumer q \<and>
     digest_wf (rq_manifest_digest q) \<and> digest_wf (rq_observed_partition_digest q) \<and>
     (\<forall>d \<in> set (rq_observed_chunk_digests q). digest_wf d) \<and>
     length (rq_observed_chunk_digests q) \<le> unat (max_chunks_per_partition l) \<and>
     length (rq_observed_chunk_digests q) \<le> unat (max_collection_items L)"

definition participant_admitted :: "limits \<Rightarrow> limits \<Rightarrow> participant_record \<Rightarrow> bool" where
  "participant_admitted l L r \<longleftrightarrow>
     text_admitted (max_endpoint_bytes l) L (pa_endpoint r) \<and> selection_admitted l L (pa_selection r)"

definition manifest_record_admitted :: "limits \<Rightarrow> limits \<Rightarrow> partition_manifest \<Rightarrow> bool" where
  "manifest_record_admitted l L m \<longleftrightarrow> validate_manifest m l = ok_status \<and> manifest_admitted l m \<and>
     bytes_admitted (max_message_payload_bytes l) L (manifest_bytes m)"

definition failure_admitted :: "limits \<Rightarrow> failure_record_durable \<Rightarrow> bool" where
  "failure_admitted L r \<longleftrightarrow> 8 \<le> max_allocation_bytes L \<and> fd_code r \<noteq> Ok \<and>
     code_value (fd_code r) \<le> code_value TooManyTrackedEdges"

definition epoch_body :: "epoch_record \<Rightarrow> bytes" where
  "epoch_body r = put_u64 (er_epoch r) @ put_u64 (er_opened_at r)"

definition participant_body :: "participant_record \<Rightarrow> bytes" where
  "participant_body r =
     put_u8 (participant_kind_value (pa_kind r)) @ put_u64 (pa_id r) @ put_u64 (pa_incarnation r) @
     put_u8 (participant_state_value (pa_state r)) @ put_string (pa_endpoint r) @
     write_selection (pa_selection r) @ put_u64 (pa_at r)"

definition commit_body :: "commit_record_durable \<Rightarrow> bytes" where
  "commit_body r = write_commit_request (cm_request r) @ put_u64 (cm_at r)"

definition failure_body :: "failure_record_durable \<Rightarrow> bytes" where
  "failure_body r =
     put_u64 (ek_partition (fd_key r)) @ put_u64 (ek_partition_generation (fd_key r)) @
     put_u64 (ek_consumer (fd_key r)) @ put_u16 (code_value (fd_code r)) @ put_bool (fd_permanent r) @
     put_u32 (fd_attempts r) @ put_u64 (fd_recorded_at r) @ put_u64 (fd_ready_at r)"

definition shuffle_state_admitted :: "limits \<Rightarrow> shuffle_state_record \<Rightarrow> bool" where
  "shuffle_state_admitted L r \<longleftrightarrow> 8 \<le> max_allocation_bytes L \<and> validate_policy (sr_policy r) = ok_status \<and>
     (sr_state r = SS_Open \<longrightarrow> sr_reason r = Ok)"

definition shuffle_state_body :: "shuffle_state_record \<Rightarrow> bytes" where
  "shuffle_state_body r =
     put_u64 (sr_shuffle r) @ put_u64 (sr_generation r) @ put_u32 (sr_partition_count r) @
     put_u16 (shuffle_state_value (sr_state r)) @ put_u16 (code_value (sr_reason r)) @ put_u64 (sr_at r) @
     encode_policy (sr_policy r)"

fun record_tag :: "durable_record \<Rightarrow> record_kind" where
  "record_tag (DR_Epoch r) = RK_EpochAdvanced"
| "record_tag (DR_Shuffle r) = RK_ShuffleState"
| "record_tag (DR_Participant r) = RK_Participant"
| "record_tag (DR_Manifest r) = RK_Manifest"
| "record_tag (DR_Commit r) = RK_Commit"
| "record_tag (DR_Failure r) = RK_Failure"

fun record_body :: "durable_record \<Rightarrow> bytes" where
  "record_body (DR_Epoch r) = epoch_body r"
| "record_body (DR_Shuffle r) = shuffle_state_body r"
| "record_body (DR_Participant r) = participant_body r"
| "record_body (DR_Manifest r) = put_byte_string (manifest_bytes r)"
| "record_body (DR_Commit r) = commit_body r"
| "record_body (DR_Failure r) = failure_body r"

definition record_bytes :: "durable_record \<Rightarrow> bytes" where
  "record_bytes r = write_kind (record_tag r) @ record_body r"

fun record_admitted :: "limits \<Rightarrow> limits \<Rightarrow> durable_record \<Rightarrow> bool" where
  "record_admitted l L (DR_Epoch r) \<longleftrightarrow> 8 \<le> max_allocation_bytes L"
| "record_admitted l L (DR_Shuffle r) \<longleftrightarrow> shuffle_state_admitted L r"
| "record_admitted l L (DR_Participant r) \<longleftrightarrow> participant_admitted l L r"
| "record_admitted l L (DR_Manifest r) \<longleftrightarrow> manifest_record_admitted l L r"
| "record_admitted l L (DR_Commit r) \<longleftrightarrow> request_admitted l L (cm_request r)"
| "record_admitted l L (DR_Failure r) \<longleftrightarrow> failure_admitted L r"

definition sample_failure :: failure_record_durable where
  "sample_failure = \<lparr>fd_key = EdgeKey 0 1 5, fd_code = ConnectionFailure, fd_permanent = False, fd_attempts = 1,
     fd_recorded_at = 3, fd_ready_at = 4\<rparr>"

section \<open>Lemmas: enumerations\<close>

lemma record_kind_of_value [simp]: "record_kind_of (record_kind_value k) = Some k"
  by (cases k) (simp_all add: record_kind_of_def)

lemma record_kind_of_Some: "record_kind_of raw = Some k \<longleftrightarrow> raw = record_kind_value k"
  by (cases k) (auto simp: record_kind_of_def)

lemma participant_kind_of_Some: "participant_kind_of raw = Some k \<longleftrightarrow> raw = participant_kind_value k"
  by (cases k) (auto simp: participant_kind_of_def)

lemma u8_small: "(raw :: u8) \<le> 4 \<longleftrightarrow> raw = 0 \<or> raw = 1 \<or> raw = 2 \<or> raw = 3 \<or> raw = 4"
proof -
  have "(raw :: u8) \<le> 4 \<longleftrightarrow> unat raw \<le> 4" by (simp add: word_le_nat_alt)
  also have "\<dots> \<longleftrightarrow> unat raw = 0 \<or> unat raw = 1 \<or> unat raw = 2 \<or> unat raw = 3 \<or> unat raw = 4" by linarith
  finally show ?thesis by (simp add: word_unat_eq_iff)
qed

lemma u16_small: "(raw :: u16) \<le> 5 \<longleftrightarrow> raw = 0 \<or> raw = 1 \<or> raw = 2 \<or> raw = 3 \<or> raw = 4 \<or> raw = 5"
proof -
  have "(raw :: u16) \<le> 5 \<longleftrightarrow> unat raw \<le> 5" by (simp add: word_le_nat_alt)
  also have "\<dots> \<longleftrightarrow> unat raw = 0 \<or> unat raw = 1 \<or> unat raw = 2 \<or> unat raw = 3 \<or> unat raw = 4 \<or> unat raw = 5"
    by linarith
  finally show ?thesis by (simp add: word_unat_eq_iff)
qed

lemma u8_le_2: "(raw :: u8) \<le> 2 \<longleftrightarrow> raw = 0 \<or> raw = 1 \<or> raw = 2"
  using u8_small [of raw] by (auto simp: word_le_nat_alt)

lemma participant_state_of_Some: "participant_state_of raw = Some k \<longleftrightarrow> raw = participant_state_value k"
  by (cases k) (auto simp: participant_state_of_def not_less u8_small split: if_splits)

lemma selection_kind_of_Some: "selection_kind_of raw = Some k \<longleftrightarrow> raw = selection_kind_value k"
  by (cases k) (auto simp: selection_kind_of_def not_less u8_le_2 split: if_splits)

lemma shuffle_state_of_Some: "shuffle_state_of raw = Some k \<longleftrightarrow> raw = shuffle_state_value k"
  by (cases k) (auto simp: shuffle_state_of_def not_less u16_small split: if_splits)

lemmas enum_of_Some [simp] = record_kind_of_Some participant_kind_of_Some participant_state_of_Some
  selection_kind_of_Some shuffle_state_of_Some

lemma enum_of_value [simp]:
  "participant_kind_of (participant_kind_value k) = Some k"
  "participant_state_of (participant_state_value st) = Some st"
  "selection_kind_of (selection_kind_value sk) = Some sk"
  "shuffle_state_of (shuffle_state_value ss) = Some ss"
  by simp_all

section \<open>Lemmas: codecs\<close>

lemma alloc_8: "8 \<le> max_allocation_bytes L \<Longrightarrow>
  4 \<le> max_allocation_bytes L \<and> 2 \<le> max_allocation_bytes L \<and> 1 \<le> max_allocation_bytes L"
  by (simp add: word_le_nat_alt)

lemma sorted_not_adjacent: "sorted xs \<and> \<not> adjacent_equal xs \<longleftrightarrow> sorted_wrt (<) (xs :: 'a::linorder list)"
  by (induction xs rule: adjacent_equal.induct) (auto simp: order.strict_iff_order)

lemma check_selection_list_iff: "check_selection_list s = Inr t \<longleftrightarrow> t = s \<and> selection_durable s"
  using sorted_not_adjacent [of "ps_list s"] by (auto simp: check_selection_list_def selection_durable_def)

lemma check_commit_consumer_iff:
  "check_commit_consumer q = Inr q' \<longleftrightarrow> q' = q \<and> ek_consumer (rq_edge q) = rq_consumer q"
  by (auto simp: check_commit_consumer_def)

lemma decodes_ok_result:
  "(\<And>v. x = Inr v \<Longrightarrow> P v []) \<Longrightarrow> decodes_ok L (ret x) P"
  by (cases x) (auto intro: decodes_ok_value)

interpretation selection: record_codec write_selection "read_selection l" "selection_admitted l" for l
proof
  fix L s
  assume a: "selection_admitted l L s"
  then have alloc: "8 \<le> max_allocation_bytes L" "4 \<le> max_allocation_bytes L" "1 \<le> max_allocation_bytes L"
    using alloc_8 [of L] by (auto simp: selection_admitted_def)
  have len: "length (ps_list s) < 2 ^ 32" "length (concat (map put_u64 (ps_list s))) = 8 * length (ps_list s)"
    using a unat32_bound [of "max_collection_items L"]
    by (auto simp: selection_admitted_def length_concat comp_def sum_list_triv)
  have parts: "parses L (rd_many (unat (word_of_nat (length (ps_list s)) :: u32)) rd_u64)
      (concat (map put_u64 (ps_list s))) (ps_list s)"
    using u64.parses_many [of "ps_list s" L] alloc len by (simp add: unat_of_length_u32)
  have kind: "selection_kind_of (selection_kind_value (ps_kind s)) = Some (ps_kind s)" by simp
  have ok: "check_selection_list \<lparr>ps_kind = ps_kind s, ps_begin = ps_begin s, ps_end = ps_end s, ps_list = ps_list s\<rparr> = Inr s"
    using a by (simp add: check_selection_list_iff selection_admitted_def selection_durable_def)
  show "parses L (read_selection l) (write_selection s) (Inr s)"
    unfolding read_selection_def write_selection_def
    by (rule u8.parses_step [OF alloc(3)], subst kind, unfold option.case,
        rule u64.parses_step [OF alloc(1)], rule u64.parses_step [OF alloc(1)], rule parses_count)
      (use a len alloc ok in \<open>auto simp: selection_admitted_def
         intro!: parses_check parses_bind [OF parts, where ys = "[]", simplified] parses_value\<close>)
next
  fix L
  have *: "decodes L (case selection_kind_of raw of None \<Rightarrow> ret (Inl StateImpossible) | Some kind \<Rightarrow> k kind) Q"
    if "\<And>kind. raw = selection_kind_value kind \<Longrightarrow> decodes L (k kind) Q" for raw k and Q :: "partition_selection \<Rightarrow> bytes \<Rightarrow> bool"
    using that by (cases "selection_kind_of raw") auto
  show "decodes L (read_selection l) (\<lambda>s xs. xs = write_selection s \<and> selection_admitted l L s)"
    unfolding read_selection_def
    by (rule u8.decodes_step, rule *, (rule u64.decodes_step decodes_count decodes_check decodes_imp_ok
          decodes_bind [OF u64.reads_many] decodes_ok_result)+)
      (auto simp: write_selection_def selection_admitted_def check_selection_list_iff word_le_nat_alt)
qed

lemma length_put_digest: "digest_wf d \<Longrightarrow> length (put_digest d) = 32"
  by (simp add: put_digest_def put_raw_def digest_wf_def)

interpretation request: record_codec write_commit_request "read_commit_request l" "request_admitted l" for l
proof
  fix L q
  assume a: "request_admitted l L q"
  then have alloc: "8 \<le> max_allocation_bytes L" "4 \<le> max_allocation_bytes L" "1 \<le> max_allocation_bytes L" "32 \<le> max_allocation_bytes L"
    using alloc_32 [of L] by (auto simp: request_admitted_def)
  have d: "digest_wf (rq_manifest_digest q) \<and> 32 \<le> max_allocation_bytes L"
    "digest_wf (rq_observed_partition_digest q) \<and> 32 \<le> max_allocation_bytes L"
    using a by (auto simp: request_admitted_def)
  let ?ds = "rq_observed_chunk_digests q"
  have len: "length ?ds < 2 ^ 32" using a unat32_bound [of "max_collection_items L"] by (auto simp: request_admitted_def)
  have "length (concat (map put_digest ?ds)) = 32 * length ?ds"
    using a by (intro length_concat_const) (auto simp: request_admitted_def length_put_digest)
  note len = len this
  have digests: "parses L (rd_many (unat (word_of_nat (length ?ds) :: u32)) rd_digest) (concat (map put_digest ?ds)) ?ds"
    using digest.parses_many [of ?ds L] a len by (simp add: unat_of_length_u32 request_admitted_def)
  have e: "EdgeKey (ek_partition (rq_edge q)) (ek_partition_generation (rq_edge q)) (rq_consumer q) = rq_edge q"
    using a by (cases "rq_edge q") (simp add: request_admitted_def)
  show "parses L (read_commit_request l) (write_commit_request q) (Inr q)"
    unfolding read_commit_request_def write_commit_request_def
    by (rule u64.parses_step [OF alloc(1)] digest.parses_step [OF d(1)] digest.parses_step [OF d(2)]
        boolean.parses_step [OF alloc(3)] parses_count)+
      (use a len alloc in \<open>auto simp: request_admitted_def check_commit_consumer_def e
         intro!: parses_check parses_bind [OF digests, where ys = "[]", simplified] parses_value\<close>)
next
  fix L
  show "decodes L (read_commit_request l) (\<lambda>q xs. xs = write_commit_request q \<and> request_admitted l L q)"
    unfolding read_commit_request_def
    by (rule u64.decodes_step digest.decodes_step boolean.decodes_step decodes_count decodes_check decodes_imp_ok
          decodes_bind [OF digest.reads_many] decodes_ok_result)+
      (auto simp: write_commit_request_def request_admitted_def check_commit_consumer_iff word_le_nat_alt)
qed

interpretation epoch: record_codec epoch_body decode_epoch "\<lambda>L _. 8 \<le> max_allocation_bytes L"
proof
  show "parses L decode_epoch (epoch_body r) (Inr r)" if "8 \<le> max_allocation_bytes L" for L r
    unfolding decode_epoch_def epoch_body_def
    by (rule u64.parses_step [OF that] u64.parses_step [OF that, where ys = "[]", simplified] parses_check parses_value)+ simp
  show "decodes L decode_epoch (\<lambda>r xs. xs = epoch_body r \<and> 8 \<le> max_allocation_bytes L)" for L
    unfolding decode_epoch_def
    by (rule u64.decodes_step decodes_check decodes_ok_value)+ (simp add: epoch_body_def)
qed

interpretation commit_body: record_codec commit_body "decode_commit l" "\<lambda>L r. request_admitted l L (cm_request r)" for l
proof
  show "parses L (decode_commit l) (commit_body r) (Inr r)" if "request_admitted l L (cm_request r)" for L r
    unfolding decode_commit_def commit_body_def
    by (rule request.parses_step [OF that], rule u64.parses_step [where ys = "[]", simplified])
      (use that alloc_32 [of L] in \<open>auto simp: request_admitted_def intro!: parses_check parses_value\<close>)
  show "decodes L (decode_commit l) (\<lambda>r xs. xs = commit_body r \<and> request_admitted l L (cm_request r))" for L
    unfolding decode_commit_def
    by (rule request.decodes_step, (rule u64.decodes_step decodes_check decodes_ok_value decodes_imp_ok)+)
      (simp add: commit_body_def)
qed

interpretation failure_body: record_codec failure_body decode_failure failure_admitted
proof
  fix L r
  assume a: "failure_admitted L r"
  then have alloc: "8 \<le> max_allocation_bytes L" "4 \<le> max_allocation_bytes L" "1 \<le> max_allocation_bytes L" "2 \<le> max_allocation_bytes L"
    using alloc_8 [of L] by (auto simp: failure_admitted_def)
  show "parses L decode_failure (failure_body r) (Inr r)"
    unfolding decode_failure_def failure_body_def
    by (rule u64.parses_step [OF alloc(1)] u16.parses_step [OF alloc(4)] boolean.parses_step [OF alloc(3)]
        u32.parses_step [OF alloc(2)] u64.parses_step [OF alloc(1), where ys = "[]", simplified] parses_check)+
      (use a in \<open>cases "fd_code r"; auto simp: failure_admitted_def intro!: parses_value\<close>)
next
  fix L
  show "decodes L decode_failure (\<lambda>r xs. xs = failure_body r \<and> failure_admitted L r)"
    unfolding decode_failure_def
    by (rule u64.decodes_step u16.decodes_step boolean.decodes_step u32.decodes_step decodes_check decodes_ok_if decodes_ok_error decodes_ok_value)+
      (auto simp: failure_body_def failure_admitted_def not_less)
qed

lemma decodes_ok_case_option:
  "(\<And>v. x = Some v \<Longrightarrow> decodes_ok L (k v) P) \<Longrightarrow> decodes_ok L (case x of None \<Rightarrow> ret (Inl e) | Some v \<Rightarrow> k v) P"
  by (cases x) auto

interpretation participant_body: record_codec participant_body "decode_participant l" "participant_admitted l" for l
proof
  fix L r
  assume a: "participant_admitted l L r"
  then have alloc: "8 \<le> max_allocation_bytes L" "1 \<le> max_allocation_bytes L"
    and s: "selection_admitted l L (pa_selection r)" "text_admitted (max_endpoint_bytes l) L (pa_endpoint r)"
    using alloc_8 [of L] by (auto simp: participant_admitted_def selection_admitted_def)
  have k: "participant_kind_of (participant_kind_value (pa_kind r)) = Some (pa_kind r)"
    "participant_state_of (participant_state_value (pa_state r)) = Some (pa_state r)" by simp_all
  show "parses L (decode_participant l) (participant_body r) (Inr r)"
    unfolding decode_participant_def participant_body_def
    by (rule u8.parses_step [OF alloc(2)] u64.parses_step [OF alloc(1)] utf8_string.parses_step [OF s(2)] parses_check)+
      (subst k, unfold option.case, subst k, unfold option.case, rule selection.parses_step [OF s(1)],
       rule u64.parses_step [OF alloc(1), where ys = "[]", simplified], rule parses_check, rule parses_value, simp)
next
  fix L
  show "decodes L (decode_participant l) (\<lambda>r xs. xs = participant_body r \<and> participant_admitted l L r)"
    unfolding decode_participant_def
    by (rule u8.decodes_step u64.decodes_step utf8_string.decodes_step decodes_check decodes_ok_case_option
        selection.decodes_ok_step decodes_imp_ok decodes_ok_value)+
      (auto simp: participant_body_def participant_admitted_def)
qed

interpretation manifest_record: record_codec "\<lambda>m. put_byte_string (manifest_bytes m)" "decode_manifest_record l"
  "manifest_record_admitted l" for l
proof
  fix L m
  assume a: "manifest_record_admitted l L m"
  then have b: "bytes_admitted (max_message_payload_bytes l) L (manifest_bytes m)"
    and d: "decode_manifest (manifest_bytes m) l = Inr m"
    by (auto simp: manifest_record_admitted_def decode_manifest_iff encode_manifest_def manifest_bytes_def bytes_admitted_def)
  show "parses L (decode_manifest_record l) (put_byte_string (manifest_bytes m)) (Inr m)"
    unfolding decode_manifest_record_def
    by (rule byte_string.parses_step [OF b, where ys = "[]", simplified], rule parses_check, rule parses_value) (rule d)
next
  fix L
  show "decodes L (decode_manifest_record l) (\<lambda>m xs. xs = put_byte_string (manifest_bytes m) \<and> manifest_record_admitted l L m)"
    unfolding decode_manifest_record_def
    by (rule byte_string.decodes_step, rule decodes_check, rule decodes_ok_result)
      (auto simp: decode_manifest_iff encode_manifest_def manifest_bytes_def manifest_record_admitted_def split: sum.splits)
qed

lemma parses_decode_shuffle_state:
  assumes "shuffle_state_admitted L r"
  shows "parses L decode_shuffle_state (shuffle_state_body r) (Inr r)"
proof -
  have alloc: "8 \<le> max_allocation_bytes L" "4 \<le> max_allocation_bytes L" "2 \<le> max_allocation_bytes L"
    and v: "validate_policy (sr_policy r) = ok_status"
    using assms alloc_8 [of L] by (auto simp: shuffle_state_admitted_def)
  have st: "shuffle_state_of (shuffle_state_value (sr_state r)) = Some (sr_state r)" by simp
  show ?thesis
    unfolding decode_shuffle_state_def shuffle_state_body_def
    by (rule u64.parses_step [OF alloc(1)] u32.parses_step [OF alloc(2)] u16.parses_step [OF alloc(3)] parses_check)+
      (subst st, unfold option.case, rule parses_sub [OF parses_decode_policy [OF alloc(1) v], where ys = "[]", simplified],
       use assms in \<open>auto simp: shuffle_state_admitted_def intro!: parses_value\<close>)
qed

lemma decodes_decode_shuffle_state:
  "decodes L decode_shuffle_state (\<lambda>r xs. shuffle_state_admitted L r)"
  unfolding decode_shuffle_state_def
  by (rule u64.decodes_step u32.decodes_step u16.decodes_step decodes_check decodes_ok_case_option
      decodes_ok_sub [OF decodes_imp_ok [OF decodes_decode_policy]] decodes_ok_if decodes_ok_error decodes_ok_value)+
    (auto simp: shuffle_state_admitted_def)

interpretation kind: record_codec write_kind read_kind "\<lambda>L _. 2 \<le> max_allocation_bytes L"
proof
  show "parses L read_kind (write_kind k) (Inr k)" if "2 \<le> max_allocation_bytes L" for L k
    unfolding read_kind_def write_kind_def
    by (rule u16.parses_step [OF that, where ys = "[]", simplified], rule parses_check) (simp add: parses_ret)
  show "decodes L read_kind (\<lambda>k xs. xs = write_kind k \<and> 2 \<le> max_allocation_bytes L)" for L
    unfolding read_kind_def
    by (rule u16.decodes_step decodes_check decodes_ok_case_option decodes_ok_value)+ (auto simp: write_kind_def)
qed

lemma record_admitted_alloc: "record_admitted l L r \<Longrightarrow> 2 \<le> max_allocation_bytes L"
  by (cases r) (auto simp: shuffle_state_admitted_def participant_admitted_def selection_admitted_def
      manifest_record_admitted_def request_admitted_def failure_admitted_def bytes_admitted_def word_le_nat_alt)

lemma parses_decode_record:
  assumes "record_admitted l L r"
  shows "parses L (decode_record l) (record_bytes r) (Inr r)"
  unfolding decode_record_def record_bytes_def peek_record_kind_def
  by (rule kind.parses_step, rule record_admitted_alloc [OF assms])
    (use assms in \<open>cases r; auto intro!: parses_sub [where ys = "[]", simplified] parses_ret epoch.complete
      parses_decode_shuffle_state participant_body.complete manifest_record.complete commit_body.complete
      failure_body.complete\<close>)

lemma decodes_decode_record:
  "decodes L (decode_record l) (\<lambda>r xs. record_admitted l L r \<and> (record_tag r \<noteq> RK_ShuffleState \<longrightarrow> xs = record_bytes r))"
  unfolding decode_record_def peek_record_kind_def
proof (rule kind.decodes_step)
  fix k
  show "decodes_ok L (case k of
       RK_EpochAdvanced \<Rightarrow> rd_sub decode_epoch (\<lambda>r. ret (Inr (DR_Epoch r)))
     | RK_ShuffleState \<Rightarrow> rd_sub decode_shuffle_state (\<lambda>r. ret (Inr (DR_Shuffle r)))
     | RK_Participant \<Rightarrow> rd_sub (decode_participant l) (\<lambda>r. ret (Inr (DR_Participant r)))
     | RK_Manifest \<Rightarrow> rd_sub (decode_manifest_record l) (\<lambda>r. ret (Inr (DR_Manifest r)))
     | RK_Commit \<Rightarrow> rd_sub (decode_commit l) (\<lambda>r. ret (Inr (DR_Commit r)))
     | RK_Failure \<Rightarrow> rd_sub decode_failure (\<lambda>r. ret (Inr (DR_Failure r))))
     (\<lambda>r xs. 2 \<le> max_allocation_bytes L \<longrightarrow> record_admitted l L r \<and>
        (record_tag r \<noteq> RK_ShuffleState \<longrightarrow> write_kind k @ xs = record_bytes r))"
    by (cases k; simp; (rule epoch.decodes_ok_step participant_body.decodes_ok_step manifest_record.decodes_ok_step
        commit_body.decodes_ok_step failure_body.decodes_ok_step decodes_ok_sub [OF decodes_imp_ok [OF decodes_decode_shuffle_state]]),
        rule decodes_ok_value) (auto simp: record_bytes_def)
qed

interpretation durable: record_reader record_bytes "decode_record l" "record_admitted l"
  "\<lambda>r. record_tag r \<noteq> RK_ShuffleState" for l
  by unfold_locales (auto intro: parses_decode_record decodes_decode_record)

lemma record_bytes_encode:
  "record_bytes (DR_Epoch e) = encode_epoch e"
  "record_bytes (DR_Shuffle s) = encode_shuffle_state s"
  "record_bytes (DR_Participant p) = encode_participant p"
  "record_bytes (DR_Commit c) = encode_commit c"
  "record_bytes (DR_Failure f) = encode_failure f"
  "encode_manifest_record m l = Inr data \<longleftrightarrow> validate_manifest m l = ok_status \<and> data = record_bytes (DR_Manifest m)"
  by (auto simp: record_bytes_def encode_epoch_def epoch_body_def encode_shuffle_state_def shuffle_state_body_def
      encode_participant_def participant_body_def encode_commit_def commit_body_def encode_failure_def
      failure_body_def encode_manifest_record_def encode_manifest_def manifest_bytes_def split: sum.splits)

section \<open>Properties\<close>

text \<open>
  C38. Durable records survive storage: what the encoder of an admitted record writes is read back
  as that record by the tag dispatch, and whatever bytes are accepted give an admitted record; for
  every kind but the shuffle state (whose embedded limits are not canonical) those bytes are the
  record's own encoding, so no other byte string stands for it.
\<close>

theorem durable_record_roundtrip:
  "(record_admitted l L r \<longrightarrow> rd_all (decode_record l) (record_bytes r) L = Inr r) \<and>
   (rd_all (decode_record l) data L = Inr r \<longrightarrow>
      record_admitted l L r \<and> (record_tag r \<noteq> RK_ShuffleState \<longrightarrow> data = record_bytes r))"
  using durable.read_back [of l L r] durable.read_admits [of l data L r] by blast

theorem durable_record_roundtrip_witness:
  "rd_all (decode_record default_limits) (record_bytes (DR_Failure sample_failure)) default_limits = Inr (DR_Failure sample_failure)"
  using durable_record_roundtrip [of default_limits default_limits "DR_Failure sample_failure"]
  by (simp add: failure_admitted_def sample_failure_def default_limits_def)

end
