(* ===== verification/Fabric_Schedule.thy ===== *)
theory Fabric_Schedule
  imports Fabric_Topology "HOL-Library.AList"
begin

text \<open>
  The wave scheduler (\<open>schedule.hpp\<close>, \<open>schedule.cpp\<close>): a bounded cursor walk over the edges
  of a topology that issues dispatch grants under concurrency limits, pressure and retry rules.

  The object is the record \<open>scheduler\<close>. The views of the environment are the functions of the
  C++ interfaces \<open>CompletionView\<close>, \<open>CongestionView\<close> and \<open>PartitionView\<close>; a null pointer is
  \<open>None\<close>. The attempts are an association list because their number is read; the other
  unordered maps are only looked up and are maps. \<open>wave_loop\<close> is the \<open>while\<close> loop of
  \<open>next_wave\<close>, one call of \<open>wave_step\<close> per iteration; it terminates because every iteration
  spends one unit of the examination budget.
\<close>

section \<open>Data\<close>

record dispatch_grant =
  dg_attempt :: transfer_attempt_id
  dg_wave :: wave_id
  dg_shuffle :: shuffle_id
  dg_shuffle_generation :: shuffle_generation
  dg_partition :: partition_id
  dg_partition_generation :: partition_generation
  dg_producer :: producer_id
  dg_producer_incarnation :: incarnation_id
  dg_producer_endpoint :: bytes
  dg_consumer :: consumer_id
  dg_consumer_incarnation :: incarnation_id
  dg_topology_generation :: topology_generation
  dg_policy_generation :: policy_generation
  dg_manifest_digest :: digest
  dg_total_bytes :: u64
  dg_attempt_ordinal :: u32
  dg_issued_at :: tick_id

record wave_plan =
  wp_id :: wave_id
  wp_grants :: "dispatch_grant list"
  wp_examined :: u32
  wp_skipped_completed :: u32
  wp_skipped_failed :: u32
  wp_skipped_in_flight :: u32
  wp_skipped_unproduced :: u32
  wp_deferred_limits :: u32
  wp_deferred_source_pressure :: u32
  wp_deferred_destination_pressure :: u32
  wp_deferred_unknown_pressure :: u32
  wp_deferred_retry_wait :: u32
  wp_cursor_wrapped :: bool
  wp_all_resolved :: bool

definition empty_plan :: "wave_id \<Rightarrow> wave_plan" where
  "empty_plan wave = \<lparr>wp_id = wave, wp_grants = [], wp_examined = 0, wp_skipped_completed = 0,
     wp_skipped_failed = 0, wp_skipped_in_flight = 0, wp_skipped_unproduced = 0, wp_deferred_limits = 0,
     wp_deferred_source_pressure = 0, wp_deferred_destination_pressure = 0,
     wp_deferred_unknown_pressure = 0, wp_deferred_retry_wait = 0, wp_cursor_wrapped = False,
     wp_all_resolved = False\<rparr>"

record congestion_view =
  cv_producer_pressure :: "producer_id \<Rightarrow> pressure_reading"
  cv_consumer_pressure :: "consumer_id \<Rightarrow> pressure_reading"

record scheduling_environment =
  se_topology :: "topology option"
  se_completion :: "(edge_key \<Rightarrow> edge_status_rec) option"
  se_congestion :: "congestion_view option"
  se_partitions :: "(partition_id \<Rightarrow> partition_facts_rec) option"
  se_now :: tick_id

record scheduler_stats =
  ss_waves_planned :: u64
  ss_grants_issued :: u64
  ss_edges_examined :: u64
  ss_edges_skipped_resolved :: u64
  ss_attempts_resolved :: u64
  ss_grants_abandoned :: u64

record attempt_record =
  ar_key :: edge_key
  ar_wave :: wave_id
  ar_ordinal :: u32
  ar_producer :: producer_id
  ar_consumer :: consumer_id

record scheduler =
  sc_limits :: limits
  sc_policy :: policy_envelope
  sc_configured :: bool
  sc_shuffle :: shuffle_id
  sc_shuffle_generation :: shuffle_generation
  sc_topology_generation :: topology_generation
  sc_policy_generation :: policy_generation
  sc_partition_count :: u32
  sc_partition_cursor :: u32
  sc_pattern_cursor :: u32
  sc_consumer_cursor :: u32
  sc_next_wave_id :: wave_id
  sc_next_attempt_id :: transfer_attempt_id
  sc_global_in_flight :: u32
  sc_producer_in_flight :: "u64 \<rightharpoonup> u32"
  sc_consumer_in_flight :: "u64 \<rightharpoonup> u32"
  sc_attempts :: "(u64 \<times> attempt_record) list"
  sc_edge_attempts :: "edge_key \<rightharpoonup> transfer_attempt_id"
  sc_producer_paused :: "u64 \<rightharpoonup> bool"
  sc_consumer_paused :: "u64 \<rightharpoonup> bool"
  sc_stats :: scheduler_stats

definition mk_scheduler :: "limits \<Rightarrow> scheduler" where
  "mk_scheduler l = \<lparr>sc_limits = l, sc_policy = default_policy, sc_configured = False, sc_shuffle = 0,
     sc_shuffle_generation = 0, sc_topology_generation = 0, sc_policy_generation = 0,
     sc_partition_count = 0, sc_partition_cursor = 0, sc_pattern_cursor = 0, sc_consumer_cursor = 0,
     sc_next_wave_id = 1, sc_next_attempt_id = 1, sc_global_in_flight = 0,
     sc_producer_in_flight = Map.empty, sc_consumer_in_flight = Map.empty, sc_attempts = [],
     sc_edge_attempts = Map.empty, sc_producer_paused = Map.empty, sc_consumer_paused = Map.empty,
     sc_stats = \<lparr>ss_waves_planned = 0, ss_grants_issued = 0, ss_edges_examined = 0,
       ss_edges_skipped_resolved = 0, ss_attempts_resolved = 0, ss_grants_abandoned = 0\<rparr>\<rparr>"

section \<open>Configuration\<close>

definition scheduler_configure :: "policy_envelope \<Rightarrow> topology \<Rightarrow> scheduler \<Rightarrow> status \<times> scheduler" where
  "scheduler_configure policy t s =
     (case validate_policy policy of
        Inl e \<Rightarrow> (Inl e, s)
      | Inr _ \<Rightarrow>
          if pe_shuffle policy \<noteq> tp_shuffle t \<or> pe_shuffle_generation policy \<noteq> tp_shuffle_generation t
          then (Inl PolicyMismatch, s)
          else
            (ok_status,
             s\<lparr>sc_policy := policy, sc_limits := pe_limits policy, sc_shuffle := tp_shuffle t,
               sc_shuffle_generation := tp_shuffle_generation t,
               sc_topology_generation := tp_generation t, sc_policy_generation := pe_generation policy,
               sc_partition_count := tp_partition_count t, sc_partition_cursor := 0,
               sc_pattern_cursor := 0, sc_consumer_cursor := 0, sc_configured := True\<rparr>))"

section \<open>One wave\<close>

datatype pressure_decision = PD_Allow | PD_Paused | PD_Unknown

text \<open>\<open>operator[]\<close> of an unordered map: an absent entry is created with the default value.\<close>

definition map_entry :: "'v \<Rightarrow> ('k \<rightharpoonup> 'v) \<Rightarrow> 'k \<Rightarrow> 'v" where
  "map_entry d m k = (case m k of None \<Rightarrow> d | Some v \<Rightarrow> v)"

definition decide ::
  "congestion_policy \<Rightarrow> u64 \<Rightarrow> pressure_reading \<Rightarrow> (u64 \<rightharpoonup> bool) \<Rightarrow> pressure_decision \<times> (u64 \<rightharpoonup> bool)" where
  "decide congestion pid reading paused_map =
     (let paused = map_entry False paused_map pid in
      if \<not> pr_observed reading \<or> \<not> pr_fresh reading then
        (if cp_require_fresh_evidence congestion then (PD_Unknown, paused_map(pid \<mapsto> True))
         else (if paused then PD_Paused else PD_Allow, paused_map(pid \<mapsto> paused)))
      else if pr_level reading \<ge> cp_pause_threshold congestion then (PD_Paused, paused_map(pid \<mapsto> True))
      else if pr_level reading \<le> cp_resume_threshold congestion then (PD_Allow, paused_map(pid \<mapsto> False))
      else (if paused then PD_Paused else PD_Allow, paused_map(pid \<mapsto> paused)))"

text \<open>The local variables of \<open>next_wave\<close> that the loop changes.\<close>

record wave_state =
  ws_plan :: wave_plan
  ws_examined :: u32
  ws_wrapped :: bool
  ws_stop :: bool
  ws_grants_at_last_wrap :: u32

definition note_wrap :: "wave_state \<Rightarrow> wave_state" where
  "note_wrap w =
     w\<lparr>ws_stop := ws_stop w \<or> length (wp_grants (ws_plan w)) = unat (ws_grants_at_last_wrap w),
       ws_grants_at_last_wrap := word_of_nat (length (wp_grants (ws_plan w))), ws_wrapped := True\<rparr>"

definition skip_unproduced :: "wave_state \<Rightarrow> wave_state" where
  "skip_unproduced w = w\<lparr>ws_plan := (ws_plan w)\<lparr>wp_skipped_unproduced := wp_skipped_unproduced (ws_plan w) + 1\<rparr>\<rparr>"

definition skip_completed :: "wave_state \<Rightarrow> wave_state" where
  "skip_completed w = w\<lparr>ws_plan := (ws_plan w)\<lparr>wp_skipped_completed := wp_skipped_completed (ws_plan w) + 1\<rparr>\<rparr>"

definition skip_failed :: "wave_state \<Rightarrow> wave_state" where
  "skip_failed w = w\<lparr>ws_plan := (ws_plan w)\<lparr>wp_skipped_failed := wp_skipped_failed (ws_plan w) + 1\<rparr>\<rparr>"

definition skip_in_flight :: "wave_state \<Rightarrow> wave_state" where
  "skip_in_flight w = w\<lparr>ws_plan := (ws_plan w)\<lparr>wp_skipped_in_flight := wp_skipped_in_flight (ws_plan w) + 1\<rparr>\<rparr>"

definition defer_retry_wait :: "wave_state \<Rightarrow> wave_state" where
  "defer_retry_wait w = w\<lparr>ws_plan := (ws_plan w)\<lparr>wp_deferred_retry_wait := wp_deferred_retry_wait (ws_plan w) + 1\<rparr>\<rparr>"

definition defer_limits :: "wave_state \<Rightarrow> wave_state" where
  "defer_limits w = w\<lparr>ws_plan := (ws_plan w)\<lparr>wp_deferred_limits := wp_deferred_limits (ws_plan w) + 1\<rparr>\<rparr>"

definition defer_source_pressure :: "wave_state \<Rightarrow> wave_state" where
  "defer_source_pressure w =
     w\<lparr>ws_plan := (ws_plan w)\<lparr>wp_deferred_source_pressure := wp_deferred_source_pressure (ws_plan w) + 1\<rparr>\<rparr>"

definition defer_destination_pressure :: "wave_state \<Rightarrow> wave_state" where
  "defer_destination_pressure w =
     w\<lparr>ws_plan := (ws_plan w)\<lparr>wp_deferred_destination_pressure := wp_deferred_destination_pressure (ws_plan w) + 1\<rparr>\<rparr>"

definition defer_unknown_pressure :: "wave_state \<Rightarrow> wave_state" where
  "defer_unknown_pressure w =
     w\<lparr>ws_plan := (ws_plan w)\<lparr>wp_deferred_unknown_pressure := wp_deferred_unknown_pressure (ws_plan w) + 1\<rparr>\<rparr>"

definition make_grant ::
  "scheduler \<Rightarrow> wave_id \<Rightarrow> partition_id \<Rightarrow> partition_facts_rec \<Rightarrow> producer_record \<Rightarrow> consumer_record \<Rightarrow>
   producer_id \<Rightarrow> consumer_id \<Rightarrow> edge_status_rec \<Rightarrow> tick_id \<Rightarrow> dispatch_grant" where
  "make_grant s wave part facts precord crecord owner consumer status now = \<lparr>
     dg_attempt = sc_next_attempt_id s, dg_wave = wave, dg_shuffle = sc_shuffle s,
     dg_shuffle_generation = sc_shuffle_generation s, dg_partition = part,
     dg_partition_generation = pf_partition_generation facts, dg_producer = owner,
     dg_producer_incarnation = pf_producer_incarnation facts, dg_producer_endpoint = pd_endpoint precord,
     dg_consumer = consumer, dg_consumer_incarnation = cs_incarnation crecord,
     dg_topology_generation = sc_topology_generation s, dg_policy_generation = sc_policy_generation s,
     dg_manifest_digest = pf_manifest_digest facts, dg_total_bytes = pf_total_bytes facts,
     dg_attempt_ordinal = es_attempts status + 1, dg_issued_at = now\<rparr>"

definition issue_grant :: "edge_key \<Rightarrow> dispatch_grant \<Rightarrow> scheduler \<Rightarrow> scheduler" where
  "issue_grant key grant s =
     s\<lparr>sc_next_attempt_id := id_next (sc_next_attempt_id s),
       sc_attempts :=
         (case map_of (sc_attempts s) (dg_attempt grant) of
            None \<Rightarrow> (dg_attempt grant, \<lparr>ar_key = key, ar_wave = dg_wave grant, ar_ordinal = dg_attempt_ordinal grant,
              ar_producer = dg_producer grant, ar_consumer = dg_consumer grant\<rparr>) # sc_attempts s
          | Some _ \<Rightarrow> sc_attempts s),
       sc_edge_attempts :=
         (case sc_edge_attempts s key of
            None \<Rightarrow> (sc_edge_attempts s)(key \<mapsto> dg_attempt grant) | Some _ \<Rightarrow> sc_edge_attempts s),
       sc_producer_in_flight := (sc_producer_in_flight s)
         (dg_producer grant \<mapsto> map_entry 0 (sc_producer_in_flight s) (dg_producer grant) + 1),
       sc_consumer_in_flight := (sc_consumer_in_flight s)
         (dg_consumer grant \<mapsto> map_entry 0 (sc_consumer_in_flight s) (dg_consumer grant) + 1),
       sc_global_in_flight := sc_global_in_flight s + 1,
       sc_stats := (sc_stats s)\<lparr>ss_grants_issued := ss_grants_issued (sc_stats s) + 1\<rparr>\<rparr>"

definition touch_counts :: "producer_id \<Rightarrow> consumer_id \<Rightarrow> scheduler \<Rightarrow> scheduler" where
  "touch_counts owner consumer s =
     s\<lparr>sc_producer_in_flight := (sc_producer_in_flight s)(owner \<mapsto> map_entry 0 (sc_producer_in_flight s) owner),
       sc_consumer_in_flight := (sc_consumer_in_flight s)(consumer \<mapsto> map_entry 0 (sc_consumer_in_flight s) consumer)\<rparr>"

text \<open>The two pressure decisions; the destination is not asked when the source refuses.\<close>

definition pressure_gate ::
  "congestion_view option \<Rightarrow> producer_id \<Rightarrow> consumer_id \<Rightarrow> scheduler \<times> wave_state \<Rightarrow>
   bool \<times> scheduler \<times> wave_state" where
  "pressure_gate congestion owner consumer sw =
     (case (congestion, sw) of
        (None, _) \<Rightarrow> (True, sw)
      | (Some view, s, w) \<Rightarrow>
        (case decide (pe_congestion (sc_policy s)) owner (cv_producer_pressure view owner) (sc_producer_paused s) of
           (source, paused) \<Rightarrow>
           (let s1 = s\<lparr>sc_producer_paused := paused\<rparr> in
            case source of
              PD_Paused \<Rightarrow> (False, s1, defer_source_pressure w)
            | PD_Unknown \<Rightarrow> (False, s1, defer_unknown_pressure w)
            | PD_Allow \<Rightarrow>
              (case decide (pe_congestion (sc_policy s1)) consumer (cv_consumer_pressure view consumer) (sc_consumer_paused s1) of
                 (destination, paused') \<Rightarrow>
                 (let s2 = s1\<lparr>sc_consumer_paused := paused'\<rparr> in
                  case destination of
                    PD_Paused \<Rightarrow> (False, s2, defer_destination_pressure w)
                  | PD_Unknown \<Rightarrow> (False, s2, defer_unknown_pressure w)
                  | PD_Allow \<Rightarrow> (True, s2, w))))))"

text \<open>An edge that is produced, owned and not resolved: limits, pressure, then the grant.\<close>

definition wave_dispatch ::
  "scheduling_environment \<Rightarrow> topology \<Rightarrow> partition_id \<Rightarrow> consumer_id \<Rightarrow> partition_facts_rec \<Rightarrow> producer_record \<Rightarrow>
   producer_id \<Rightarrow> edge_status_rec \<Rightarrow> scheduler \<times> wave_state \<Rightarrow> scheduler \<times> wave_state" where
  "wave_dispatch env t part consumer facts precord owner status sw =
     (case sw of (s, w) \<Rightarrow>
      if sc_global_in_flight s \<ge> cl_global (pe_concurrency (sc_policy s))
      then (s, (defer_limits w)\<lparr>ws_stop := True\<rparr>)
      else
        let s1 = touch_counts owner consumer s in
        if map_entry 0 (sc_producer_in_flight s1) owner \<ge> cl_per_source (pe_concurrency (sc_policy s1)) \<or>
           map_entry 0 (sc_consumer_in_flight s1) consumer \<ge> cl_per_destination (pe_concurrency (sc_policy s1))
        then (s1, defer_limits w)
        else
          case pressure_gate (se_congestion env) owner consumer (s1, w) of
            (False, s2, w2) \<Rightarrow> (s2, w2)
          | (True, s2, w2) \<Rightarrow>
            (case tp_consumer t consumer of
               Inl _ \<Rightarrow> (s2, skip_unproduced w2)
             | Inr crecord \<Rightarrow>
               if \<not> holds_authority (cs_state crecord) then (s2, skip_unproduced w2)
               else
                 let grant = make_grant s2 (wp_id (ws_plan w2)) part facts precord crecord owner consumer status (se_now env);
                     key = EdgeKey part (pf_partition_generation facts) consumer
                 in (issue_grant key grant s2,
                     w2\<lparr>ws_plan := (ws_plan w2)\<lparr>wp_grants := wp_grants (ws_plan w2) @ [grant]\<rparr>\<rparr>)))"

definition wave_edge ::
  "scheduling_environment \<Rightarrow> topology \<Rightarrow> (edge_key \<Rightarrow> edge_status_rec) \<Rightarrow> (partition_id \<Rightarrow> partition_facts_rec) \<Rightarrow>
   partition_id \<Rightarrow> consumer_id \<Rightarrow> scheduler \<times> wave_state \<Rightarrow> scheduler \<times> wave_state" where
  "wave_edge env t completion partitions part consumer sw =
     (case sw of (s, w) \<Rightarrow>
      let facts = partitions part in
      if \<not> pf_produced facts then (s, skip_unproduced w)
      else case owner_of t part of
        Inl _ \<Rightarrow> (s, skip_unproduced w)
      | Inr owner \<Rightarrow>
        if owner \<noteq> pf_producer facts then (s, skip_unproduced w)
        else case tp_producer t owner of
          Inl _ \<Rightarrow> (s, skip_unproduced w)
        | Inr precord \<Rightarrow>
          if \<not> holds_authority (pd_state precord) \<or> pd_incarnation precord \<noteq> pf_producer_incarnation facts
          then (s, skip_unproduced w)
          else
            let key = EdgeKey part (pf_partition_generation facts) consumer;
                status = completion key
            in if es_phase status = EP_Completed then (s, skip_completed w)
               else if es_phase status = EP_Failed \<or> es_phase status = EP_Purged then (s, skip_failed w)
               else if es_attempts status \<ge> rp_max_attempts (pe_retry (sc_policy s)) then (s, skip_failed w)
               else if sc_edge_attempts s key \<noteq> None then (s, skip_in_flight w)
               else if es_ready_at status > se_now env then (s, defer_retry_wait w)
               else wave_dispatch env t part consumer facts precord owner status (s, w))"

text \<open>One iteration of the loop: one step of the cursor.\<close>

definition wrap_partition :: "scheduler \<times> wave_state \<Rightarrow> scheduler \<times> wave_state" where
  "wrap_partition sw =
     (case sw of (s, w) \<Rightarrow>
      if sc_partition_cursor s \<ge> sc_partition_count s then (s\<lparr>sc_partition_cursor := 0\<rparr>, note_wrap w) else (s, w))"

definition next_pattern :: "scheduler \<Rightarrow> scheduler" where
  "next_pattern s = s\<lparr>sc_consumer_cursor := 0, sc_pattern_cursor := sc_pattern_cursor s + 1\<rparr>"

definition next_partition :: "scheduler \<Rightarrow> scheduler" where
  "next_partition s =
     s\<lparr>sc_pattern_cursor := 0, sc_consumer_cursor := 0, sc_partition_cursor := sc_partition_cursor s + 1\<rparr>"

definition wave_move ::
  "scheduling_environment \<Rightarrow> topology \<Rightarrow> (edge_key \<Rightarrow> edge_status_rec) \<Rightarrow> (partition_id \<Rightarrow> partition_facts_rec) \<Rightarrow>
   scheduler \<times> wave_state \<Rightarrow> scheduler \<times> wave_state" where
  "wave_move env t completion partitions sw =
     (case sw of (s, w) \<Rightarrow>
      let part = ucast (sc_partition_cursor s) in
      if unat (sc_pattern_cursor s) \<ge> length (tp_pattern_order t) then wrap_partition (next_partition s, w)
      else
        let pattern_index = tp_pattern_order t ! unat (sc_pattern_cursor s) in
        if \<not> selection_covers (tp_pattern t pattern_index) part then (next_pattern s, w)
        else
          let consumers = consumers_of_pattern t pattern_index in
          if unat (sc_consumer_cursor s) \<ge> length consumers then (next_pattern s, w)
          else wave_edge env t completion partitions part (consumers ! unat (sc_consumer_cursor s))
                 (s\<lparr>sc_consumer_cursor := sc_consumer_cursor s + 1\<rparr>, w))"

definition wave_step ::
  "scheduling_environment \<Rightarrow> topology \<Rightarrow> (edge_key \<Rightarrow> edge_status_rec) \<Rightarrow> (partition_id \<Rightarrow> partition_facts_rec) \<Rightarrow>
   scheduler \<times> wave_state \<Rightarrow> scheduler \<times> wave_state" where
  "wave_step env t completion partitions sw =
     wave_move env t completion partitions
       (wrap_partition (fst sw, (snd sw)\<lparr>ws_examined := ws_examined (snd sw) + 1\<rparr>))"

lemmas wave_notes = skip_unproduced_def skip_completed_def skip_failed_def skip_in_flight_def defer_retry_wait_def
  defer_limits_def defer_source_pressure_def defer_destination_pressure_def defer_unknown_pressure_def

lemma wave_notes_examined [simp]:
  "ws_examined (skip_unproduced w) = ws_examined w" "ws_examined (skip_completed w) = ws_examined w"
  "ws_examined (skip_failed w) = ws_examined w" "ws_examined (skip_in_flight w) = ws_examined w"
  "ws_examined (defer_retry_wait w) = ws_examined w" "ws_examined (defer_limits w) = ws_examined w"
  "ws_examined (defer_source_pressure w) = ws_examined w" "ws_examined (defer_destination_pressure w) = ws_examined w"
  "ws_examined (defer_unknown_pressure w) = ws_examined w" "ws_examined (note_wrap w) = ws_examined w"
  by (simp_all add: wave_notes note_wrap_def)

lemma pressure_gate_examined:
  "pressure_gate congestion owner consumer (s, w) = (b, s', w') \<Longrightarrow> ws_examined w' = ws_examined w"
  by (auto simp: pressure_gate_def Let_def split: option.splits prod.splits pressure_decision.splits)

lemma wave_dispatch_examined:
  "ws_examined (snd (wave_dispatch env t part consumer facts precord owner status (s, w))) = ws_examined w"
proof (cases "pressure_gate (se_congestion env) owner consumer (touch_counts owner consumer s, w)")
  case (fields b s' w')
  then show ?thesis
    using pressure_gate_examined [OF fields]
    by (cases b) (simp_all add: wave_dispatch_def Let_def split: sum.split)
qed

lemma wave_edge_examined:
  "ws_examined (snd (wave_edge env t completion partitions part consumer (s, w))) = ws_examined w"
  by (simp add: wave_edge_def Let_def wave_dispatch_examined split: sum.split)

lemma wrap_partition_examined [simp]: "ws_examined (snd (wrap_partition (s, w))) = ws_examined w"
  by (simp add: wrap_partition_def)

lemma wave_move_examined: "ws_examined (snd (wave_move env t completion partitions (s, w))) = ws_examined w"
  by (simp add: wave_move_def Let_def wave_edge_examined)

lemma wave_step_examined:
  "ws_examined (snd (wave_step env t completion partitions (s, w))) = ws_examined w + 1"
  using wave_move_examined [of env t completion partitions "fst (wrap_partition (s, w\<lparr>ws_examined := ws_examined w + 1\<rparr>))"
      "snd (wrap_partition (s, w\<lparr>ws_examined := ws_examined w + 1\<rparr>))"]
  by (simp add: wave_step_def)

function wave_loop ::
  "scheduling_environment \<Rightarrow> topology \<Rightarrow> (edge_key \<Rightarrow> edge_status_rec) \<Rightarrow> (partition_id \<Rightarrow> partition_facts_rec) \<Rightarrow>
   u32 \<Rightarrow> u32 \<Rightarrow> scheduler \<times> wave_state \<Rightarrow> scheduler \<times> wave_state" where
  "wave_loop env t completion partitions budget grant_target sw =
     (if ws_examined (snd sw) < budget \<and> length (wp_grants (ws_plan (snd sw))) < unat grant_target \<and> \<not> ws_stop (snd sw)
      then wave_loop env t completion partitions budget grant_target (wave_step env t completion partitions sw)
      else sw)"
  by pat_completeness auto
termination
proof (relation "measure (\<lambda>(env, t, completion, partitions, budget, target, sw). unat budget - unat (ws_examined (snd sw)))", simp)
  fix env t completion partitions budget grant_target and sw :: "scheduler \<times> wave_state"
  assume "ws_examined (snd sw) < budget \<and> length (wp_grants (ws_plan (snd sw))) < unat (grant_target :: u32) \<and> \<not> ws_stop (snd sw)"
  then have lt: "unat (ws_examined (snd sw)) < unat budget" by (simp add: word_less_nat_alt)
  then have "unat (ws_examined (snd sw) + 1) = Suc (unat (ws_examined (snd sw)))"
    using unat32_bound [of budget] by (simp add: unat_word_ariths)
  then show "((env, t, completion, partitions, budget, grant_target, wave_step env t completion partitions sw),
      env, t, completion, partitions, budget, grant_target, sw)
    \<in> measure (\<lambda>(env, t, completion, partitions, budget, target, sw). unat budget - unat (ws_examined (snd sw)))"
    using lt wave_step_examined [of env t completion partitions "fst sw" "snd sw"] by simp
qed

declare wave_loop.simps [simp del]

definition wave_all_resolved :: "wave_plan \<Rightarrow> bool \<Rightarrow> bool" where
  "wave_all_resolved plan wrapped \<longleftrightarrow>
     wp_grants plan = [] \<and> wrapped \<and> wp_deferred_limits plan = 0 \<and> wp_deferred_source_pressure plan = 0 \<and>
     wp_deferred_destination_pressure plan = 0 \<and> wp_deferred_unknown_pressure plan = 0 \<and>
     wp_deferred_retry_wait plan = 0 \<and> wp_skipped_in_flight plan = 0 \<and> wp_skipped_unproduced plan = 0"

definition wave_start :: "scheduler \<Rightarrow> wave_state" where
  "wave_start s = \<lparr>ws_plan = empty_plan (sc_next_wave_id s), ws_examined = 0, ws_wrapped = False,
     ws_stop = False, ws_grants_at_last_wrap = 0\<rparr>"

definition finished_plan :: "wave_state \<Rightarrow> wave_plan" where
  "finished_plan w = (ws_plan w)\<lparr>wp_examined := ws_examined w, wp_cursor_wrapped := ws_wrapped w,
     wp_all_resolved := wave_all_resolved (ws_plan w) (ws_wrapped w)\<rparr>"

definition count_wave :: "wave_state \<Rightarrow> scheduler_stats \<Rightarrow> scheduler_stats" where
  "count_wave w stats =
     stats\<lparr>ss_waves_planned := ss_waves_planned stats + 1,
       ss_edges_examined := ss_edges_examined stats + ucast (ws_examined w),
       ss_edges_skipped_resolved := ss_edges_skipped_resolved stats +
         ucast (wp_skipped_completed (ws_plan w) + wp_skipped_failed (ws_plan w))\<rparr>"

definition finish_wave :: "scheduler \<times> wave_state \<Rightarrow> wave_plan result \<times> scheduler" where
  "finish_wave sw =
     (case sw of (s, w) \<Rightarrow>
      (Inr (finished_plan w),
       s\<lparr>sc_next_wave_id := (if wp_grants (ws_plan w) \<noteq> [] then id_next (sc_next_wave_id s) else sc_next_wave_id s),
         sc_stats := count_wave w (sc_stats s)\<rparr>))"

definition wave_walk ::
  "scheduling_environment \<Rightarrow> topology \<Rightarrow> (edge_key \<Rightarrow> edge_status_rec) \<Rightarrow> (partition_id \<Rightarrow> partition_facts_rec) \<Rightarrow>
   scheduler \<Rightarrow> scheduler \<times> wave_state" where
  "wave_walk env t completion partitions s =
     wave_loop env t completion partitions (wl_max_edges_examined_per_wave (pe_waves (sc_policy s)))
       (wl_max_grants_per_wave (pe_waves (sc_policy s))) (s, wave_start s)"

definition next_wave :: "scheduling_environment \<Rightarrow> scheduler \<Rightarrow> wave_plan result \<times> scheduler" where
  "next_wave env s =
     (if \<not> sc_configured s then (Inl InvalidState, s)
      else case (se_topology env, se_completion env, se_partitions env) of
        (Some t, Some completion, Some partitions) \<Rightarrow>
          if tp_shuffle t \<noteq> sc_shuffle s \<or> tp_shuffle_generation t \<noteq> sc_shuffle_generation s
          then (Inl PolicyMismatch, s)
          else if tp_generation t \<noteq> sc_topology_generation s then (Inl StaleTopology, s)
          else if sc_partition_count s = 0 \<or> tp_pattern_order t = []
          then (Inr ((empty_plan (sc_next_wave_id s))\<lparr>wp_all_resolved := True\<rparr>), s)
          else finish_wave (wave_walk env t completion partitions s)
      | _ \<Rightarrow> (Inl InvalidArgument, s))"

section \<open>Outcomes\<close>

text \<open>Decrement of an in-flight counter, with the entry erased at zero.\<close>

definition release_count :: "u64 \<Rightarrow> (u64 \<rightharpoonup> u32) \<Rightarrow> u64 \<rightharpoonup> u32" where
  "release_count k m =
     (case m k of
        None \<Rightarrow> m
      | Some n \<Rightarrow>
          let n' = (if n > 0 then n - 1 else n) in if n' = 0 then m(k := None) else m(k \<mapsto> n'))"

definition scheduler_resolve ::
  "transfer_attempt_id \<Rightarrow> edge_outcome \<Rightarrow> error_code \<Rightarrow> scheduler \<Rightarrow> status \<times> scheduler" where
  "scheduler_resolve attempt outcome code s =
     (case map_of (sc_attempts s) attempt of
        None \<Rightarrow> (Inl StaleAttempt, s)
      | Some record \<Rightarrow>
          (ok_status,
           s\<lparr>sc_attempts := AList.delete attempt (sc_attempts s),
             sc_edge_attempts := (sc_edge_attempts s)(ar_key record := None),
             sc_producer_in_flight := release_count (ar_producer record) (sc_producer_in_flight s),
             sc_consumer_in_flight := release_count (ar_consumer record) (sc_consumer_in_flight s),
             sc_global_in_flight := (if sc_global_in_flight s > 0 then sc_global_in_flight s - 1 else sc_global_in_flight s),
             sc_stats := (sc_stats s)\<lparr>ss_attempts_resolved := ss_attempts_resolved (sc_stats s) + 1,
               ss_grants_abandoned := (if outcome = EO_Cancelled then ss_grants_abandoned (sc_stats s) + 1
                 else ss_grants_abandoned (sc_stats s))\<rparr>\<rparr>))"

definition abandon_all :: "error_code \<Rightarrow> scheduler \<Rightarrow> status \<times> scheduler" where
  "abandon_all code s =
     (ok_status,
      s\<lparr>sc_attempts := [], sc_edge_attempts := Map.empty, sc_producer_in_flight := Map.empty,
        sc_consumer_in_flight := Map.empty, sc_global_in_flight := 0,
        sc_stats := (sc_stats s)\<lparr>ss_grants_abandoned :=
          ss_grants_abandoned (sc_stats s) + word_of_nat (length (sc_attempts s))\<rparr>\<rparr>)"

definition in_flight_for_producer :: "scheduler \<Rightarrow> producer_id \<Rightarrow> u32" where
  "in_flight_for_producer s pid = (case sc_producer_in_flight s pid of None \<Rightarrow> 0 | Some n \<Rightarrow> n)"

definition in_flight_for_consumer :: "scheduler \<Rightarrow> consumer_id \<Rightarrow> u32" where
  "in_flight_for_consumer s cid = (case sc_consumer_in_flight s cid of None \<Rightarrow> 0 | Some n \<Rightarrow> n)"

section \<open>Specification\<close>

text \<open>A scheduler change that leaves authority alone: only pause flags and counter entries of value 0.\<close>

definition quiet :: "scheduler \<Rightarrow> scheduler \<Rightarrow> bool" where
  "quiet s s' \<longleftrightarrow>
     (\<exists>sources destinations paused paused'.
        s' = s\<lparr>sc_producer_in_flight := sources, sc_consumer_in_flight := destinations,
               sc_producer_paused := paused, sc_consumer_paused := paused'\<rparr> \<and>
        map_entry 0 sources = map_entry 0 (sc_producer_in_flight s) \<and>
        map_entry 0 destinations = map_entry 0 (sc_consumer_in_flight s))"

text \<open>A change of the wave that adds no grant.\<close>

definition same_grants :: "wave_state \<Rightarrow> wave_state \<Rightarrow> bool" where
  "same_grants w w' \<longleftrightarrow> wp_grants (ws_plan w') = wp_grants (ws_plan w) \<and> wp_id (ws_plan w') = wp_id (ws_plan w)"

definition dispatchable ::
  "scheduling_environment \<Rightarrow> topology \<Rightarrow> (edge_key \<Rightarrow> edge_status_rec) \<Rightarrow> (partition_id \<Rightarrow> partition_facts_rec) \<Rightarrow>
   scheduler \<Rightarrow> dispatch_grant \<Rightarrow> bool" where
  "dispatchable env t completion partitions s g \<longleftrightarrow>
     (let facts = partitions (dg_partition g);
          status = completion (EdgeKey (dg_partition g) (dg_partition_generation g) (dg_consumer g))
      in pf_produced facts \<and> owner_of t (dg_partition g) = Inr (dg_producer g) \<and> pf_producer facts = dg_producer g \<and>
         (\<exists>record. tp_producer t (dg_producer g) = Inr record \<and> holds_authority (pd_state record) \<and>
            pd_incarnation record = dg_producer_incarnation g \<and> pd_endpoint record = dg_producer_endpoint g) \<and>
         (\<exists>record. tp_consumer t (dg_consumer g) = Inr record \<and> holds_authority (cs_state record) \<and>
            cs_incarnation record = dg_consumer_incarnation g) \<and>
         dg_producer_incarnation g = pf_producer_incarnation facts \<and>
         dg_partition_generation g = pf_partition_generation facts \<and>
         dg_manifest_digest g = pf_manifest_digest facts \<and> dg_total_bytes g = pf_total_bytes facts \<and>
         \<not> edge_resolved status \<and> es_attempts status < rp_max_attempts (pe_retry (sc_policy s)) \<and>
         dg_attempt_ordinal g = es_attempts status + 1 \<and> es_ready_at status \<le> se_now env \<and>
         dg_issued_at g = se_now env \<and> dg_shuffle g = sc_shuffle s \<and>
         dg_shuffle_generation g = sc_shuffle_generation s \<and>
         dg_topology_generation g = sc_topology_generation s \<and> dg_policy_generation g = sc_policy_generation s)"

definition grant_key :: "dispatch_grant \<Rightarrow> edge_key" where
  "grant_key g = EdgeKey (dg_partition g) (dg_partition_generation g) (dg_consumer g)"

definition add_grant :: "dispatch_grant \<Rightarrow> wave_state \<Rightarrow> wave_state" where
  "add_grant g w = w\<lparr>ws_plan := (ws_plan w)\<lparr>wp_grants := wp_grants (ws_plan w) @ [g]\<rparr>\<rparr>"

text \<open>Room for one more grant of this producer and consumer.\<close>

definition has_room :: "scheduler \<Rightarrow> dispatch_grant \<Rightarrow> bool" where
  "has_room s g \<longleftrightarrow>
     sc_global_in_flight s < cl_global (pe_concurrency (sc_policy s)) \<and>
     in_flight_for_producer s (dg_producer g) < cl_per_source (pe_concurrency (sc_policy s)) \<and>
     in_flight_for_consumer s (dg_consumer g) < cl_per_destination (pe_concurrency (sc_policy s))"

definition settled_edge ::
  "(edge_key \<Rightarrow> edge_status_rec) \<Rightarrow> (partition_id \<Rightarrow> partition_facts_rec) \<Rightarrow> scheduler \<Rightarrow> partition_id \<Rightarrow> consumer_id \<Rightarrow> bool" where
  "settled_edge completion partitions s part consumer \<longleftrightarrow>
     (let status = completion (EdgeKey part (pf_partition_generation (partitions part)) consumer)
      in pf_produced (partitions part) \<and>
         (edge_resolved status \<or> es_attempts status \<ge> rp_max_attempts (pe_retry (sc_policy s))))"

definition settles :: "wave_state \<Rightarrow> wave_state \<Rightarrow> bool" where
  "settles w w' \<longleftrightarrow> w' = skip_completed w \<or> w' = skip_failed w"

definition blocks :: "wave_state \<Rightarrow> wave_state \<Rightarrow> bool" where
  "blocks w w' \<longleftrightarrow>
     w' = skip_unproduced w \<or> w' = skip_in_flight w \<or> w' = defer_retry_wait w \<or> w' = defer_limits w \<or>
     w' = (defer_limits w)\<lparr>ws_stop := True\<rparr> \<or> w' = defer_source_pressure w \<or>
     w' = defer_destination_pressure w \<or> w' = defer_unknown_pressure w"

text \<open>
  The in-flight bookkeeping: attempts, edges and counters describe the same set of grants, and
  every issued attempt identifier lies below the next one.
\<close>

definition attempts_of :: "(attempt_record \<Rightarrow> bool) \<Rightarrow> scheduler \<Rightarrow> nat" where
  "attempts_of P s = length (filter (\<lambda>(attempt, record). P record) (sc_attempts s))"

definition scheduler_inv :: "scheduler \<Rightarrow> bool" where
  "scheduler_inv s \<longleftrightarrow>
     distinct (map fst (sc_attempts s)) \<and>
     (\<forall>attempt \<in> fst ` set (sc_attempts s). attempt < sc_next_attempt_id s) \<and>
     (\<forall>key attempt. sc_edge_attempts s key = Some attempt \<longleftrightarrow>
        (\<exists>record. map_of (sc_attempts s) attempt = Some record \<and> ar_key record = key)) \<and>
     unat (sc_global_in_flight s) = length (sc_attempts s) \<and>
     (\<forall>pid. unat (in_flight_for_producer s pid) = attempts_of (\<lambda>record. ar_producer record = pid) s) \<and>
     (\<forall>cid. unat (in_flight_for_consumer s cid) = attempts_of (\<lambda>record. ar_consumer record = cid) s)"

text \<open>A change of the cursor alone.\<close>

definition moved :: "scheduler \<Rightarrow> scheduler \<Rightarrow> bool" where
  "moved s s' \<longleftrightarrow> (\<exists>part pat con. s' = s\<lparr>sc_partition_cursor := part, sc_pattern_cursor := pat, sc_consumer_cursor := con\<rparr>)"

definition edge_selected :: "topology \<Rightarrow> partition_id \<Rightarrow> consumer_id \<Rightarrow> bool" where
  "edge_selected t part consumer \<longleftrightarrow>
     (\<exists>index \<in> set (tp_pattern_order t). selection_covers (tp_pattern t index) part \<and>
        consumer \<in> set (consumers_of_pattern t index))"

text \<open>The configuration a wave keeps.\<close>

definition same_binding :: "scheduler \<Rightarrow> scheduler \<Rightarrow> bool" where
  "same_binding s s' \<longleftrightarrow>
     sc_policy s' = sc_policy s \<and> sc_shuffle s' = sc_shuffle s \<and> sc_shuffle_generation s' = sc_shuffle_generation s \<and>
     sc_topology_generation s' = sc_topology_generation s \<and> sc_policy_generation s' = sc_policy_generation s \<and>
     sc_partition_count s' = sc_partition_count s \<and> sc_next_wave_id s' = sc_next_wave_id s \<and>
     sc_configured s' = sc_configured s"

definition grant_in_flight :: "scheduler \<Rightarrow> dispatch_grant \<Rightarrow> bool" where
  "grant_in_flight s g \<longleftrightarrow>
     map_of (sc_attempts s) (dg_attempt g) =
       Some \<lparr>ar_key = grant_key g, ar_wave = dg_wave g, ar_ordinal = dg_attempt_ordinal g,
             ar_producer = dg_producer g, ar_consumer = dg_consumer g\<rparr>"

definition within_limits :: "scheduler \<Rightarrow> scheduler \<Rightarrow> bool" where
  "within_limits s0 s \<longleftrightarrow>
     sc_global_in_flight s \<le> max (sc_global_in_flight s0) (cl_global (pe_concurrency (sc_policy s0))) \<and>
     (\<forall>pid. in_flight_for_producer s pid \<le>
        max (in_flight_for_producer s0 pid) (cl_per_source (pe_concurrency (sc_policy s0)))) \<and>
     (\<forall>cid. in_flight_for_consumer s cid \<le>
        max (in_flight_for_consumer s0 cid) (cl_per_destination (pe_concurrency (sc_policy s0))))"

definition wave_inv ::
  "scheduling_environment \<Rightarrow> topology \<Rightarrow> (edge_key \<Rightarrow> edge_status_rec) \<Rightarrow> (partition_id \<Rightarrow> partition_facts_rec) \<Rightarrow>
   scheduler \<Rightarrow> scheduler \<Rightarrow> wave_state \<Rightarrow> bool" where
  "wave_inv env t completion partitions s0 s w \<longleftrightarrow>
     scheduler_inv s \<and> same_binding s0 s \<and> within_limits s0 s \<and> wp_id (ws_plan w) = sc_next_wave_id s0 \<and>
     unat (sc_next_attempt_id s) = unat (sc_next_attempt_id s0) + length (wp_grants (ws_plan w)) \<and>
     (\<forall>g \<in> set (wp_grants (ws_plan w)).
        dispatchable env t completion partitions s0 g \<and> edge_selected t (dg_partition g) (dg_consumer g) \<and>
        dg_partition g < ucast (sc_partition_count s0) \<and> grant_in_flight s g \<and> dg_wave g = sc_next_wave_id s0) \<and>
     distinct (map dg_attempt (wp_grants (ws_plan w)))"

text \<open>Room for the attempt identifiers of one more wave.\<close>

definition ids_left :: "scheduler \<Rightarrow> bool" where
  "ids_left s \<longleftrightarrow> unat (sc_next_attempt_id s) + unat (wl_max_grants_per_wave (pe_waves (sc_policy s))) < 2 ^ 64"

text \<open>The mutations of a scheduler.\<close>

inductive scheduler_step :: "scheduler \<Rightarrow> scheduler \<Rightarrow> bool" where
  step_configure: "scheduler_step s (snd (scheduler_configure policy t s))"
| step_wave: "ids_left s \<Longrightarrow> scheduler_step s (snd (next_wave env s))"
| step_resolve: "scheduler_step s (snd (scheduler_resolve attempt outcome code s))"
| step_abandon: "scheduler_step s (snd (abandon_all code s))"

text \<open>
  A pass over the edge space: the edges behind the cursor, and what the wave has noted about
  edges that are neither granted nor settled.
\<close>

definition wave_consumers :: "topology \<Rightarrow> nat \<Rightarrow> consumer_id list" where
  "wave_consumers t i = consumers_of_pattern t (tp_pattern_order t ! i)"

definition edge_at :: "topology \<Rightarrow> partition_id \<Rightarrow> nat \<Rightarrow> nat \<Rightarrow> bool" where
  "edge_at t part i j \<longleftrightarrow>
     i < length (tp_pattern_order t) \<and> j < length (wave_consumers t i) \<and>
     selection_covers (tp_pattern t (tp_pattern_order t ! i)) part"

definition behind :: "scheduler \<Rightarrow> partition_id \<Rightarrow> nat \<Rightarrow> nat \<Rightarrow> bool" where
  "behind s part i j \<longleftrightarrow>
     unat part < unat (sc_partition_cursor s) \<or>
     unat part = unat (sc_partition_cursor s) \<and>
       (i < unat (sc_pattern_cursor s) \<or> i = unat (sc_pattern_cursor s) \<and> j < unat (sc_consumer_cursor s))"

definition open_notes :: "wave_state \<Rightarrow> nat" where
  "open_notes w =
     unat (wp_skipped_unproduced (ws_plan w)) + unat (wp_skipped_in_flight (ws_plan w)) +
     unat (wp_deferred_retry_wait (ws_plan w)) + unat (wp_deferred_limits (ws_plan w)) +
     unat (wp_deferred_source_pressure (ws_plan w)) + unat (wp_deferred_destination_pressure (ws_plan w)) +
     unat (wp_deferred_unknown_pressure (ws_plan w))"

definition calm :: "wave_state \<Rightarrow> bool" where
  "calm w \<longleftrightarrow> wp_grants (ws_plan w) = [] \<and> open_notes w = 0"

definition pass_inv ::
  "topology \<Rightarrow> (edge_key \<Rightarrow> edge_status_rec) \<Rightarrow> (partition_id \<Rightarrow> partition_facts_rec) \<Rightarrow> scheduler \<Rightarrow> scheduler \<Rightarrow> wave_state \<Rightarrow> bool" where
  "pass_inv t completion partitions s0 s w \<longleftrightarrow>
     same_binding s0 s \<and> sc_partition_cursor s < sc_partition_count s0 \<and> open_notes w \<le> unat (ws_examined w) \<and>
     (calm w \<longrightarrow>
       (\<forall>part i j. edge_at t part i j \<longrightarrow> part < ucast (sc_partition_count s0) \<longrightarrow> ws_wrapped w \<or> behind s part i j \<longrightarrow>
          settled_edge completion partitions s0 part (wave_consumers t i ! j)))"

definition narrow_topology :: "topology \<Rightarrow> bool" where
  "narrow_topology t \<longleftrightarrow> length (tp_pattern_order t) < 2 ^ 32 \<and>
     (\<forall>i < length (tp_pattern_order t). length (wave_consumers t i) < 2 ^ 32)"

text \<open>
  A shuffle of one partition, one producer and one consumer, scheduled one grant per wave.
\<close>

definition single_topology :: topology where
  "single_topology =
     snd (register_consumer 5 1 [] selection_all (snd (register_producer 7 1 [] (mk_topology 1 1 1 default_limits))))"

definition single_policy :: policy_envelope where
  "single_policy = default_policy\<lparr>pe_shuffle := 1, pe_shuffle_generation := 1, pe_generation := 1,
     pe_waves := \<lparr>wl_max_grants_per_wave = 1, wl_max_edges_examined_per_wave = 8\<rparr>\<rparr>"

definition single_environment :: scheduling_environment where
  "single_environment = \<lparr>se_topology = Some single_topology,
     se_completion = Some (\<lambda>key. default_edge_status\<lparr>es_phase := EP_Pending\<rparr>), se_congestion = None,
     se_partitions = Some (\<lambda>part. default_partition_facts\<lparr>pf_produced := True, pf_partition_generation := 1,
       pf_total_bytes := 64, pf_producer_incarnation := 1, pf_producer := 7\<rparr>), se_now = 0\<rparr>"

definition single_scheduler :: scheduler where
  "single_scheduler = snd (scheduler_configure single_policy single_topology (mk_scheduler default_limits))"

definition single_grant :: dispatch_grant where
  "single_grant = \<lparr>dg_attempt = 1, dg_wave = 1, dg_shuffle = 1, dg_shuffle_generation = 1, dg_partition = 0,
     dg_partition_generation = 1, dg_producer = 7, dg_producer_incarnation = 1, dg_producer_endpoint = [],
     dg_consumer = 5, dg_consumer_incarnation = 1, dg_topology_generation = 2, dg_policy_generation = 1,
     dg_manifest_digest = zero_digest, dg_total_bytes = 64, dg_attempt_ordinal = 1, dg_issued_at = 0\<rparr>"

definition settled_environment :: scheduling_environment where
  "settled_environment = single_environment\<lparr>se_completion := Some (\<lambda>key. default_edge_status\<lparr>es_phase := EP_Completed\<rparr>)\<rparr>"

section \<open>Lemmas: one edge\<close>

lemma in_flight_entry:
  "in_flight_for_producer s = map_entry 0 (sc_producer_in_flight s)"
  "in_flight_for_consumer s = map_entry 0 (sc_consumer_in_flight s)"
  by (simp_all add: in_flight_for_producer_def in_flight_for_consumer_def map_entry_def fun_eq_iff)

lemma quiet_refl [simp]: "quiet s s"
  unfolding quiet_def
  by (rule exI [of _ "sc_producer_in_flight s"], rule exI [of _ "sc_consumer_in_flight s"],
      rule exI [of _ "sc_producer_paused s"], rule exI [of _ "sc_consumer_paused s"]) simp

lemma quietD:
  assumes "quiet s s'"
  shows "sc_policy s' = sc_policy s" "sc_attempts s' = sc_attempts s" "sc_edge_attempts s' = sc_edge_attempts s"
    "sc_next_attempt_id s' = sc_next_attempt_id s" "sc_global_in_flight s' = sc_global_in_flight s"
    "in_flight_for_producer s' = in_flight_for_producer s" "in_flight_for_consumer s' = in_flight_for_consumer s"
    "sc_shuffle s' = sc_shuffle s" "sc_shuffle_generation s' = sc_shuffle_generation s"
    "sc_topology_generation s' = sc_topology_generation s" "sc_policy_generation s' = sc_policy_generation s"
    "sc_partition_count s' = sc_partition_count s" "sc_partition_cursor s' = sc_partition_cursor s"
    "sc_pattern_cursor s' = sc_pattern_cursor s" "sc_consumer_cursor s' = sc_consumer_cursor s"
    "sc_next_wave_id s' = sc_next_wave_id s" "sc_configured s' = sc_configured s"
  using assms unfolding quiet_def in_flight_entry by auto

lemma quiet_trans: "quiet s s' \<Longrightarrow> quiet s' s'' \<Longrightarrow> quiet s s''"
  unfolding quiet_def by force

lemma touch_counts_quiet: "quiet s (touch_counts owner consumer s)"
proof -
  have m: "map_entry 0 (m(k \<mapsto> map_entry 0 m k)) = map_entry 0 m" for m :: "u64 \<rightharpoonup> u32" and k
    by (auto simp: map_entry_def fun_eq_iff)
  show ?thesis
    unfolding quiet_def touch_counts_def
    by (rule exI [of _ "(sc_producer_in_flight s)(owner \<mapsto> map_entry 0 (sc_producer_in_flight s) owner)"],
        rule exI [of _ "(sc_consumer_in_flight s)(consumer \<mapsto> map_entry 0 (sc_consumer_in_flight s) consumer)"],
        rule exI [of _ "sc_producer_paused s"], rule exI [of _ "sc_consumer_paused s"]) (simp add: m)
qed

lemma paused_quiet:
  "quiet s (s\<lparr>sc_producer_paused := a\<rparr>)" "quiet s (s\<lparr>sc_producer_paused := a, sc_consumer_paused := b\<rparr>)"
proof -
  show "quiet s (s\<lparr>sc_producer_paused := a, sc_consumer_paused := b\<rparr>)"
    unfolding quiet_def
    by (rule exI [of _ "sc_producer_in_flight s"], rule exI [of _ "sc_consumer_in_flight s"],
        rule exI [of _ a], rule exI [of _ b]) simp
  then show "quiet s (s\<lparr>sc_producer_paused := a\<rparr>)" for a
    unfolding quiet_def
    by (intro exI [of _ "sc_producer_in_flight s"] exI [of _ "sc_consumer_in_flight s"] exI [of _ a]
        exI [of _ "sc_consumer_paused s"]) simp
qed

lemma pressure_gate_quiet:
  assumes "pressure_gate congestion owner consumer (s, w) = (b, s', w')"
  shows "quiet s s'" "same_grants w w'" "b \<Longrightarrow> w' = w"
proof -
  have "quiet s s' \<and> same_grants w w' \<and> (b \<longrightarrow> w' = w)"
  proof (cases congestion)
    case None
    then show ?thesis using assms by (auto simp: pressure_gate_def same_grants_def)
  next
    case (Some view)
    obtain d1 m1 where d1: "decide (pe_congestion (sc_policy s)) owner (cv_producer_pressure view owner) (sc_producer_paused s) = (d1, m1)"
      by fastforce
    obtain d2 m2 where d2: "decide (pe_congestion (sc_policy s)) consumer (cv_consumer_pressure view consumer) (sc_consumer_paused s) = (d2, m2)"
      by fastforce
    show ?thesis
      using assms Some d1 d2 paused_quiet [of s]
      by (cases d1; cases d2)
        (auto simp: pressure_gate_def Let_def same_grants_def defer_source_pressure_def defer_unknown_pressure_def
          defer_destination_pressure_def)
  qed
  then show "quiet s s'" "same_grants w w'" "b \<Longrightarrow> w' = w" by auto
qed

lemma pressure_gate_blocks:
  "pressure_gate congestion owner consumer (s, w) = (False, s', w') \<Longrightarrow> blocks w w'"
  by (auto simp: pressure_gate_def Let_def blocks_def split: option.splits prod.splits pressure_decision.splits)

lemma wave_dispatch_outcome:
  assumes run: "wave_dispatch env t part consumer facts precord owner status (s, w) = (s', w')"
    and facts: "facts = partitions part" "pf_produced facts" "owner_of t part = Inr owner" "owner = pf_producer facts"
      "tp_producer t owner = Inr precord" "holds_authority (pd_state precord)"
      "pd_incarnation precord = pf_producer_incarnation facts"
    and status: "status = completion (EdgeKey part (pf_partition_generation facts) consumer)" "\<not> edge_resolved status"
      "es_attempts status < rp_max_attempts (pe_retry (sc_policy s))" "es_ready_at status \<le> se_now env"
  shows "(quiet s s' \<and> blocks w w') \<or>
    (\<exists>g s1. quiet s s1 \<and> s' = issue_grant (grant_key g) g s1 \<and> w' = add_grant g w \<and>
       dispatchable env t completion partitions s g \<and> has_room s g \<and> dg_partition g = part \<and> dg_consumer g = consumer \<and>
       dg_attempt g = sc_next_attempt_id s \<and> dg_wave g = wp_id (ws_plan w))"
proof (cases "sc_global_in_flight s \<ge> cl_global (pe_concurrency (sc_policy s))")
  case True
  then show ?thesis using run by (auto simp: wave_dispatch_def blocks_def)
next
  case room: False
  let ?s1 = "touch_counts owner consumer s"
  have q1: "quiet s ?s1" by (rule touch_counts_quiet)
  show ?thesis
  proof (cases "map_entry 0 (sc_producer_in_flight ?s1) owner \<ge> cl_per_source (pe_concurrency (sc_policy ?s1)) \<or>
      map_entry 0 (sc_consumer_in_flight ?s1) consumer \<ge> cl_per_destination (pe_concurrency (sc_policy ?s1))")
    case True
    then show ?thesis using run room q1 by (auto simp: wave_dispatch_def Let_def blocks_def)
  next
    case free: False
    obtain b s2 w2 where gate: "pressure_gate (se_congestion env) owner consumer (?s1, w) = (b, s2, w2)"
      by (metis prod_cases3)
    note pg = pressure_gate_quiet [OF gate]
    have q2: "quiet s s2" using quiet_trans [OF q1 pg(1)] .
    show ?thesis
    proof (cases b)
      case False
      then have "(s', w') = (s2, w2)" using run room free gate by (simp add: wave_dispatch_def Let_def)
      then show ?thesis using q2 pressure_gate_blocks gate False by auto
    next
      case True
      then have w2: "w2 = w" using pg(3) by simp
      show ?thesis
      proof (cases "tp_consumer t consumer")
        case (Inl e)
        then have "(s', w') = (s2, skip_unproduced w)"
          using run room free gate True w2 by (simp add: wave_dispatch_def Let_def)
        then show ?thesis using q2 by (auto simp: blocks_def)
      next
        case (Inr crecord)
        show ?thesis
        proof (cases "holds_authority (cs_state crecord)")
          case False
          then have "(s', w') = (s2, skip_unproduced w)"
            using run room free gate True w2 Inr by (simp add: wave_dispatch_def Let_def)
          then show ?thesis using q2 by (auto simp: blocks_def)
        next
          case auth: True
          define g where "g = make_grant s2 (wp_id (ws_plan w)) part facts precord crecord owner consumer status (se_now env)"
          have res: "s' = issue_grant (grant_key g) g s2" "w' = add_grant g w"
            using run room free gate True w2 Inr auth
            by (simp_all add: wave_dispatch_def Let_def g_def grant_key_def add_grant_def make_grant_def)
          have "has_room s g"
            using room free quietD [OF q1]
            by (simp add: has_room_def g_def make_grant_def in_flight_entry [symmetric] not_le)
          moreover have "dispatchable env t completion partitions s g"
            using facts status Inr auth quietD [OF q2]
            by (simp add: dispatchable_def g_def make_grant_def Let_def)
          ultimately show ?thesis
            using q2 res quietD [OF q2] by (intro disjI2 exI [of _ g] exI [of _ s2]) (simp add: g_def make_grant_def)
        qed
      qed
    qed
  qed
qed

lemma wave_edge_outcome:
  assumes run: "wave_edge env t completion partitions part consumer (s, w) = (s', w')"
  obtains (settled) "s' = s" "settles w w'" "settled_edge completion partitions s part consumer"
  | (blocked) "quiet s s'" "blocks w w'"
  | (granted) g s1 where "quiet s s1" "s' = issue_grant (grant_key g) g s1" "w' = add_grant g w"
      "dispatchable env t completion partitions s g" "has_room s g" "dg_partition g = part" "dg_consumer g = consumer"
      "dg_attempt g = sc_next_attempt_id s" "dg_wave g = wp_id (ws_plan w)" "sc_edge_attempts s (grant_key g) = None"
proof -
  let ?facts = "partitions part"
  let ?key = "EdgeKey part (pf_partition_generation ?facts) consumer"
  have unprod: thesis if "(s', w') = (s, skip_unproduced w)"
    using that blocked by (simp add: blocks_def)
  show thesis
  proof (cases "pf_produced ?facts")
    case False
    then show thesis using run unprod by (simp add: wave_edge_def Let_def)
  next
    case prod: True
    show thesis
    proof (cases "owner_of t part")
      case (Inl e)
      then show thesis using run unprod prod by (simp add: wave_edge_def Let_def)
    next
      case own: (Inr owner)
      show thesis
      proof (cases "tp_producer t owner")
        case (Inl e)
        then show thesis using run unprod prod own by (simp add: wave_edge_def Let_def split: if_splits)
      next
        case pr: (Inr precord)
        show thesis
        proof (cases "owner = pf_producer ?facts \<and> holds_authority (pd_state precord) \<and>
            pd_incarnation precord = pf_producer_incarnation ?facts")
          case False
          then show thesis using run unprod prod own pr by (auto simp: wave_edge_def Let_def split: if_splits)
        next
          case ok: True
          then have ok': "owner_of t part = Inr (pf_producer ?facts)" "tp_producer t (pf_producer ?facts) = Inr precord"
            "holds_authority (pd_state precord)" "pd_incarnation precord = pf_producer_incarnation ?facts"
            using own pr by auto
          note eval = wave_edge_def Let_def prod ok'
          show thesis
          proof (cases "edge_resolved (completion ?key) \<or> es_attempts (completion ?key) \<ge> rp_max_attempts (pe_retry (sc_policy s))")
            case True
            then have "s' = s \<and> settles w w'"
              using run by (auto simp: eval edge_resolved_def settles_def split: if_splits)
            then show thesis using settled True prod by (simp add: settled_edge_def)
          next
            case open_: False
            show thesis
            proof (cases "sc_edge_attempts s ?key \<noteq> None \<or> es_ready_at (completion ?key) > se_now env")
              case True
              then have "s' = s \<and> blocks w w'"
                using run open_ by (auto simp: eval edge_resolved_def blocks_def split: if_splits)
              then show thesis using blocked by simp
            next
              case False
              then have d: "wave_dispatch env t part consumer ?facts precord (pf_producer ?facts) (completion ?key) (s, w) = (s', w')"
                using run open_ by (auto simp: eval edge_resolved_def split: if_splits)
              have "sc_edge_attempts s (grant_key g) = None"
                if "dispatchable env t completion partitions s g" "dg_partition g = part" "dg_consumer g = consumer" for g
                using that False by (auto simp: dispatchable_def Let_def grant_key_def)
              then show thesis
                using wave_dispatch_outcome [OF d, of partitions completion] prod own pr ok ok' open_ False blocked granted
                by (auto simp: not_le not_less)
            qed
          qed
        qed
      qed
    qed
  qed
qed

section \<open>Lemmas: bookkeeping\<close>

lemma unat_Suc_word: "unat (w + 1) = Suc (unat w)" if "w < (v :: 'a::len word)"
proof -
  have "unat w < unat v" "unat v < 2 ^ LENGTH('a)" using that unsigned_less [of v] by (simp_all add: word_less_nat_alt)
  then have "Suc (unat w) < 2 ^ LENGTH('a)" by linarith
  then show ?thesis by (simp add: unat_word_ariths)
qed

lemma map_entry_update: "map_entry d (m(k \<mapsto> v)) k' = (if k' = k then v else map_entry d m k')"
  by (simp add: map_entry_def)

lemma quiet_inv: "quiet s s' \<Longrightarrow> scheduler_inv s' = scheduler_inv s"
  using quietD [of s s'] by (simp add: scheduler_inv_def attempts_of_def)

lemma movedD:
  assumes "moved s s'"
  shows "sc_policy s' = sc_policy s" "sc_attempts s' = sc_attempts s" "sc_edge_attempts s' = sc_edge_attempts s"
    "sc_next_attempt_id s' = sc_next_attempt_id s" "sc_global_in_flight s' = sc_global_in_flight s"
    "in_flight_for_producer s' = in_flight_for_producer s" "in_flight_for_consumer s' = in_flight_for_consumer s"
    "sc_shuffle s' = sc_shuffle s" "sc_shuffle_generation s' = sc_shuffle_generation s"
    "sc_topology_generation s' = sc_topology_generation s" "sc_policy_generation s' = sc_policy_generation s"
    "sc_partition_count s' = sc_partition_count s"
    "sc_next_wave_id s' = sc_next_wave_id s" "sc_configured s' = sc_configured s"
  using assms unfolding moved_def in_flight_entry by auto

lemma moved_inv: "moved s s' \<Longrightarrow> scheduler_inv s' = scheduler_inv s"
  using movedD [of s s'] by (simp add: scheduler_inv_def attempts_of_def)

lemma issue_grant_inv:
  assumes inv: "scheduler_inv s" and room: "has_room s g" and free: "sc_edge_attempts s key = None"
    and next_id: "dg_attempt g = sc_next_attempt_id s" "sc_next_attempt_id s < - 1"
  shows "scheduler_inv (issue_grant key g s)"
proof -
  have new: "map_of (sc_attempts s) (sc_next_attempt_id s) = None"
    using inv by (auto simp: scheduler_inv_def map_of_eq_None_iff)
  let ?r = "\<lparr>ar_key = key, ar_wave = dg_wave g, ar_ordinal = dg_attempt_ordinal g,
      ar_producer = dg_producer g, ar_consumer = dg_consumer g\<rparr>"
  have att: "sc_attempts (issue_grant key g s) = (sc_next_attempt_id s, ?r) # sc_attempts s"
    using new next_id(1) by (simp add: issue_grant_def)
  have nx: "sc_next_attempt_id (issue_grant key g s) = id_next (sc_next_attempt_id s)"
    "sc_global_in_flight (issue_grant key g s) = sc_global_in_flight s + 1"
    by (simp_all add: issue_grant_def)
  have up: "unat (x + 1) = Suc (unat x)" if "x < y" for x y :: u32
    using that by (rule unat_Suc_word)
  have n: "x < id_next (sc_next_attempt_id s)" if "x < sc_next_attempt_id s \<or> x = sc_next_attempt_id s" for x
    using that unat_Suc_word [OF next_id(2)] by (auto simp: id_next_def word_less_nat_alt)
  have e: "sc_edge_attempts (issue_grant key g s) = (sc_edge_attempts s)(key \<mapsto> sc_next_attempt_id s)"
    using free next_id(1) by (simp add: issue_grant_def)
  have ids: "(\<exists>r. map_of (sc_attempts s) a = Some r \<and> ar_key r = key) = False" for a
    using inv free unfolding scheduler_inv_def by (metis option.distinct(1))
  have edges: "sc_edge_attempts (issue_grant key g s) k = Some a \<longleftrightarrow>
      (\<exists>r. map_of (sc_attempts (issue_grant key g s)) a = Some r \<and> ar_key r = k)" for k a
    using inv ids [of a] new unfolding e att scheduler_inv_def by (cases "k = key"; cases "a = sc_next_attempt_id s") auto
  have counts: "in_flight_for_producer (issue_grant key g s) pid =
        (if pid = dg_producer g then in_flight_for_producer s pid + 1 else in_flight_for_producer s pid)"
      "in_flight_for_consumer (issue_grant key g s) cid =
        (if cid = dg_consumer g then in_flight_for_consumer s cid + 1 else in_flight_for_consumer s cid)" for pid cid
    by (simp_all add: in_flight_entry issue_grant_def map_entry_update)
  have "distinct (map fst (sc_attempts (issue_grant key g s)))"
    using inv new by (simp add: att scheduler_inv_def map_of_eq_None_iff)
  moreover have "\<forall>attempt \<in> fst ` set (sc_attempts (issue_grant key g s)). attempt < sc_next_attempt_id (issue_grant key g s)"
    using inv n by (auto simp: att nx scheduler_inv_def)
  moreover have "unat (sc_global_in_flight (issue_grant key g s)) = length (sc_attempts (issue_grant key g s))"
    using inv room up by (auto simp: att nx scheduler_inv_def has_room_def)
  moreover have "unat (in_flight_for_producer (issue_grant key g s) pid) =
      attempts_of (\<lambda>record. ar_producer record = pid) (issue_grant key g s)" for pid
    using inv room up by (auto simp: att attempts_of_def counts scheduler_inv_def has_room_def)
  moreover have "unat (in_flight_for_consumer (issue_grant key g s) cid) =
      attempts_of (\<lambda>record. ar_consumer record = cid) (issue_grant key g s)" for cid
    using inv room up by (auto simp: att attempts_of_def counts scheduler_inv_def has_room_def)
  ultimately show ?thesis
    unfolding scheduler_inv_def using edges by blast
qed

lemma release_entry:
  "map_entry 0 (release_count k m) k' =
     (if k' = k \<and> map_entry 0 m k > 0 then map_entry 0 m k - 1 else map_entry 0 m k')"
  by (auto simp: release_count_def map_entry_def Let_def split: option.splits)

lemma attempts_delete:
  assumes "distinct (map fst al)" "map_of al a = Some r"
  shows "length (filter (\<lambda>(attempt, record). P record) (AList.delete a al)) + (if P r then 1 else 0) =
    length (filter (\<lambda>(attempt, record). P record) al)"
  using assms
proof (induction al)
  case (Cons e al)
  then show ?case by (cases e) (auto simp: delete_id map_of_eq_None_iff dest: weak_map_of_SomeI)
qed simp

lemma resolve_inv:
  assumes inv: "scheduler_inv s"
  shows "scheduler_inv (snd (scheduler_resolve attempt outcome code s))"
proof (cases "map_of (sc_attempts s) attempt")
  case (Some r)
  let ?s = "snd (scheduler_resolve attempt outcome code s)"
  have att: "sc_attempts ?s = AList.delete attempt (sc_attempts s)"
    "sc_edge_attempts ?s = (sc_edge_attempts s)(ar_key r := None)"
    "sc_next_attempt_id ?s = sc_next_attempt_id s"
    "sc_global_in_flight ?s = (if sc_global_in_flight s > 0 then sc_global_in_flight s - 1 else sc_global_in_flight s)"
    "in_flight_for_producer ?s pid = (if pid = ar_producer r \<and> in_flight_for_producer s (ar_producer r) > 0
       then in_flight_for_producer s (ar_producer r) - 1 else in_flight_for_producer s pid)"
    "in_flight_for_consumer ?s cid = (if cid = ar_consumer r \<and> in_flight_for_consumer s (ar_consumer r) > 0
       then in_flight_for_consumer s (ar_consumer r) - 1 else in_flight_for_consumer s cid)" for pid cid
    using Some by (simp_all add: scheduler_resolve_def in_flight_entry release_entry)
  note d = attempts_delete [OF _ Some]
  have dist: "distinct (map fst (sc_attempts s))" using inv by (simp add: scheduler_inv_def)
  have below: "\<forall>a \<in> fst ` set (sc_attempts s). a < sc_next_attempt_id s" using inv by (simp add: scheduler_inv_def)
  have edges: "sc_edge_attempts ?s k = Some a \<longleftrightarrow> (\<exists>r. map_of (sc_attempts ?s) a = Some r \<and> ar_key r = k)" for k a
  proof -
    have iff: "sc_edge_attempts s k' = Some a' \<longleftrightarrow> (\<exists>r. map_of (sc_attempts s) a' = Some r \<and> ar_key r = k')" for k' a'
      using inv by (simp add: scheduler_inv_def)
    have mine: "sc_edge_attempts s (ar_key r) = Some attempt" using iff Some by blast
    show ?thesis using iff [of k a] mine Some by (auto simp: att delete_conv')
  qed
  have dec: "unat (x - 1) = unat x - 1" if "x > 0" for x :: u32
    using that by (intro unat_minus_one) auto
  have len: "length (AList.delete attempt (sc_attempts s)) + 1 = length (sc_attempts s)"
    using d [OF dist, of "\<lambda>_. True"] by (simp add: case_prod_unfold)
  have "distinct (map fst (sc_attempts ?s))" using dist by (simp add: att distinct_delete)
  moreover have "\<forall>a \<in> fst ` set (sc_attempts ?s). a < sc_next_attempt_id ?s"
    using below dom_delete_subset [of attempt "sc_attempts s"] unfolding att(1,3) by blast
  moreover have "unat (sc_global_in_flight ?s) = length (sc_attempts ?s)"
    using inv len dec by (auto simp: att scheduler_inv_def word_less_nat_alt)
  moreover have "unat (in_flight_for_producer ?s pid) = attempts_of (\<lambda>record. ar_producer record = pid) ?s" for pid
    using inv d [OF dist, of "\<lambda>record. ar_producer record = pid"] dec
    by (auto simp: att attempts_of_def scheduler_inv_def word_less_nat_alt split: if_splits)
  moreover have "unat (in_flight_for_consumer ?s cid) = attempts_of (\<lambda>record. ar_consumer record = cid) ?s" for cid
    using inv d [OF dist, of "\<lambda>record. ar_consumer record = cid"] dec
    by (auto simp: att attempts_of_def scheduler_inv_def word_less_nat_alt split: if_splits)
  ultimately show ?thesis
    unfolding scheduler_inv_def using edges by blast
qed (use inv in \<open>simp add: scheduler_resolve_def\<close>)

lemma abandon_inv: "scheduler_inv (snd (abandon_all code s))"
  by (simp add: abandon_all_def scheduler_inv_def attempts_of_def in_flight_entry map_entry_def)

lemma configure_inv: "scheduler_inv (snd (scheduler_configure policy t s)) = scheduler_inv s"
  by (simp add: scheduler_configure_def scheduler_inv_def attempts_of_def in_flight_entry split: sum.split)

lemma mk_scheduler_inv: "scheduler_inv (mk_scheduler l)"
  by (simp add: mk_scheduler_def scheduler_inv_def attempts_of_def in_flight_entry map_entry_def)

section \<open>Lemmas: the wave\<close>

lemma moved_refl [simp]: "moved s s"
  unfolding moved_def
  by (rule exI [of _ "sc_partition_cursor s"], rule exI [of _ "sc_pattern_cursor s"], rule exI [of _ "sc_consumer_cursor s"]) simp

lemma moved_trans: "moved s s' \<Longrightarrow> moved s' s'' \<Longrightarrow> moved s s''"
  unfolding moved_def by force

lemma cursor_moved:
  "moved s (s\<lparr>sc_partition_cursor := a\<rparr>)" "moved s (next_pattern s)" "moved s (next_partition s)"
  "moved s (s\<lparr>sc_consumer_cursor := c\<rparr>)"
  unfolding moved_def next_pattern_def next_partition_def
  by (rule exI [of _ a], rule exI [of _ "sc_pattern_cursor s"], rule exI [of _ "sc_consumer_cursor s"], simp)
    (rule exI [of _ "sc_partition_cursor s"], rule exI [of _ "sc_pattern_cursor s + 1"], rule exI [of _ 0], simp,
     rule exI [of _ "sc_partition_cursor s + 1"], rule exI [of _ 0], rule exI [of _ 0], simp,
     rule exI [of _ "sc_partition_cursor s"], rule exI [of _ "sc_pattern_cursor s"], rule exI [of _ c], simp)

lemma same_grants_simps [simp]:
  "same_grants w w" "same_grants w (note_wrap w)" "same_grants w (w\<lparr>ws_examined := n\<rparr>)"
  by (simp_all add: same_grants_def note_wrap_def)

lemma same_grants_trans: "same_grants w w' \<Longrightarrow> same_grants w' w'' \<Longrightarrow> same_grants w w''"
  by (simp add: same_grants_def)

lemma settles_same: "settles w w' \<Longrightarrow> same_grants w w'"
  by (auto simp: settles_def same_grants_def wave_notes)

lemma blocks_same: "blocks w w' \<Longrightarrow> same_grants w w'"
  by (auto simp: blocks_def same_grants_def wave_notes)

lemma wrap_partition_moved:
  "wrap_partition (s, w) = (s', w') \<Longrightarrow> moved s s' \<and> same_grants w w'"
  by (auto simp: wrap_partition_def cursor_moved split: if_splits)

lemma wrap_partition_cursor:
  "wrap_partition (s, w) = (s', w') \<Longrightarrow> sc_partition_count s \<noteq> 0 \<Longrightarrow> sc_partition_cursor s' < sc_partition_count s'"
  by (auto simp: wrap_partition_def word_neq_0_conv split: if_splits)

lemma wave_move_cases:
  assumes "wave_move env t completion partitions (s, w) = (s', w')"
  obtains (moved) "moved s s'" "same_grants w w'"
  | (edge) consumer where "edge_selected t (ucast (sc_partition_cursor s)) consumer"
      "wave_edge env t completion partitions (ucast (sc_partition_cursor s)) consumer
         (s\<lparr>sc_consumer_cursor := sc_consumer_cursor s + 1\<rparr>, w) = (s', w')"
proof (cases "unat (sc_pattern_cursor s) \<ge> length (tp_pattern_order t)")
  case True
  then have "wrap_partition (next_partition s, w) = (s', w')" using assms by (simp add: wave_move_def)
  then have "moved (next_partition s) s' \<and> same_grants w w'" by (rule wrap_partition_moved)
  then show thesis using moved moved_trans cursor_moved(3) by blast
next
  case pat: False
  let ?i = "tp_pattern_order t ! unat (sc_pattern_cursor s)"
  show thesis
  proof (cases "selection_covers (tp_pattern t ?i) (ucast (sc_partition_cursor s)) \<and>
      unat (sc_consumer_cursor s) < length (consumers_of_pattern t ?i)")
    case False
    then have "(s', w') = (next_pattern s, w)" using assms pat by (auto simp: wave_move_def Let_def not_less split: if_splits)
    then show thesis using moved cursor_moved(2) by simp
  next
    case True
    let ?c = "consumers_of_pattern t ?i ! unat (sc_consumer_cursor s)"
    have "edge_selected t (ucast (sc_partition_cursor s)) ?c"
      unfolding edge_selected_def using True pat by (intro bexI [of _ ?i]) auto
    moreover have "wave_edge env t completion partitions (ucast (sc_partition_cursor s)) ?c
         (s\<lparr>sc_consumer_cursor := sc_consumer_cursor s + 1\<rparr>, w) = (s', w')"
      using True pat assms by (simp add: wave_move_def Let_def)
    ultimately show thesis by (rule edge)
  qed
qed

lemma wave_step_cases:
  assumes "wave_step env t completion partitions (s, w) = (s', w')" "sc_partition_count s \<noteq> 0"
  obtains (moved) "moved s s'" "same_grants w w'"
  | (edge) part consumer s1 w1 where "moved s s1" "same_grants w w1" "edge_selected t part consumer"
      "part < ucast (sc_partition_count s)" "wave_edge env t completion partitions part consumer (s1, w1) = (s', w')"
proof -
  obtain s0 w0 where wrap: "wrap_partition (s, w\<lparr>ws_examined := ws_examined w + 1\<rparr>) = (s0, w0)" by fastforce
  note m0 = wrap_partition_moved [OF wrap]
  have cur: "sc_partition_cursor s0 < sc_partition_count s"
    using wrap_partition_cursor [OF wrap assms(2)] movedD(12) m0 by auto
  have sg: "same_grants w w0" using m0 same_grants_trans same_grants_simps(3) by blast
  have "wave_move env t completion partitions (s0, w0) = (s', w')" using assms(1) wrap by (simp add: wave_step_def)
  then show thesis
  proof (cases rule: wave_move_cases)
    case moved: moved
    show thesis using that(1) moved_trans [OF conjunct1 [OF m0] moved(1)] same_grants_trans [OF sg moved(2)] .
  next
    case (edge consumer)
    have "moved s (s0\<lparr>sc_consumer_cursor := sc_consumer_cursor s0 + 1\<rparr>)"
      using m0 cursor_moved(4) moved_trans by blast
    moreover have "(ucast (sc_partition_cursor s0) :: u64) < ucast (sc_partition_count s)"
      using cur by (simp add: word_less_nat_alt)
    ultimately show thesis using that(2) sg edge by blast
  qed
qed

lemma same_binding_refl [simp]: "same_binding s s"
  by (simp add: same_binding_def)

lemma moved_binding: "moved s s' \<Longrightarrow> same_binding s0 s' = same_binding s0 s"
  using movedD [of s s'] by (simp add: same_binding_def)

lemma quiet_binding: "quiet s s' \<Longrightarrow> same_binding s0 s' = same_binding s0 s"
  using quietD [of s s'] by (simp add: same_binding_def)

lemma dispatchable_binding: "same_binding s s' \<Longrightarrow> dispatchable env t completion partitions s' g = dispatchable env t completion partitions s g"
  by (simp add: dispatchable_def same_binding_def)

lemma wave_inv_cong:
  assumes "scheduler_inv s' = scheduler_inv s" "same_binding s0 s' = same_binding s0 s"
    and "sc_attempts s' = sc_attempts s" "sc_global_in_flight s' = sc_global_in_flight s"
    and "sc_next_attempt_id s' = sc_next_attempt_id s"
    and "in_flight_for_producer s' = in_flight_for_producer s" "in_flight_for_consumer s' = in_flight_for_consumer s"
    and "same_grants w w'"
  shows "wave_inv env t completion partitions s0 s' w' = wave_inv env t completion partitions s0 s w"
  using assms by (simp add: wave_inv_def within_limits_def grant_in_flight_def same_grants_def)

lemma moved_wave_inv:
  "moved s s' \<Longrightarrow> same_grants w w' \<Longrightarrow> wave_inv env t completion partitions s0 s' w' = wave_inv env t completion partitions s0 s w"
  using movedD [of s s'] moved_inv moved_binding by (intro wave_inv_cong) blast+

lemma quiet_wave_inv:
  "quiet s s' \<Longrightarrow> same_grants w w' \<Longrightarrow> wave_inv env t completion partitions s0 s' w' = wave_inv env t completion partitions s0 s w"
  using quietD [of s s'] quiet_inv quiet_binding by (intro wave_inv_cong) blast+

lemma issue_grant_fields [simp]:
  "sc_policy (issue_grant key g s) = sc_policy s" "sc_shuffle (issue_grant key g s) = sc_shuffle s"
  "sc_shuffle_generation (issue_grant key g s) = sc_shuffle_generation s"
  "sc_topology_generation (issue_grant key g s) = sc_topology_generation s"
  "sc_policy_generation (issue_grant key g s) = sc_policy_generation s"
  "sc_partition_count (issue_grant key g s) = sc_partition_count s"
  "sc_next_wave_id (issue_grant key g s) = sc_next_wave_id s" "sc_configured (issue_grant key g s) = sc_configured s"
  "sc_next_attempt_id (issue_grant key g s) = id_next (sc_next_attempt_id s)"
  "sc_global_in_flight (issue_grant key g s) = sc_global_in_flight s + 1"
  "in_flight_for_producer (issue_grant key g s) pid =
     (if pid = dg_producer g then in_flight_for_producer s pid + 1 else in_flight_for_producer s pid)"
  "in_flight_for_consumer (issue_grant key g s) cid =
     (if cid = dg_consumer g then in_flight_for_consumer s cid + 1 else in_flight_for_consumer s cid)"
  by (simp_all add: issue_grant_def in_flight_entry map_entry_update)

lemma grant_wave_inv:
  assumes inv: "wave_inv env t completion partitions s0 s w" and room: "has_room s g"
    and free: "sc_edge_attempts s (grant_key g) = None" and d: "dispatchable env t completion partitions s g"
    and sel: "edge_selected t (dg_partition g) (dg_consumer g)" "dg_partition g < ucast (sc_partition_count s)"
    and id: "dg_attempt g = sc_next_attempt_id s" "dg_wave g = wp_id (ws_plan w)" "sc_next_attempt_id s < - 1"
  shows "wave_inv env t completion partitions s0 (issue_grant (grant_key g) g s) (add_grant g w)"
proof -
  let ?s = "issue_grant (grant_key g) g s"
  have si: "scheduler_inv s" and b: "same_binding s0 s" and lim: "within_limits s0 s" using inv by (simp_all add: wave_inv_def)
  have new: "map_of (sc_attempts s) (sc_next_attempt_id s) = None"
    using si by (auto simp: scheduler_inv_def map_of_eq_None_iff)
  have att: "sc_attempts ?s = (sc_next_attempt_id s, \<lparr>ar_key = grant_key g, ar_wave = dg_wave g,
      ar_ordinal = dg_attempt_ordinal g, ar_producer = dg_producer g, ar_consumer = dg_consumer g\<rparr>) # sc_attempts s"
    using new id(1) by (simp add: issue_grant_def)
  have old: "dg_attempt x \<noteq> sc_next_attempt_id s" if "x \<in> set (wp_grants (ws_plan w))" for x
    using that inv new by (auto simp: wave_inv_def grant_in_flight_def)
  have up: "x + 1 \<le> max y z" if "x < z" for x y z :: u32
    using inc_le [OF that] by (simp add: le_max_iff_disj)
  have "within_limits s0 ?s"
    using lim room b up by (auto simp: within_limits_def has_room_def same_binding_def)
  moreover have "unat (id_next (sc_next_attempt_id s)) = Suc (unat (sc_next_attempt_id s))"
    using unat_Suc_word [OF id(3)] by (simp add: id_next_def)
  moreover have "grant_in_flight ?s x" if "x \<in> set (wp_grants (ws_plan w))" for x
    using that inv old [OF that] by (simp add: wave_inv_def grant_in_flight_def att)
  moreover have "grant_in_flight ?s g" by (simp add: grant_in_flight_def att id(1))
  moreover have "same_binding s0 ?s" using b by (simp add: same_binding_def)
  moreover have "dg_attempt g \<notin> dg_attempt ` set (wp_grants (ws_plan w))" using old id(1) by fastforce
  ultimately show ?thesis
    using inv issue_grant_inv [OF si room free id(1,3)] d dispatchable_binding [OF b] sel id(2) b
    by (auto simp: wave_inv_def add_grant_def same_binding_def)
qed

lemma wave_step_inv:
  assumes inv: "wave_inv env t completion partitions s0 s w" and n: "sc_partition_count s0 \<noteq> 0"
    and id: "unat (sc_next_attempt_id s0) + length (wp_grants (ws_plan w)) < 2 ^ 64 - 1"
    and run: "wave_step env t completion partitions (s, w) = (s', w')"
  shows "wave_inv env t completion partitions s0 s' w'"
proof -
  have pc: "sc_partition_count s = sc_partition_count s0" using inv by (simp add: wave_inv_def same_binding_def)
  have top: "sc_next_attempt_id s < - 1"
    using inv id by (simp add: wave_inv_def word_less_nat_alt unsigned_minus_1_eq_mask mask_eq_exp_minus_1)
  have "sc_partition_count s \<noteq> 0" using n pc by simp
  from run this show ?thesis
  proof (cases rule: wave_step_cases)
    case moved
    then show ?thesis using inv moved_wave_inv by blast
  next
    case (edge part consumer s1 w1)
    have inv1: "wave_inv env t completion partitions s0 s1 w1" using edge(1,2) inv moved_wave_inv by blast
    from edge(5) show ?thesis
    proof (cases rule: wave_edge_outcome)
      case settled
      then show ?thesis using inv1 quiet_wave_inv [OF quiet_refl settles_same] by simp
    next
      case blocked
      then show ?thesis using inv1 quiet_wave_inv [OF _ blocks_same] by blast
    next
      case (granted g s2)
      note q = quietD [OF granted(1)] and m = movedD [OF edge(1)]
      have "wave_inv env t completion partitions s0 s2 w1" using quiet_wave_inv [OF granted(1), of w1 w1] inv1 by simp
      then have "wave_inv env t completion partitions s0 (issue_grant (grant_key g) g s2) (add_grant g w1)"
        using granted edge(3,4) top q m dispatchable_binding [of s1 s2] quiet_binding [OF granted(1), of s1]
        by (intro grant_wave_inv) (simp_all add: has_room_def)
      then show ?thesis using granted(2,3) by simp
    qed
  qed
qed

section \<open>Lemmas: runs of the scheduler\<close>

lemma wave_loop_more:
  "ws_examined (snd sw) < budget \<Longrightarrow> length (wp_grants (ws_plan (snd sw))) < unat grant_target \<Longrightarrow> \<not> ws_stop (snd sw) \<Longrightarrow>
   wave_loop env t completion partitions budget grant_target sw =
     wave_loop env t completion partitions budget grant_target (wave_step env t completion partitions sw)"
  by (subst wave_loop.simps) simp

lemma wave_loop_stop:
  "\<not> (ws_examined (snd sw) < budget \<and> length (wp_grants (ws_plan (snd sw))) < unat grant_target \<and> \<not> ws_stop (snd sw)) \<Longrightarrow>
   wave_loop env t completion partitions budget grant_target sw = sw"
  by (subst wave_loop.simps) (simp only: if_False)

text \<open>What every step of the loop keeps, the loop keeps.\<close>

lemma wave_loop_keeps:
  assumes "I (fst sw) (snd sw)"
    and "\<And>s w s' w'. I s w \<Longrightarrow> ws_examined w < budget \<Longrightarrow> length (wp_grants (ws_plan w)) < unat grant_target \<Longrightarrow> \<not> ws_stop w \<Longrightarrow>
      wave_step env t completion partitions (s, w) = (s', w') \<Longrightarrow> I s' w'"
  shows "I (fst (wave_loop env t completion partitions budget grant_target sw))
    (snd (wave_loop env t completion partitions budget grant_target sw))"
  using assms
proof (induction env t completion partitions budget grant_target sw rule: wave_loop.induct)
  case (1 env t completion partitions budget grant_target sw)
  show ?case
  proof (cases "ws_examined (snd sw) < budget \<and> length (wp_grants (ws_plan (snd sw))) < unat grant_target \<and> \<not> ws_stop (snd sw)")
    case True
    have "I (fst (wave_step env t completion partitions sw)) (snd (wave_step env t completion partitions sw))"
      using "1.prems"(2) [OF "1.prems"(1)] True by (metis prod.collapse)
    then show ?thesis
      using "1.IH" [OF True] "1.prems"(2) wave_loop_more [of sw budget grant_target env t completion partitions] True by simp
  next
    case False
    then show ?thesis using "1.prems"(1) wave_loop_stop [OF False] by simp
  qed
qed

lemma wave_start_inv: "scheduler_inv s \<Longrightarrow> wave_inv env t completion partitions s s (wave_start s)"
  by (simp add: wave_inv_def wave_start_def empty_plan_def within_limits_def)

lemma wave_walk_inv:
  assumes inv: "scheduler_inv s" and n: "sc_partition_count s \<noteq> 0" and ids: "ids_left s"
    and walk: "wave_walk env t completion partitions s = (s1, w)"
  shows "wave_inv env t completion partitions s s1 w"
proof -
  have "wave_inv env t completion partitions s (fst (wave_walk env t completion partitions s))
      (snd (wave_walk env t completion partitions s))"
    unfolding wave_walk_def
  proof (rule wave_loop_keeps)
    show "wave_inv env t completion partitions s (fst (s, wave_start s)) (snd (s, wave_start s))"
      using wave_start_inv [OF inv] by simp
  next
    fix s2 w2 s3 w3
    assume i: "wave_inv env t completion partitions s s2 w2"
      and g: "length (wp_grants (ws_plan w2)) < unat (wl_max_grants_per_wave (pe_waves (sc_policy s)))"
      and st: "wave_step env t completion partitions (s2, w2) = (s3, w3)"
    show "wave_inv env t completion partitions s s3 w3"
      using wave_step_inv [OF i n _ st] g ids by (simp add: ids_left_def)
  qed
  then show ?thesis using walk by simp
qed

lemma next_wave_cases:
  assumes "next_wave env s = (result, s')"
  obtains (refused) e where "result = Inl e" "s' = s"
  | (empty) t completion partitions where "se_topology env = Some t" "se_completion env = Some completion" "se_partitions env = Some partitions"
      "sc_partition_count s = 0 \<or> tp_pattern_order t = []"
      "result = Inr ((empty_plan (sc_next_wave_id s))\<lparr>wp_all_resolved := True\<rparr>)" "s' = s"
  | (walked) t completion partitions s1 w wave stats where "se_topology env = Some t" "se_completion env = Some completion"
      "se_partitions env = Some partitions" "tp_shuffle t = sc_shuffle s" "tp_shuffle_generation t = sc_shuffle_generation s"
      "tp_generation t = sc_topology_generation s" "sc_partition_count s \<noteq> 0" "tp_pattern_order t \<noteq> []"
      "wave_walk env t completion partitions s = (s1, w)" "result = Inr (finished_plan w)"
      "s' = s1\<lparr>sc_next_wave_id := wave, sc_stats := stats\<rparr>"
proof (cases "sc_configured s \<and> se_topology env \<noteq> None \<and> se_completion env \<noteq> None \<and> se_partitions env \<noteq> None")
  case False
  then consider "\<not> sc_configured s" | "sc_configured s" "se_topology env = None"
    | "sc_configured s" "se_topology env \<noteq> None" "se_completion env = None"
    | "sc_configured s" "se_topology env \<noteq> None" "se_completion env \<noteq> None" "se_partitions env = None" by blast
  then have "(\<exists>e. result = Inl e) \<and> s' = s" using assms by cases (auto simp: next_wave_def)
  then show thesis using refused by blast
next
  case True
  then obtain t completion partitions where e: "se_topology env = Some t" "se_completion env = Some completion"
    "se_partitions env = Some partitions" by blast
  show thesis
  proof (cases "tp_shuffle t = sc_shuffle s \<and> tp_shuffle_generation t = sc_shuffle_generation s \<and>
      tp_generation t = sc_topology_generation s")
    case False
    then consider "tp_shuffle t \<noteq> sc_shuffle s \<or> tp_shuffle_generation t \<noteq> sc_shuffle_generation s"
      | "tp_shuffle t = sc_shuffle s" "tp_shuffle_generation t = sc_shuffle_generation s" "tp_generation t \<noteq> sc_topology_generation s"
      by blast
    then have "(\<exists>e. result = Inl e) \<and> s' = s" using assms True e by cases (simp_all add: next_wave_def, blast+)
    then show thesis using refused by blast
  next
    case ok: True
    show thesis
    proof (cases "sc_partition_count s = 0 \<or> tp_pattern_order t = []")
      case empty': True
      then have "next_wave env s = (Inr ((empty_plan (sc_next_wave_id s))\<lparr>wp_all_resolved := True\<rparr>), s)"
        using e ok True by (simp add: next_wave_def)
      with assms have "result = Inr ((empty_plan (sc_next_wave_id s))\<lparr>wp_all_resolved := True\<rparr>)" "s' = s" by auto
      then show thesis by (rule empty [OF e empty'])
    next
      case nonempty: False
      obtain s1 w where walk: "wave_walk env t completion partitions s = (s1, w)" by fastforce
      have "(result, s') = finish_wave (s1, w)"
        using assms e ok nonempty walk True by (simp add: next_wave_def)
      then have "result = Inr (finished_plan w)"
        "s' = s1\<lparr>sc_next_wave_id := (if wp_grants (ws_plan w) \<noteq> [] then id_next (sc_next_wave_id s1) else sc_next_wave_id s1),
           sc_stats := count_wave w (sc_stats s1)\<rparr>"
        by (simp_all add: finish_wave_def)
      then show thesis using walked [OF e _ _ _ _ _ walk] ok nonempty by blast
    qed
  qed
qed

lemma bookkeeping_fields [simp]:
  "scheduler_inv (s\<lparr>sc_next_wave_id := wave, sc_stats := stats\<rparr>) = scheduler_inv s"
  by (simp add: scheduler_inv_def attempts_of_def in_flight_entry)

lemma next_wave_inv:
  assumes inv: "scheduler_inv s" and ids: "ids_left s"
  shows "scheduler_inv (snd (next_wave env s))"
proof (cases "next_wave env s")
  case (Pair result s')
  then show ?thesis
  proof (cases rule: next_wave_cases)
    case (walked t completion partitions s1 w wave stats)
    have "wave_inv env t completion partitions s s1 w" by (rule wave_walk_inv [OF inv walked(7) ids walked(9)])
    then show ?thesis using Pair walked(11) by (simp add: wave_inv_def)
  qed (use Pair inv in simp_all)
qed

lemma scheduler_step_inv: "scheduler_step s s' \<Longrightarrow> scheduler_inv s \<Longrightarrow> scheduler_inv s'"
  by (induction rule: scheduler_step.induct)
    (simp_all add: configure_inv next_wave_inv resolve_inv abandon_inv)

lemma scheduler_reachable_inv: "scheduler_step\<^sup>*\<^sup>* (mk_scheduler l) s \<Longrightarrow> scheduler_inv s"
  by (induction rule: rtranclp_induct) (auto intro: mk_scheduler_inv scheduler_step_inv)

section \<open>Lemmas: a full pass\<close>

lemma unat_Suc_less: "unat (w :: u32) < n \<Longrightarrow> n < 2 ^ 32 \<Longrightarrow> unat (w + 1) = Suc (unat w)"
  by (simp add: unat_word_ariths)

lemma blocks_notes:
  assumes "blocks w w'" "open_notes w < 2 ^ 32 - 1"
  shows "open_notes w' = Suc (open_notes w)"
proof -
  have up: "unat (x + 1) = Suc (unat x)" if "unat x \<le> open_notes w" for x :: u32
    using that assms(2) by (intro unat_Suc_less [of _ "2 ^ 32 - 1"]) auto
  have b: "unat (wp_skipped_unproduced (ws_plan w)) \<le> open_notes w" "unat (wp_skipped_in_flight (ws_plan w)) \<le> open_notes w"
    "unat (wp_deferred_retry_wait (ws_plan w)) \<le> open_notes w" "unat (wp_deferred_limits (ws_plan w)) \<le> open_notes w"
    "unat (wp_deferred_source_pressure (ws_plan w)) \<le> open_notes w"
    "unat (wp_deferred_destination_pressure (ws_plan w)) \<le> open_notes w"
    "unat (wp_deferred_unknown_pressure (ws_plan w)) \<le> open_notes w"
    by (simp_all add: open_notes_def)
  note u = b [THEN up]
  show ?thesis
    using assms(1) u unfolding blocks_def
    by (elim disjE) (simp_all add: open_notes_def wave_notes)
qed

lemma settles_notes: "settles w w' \<Longrightarrow> open_notes w' = open_notes w \<and> ws_wrapped w' = ws_wrapped w \<and> ws_examined w' = ws_examined w"
  by (auto simp: settles_def open_notes_def wave_notes)

lemma blocks_wrapped: "blocks w w' \<Longrightarrow> ws_wrapped w' = ws_wrapped w \<and> ws_examined w' = ws_examined w"
  by (auto simp: blocks_def wave_notes)

lemma pass_inv_edge:
  assumes inv: "pass_inv t completion partitions s0 s w" and nar: "narrow_topology t"
    and here: "edge_at t (ucast (sc_partition_cursor s)) (unat (sc_pattern_cursor s)) (unat (sc_consumer_cursor s))"
    and few: "open_notes w < unat (ws_examined w)"
    and run: "wave_edge env t completion partitions (ucast (sc_partition_cursor s))
      (wave_consumers t (unat (sc_pattern_cursor s)) ! unat (sc_consumer_cursor s))
      (s\<lparr>sc_consumer_cursor := sc_consumer_cursor s + 1\<rparr>, w) = (s', w')"
  shows "pass_inv t completion partitions s0 s' w'"
proof -
  let ?s1 = "s\<lparr>sc_consumer_cursor := sc_consumer_cursor s + 1\<rparr>"
  have cc: "unat (sc_consumer_cursor s + 1) = Suc (unat (sc_consumer_cursor s))"
    using here nar unat_Suc_less by (auto simp: edge_at_def narrow_topology_def)
  have m: "moved s ?s1" by (rule cursor_moved)
  have bind1: "same_binding s0 ?s1" using inv moved_binding [OF m] by (simp add: pass_inv_def)
  have cur: "sc_partition_cursor ?s1 < sc_partition_count s0" using inv by (simp add: pass_inv_def)
  have le: "open_notes w < 2 ^ 32 - 1" using few unat32_bound [of "ws_examined w"] by simp
  from run show ?thesis
  proof (cases rule: wave_edge_outcome)
    case settled
    have se: "settled_edge completion partitions s0 (ucast (sc_partition_cursor s))
        (wave_consumers t (unat (sc_pattern_cursor s)) ! unat (sc_consumer_cursor s))"
      using settled(3) bind1 by (simp add: settled_edge_def same_binding_def)
    have same: "calm w' = calm w" "ws_wrapped w' = ws_wrapped w" "open_notes w' \<le> unat (ws_examined w')"
      using settles_notes [OF settled(2)] settles_same [OF settled(2)] few by (auto simp: calm_def same_grants_def)
    have "settled_edge completion partitions s0 part (wave_consumers t i ! j)"
      if "calm w" "edge_at t part i j" "part < ucast (sc_partition_count s0)" "ws_wrapped w \<or> behind ?s1 part i j" for part i j
    proof (cases "ws_wrapped w \<or> behind s part i j")
      case True
      then show ?thesis using inv that unfolding pass_inv_def by blast
    next
      case False
      then have "unat part = unat (sc_partition_cursor s)" "i = unat (sc_pattern_cursor s)" "j = unat (sc_consumer_cursor s)"
        using that(4) cc by (auto simp: behind_def)
      moreover from this(1) have "part = ucast (sc_partition_cursor s)" by (simp add: word_unat_eq_iff)
      ultimately show ?thesis using se by simp
    qed
    then show ?thesis using settled(1) same bind1 cur by (simp add: pass_inv_def)
  next
    case blocked
    have "open_notes w' = Suc (open_notes w)" by (rule blocks_notes [OF blocked(2) le])
    then show ?thesis
      using bind1 quiet_binding [OF blocked(1)] quietD [OF blocked(1)] cur blocks_wrapped [OF blocked(2)] few
      by (simp add: pass_inv_def calm_def)
  next
    case (granted g s2)
    have "same_binding s0 s'" using bind1 quiet_binding [OF granted(1)] granted(2) by (simp add: same_binding_def)
    moreover have "sc_partition_cursor s' < sc_partition_count s0"
      using granted(2) quietD(13) [OF granted(1)] cur by (simp add: issue_grant_def)
    moreover have "\<not> calm w'" "open_notes w' \<le> unat (ws_examined w')"
      using granted(3) few by (simp_all add: calm_def add_grant_def open_notes_def)
    ultimately show ?thesis by (simp add: pass_inv_def)
  qed
qed

lemma note_wrap_notes [simp]:
  "open_notes (note_wrap w) = open_notes w" "calm (note_wrap w) = calm w" "ws_wrapped (note_wrap w)"
  by (simp_all add: open_notes_def calm_def note_wrap_def)

lemma pass_inv_step:
  assumes inv: "pass_inv t completion partitions s0 s w" and nar: "narrow_topology t" and more: "ws_examined w < budget"
    and run: "wave_step env t completion partitions (s, w) = (s', w')"
  shows "pass_inv t completion partitions s0 s' w'"
proof -
  let ?w = "w\<lparr>ws_examined := ws_examined w + 1\<rparr>"
  let ?p = "unat (sc_partition_cursor s)" and ?i = "unat (sc_pattern_cursor s)" and ?j = "unat (sc_consumer_cursor s)"
  have cur: "sc_partition_cursor s < sc_partition_count s0" "sc_partition_count s = sc_partition_count s0"
    and bind: "same_binding s0 s"
    using inv by (simp_all add: pass_inv_def same_binding_def)
  have ex: "unat (ws_examined w + 1) = Suc (unat (ws_examined w))" by (rule unat_Suc_word [OF more])
  have few: "open_notes ?w < unat (ws_examined ?w)" using inv ex by (simp add: pass_inv_def open_notes_def)
  have inv1: "pass_inv t completion partitions s0 s ?w"
    using inv ex by (simp add: pass_inv_def open_notes_def calm_def)
  have move: "wave_move env t completion partitions (s, ?w) = (s', w')"
    using run cur by (simp add: wave_step_def wrap_partition_def not_le [symmetric])
  have pu: "unat (sc_partition_cursor s + 1) = Suc ?p" by (rule unat_Suc_word [OF cur(1)])
  have done_if: "settled_edge completion partitions s0 part (wave_consumers t i ! j)"
    if "calm ?w" "edge_at t part i j" "part < ucast (sc_partition_count s0)" "ws_wrapped w \<or> behind s part i j" for part i j
    using inv1 that by (auto simp: pass_inv_def)
  show ?thesis
  proof (cases "?i \<ge> length (tp_pattern_order t)")
    case True
    have b: "behind s part i j" if "edge_at t part i j" "unat part \<le> ?p" for part i j
      using that True by (auto simp: behind_def edge_at_def)
    have res: "wrap_partition (next_partition s, ?w) = (s', w')" using move True by (simp add: wave_move_def)
    show ?thesis
    proof (cases "sc_partition_cursor s + 1 \<ge> sc_partition_count s0")
      case wraps: True
      then have "s' = (next_partition s)\<lparr>sc_partition_cursor := 0\<rparr>" "w' = note_wrap ?w"
        using res cur by (simp_all add: wrap_partition_def next_partition_def)
      moreover have "unat part \<le> ?p" if "part < ucast (sc_partition_count s0)" for part :: u64
        using that wraps pu by (simp add: word_less_nat_alt word_le_nat_alt)
      moreover have "0 < sc_partition_count s0" using cur(1) word_gt_0 by fastforce
      ultimately show ?thesis
        using b done_if bind few by (auto simp: pass_inv_def same_binding_def next_partition_def)
    next
      case False
      then have "s' = next_partition s" "w' = ?w"
        using res cur by (simp_all add: wrap_partition_def next_partition_def)
      moreover have "unat part \<le> ?p" if "behind (next_partition s) part i j" for part i j
        using that pu by (auto simp: behind_def next_partition_def)
      ultimately show ?thesis
        using b done_if bind few False by (auto simp: pass_inv_def same_binding_def next_partition_def)
    qed
  next
    case pat: False
    have iu: "unat (sc_pattern_cursor s + 1) = Suc ?i"
      using pat nar by (intro unat_Suc_less [of _ "length (tp_pattern_order t)"]) (auto simp: narrow_topology_def)
    show ?thesis
    proof (cases "edge_at t (ucast (sc_partition_cursor s)) ?i ?j")
      case True
      then have "wave_edge env t completion partitions (ucast (sc_partition_cursor s)) (wave_consumers t ?i ! ?j)
          (s\<lparr>sc_consumer_cursor := sc_consumer_cursor s + 1\<rparr>, ?w) = (s', w')"
        using move pat by (simp add: wave_move_def edge_at_def wave_consumers_def Let_def)
      then show ?thesis using pass_inv_edge [OF inv1 nar True few] by simp
    next
      case False
      then have res: "s' = next_pattern s" "w' = ?w"
        using move pat by (auto simp: wave_move_def edge_at_def wave_consumers_def Let_def split: if_splits)
      have "behind s part i j" if "edge_at t part i j" "behind (next_pattern s) part i j" for part i j
      proof (cases "unat part = ?p \<and> i = ?i")
        case True
        then have "part = ucast (sc_partition_cursor s)" by (simp add: word_unat_eq_iff)
        then have "j < ?j" using False that(1) True by (auto simp: edge_at_def)
        then show ?thesis using True by (simp add: behind_def)
      qed (use that(2) iu in \<open>auto simp: behind_def next_pattern_def\<close>)
      then show ?thesis
        using res done_if bind few cur(1) by (auto simp: pass_inv_def same_binding_def next_pattern_def)
    qed
  qed
qed

lemma full_pass_settled:
  assumes walk: "wave_walk env t completion partitions s = (s1, w)" and n: "sc_partition_count s \<noteq> 0"
    and nar: "narrow_topology t"
    and origin: "sc_partition_cursor s = 0" "sc_pattern_cursor s = 0" "sc_consumer_cursor s = 0"
    and all: "wave_all_resolved (ws_plan w) (ws_wrapped w)"
    and e: "edge_selected t part consumer" "part < ucast (sc_partition_count s)"
  shows "settled_edge completion partitions s part consumer"
proof -
  have "pass_inv t completion partitions s (fst (wave_walk env t completion partitions s)) (snd (wave_walk env t completion partitions s))"
    unfolding wave_walk_def
  proof (rule wave_loop_keeps)
    show "pass_inv t completion partitions s (fst (s, wave_start s)) (snd (s, wave_start s))"
      using n origin by (simp add: pass_inv_def wave_start_def empty_plan_def open_notes_def behind_def word_neq_0_conv)
  qed (rule pass_inv_step [OF _ nar])
  then have p: "pass_inv t completion partitions s s1 w" using walk by simp
  have c: "calm w" "ws_wrapped w" using all by (simp_all add: wave_all_resolved_def calm_def open_notes_def)
  obtain index where i: "index \<in> set (tp_pattern_order t)" "selection_covers (tp_pattern t index) part"
    "consumer \<in> set (consumers_of_pattern t index)"
    using e(1) by (auto simp: edge_selected_def)
  then obtain k j where "k < length (tp_pattern_order t)" "tp_pattern_order t ! k = index"
    "j < length (consumers_of_pattern t index)" "consumers_of_pattern t index ! j = consumer"
    by (meson in_set_conv_nth)
  then have "edge_at t part k j" "wave_consumers t k ! j = consumer"
    using i by (auto simp: edge_at_def wave_consumers_def)
  then show ?thesis using p c e(2) unfolding pass_inv_def by blast
qed

section \<open>Lemmas: the edges of a topology\<close>

lemma edge_selected_required:
  assumes inv: "topology_inv t"
  shows "edge_selected t part consumer \<longleftrightarrow> consumer \<in> required_consumers t part"
proof -
  have n: "length (tp_patterns t) < 2 ^ 32" by (rule topology_invD(3) [OF inv])
  have ord: "set (tp_pattern_order t) = word_of_nat ` {..<length (tp_patterns t)}"
    using topology_invD(10) [OF inv] pattern_order_of_props(1) [of "map pt_key (tp_patterns t)"] n by simp
  have u: "unat (word_of_nat i :: u32) = i" if "i < length (tp_patterns t)" for i
    using that n by (simp add: unat_of_nat)
  show ?thesis
    using topology_invD(8) [OF inv]
    by (auto simp: edge_selected_def ord required_consumers_patterns [OF inv] tp_pattern_def consumers_of_pattern_def u)
qed

lemma topology_inv_narrow:
  assumes inv: "topology_inv t"
  shows "narrow_topology t"
proof -
  have n: "length (tp_patterns t) < 2 ^ 32" by (rule topology_invD(3) [OF inv])
  have ord: "length (tp_pattern_order t) = length (tp_patterns t)"
    using topology_invD(10) [OF inv] pattern_order_of_props(4) [of "map pt_key (tp_patterns t)"] n by simp
  have "length (consumers_of_pattern t index) < 2 ^ 32" for index
  proof (cases "unat index < length (tp_patterns t)")
    case True
    have "card (pattern_members (tp_consumers t) (unat index)) \<le> card (cs_id ` set (tp_consumers t))"
      by (rule card_mono) (auto simp: pattern_members_def)
    also have "\<dots> \<le> length (tp_consumers t)" by (rule order_trans [OF card_image_le card_length]) simp
    finally show ?thesis
      using topology_invD(4) [OF inv] length_pattern_consumers [OF inv True] True by (simp add: consumers_of_pattern_def)
  qed (simp add: consumers_of_pattern_def)
  then show ?thesis using n ord by (simp add: narrow_topology_def wave_consumers_def)
qed

lemma wave_step_grants:
  assumes "wave_step env t completion partitions (s, w) = (s', w')" "sc_partition_count s \<noteq> 0"
  shows "length (wp_grants (ws_plan w')) \<le> Suc (length (wp_grants (ws_plan w)))"
  using assms
proof (cases rule: wave_step_cases)
  case (edge part consumer s1 w1)
  from edge(5) show ?thesis
    by (cases rule: wave_edge_outcome)
      (use edge(2) in \<open>auto simp: same_grants_def add_grant_def dest: settles_same blocks_same\<close>)
qed (simp add: same_grants_def)

lemma wave_walk_bounds:
  assumes inv: "scheduler_inv s" and n: "sc_partition_count s \<noteq> 0" and ids: "ids_left s"
    and walk: "wave_walk env t completion partitions s = (s1, w)"
  shows "length (wp_grants (ws_plan w)) \<le> unat (wl_max_grants_per_wave (pe_waves (sc_policy s))) \<and>
    ws_examined w \<le> wl_max_edges_examined_per_wave (pe_waves (sc_policy s))"
proof -
  let ?I = "\<lambda>s' w'. wave_inv env t completion partitions s s' w' \<and>
    length (wp_grants (ws_plan w')) \<le> unat (wl_max_grants_per_wave (pe_waves (sc_policy s))) \<and>
    ws_examined w' \<le> wl_max_edges_examined_per_wave (pe_waves (sc_policy s))"
  have "?I (fst (wave_walk env t completion partitions s)) (snd (wave_walk env t completion partitions s))"
    unfolding wave_walk_def
  proof (rule wave_loop_keeps)
    show "?I (fst (s, wave_start s)) (snd (s, wave_start s))"
      using wave_start_inv [OF inv] by (simp add: wave_start_def empty_plan_def)
  next
    fix s2 w2 s3 w3
    assume i: "?I s2 w2" and ex: "ws_examined w2 < wl_max_edges_examined_per_wave (pe_waves (sc_policy s))"
      and g: "length (wp_grants (ws_plan w2)) < unat (wl_max_grants_per_wave (pe_waves (sc_policy s)))"
      and st: "wave_step env t completion partitions (s2, w2) = (s3, w3)"
    have "sc_partition_count s2 \<noteq> 0" using i n by (simp add: wave_inv_def same_binding_def)
    from wave_step_grants [OF st this] show "?I s3 w3"
      using wave_step_inv [OF conjunct1 [OF i] n _ st] g ids wave_step_examined [of env t completion partitions s2 w2] st inc_le [OF ex]
      by (simp add: ids_left_def)
  qed
  then show ?thesis using walk by simp
qed

section \<open>Lemmas: waves over a completion view\<close>

lemma granted_dispatchable:
  assumes "scheduler_inv s" "ids_left s" "next_wave env s = (Inr plan, s')" "se_completion env = Some completion"
    and "g \<in> set (wp_grants plan)"
  shows "\<not> edge_resolved (completion (grant_key g))"
  using assms(3)
proof (cases rule: next_wave_cases)
  case (walked t completion' partitions s1 w wave stats)
  have "wave_inv env t completion partitions s s1 w"
    using wave_walk_inv [OF assms(1) walked(7) assms(2) walked(9)] walked(2) assms(4) by simp
  then show ?thesis
    using assms(5) walked(10) by (auto simp: wave_inv_def finished_plan_def dispatchable_def Let_def grant_key_def)
qed (use assms(5) in \<open>simp_all add: empty_plan_def\<close>)

context completion_view
begin

lemma delivered_not_granted:
  assumes "well_formed store" "deliver r store = Some store'"
    and "scheduler_inv s" "ids_left s" "next_wave env s = (Inr plan, s')" "se_completion env = Some (edge_status store')"
    and "g \<in> set (wp_grants plan)"
  shows "grant_key g \<noteq> delivered r"
  using granted_dispatchable [OF assms(3-7)] delivered_resolved [OF assms(1,2)] by auto

end

section \<open>Properties\<close>

text \<open>
  C17. Every reachable scheduler keeps exact books: attempts, edges and counters describe the same
  set of grants in flight, no edge has two attempts, and the per-producer, per-consumer and
  global counters are the exact numbers of attempts.
\<close>

theorem scheduler_books_exact:
  assumes "scheduler_step\<^sup>*\<^sup>* (mk_scheduler l) s"
  shows "scheduler_inv s"
  using assms by (rule scheduler_reachable_inv)

text \<open>
  C15. A grant is evidence of authority: every grant of a wave names a required delivery whose
  partition is produced by its current owner under the owner's active incarnation, whose
  consumer is active, whose edge is unresolved, due and within its retry budget, under the
  generations of the plan; it is in flight afterwards, under an identifier no other grant has.
\<close>

theorem grants_authorised:
  assumes "scheduler_step\<^sup>*\<^sup>* (mk_scheduler l) s" "ids_left s" "next_wave env s = (Inr plan, s')"
    and "se_topology env = Some t" "se_completion env = Some completion" "se_partitions env = Some partitions"
    and "topology_step\<^sup>*\<^sup>* (mk_topology sh sg n l2) t"
  shows "list_all (\<lambda>g. dispatchable env t completion partitions s g \<and>
      (dg_partition g, dg_consumer g) \<in> required_edges t \<and> grant_in_flight s' g) (wp_grants plan) \<and>
    distinct (map dg_attempt (wp_grants plan))"
proof -
  note inv = scheduler_reachable_inv [OF assms(1)] and tinv = topology_reachable_inv [OF assms(7)]
  from assms(3) show ?thesis
  proof (cases rule: next_wave_cases)
    case (walked t' completion' partitions' s1 w wave stats)
    have eq: "t' = t" "completion' = completion" "partitions' = partitions" using walked(1-3) assms(4-6) by simp_all
    have i: "wave_inv env t completion partitions s s1 w"
      using wave_walk_inv [OF inv walked(7) assms(2) walked(9)] eq by simp
    have plan: "wp_grants plan = wp_grants (ws_plan w)" using walked(10) by (simp add: finished_plan_def)
    have "(dg_partition g, dg_consumer g) \<in> required_edges t" if "g \<in> set (wp_grants (ws_plan w))" for g
      using that i edge_selected_required [OF tinv]
      by (auto simp: wave_inv_def dispatchable_def Let_def required_edges_def owner_of_def owner_index_of_def not_le
          split: if_splits)
    then show ?thesis
      using i plan walked(11) by (auto simp: wave_inv_def list_all_iff grant_in_flight_def)
  qed (simp_all add: empty_plan_def)
qed

text \<open>
  C18. A wave is bounded: it issues at most the configured number of grants, examines at most the
  configured number of edges, and no in-flight counter rises above its limit (a counter that
  a tightened policy left above its limit does not rise at all).
\<close>

theorem wave_bounded:
  assumes "scheduler_step\<^sup>*\<^sup>* (mk_scheduler l) s" "ids_left s" "next_wave env s = (Inr plan, s')"
  shows "length (wp_grants plan) \<le> unat (wl_max_grants_per_wave (pe_waves (sc_policy s))) \<and>
    wp_examined plan \<le> wl_max_edges_examined_per_wave (pe_waves (sc_policy s)) \<and> within_limits s s'"
  using assms(3)
proof (cases rule: next_wave_cases)
  case (walked t completion partitions s1 w wave stats)
  note inv = scheduler_reachable_inv [OF assms(1)]
  have "within_limits s s1"
    using wave_walk_inv [OF inv walked(7) assms(2) walked(9)] by (simp add: wave_inv_def)
  then show ?thesis
    using wave_walk_bounds [OF inv walked(7) assms(2) walked(9)] walked(10,11)
    by (simp add: finished_plan_def within_limits_def in_flight_entry)
qed (simp_all add: empty_plan_def within_limits_def)

text \<open>
  An attempt is resolved once and never after cancellation: a resolved attempt, and after
  \<open>abandon_all\<close> any attempt, is refused as stale and changes nothing.
\<close>

theorem no_late_resolution:
  assumes "scheduler_resolve attempt outcome code s = (ok_status, s')"
  shows "scheduler_resolve attempt outcome' code' s' = (Inl StaleAttempt, s') \<and>
    scheduler_resolve attempt' outcome' code' (snd (abandon_all code s)) = (Inl StaleAttempt, snd (abandon_all code s))"
proof -
  have "map_of (sc_attempts s') attempt = None"
    using assms by (auto simp: scheduler_resolve_def delete_conv' split: option.splits)
  then show ?thesis by (simp add: scheduler_resolve_def abandon_all_def)
qed

text \<open>
  C19. A wave that starts a pass at the origin and reports \<open>all_resolved\<close> is right: every required
  delivery of the shuffle is completed, failed, purged or has spent its retry budget.
\<close>

theorem full_pass_all_resolved:
  assumes "sc_partition_cursor s = 0" "sc_pattern_cursor s = 0" "sc_consumer_cursor s = 0"
    and "next_wave env s = (Inr plan, s')" "wp_all_resolved plan" "sc_partition_count s = tp_partition_count t"
    and "se_topology env = Some t" "se_completion env = Some completion" "se_partitions env = Some partitions"
    and "topology_step\<^sup>*\<^sup>* (mk_topology sh sg n l2) t" "(part, consumer) \<in> required_edges t"
  shows "settled_edge completion partitions s part consumer"
proof -
  note tinv = topology_reachable_inv [OF assms(10)]
  have e: "edge_selected t part consumer" "part < ucast (sc_partition_count s)"
    using assms(6,11) edge_selected_required [OF tinv] by (auto simp: required_edges_def)
  from assms(4) show ?thesis
  proof (cases rule: next_wave_cases)
    case (empty t' completion' partitions')
    then show ?thesis using e assms(7) by (auto simp: edge_selected_def)
  next
    case (walked t' completion' partitions' s1 w wave stats)
    have eq: "t' = t" "completion' = completion" "partitions' = partitions" using walked(1-3) assms(7-9) by simp_all
    have "wave_all_resolved (ws_plan w) (ws_wrapped w)" using assms(5) walked(10) by (simp add: finished_plan_def)
    from full_pass_settled [OF walked(9) [unfolded eq] walked(7) topology_inv_narrow [OF tinv] assms(1-3) this e] show ?thesis .
  qed simp
qed

section \<open>Lemmas: a concrete run\<close>

lemma single_topology_eval:
  "tp_producers single_topology = [\<lparr>pd_id = 7, pd_incarnation = 1, pd_state = PS_Active, pd_endpoint = []\<rparr>]"
  "tp_active_producers single_topology = [7]" "tp_partition_count single_topology = 1"
  "tp_consumers single_topology = [\<lparr>cs_id = 5, cs_incarnation = 1, cs_state = PS_Active, cs_endpoint = [], cs_pattern = 0\<rparr>]"
  "tp_pattern_order single_topology = [0]" "tp_generation single_topology = 2"
  "tp_shuffle single_topology = 1" "tp_shuffle_generation single_topology = 1"
  "tp_patterns single_topology = [\<lparr>pt_selection = selection_all, pt_key = ''all'', pt_consumers = [5]\<rparr>]"
  by (simp_all add: single_topology_def register_producer_def check_producer_registration_def register_consumer_def
      check_consumer_registration_def check_selection_def selection_all_def canonical_key_def
      mk_topology_def default_limits_def intern_pattern_def selection_items_def rebuild_pattern_order_def
      find_consumer_def find_producer_def lower_bound_def insert_at_def add_consumer_to_pattern_def bump_generation_def
      rebuild_active_producers_def holds_authority_def id_next_def vec_insert_def Let_def)

lemma single_scheduler_eval:
  "single_scheduler = (mk_scheduler default_limits)\<lparr>sc_policy := single_policy, sc_shuffle := 1, sc_shuffle_generation := 1,
     sc_topology_generation := 2, sc_policy_generation := 1, sc_partition_count := 1, sc_configured := True\<rparr>"
  by (simp add: single_scheduler_def scheduler_configure_def single_topology_eval)
   (simp add: single_policy_def mk_scheduler_def validate_policy_def default_policy_def limits_validate_def default_limits_def
      single_topology_eval)

lemmas wave_eval = wave_step_def wave_move_def wrap_partition_def wave_edge_def wave_dispatch_def pressure_gate_def
  touch_counts_def next_pattern_def next_partition_def note_wrap_def owner_of_def owner_index_of_def tp_producer_def
  tp_consumer_def find_producer_def find_consumer_def lower_bound_def tp_pattern_def consumers_of_pattern_def
  selection_covers_def selection_all_def holds_authority_def single_topology_eval map_entry_def

lemmas single_eval = wave_eval single_scheduler_eval mk_scheduler_def wave_start_def empty_plan_def
  single_environment_def Let_def default_partition_facts_def default_edge_status_def single_policy_def
  default_policy_def

lemma first_wave:
  "next_wave single_environment single_scheduler =
     (Inr ((empty_plan 1)\<lparr>wp_grants := [single_grant], wp_examined := 1\<rparr>),
      single_scheduler\<lparr>sc_consumer_cursor := 1, sc_next_wave_id := 2, sc_next_attempt_id := 2, sc_global_in_flight := 1,
        sc_producer_in_flight := [7 \<mapsto> 1], sc_consumer_in_flight := [5 \<mapsto> 1],
        sc_attempts := [(1, \<lparr>ar_key = EdgeKey 0 1 5, ar_wave = 1, ar_ordinal = 1, ar_producer = 7, ar_consumer = 5\<rparr>)],
        sc_edge_attempts := [EdgeKey 0 1 5 \<mapsto> 1],
        sc_stats := (sc_stats single_scheduler)\<lparr>ss_waves_planned := 1, ss_grants_issued := 1, ss_edges_examined := 1\<rparr>\<rparr>)"
  by (simp add: next_wave_def wave_walk_def wave_loop.simps finish_wave_def finished_plan_def count_wave_def
      wave_all_resolved_def single_grant_def make_grant_def issue_grant_def id_next_def single_eval)

lemma second_wave:
  "next_wave single_environment (snd (next_wave single_environment single_scheduler)) =
     (Inr ((empty_plan 2)\<lparr>wp_examined := 2, wp_cursor_wrapped := True, wp_all_resolved := True\<rparr>),
      (snd (next_wave single_environment single_scheduler))\<lparr>sc_consumer_cursor := 0,
        sc_stats := (sc_stats single_scheduler)\<lparr>ss_waves_planned := 2, ss_grants_issued := 1, ss_edges_examined := 3\<rparr>\<rparr>)"
  unfolding first_wave
  by (simp add: next_wave_def wave_walk_def wave_loop.simps finish_wave_def finished_plan_def count_wave_def
      wave_all_resolved_def single_eval)

lemma settled_wave:
  "\<exists>s'. next_wave settled_environment single_scheduler =
     (Inr ((empty_plan 1)\<lparr>wp_examined := 3, wp_skipped_completed := 1, wp_cursor_wrapped := True, wp_all_resolved := True\<rparr>), s')"
  by (simp add: next_wave_def wave_walk_def wave_loop.simps finish_wave_def finished_plan_def count_wave_def
      wave_all_resolved_def settled_environment_def skip_completed_def single_eval)

lemma single_topology_reached: "topology_step\<^sup>*\<^sup>* (mk_topology 1 1 1 default_limits) single_topology"
proof -
  have "topology_step (mk_topology 1 1 1 default_limits) (snd (register_producer 7 1 [] (mk_topology 1 1 1 default_limits)))"
    by (rule step_register_producer)
  moreover have "topology_step (snd (register_producer 7 1 [] (mk_topology 1 1 1 default_limits))) single_topology"
    unfolding single_topology_def by (rule step_register_consumer) (simp add: selection_canonical_def selection_all_def)
  ultimately show ?thesis by (meson r_into_rtranclp rtranclp.rtrancl_into_rtrancl)
qed

lemma single_scheduler_reached: "scheduler_step\<^sup>*\<^sup>* (mk_scheduler default_limits) single_scheduler"
  unfolding single_scheduler_def by (rule r_into_rtranclp, rule step_configure)

lemma single_ids: "ids_left single_scheduler"
  by (simp add: ids_left_def single_scheduler_eval mk_scheduler_def single_policy_def default_policy_def)

section \<open>Properties\<close>

theorem scheduler_books_exact_witness: "scheduler_inv (snd (next_wave single_environment single_scheduler))"
  by (rule scheduler_books_exact [of default_limits])
    (meson rtranclp.rtrancl_into_rtrancl single_scheduler_reached step_wave single_ids)

theorem grants_authorised_witness:
  "(0, 5) \<in> required_edges single_topology \<and>
   grant_in_flight (snd (next_wave single_environment single_scheduler)) single_grant"
proof -
  have e: "se_topology single_environment = Some single_topology"
    "se_completion single_environment = Some (the (se_completion single_environment))"
    "se_partitions single_environment = Some (the (se_partitions single_environment))"
    "dg_partition single_grant = 0" "dg_consumer single_grant = 5"
    by (simp_all add: single_environment_def single_grant_def)
  from grants_authorised [OF single_scheduler_reached single_ids first_wave e(1-3) single_topology_reached]
  show ?thesis by (simp add: first_wave e(4,5))
qed

theorem wave_bounded_witness: "within_limits single_scheduler (snd (next_wave single_environment single_scheduler))"
proof -
  obtain plan s' where run: "next_wave single_environment single_scheduler = (Inr plan, s')" using first_wave by simp
  show ?thesis using wave_bounded [OF single_scheduler_reached single_ids run] run by simp
qed

theorem no_late_resolution_witness:
  "\<exists>s'. scheduler_resolve 1 EO_Completed Ok (snd (next_wave single_environment single_scheduler)) = (ok_status, s') \<and>
     scheduler_resolve 1 EO_Completed Ok s' = (Inl StaleAttempt, s')"
proof -
  obtain s' where r: "scheduler_resolve 1 EO_Completed Ok (snd (next_wave single_environment single_scheduler)) = (ok_status, s')"
    by (simp add: first_wave scheduler_resolve_def)
  then show ?thesis using no_late_resolution [OF r] by blast
qed

theorem full_pass_all_resolved_witness:
  "settled_edge (\<lambda>key. default_edge_status\<lparr>es_phase := EP_Completed\<rparr>)
     (\<lambda>part. default_partition_facts\<lparr>pf_produced := True, pf_partition_generation := 1,
       pf_total_bytes := 64, pf_producer_incarnation := 1, pf_producer := 7\<rparr>) single_scheduler 0 5"
proof -
  obtain s' where run: "next_wave settled_environment single_scheduler =
     (Inr ((empty_plan 1)\<lparr>wp_examined := 3, wp_skipped_completed := 1, wp_cursor_wrapped := True, wp_all_resolved := True\<rparr>), s')"
    using settled_wave by blast
  have "(0, 5) \<in> required_edges single_topology"
    unfolding required_edges_def required_consumers_def
    by (auto simp: single_topology_eval intro!: image_eqI [of _ _ "\<lparr>cs_id = 5, cs_incarnation = 1, cs_state = PS_Active,
          cs_endpoint = [], cs_pattern = 0\<rparr>"])
      (simp_all add: single_topology_eval counts_toward_requirement_def tp_pattern_def selection_covers_def selection_all_def)
  then show ?thesis
    by (intro full_pass_all_resolved [OF _ _ _ run _ _ _ _ _ single_topology_reached])
      (simp_all add: single_scheduler_eval mk_scheduler_def settled_environment_def single_environment_def single_topology_eval)
qed

text \<open>
  A wave that resumes a pass midway can report \<open>all_resolved\<close> for a shuffle with undelivered
  edges: with one partition, one consumer and one grant per wave, the second wave only
  finishes the pass of the first and reports that everything is resolved although the only
  edge is still in flight and pending.
\<close>

theorem partial_pass_reports_all_resolved:
  "\<exists>plan1 s1 plan2 s2. next_wave single_environment single_scheduler = (Inr plan1, s1) \<and>
     next_wave single_environment s1 = (Inr plan2, s2) \<and> wp_all_resolved plan2 \<and>
     wp_grants plan1 = [single_grant] \<and> grant_in_flight s2 single_grant \<and> sc_global_in_flight s2 = 1"
  using first_wave second_wave
  by (simp add: grant_in_flight_def grant_key_def) (simp add: single_grant_def)

end
