(* ===== verification/Fabric_Coordinator.thy ===== *)
theory Fabric_Coordinator
  imports Fabric_Records Fabric_Schedule
begin

text \<open>
  The coordinator of one shuffle (\<open>coordinator.hpp\<close>, \<open>coordinator.cpp\<close>): every public call, the
  application of durable records, the snapshot and the recovery.

  The object is the record \<open>coordinator\<close>; its type parameter is the state behind the durable sink,
  whose \<open>persist\<close> is a field, since the C++ class is given an implementation of the interface
  \<open>DurableSink\<close>. The manifests are an association list, because the snapshot walks them in key order;
  the unordered maps that are only looked up are maps. The re-entrancy flag is \<open>co_inside\<close>, and a
  call that opens with a \<open>Guard\<close> is \<open>guarded\<close>. Every authority call checks first, persists one record, and then
  applies that record; what a check refuses leaves the coordinator as it was.
\<close>

section \<open>State\<close>

record 's durable_sink =
  sk_persist :: "bytes \<Rightarrow> 's \<Rightarrow> status \<times> 's"
  sk_claims_durability :: bool
  sk_state :: 's

definition volatile_sink :: "unit durable_sink" where
  "volatile_sink = \<lparr>sk_persist = (\<lambda>record s. (ok_status, s)), sk_claims_durability = False, sk_state = ()\<rparr>"

record open_request =
  or_shuffle :: shuffle_id
  or_generation :: shuffle_generation
  or_partition_count :: u32
  or_policy :: policy_envelope

record registration_outcome =
  ro_topology_generation :: topology_generation
  ro_incarnation :: incarnation_id
  ro_superseded_previous :: bool

record manifest_acceptance =
  ma_manifest_digest :: digest
  ma_partition_generation :: partition_generation

record commit_outcome =
  oc_receipt :: commit_receipt
  oc_shuffle_completed :: bool

record failure_outcome =
  of_permanent :: bool
  of_attempts :: u32
  of_ready_at :: tick_id

record congestion_intent =
  ci_reporter_kind :: participant_kind
  ci_reporter_id :: u64
  ci_reporter_incarnation :: incarnation_id
  ci_producer :: producer_id
  ci_consumer :: consumer_id
  ci_level :: u32
  ci_policy_generation :: policy_generation
  ci_observed_at :: tick_id

definition intent_is_global :: "congestion_intent \<Rightarrow> bool" where
  "intent_is_global intent \<longleftrightarrow> ci_producer intent = 0 \<and> ci_consumer intent = 0"

record coordinator_status =
  st_state :: shuffle_state
  st_reason :: error_code
  st_epoch :: u64
  st_shuffle :: shuffle_id
  st_shuffle_generation :: shuffle_generation
  st_topology_generation :: topology_generation
  st_policy_generation :: policy_generation
  st_tick :: tick_id
  st_active_producers :: u32
  st_active_consumers :: u32
  st_in_flight :: u32
  st_persisted_records :: u64
  st_durable :: bool
  st_revalidation_required :: bool
  st_history_incomplete :: bool
  st_progress :: progress_snapshot

record 's coordinator =
  co_limits :: limits
  co_sink :: "'s durable_sink option"
  co_durable :: bool
  co_inside :: bool
  co_state :: shuffle_state
  co_reason :: error_code
  co_request :: open_request
  co_epoch :: u64
  co_clock :: tick_id
  co_topology :: "topology option"
  co_ledger :: ledger
  co_scheduler :: scheduler
  co_manifests :: "(u64 \<times> partition_manifest) list"
  co_facts :: "u64 \<rightharpoonup> partition_facts_rec"
  co_grants :: "u64 \<rightharpoonup> dispatch_grant"
  co_producer_pressure :: "u64 \<rightharpoonup> pressure_reading"
  co_consumer_pressure :: "u64 \<rightharpoonup> pressure_reading"
  co_global_pressure :: "pressure_reading option"
  co_unrevalidated_producers :: "u64 set"
  co_unrevalidated_consumers :: "u64 set"
  co_pending_revalidation :: u32
  co_history_incomplete :: bool
  co_persisted_records :: u64
  co_commits_applied :: u64
  co_failures_applied :: u64

definition mk_coordinator :: "limits \<Rightarrow> 's durable_sink option \<Rightarrow> 's coordinator" where
  "mk_coordinator l sink = \<lparr>co_limits = l, co_sink = sink,
     co_durable = (case sink of None \<Rightarrow> False | Some k \<Rightarrow> sk_claims_durability k), co_inside = False,
     co_state = SS_Closed, co_reason = Ok,
     co_request = \<lparr>or_shuffle = 0, or_generation = 0, or_partition_count = 0, or_policy = default_policy\<rparr>,
     co_epoch = 0, co_clock = 0, co_topology = None, co_ledger = mk_ledger l, co_scheduler = mk_scheduler l,
     co_manifests = [], co_facts = Map.empty, co_grants = Map.empty, co_producer_pressure = Map.empty,
     co_consumer_pressure = Map.empty, co_global_pressure = None, co_unrevalidated_producers = {},
     co_unrevalidated_consumers = {}, co_pending_revalidation = 0, co_history_incomplete = False,
     co_persisted_records = 0, co_commits_applied = 0, co_failures_applied = 0\<rparr>"

text \<open>The re-entrancy guard: the flag is set for the extent of the call.\<close>

definition guarded ::
  "('s coordinator \<Rightarrow> 'a result \<times> 's coordinator) \<Rightarrow> 's coordinator \<Rightarrow> 'a result \<times> 's coordinator" where
  "guarded body c =
     (if co_inside c then (Inl InvalidState, c)
      else case body (c\<lparr>co_inside := True\<rparr>) of (r, c') \<Rightarrow> (r, c'\<lparr>co_inside := False\<rparr>))"

definition guarded_view :: "('s coordinator \<Rightarrow> 'a result) \<Rightarrow> 's coordinator \<Rightarrow> 'a result" where
  "guarded_view body c = (if co_inside c then Inl InvalidState else body c)"

definition raise_clock :: "tick_id \<Rightarrow> 's coordinator \<Rightarrow> 's coordinator" where
  "raise_clock at c = c\<lparr>co_clock := clock_raise (co_clock c) at\<rparr>"

section \<open>Applying durable records\<close>

definition apply_epoch :: "epoch_record \<Rightarrow> 's coordinator \<Rightarrow> 's coordinator" where
  "apply_epoch record c =
     raise_clock (er_opened_at record)
       (c\<lparr>co_epoch := (if er_epoch record > co_epoch c then er_epoch record else co_epoch c)\<rparr>)"

definition adopt_open :: "shuffle_state_record \<Rightarrow> 's coordinator \<Rightarrow> 's coordinator" where
  "adopt_open record c =
     c\<lparr>co_request := \<lparr>or_shuffle = sr_shuffle record, or_generation = sr_generation record,
         or_partition_count = sr_partition_count record, or_policy = sr_policy record\<rparr>,
       co_topology := (case co_topology c of
           None \<Rightarrow> Some (mk_topology (sr_shuffle record) (sr_generation record) (sr_partition_count record) (co_limits c))
         | Some t \<Rightarrow> Some t),
       co_ledger := ledger_bind (sr_shuffle record) (sr_generation record) (sr_partition_count record) (co_ledger c)\<rparr>"

definition enter_state :: "shuffle_state_record \<Rightarrow> 's coordinator \<Rightarrow> 's coordinator" where
  "enter_state record c =
     (let c1 = c\<lparr>co_state := sr_state record, co_reason := sr_reason record\<rparr>;
          c2 = (if co_state c1 = SS_Cancelled \<or> co_state c1 = SS_Cancelling
                then c1\<lparr>co_scheduler := snd (abandon_all (co_reason c1) (co_scheduler c1)), co_grants := Map.empty\<rparr>
                else c1)
      in raise_clock (sr_at record) c2)"

definition apply_shuffle_state :: "shuffle_state_record \<Rightarrow> 's coordinator \<Rightarrow> status \<times> 's coordinator" where
  "apply_shuffle_state record c =
     (if co_state c \<noteq> SS_Closed \<and>
         (sr_shuffle record \<noteq> or_shuffle (co_request c) \<or> sr_generation record \<noteq> or_generation (co_request c))
      then (Inl StateImpossible, c)
      else if sr_state record = SS_Open then
        (if co_state c = SS_Cancelled \<or> co_state c = SS_Completed \<or> co_state c = SS_Failed
         then (Inl StateImpossible, c)
         else (ok_status, enter_state record (adopt_open record c)))
      else (ok_status, enter_state record c))"

definition participant_incarnation :: "participant_kind \<Rightarrow> u64 \<Rightarrow> topology \<Rightarrow> incarnation_id option" where
  "participant_incarnation kind pid t =
     (if kind = PK_Producer
      then (case tp_producer t pid of Inl _ \<Rightarrow> None | Inr record \<Rightarrow> Some (pd_incarnation record))
      else (case tp_consumer t pid of Inl _ \<Rightarrow> None | Inr record \<Rightarrow> Some (cs_incarnation record)))"

definition register_participant :: "participant_record \<Rightarrow> topology \<Rightarrow> status \<times> topology" where
  "register_participant record t =
     (if pa_kind record = PK_Producer
      then register_producer (pa_id record) (pa_incarnation record) (pa_endpoint record) t
      else register_consumer (pa_id record) (pa_incarnation record) (pa_endpoint record) (pa_selection record) t)"

definition move_participant :: "participant_record \<Rightarrow> topology \<Rightarrow> status \<times> topology" where
  "move_participant record t =
     (if pa_state record = PS_Active then (ok_status, t)
      else if pa_kind record = PK_Producer
      then set_producer_state (pa_id record) (pa_incarnation record) (pa_state record) t
      else set_consumer_state (pa_id record) (pa_incarnation record) (pa_state record) t)"

definition revalidate :: "participant_kind \<Rightarrow> u64 \<Rightarrow> 's coordinator \<Rightarrow> 's coordinator" where
  "revalidate kind pid c =
     (let pending = (if kind = PK_Producer then co_unrevalidated_producers c else co_unrevalidated_consumers c);
          c1 = (if kind = PK_Producer then c\<lparr>co_unrevalidated_producers := pending - {pid}\<rparr>
                else c\<lparr>co_unrevalidated_consumers := pending - {pid}\<rparr>)
      in if pid \<in> pending \<and> co_pending_revalidation c1 > 0
         then c1\<lparr>co_pending_revalidation := co_pending_revalidation c1 - 1\<rparr> else c1)"

definition apply_participant :: "participant_record \<Rightarrow> 's coordinator \<Rightarrow> status \<times> 's coordinator" where
  "apply_participant record c =
     (case co_topology c of
        None \<Rightarrow> (Inl InvalidState, c)
      | Some t \<Rightarrow>
        (case register_participant record t of
           (Inl e, t1) \<Rightarrow> (Inl e, c\<lparr>co_topology := Some t1\<rparr>)
         | (Inr _, t1) \<Rightarrow>
           (case move_participant record t1 of
              (Inl e, t2) \<Rightarrow> (Inl e, c\<lparr>co_topology := Some t2\<rparr>)
            | (Inr _, t2) \<Rightarrow>
              (let c1 = c\<lparr>co_topology := Some t2\<rparr>;
                   c2 = (case participant_incarnation (pa_kind record) (pa_id record) t of
                           None \<Rightarrow> c1
                         | Some previous \<Rightarrow>
                             if previous \<noteq> pa_incarnation record
                             then revalidate (pa_kind record) (pa_id record) c1 else c1)
               in (ok_status, raise_clock (pa_at record) c2)))))"

definition manifest_facts :: "partition_manifest \<Rightarrow> partition_facts_rec" where
  "manifest_facts manifest = \<lparr>pf_produced = True, pf_partition_generation = pm_partition_generation manifest,
     pf_manifest_digest = compute_manifest_digest manifest, pf_total_bytes = pm_total_bytes manifest,
     pf_producer_incarnation = pm_producer_incarnation manifest, pf_producer = pm_producer manifest\<rparr>"

text \<open>The check both \<open>apply_manifest\<close> and \<open>publish_manifest\<close> make against the accepted manifest.\<close>

definition check_manifest_order :: "(u64 \<times> partition_manifest) list \<Rightarrow> partition_manifest \<Rightarrow> status" where
  "check_manifest_order manifests manifest =
     (case map_of manifests (pm_partition manifest) of
        None \<Rightarrow> ok_status
      | Some existing \<Rightarrow>
          if pm_partition_generation existing > pm_partition_generation manifest then Inl StaleGeneration
          else if pm_partition_generation existing = pm_partition_generation manifest \<and> existing \<noteq> manifest
          then Inl DivergentCommit
          else ok_status)"

definition apply_manifest :: "partition_manifest \<Rightarrow> 's coordinator \<Rightarrow> status \<times> 's coordinator" where
  "apply_manifest manifest c =
     (if co_topology c = None then (Inl InvalidState, c)
      else case check_manifest_order (co_manifests c) manifest of
        Inl e \<Rightarrow> (Inl e, c)
      | Inr _ \<Rightarrow>
        (case retire_generation (pm_partition manifest) (pm_partition_generation manifest) (co_ledger c) of
           (retired, lg) \<Rightarrow>
             (retired,
              c\<lparr>co_manifests := AList.update (pm_partition manifest) manifest (co_manifests c),
                co_facts := (co_facts c)(pm_partition manifest \<mapsto> manifest_facts manifest),
                co_ledger := lg\<rparr>)))"

definition apply_commit :: "commit_record_durable \<Rightarrow> 's coordinator \<Rightarrow> status \<times> 's coordinator" where
  "apply_commit record c =
     (case ledger_commit (cm_request record) (cm_at record) (co_ledger c) of
        (Inl e, lg) \<Rightarrow> (Inl e, c\<lparr>co_ledger := lg\<rparr>)
      | (Inr _, lg) \<Rightarrow>
          (ok_status, raise_clock (cm_at record)
             (c\<lparr>co_ledger := lg, co_commits_applied := co_commits_applied c + 1\<rparr>)))"

definition apply_failure :: "failure_record_durable \<Rightarrow> 's coordinator \<Rightarrow> status \<times> 's coordinator" where
  "apply_failure record c =
     (case record_failure (fd_key record) (fd_code record) (fd_permanent record) (fd_attempts record)
             (fd_recorded_at record) (fd_ready_at record) (co_ledger c) of
        (Inl e, lg) \<Rightarrow> (Inl e, c\<lparr>co_ledger := lg\<rparr>)
      | (Inr _, lg) \<Rightarrow>
          (ok_status, raise_clock (fd_ready_at record)
             (c\<lparr>co_ledger := lg, co_failures_applied := co_failures_applied c + 1\<rparr>)))"

fun apply_durable :: "durable_record \<Rightarrow> 's coordinator \<Rightarrow> status \<times> 's coordinator" where
  "apply_durable (DR_Epoch record) c = (ok_status, apply_epoch record c)"
| "apply_durable (DR_Shuffle record) c = apply_shuffle_state record c"
| "apply_durable (DR_Participant record) c = apply_participant record c"
| "apply_durable (DR_Manifest manifest) c = apply_manifest manifest c"
| "apply_durable (DR_Commit record) c = apply_commit record c"
| "apply_durable (DR_Failure record) c = apply_failure record c"

definition apply_record :: "bytes \<Rightarrow> 's coordinator \<Rightarrow> status \<times> 's coordinator" where
  "apply_record data c =
     (case rd_all (decode_record (co_limits c)) data (co_limits c) of
        Inl e \<Rightarrow> (Inl e, c)
      | Inr record \<Rightarrow> apply_durable record c)"

section \<open>Durability plumbing\<close>

definition co_persist :: "bytes \<Rightarrow> 's coordinator \<Rightarrow> status \<times> 's coordinator" where
  "co_persist record c =
     (case co_sink c of
        None \<Rightarrow> (ok_status, c)
      | Some sink \<Rightarrow>
        (case sk_persist sink record (sk_state sink) of
           (Inl e, s) \<Rightarrow> (Inl e, c\<lparr>co_sink := Some (sink\<lparr>sk_state := s\<rparr>)\<rparr>)
         | (Inr _, s) \<Rightarrow>
             (ok_status, c\<lparr>co_sink := Some (sink\<lparr>sk_state := s\<rparr>),
                co_persisted_records := co_persisted_records c + 1\<rparr>)))"

definition co_commit_record :: "bytes \<Rightarrow> 's coordinator \<Rightarrow> status \<times> 's coordinator" where
  "co_commit_record data c =
     (case co_persist data c of (Inl e, c1) \<Rightarrow> (Inl e, c1) | (Inr _, c1) \<Rightarrow> apply_record data c1)"

definition persist_epoch :: "'s coordinator \<Rightarrow> status \<times> 's coordinator" where
  "persist_epoch c =
     co_commit_record (encode_epoch \<lparr>er_epoch = co_epoch c + 1, er_opened_at = co_clock c\<rparr>) c"

definition state_record :: "shuffle_state \<Rightarrow> error_code \<Rightarrow> open_request \<Rightarrow> tick_id \<Rightarrow> shuffle_state_record" where
  "state_record state reason request at = \<lparr>sr_shuffle = or_shuffle request, sr_generation = or_generation request,
     sr_partition_count = or_partition_count request, sr_policy = or_policy request, sr_state = state,
     sr_reason = reason, sr_at = at\<rparr>"

section \<open>Views\<close>

definition partition_facts :: "'s coordinator \<Rightarrow> partition_id \<Rightarrow> partition_facts_rec" where
  "partition_facts c part = (case co_facts c part of None \<Rightarrow> default_partition_facts | Some facts \<Rightarrow> facts)"

definition freshen :: "'s coordinator \<Rightarrow> pressure_reading \<Rightarrow> pressure_reading" where
  "freshen c reading =
     reading\<lparr>pr_fresh := (pr_observed reading \<and>
       pr_policy_generation reading = pe_generation (or_policy (co_request c)) \<and>
       pr_observed_at reading \<le> co_clock c \<and>
       co_clock c - pr_observed_at reading \<le>
         ucast (cp_evidence_validity_ticks (pe_congestion (or_policy (co_request c)))))\<rparr>"

definition pressure_of :: "'s coordinator \<Rightarrow> (u64 \<rightharpoonup> pressure_reading) \<Rightarrow> u64 \<Rightarrow> pressure_reading" where
  "pressure_of c readings pid =
     (case readings pid of
        Some reading \<Rightarrow> freshen c reading
      | None \<Rightarrow>
          (case co_global_pressure c of Some reading \<Rightarrow> freshen c reading | None \<Rightarrow> unknown_pressure))"

definition producer_pressure :: "'s coordinator \<Rightarrow> producer_id \<Rightarrow> pressure_reading" where
  "producer_pressure c pid = pressure_of c (co_producer_pressure c) pid"

definition consumer_pressure :: "'s coordinator \<Rightarrow> consumer_id \<Rightarrow> pressure_reading" where
  "consumer_pressure c cid = pressure_of c (co_consumer_pressure c) cid"

section \<open>Authority\<close>

definition ensure_open :: "'s coordinator \<Rightarrow> status" where
  "ensure_open c =
     (if co_state c = SS_Cancelled \<or> co_state c = SS_Cancelling then Inl Cancelled
      else if co_state c \<noteq> SS_Open \<or> co_topology c = None then Inl InvalidState
      else ok_status)"

definition check_open_request :: "open_request \<Rightarrow> 's coordinator \<Rightarrow> status" where
  "check_open_request request c =
     (if co_state c \<noteq> SS_Closed then Inl InvalidState
      else if or_shuffle request = 0 \<or> or_generation request = 0 then Inl InvalidArgument
      else if or_partition_count request = 0 then Inl InvalidArgument
      else if or_partition_count request > max_partitions (co_limits c) then Inl TooManyPartitions
      else case validate_policy (or_policy request) of
        Inl e \<Rightarrow> Inl e
      | Inr _ \<Rightarrow>
          if pe_shuffle (or_policy request) \<noteq> or_shuffle request \<or>
             pe_shuffle_generation (or_policy request) \<noteq> or_generation request
          then Inl PolicyMismatch else ok_status)"

definition open_shuffle :: "open_request \<Rightarrow> 's coordinator \<Rightarrow> status \<times> 's coordinator" where
  "open_shuffle request = guarded (\<lambda>c.
     case check_open_request request c of
       Inl e \<Rightarrow> (Inl e, c)
     | Inr _ \<Rightarrow>
       (case persist_epoch c of
          (Inl e, c1) \<Rightarrow> (Inl e, c1)
        | (Inr _, c1) \<Rightarrow>
            co_commit_record (encode_shuffle_state (state_record SS_Open Ok request (co_clock c1))) c1))"

definition commit_participant ::
  "participant_kind \<Rightarrow> u64 \<Rightarrow> incarnation_id \<Rightarrow> participant_state \<Rightarrow> bytes \<Rightarrow> partition_selection \<Rightarrow>
   's coordinator \<Rightarrow> status \<times> 's coordinator" where
  "commit_participant kind pid incarnation state endpoint selection c =
     co_commit_record (encode_participant \<lparr>pa_kind = kind, pa_id = pid, pa_incarnation = incarnation,
       pa_state = state, pa_endpoint = endpoint, pa_selection = selection, pa_at = co_clock c\<rparr>) c"

text \<open>The common end of the two registrations: \<open>superseded_previous\<close> is taken before the record applies.\<close>

definition register_outcome ::
  "participant_kind \<Rightarrow> u64 \<Rightarrow> incarnation_id \<Rightarrow> bytes \<Rightarrow> partition_selection \<Rightarrow> topology \<Rightarrow> 's coordinator \<Rightarrow>
   registration_outcome result \<times> 's coordinator" where
  "register_outcome kind pid incarnation endpoint selection t c =
     (case commit_participant kind pid incarnation PS_Active endpoint selection c of
        (Inl e, c1) \<Rightarrow> (Inl e, c1)
      | (Inr _, c1) \<Rightarrow>
          (Inr \<lparr>ro_topology_generation = (case co_topology c1 of None \<Rightarrow> 0 | Some t1 \<Rightarrow> tp_generation t1),
                ro_incarnation = incarnation,
                ro_superseded_previous = (case participant_incarnation kind pid t of
                    None \<Rightarrow> False | Some previous \<Rightarrow> previous \<noteq> incarnation)\<rparr>, c1))"

definition co_register_producer ::
  "producer_id \<Rightarrow> incarnation_id \<Rightarrow> bytes \<Rightarrow> 's coordinator \<Rightarrow> registration_outcome result \<times> 's coordinator" where
  "co_register_producer pid incarnation endpoint = guarded (\<lambda>c.
     case ensure_open c of
       Inl e \<Rightarrow> (Inl e, c)
     | Inr _ \<Rightarrow>
       (let t = the (co_topology c) in
        case check_producer_registration t pid incarnation endpoint of
          Inl e \<Rightarrow> (Inl e, c)
        | Inr _ \<Rightarrow> register_outcome PK_Producer pid incarnation endpoint selection_all t c))"

definition co_register_consumer ::
  "consumer_id \<Rightarrow> incarnation_id \<Rightarrow> bytes \<Rightarrow> partition_selection \<Rightarrow> 's coordinator \<Rightarrow>
   registration_outcome result \<times> 's coordinator" where
  "co_register_consumer cid incarnation endpoint selection = guarded (\<lambda>c.
     case ensure_open c of
       Inl e \<Rightarrow> (Inl e, c)
     | Inr _ \<Rightarrow>
       (let t = the (co_topology c) in
        case check_consumer_registration t cid incarnation endpoint selection of
          Inl e \<Rightarrow> (Inl e, c)
        | Inr _ \<Rightarrow> register_outcome PK_Consumer cid incarnation endpoint selection t c))"

text \<open>
  The endpoint and selection the record repeats. \<open>check_participant_state\<close> has found the
  participant, so the result access never reads an error.
\<close>

definition participant_terms :: "participant_kind \<Rightarrow> u64 \<Rightarrow> topology \<Rightarrow> bytes \<times> partition_selection" where
  "participant_terms kind pid t =
     (if kind = PK_Producer
      then (case tp_producer t pid of Inl _ \<Rightarrow> ([], selection_all) | Inr record \<Rightarrow> (pd_endpoint record, selection_all))
      else (case tp_consumer t pid of
              Inl _ \<Rightarrow> ([], selection_all)
            | Inr record \<Rightarrow> (cs_endpoint record, tp_pattern t (cs_pattern record))))"

definition set_participant_state ::
  "participant_kind \<Rightarrow> u64 \<Rightarrow> incarnation_id \<Rightarrow> participant_state \<Rightarrow> 's coordinator \<Rightarrow> status \<times> 's coordinator" where
  "set_participant_state kind pid incarnation state = guarded (\<lambda>c.
     case ensure_open c of
       Inl e \<Rightarrow> (Inl e, c)
     | Inr _ \<Rightarrow>
       (let t = the (co_topology c) in
        case check_participant_state t kind pid incarnation state of
          Inl e \<Rightarrow> (Inl e, c)
        | Inr _ \<Rightarrow>
          (case participant_terms kind pid t of (endpoint, selection) \<Rightarrow>
             commit_participant kind pid incarnation state endpoint selection c)))"

definition check_publication :: "partition_manifest \<Rightarrow> topology \<Rightarrow> 's coordinator \<Rightarrow> status" where
  "check_publication manifest t c =
     (case validate_manifest manifest (co_limits c) of
        Inl e \<Rightarrow> Inl e
      | Inr _ \<Rightarrow>
        if pm_shuffle manifest \<noteq> or_shuffle (co_request c) \<or>
           pm_shuffle_generation manifest \<noteq> or_generation (co_request c)
        then Inl StaleGeneration
        else if pm_partition manifest \<ge> ucast (or_partition_count (co_request c)) then Inl UnknownPartition
        else if owner_of t (pm_partition manifest) \<noteq> Inr (pm_producer manifest) then Inl PartitionNotOwned
        else case tp_producer t (pm_producer manifest) of
          Inl _ \<Rightarrow> Inl UnknownParticipant
        | Inr record \<Rightarrow>
            if pd_incarnation record \<noteq> pm_producer_incarnation manifest then Inl StaleIncarnation
            else if \<not> holds_authority (pd_state record) then Inl ParticipantNotActive
            else ok_status)"

definition publish_manifest ::
  "partition_manifest \<Rightarrow> 's coordinator \<Rightarrow> manifest_acceptance result \<times> 's coordinator" where
  "publish_manifest manifest = guarded (\<lambda>c.
     case ensure_open c of
       Inl e \<Rightarrow> (Inl e, c)
     | Inr _ \<Rightarrow>
       (let t = the (co_topology c) in
        case check_publication manifest t c of
          Inl e \<Rightarrow> (Inl e, c)
        | Inr _ \<Rightarrow>
          (let normalized = manifest\<lparr>pm_topology_generation := tp_generation t\<rparr> in
           case check_manifest_order (co_manifests c) normalized of
             Inl e \<Rightarrow> (Inl e, c)
           | Inr _ \<Rightarrow>
             (case encode_manifest_record normalized (co_limits c) of
                Inl e \<Rightarrow> (Inl e, c)
              | Inr encoded \<Rightarrow>
                (case co_commit_record encoded c of
                   (Inl e, c1) \<Rightarrow> (Inl e, c1)
                 | (Inr _, c1) \<Rightarrow>
                     (Inr \<lparr>ma_manifest_digest = compute_manifest_digest normalized,
                           ma_partition_generation = pm_partition_generation normalized\<rparr>, c1))))))"

definition ensure_scheduler :: "'s coordinator \<Rightarrow> status \<times> 's coordinator" where
  "ensure_scheduler c =
     (case co_topology c of
        None \<Rightarrow> (Inl InvalidState, c)
      | Some t \<Rightarrow>
        if \<not> sc_configured (co_scheduler c) \<or> sc_topology_generation (co_scheduler c) \<noteq> tp_generation t \<or>
           sc_policy_generation (co_scheduler c) \<noteq> pe_generation (or_policy (co_request c))
        then (case scheduler_configure (or_policy (co_request c)) t (co_scheduler c) of
                (r, s) \<Rightarrow> (r, c\<lparr>co_scheduler := s\<rparr>))
        else (ok_status, c))"

definition wave_environment :: "'s coordinator \<Rightarrow> scheduling_environment" where
  "wave_environment c = \<lparr>se_topology = co_topology c, se_completion = Some (edge_status (co_ledger c)),
     se_congestion = Some \<lparr>cv_producer_pressure = producer_pressure c, cv_consumer_pressure = consumer_pressure c\<rparr>,
     se_partitions = Some (partition_facts c), se_now = co_clock c\<rparr>"

text \<open>One grant of a wave: \<open>emplace\<close> in the registry and the attempted bytes.\<close>

definition note_grant :: "dispatch_grant \<Rightarrow> 's coordinator \<Rightarrow> 's coordinator" where
  "note_grant grant c =
     c\<lparr>co_grants := (case co_grants c (dg_attempt grant) of
           None \<Rightarrow> (co_grants c)(dg_attempt grant \<mapsto> grant) | Some _ \<Rightarrow> co_grants c),
       co_ledger := note_attempt_bytes (dg_total_bytes grant) (co_ledger c)\<rparr>"

definition co_next_wave :: "'s coordinator \<Rightarrow> wave_plan result \<times> 's coordinator" where
  "co_next_wave = guarded (\<lambda>c.
     if co_state c = SS_Completed then (Inr ((empty_plan 0)\<lparr>wp_all_resolved := True\<rparr>), c)
     else case ensure_open c of
       Inl e \<Rightarrow> (Inl e, c)
     | Inr _ \<Rightarrow>
       (case ensure_scheduler c of
          (Inl e, c1) \<Rightarrow> (Inl e, c1)
        | (Inr _, c1) \<Rightarrow>
          (case next_wave (wave_environment c1) (co_scheduler c1) of
             (Inl e, s) \<Rightarrow> (Inl e, c1\<lparr>co_scheduler := s\<rparr>)
           | (Inr plan, s) \<Rightarrow> (Inr plan, fold note_grant (wp_grants plan) (c1\<lparr>co_scheduler := s\<rparr>)))))"

section \<open>Completion and failure\<close>

definition check_attempt :: "commit_request \<Rightarrow> dispatch_grant \<Rightarrow> 's coordinator \<Rightarrow> status" where
  "check_attempt request grant c =
     (if rq_shuffle_generation request \<noteq> or_generation (co_request c) then Inl StaleGeneration
      else if ek_partition (rq_edge request) \<noteq> dg_partition grant \<or>
              ek_partition_generation (rq_edge request) \<noteq> dg_partition_generation grant \<or>
              rq_consumer request \<noteq> dg_consumer grant \<or> ek_consumer (rq_edge request) \<noteq> dg_consumer grant
      then Inl AttemptSuperseded
      else if rq_producer request \<noteq> dg_producer grant \<or>
              rq_producer_incarnation request \<noteq> dg_producer_incarnation grant \<or>
              rq_consumer_incarnation request \<noteq> dg_consumer_incarnation grant
      then Inl StaleIncarnation
      else if rq_manifest_digest request \<noteq> dg_manifest_digest grant then Inl ManifestInconsistent
      else ok_status)"

definition check_endpoints :: "commit_request \<Rightarrow> topology \<Rightarrow> status" where
  "check_endpoints request t =
     (case tp_consumer t (rq_consumer request) of
        Inl _ \<Rightarrow> Inl UnknownParticipant
      | Inr consumer \<Rightarrow>
        if cs_incarnation consumer \<noteq> rq_consumer_incarnation request then Inl StaleIncarnation
        else if \<not> holds_authority (cs_state consumer) then Inl ParticipantNotActive
        else if owner_of t (ek_partition (rq_edge request)) \<noteq> Inr (rq_producer request) then Inl PartitionNotOwned
        else case tp_producer t (rq_producer request) of
          Inl _ \<Rightarrow> Inl StaleIncarnation
        | Inr producer \<Rightarrow>
            if pd_incarnation producer \<noteq> rq_producer_incarnation request then Inl StaleIncarnation
            else if \<not> holds_authority (pd_state producer) then Inl ParticipantNotActive
            else ok_status)"

definition check_evidence :: "commit_request \<Rightarrow> 's coordinator \<Rightarrow> status" where
  "check_evidence request c =
     (case map_of (co_manifests c) (ek_partition (rq_edge request)) of
        None \<Rightarrow> Inl StaleGeneration
      | Some manifest \<Rightarrow>
        if pm_partition_generation manifest \<noteq> ek_partition_generation (rq_edge request) then Inl StaleGeneration
        else if compute_manifest_digest manifest \<noteq> rq_manifest_digest request then Inl DigestMismatch
        else if \<not> rq_integrity_verified request then Inl IntegrityFailure
        else if rq_observed_partition_digest request \<noteq> compute_manifest_digest manifest \<and>
                rq_observed_partition_digest request \<noteq> compute_partition_digest manifest
        then Inl DigestMismatch
        else if rq_bytes request \<noteq> pm_total_bytes manifest then Inl AccountingMismatch
        else if length (rq_observed_chunk_digests request) \<noteq> length (pm_chunks manifest) then Inl IntegrityFailure
        else if \<not> list_all2 (\<lambda>d chunk. d = cd_digest chunk) (rq_observed_chunk_digests request) (pm_chunks manifest)
        then Inl DigestMismatch
        else ok_status)"

definition note_completion :: "'s coordinator \<Rightarrow> 's coordinator" where
  "note_completion c =
     (case co_topology c of
        None \<Rightarrow> c
      | Some t \<Rightarrow>
        if co_state c \<noteq> SS_Open then c
        else case planned_edge_count t of
          Inl _ \<Rightarrow> c
        | Inr required \<Rightarrow>
          (let snapshot = ledger_progress (co_ledger c) required (co_clock c) in
           if sn_edges_completed snapshot + sn_edges_failed snapshot < required then c
           else snd (co_commit_record
                  (encode_shuffle_state (state_record SS_Completed Ok (co_request c) (co_clock c))) c)))"

definition release_attempt ::
  "transfer_attempt_id \<Rightarrow> edge_outcome \<Rightarrow> error_code \<Rightarrow> 's coordinator \<Rightarrow> 's coordinator" where
  "release_attempt attempt outcome code c =
     c\<lparr>co_grants := (co_grants c)(attempt := None),
       co_scheduler := snd (scheduler_resolve attempt outcome code (co_scheduler c))\<rparr>"

definition accept_commit :: "commit_request \<Rightarrow> 's coordinator \<Rightarrow> commit_outcome result \<times> 's coordinator" where
  "accept_commit request c =
     (case ledger_commit request (co_clock c) (co_ledger c) of
        (Inl e, lg) \<Rightarrow> (Inl e, c\<lparr>co_ledger := lg\<rparr>)
      | (Inr receipt, lg) \<Rightarrow>
        (let c1 = release_attempt (rq_attempt request) EO_Completed Ok
                    (c\<lparr>co_ledger := lg, co_commits_applied := co_commits_applied c + 1\<rparr>);
             c2 = note_completion c1
         in (Inr \<lparr>oc_receipt = receipt, oc_shuffle_completed = (co_state c2 = SS_Completed)\<rparr>, c2)))"

definition check_transfer :: "commit_request \<Rightarrow> 's coordinator \<Rightarrow> status" where
  "check_transfer request c =
     (if co_state c = SS_Cancelled \<or> co_state c = SS_Cancelling then Inl Cancelled
      else case co_grants c (rq_attempt request) of
        None \<Rightarrow> Inl StaleAttempt
      | Some grant \<Rightarrow>
        (case ensure_open c of
           Inl e \<Rightarrow> Inl e
         | Inr _ \<Rightarrow>
           (case check_attempt request grant c of
              Inl e \<Rightarrow> Inl e
            | Inr _ \<Rightarrow>
              (case check_endpoints request (the (co_topology c)) of
                 Inl e \<Rightarrow> Inl e
               | Inr _ \<Rightarrow>
                 (case check_evidence request c of
                    Inl e \<Rightarrow> Inl e
                  | Inr _ \<Rightarrow> validate_commit (co_ledger c) request)))))"

definition commit_transfer :: "commit_request \<Rightarrow> 's coordinator \<Rightarrow> commit_outcome result \<times> 's coordinator" where
  "commit_transfer request = guarded (\<lambda>c.
     case check_transfer request c of
       Inl e \<Rightarrow> (Inl e, c)
     | Inr _ \<Rightarrow>
       (case co_persist (encode_commit \<lparr>cm_request = request, cm_at = co_clock c\<rparr>) c of
          (Inl e, c1) \<Rightarrow> (Inl e, c1)
        | (Inr _, c1) \<Rightarrow> accept_commit request c1))"

definition failure_permanent :: "error_code \<Rightarrow> dispatch_grant \<Rightarrow> 's coordinator \<Rightarrow> bool" where
  "failure_permanent code grant c \<longleftrightarrow> classify code = Authority \<or> classify code = Permanent \<or>
     dg_attempt_ordinal grant \<ge> rp_max_attempts (pe_retry (or_policy (co_request c)))"

definition failure_entry :: "error_code \<Rightarrow> dispatch_grant \<Rightarrow> 's coordinator \<Rightarrow> failure_record_durable" where
  "failure_entry code grant c = \<lparr>
     fd_key = EdgeKey (dg_partition grant) (dg_partition_generation grant) (dg_consumer grant), fd_code = code,
     fd_permanent = failure_permanent code grant c, fd_attempts = dg_attempt_ordinal grant,
     fd_recorded_at = co_clock c,
     fd_ready_at = (if failure_permanent code grant c then co_clock c
       else co_clock c + ucast (rp_min_ticks_between_attempts (pe_retry (or_policy (co_request c)))))\<rparr>"

definition failure_edge_outcome :: "error_code \<Rightarrow> dispatch_grant \<Rightarrow> 's coordinator \<Rightarrow> edge_outcome" where
  "failure_edge_outcome code grant c =
     (if failure_permanent code grant c
      then (if classify code = Authority then EO_AuthorityRefused else EO_PermanentFailure)
      else EO_RetriableFailure)"

definition check_failure_report :: "transfer_attempt_id \<Rightarrow> error_code \<Rightarrow> 's coordinator \<Rightarrow> dispatch_grant result" where
  "check_failure_report attempt code c =
     (if classify code = Deferred then Inl InvalidArgument
      else if co_state c = SS_Cancelled \<or> co_state c = SS_Cancelling then Inl Cancelled
      else case co_grants c attempt of
        None \<Rightarrow> Inl StaleAttempt
      | Some grant \<Rightarrow>
        (case ensure_open c of
           Inl e \<Rightarrow> Inl e
         | Inr _ \<Rightarrow>
           (case validate_failure (co_ledger c) (fd_key (failure_entry code grant c)) code of
              Inl e \<Rightarrow> Inl e | Inr _ \<Rightarrow> Inr grant)))"

definition report_failure ::
  "transfer_attempt_id \<Rightarrow> error_code \<Rightarrow> 's coordinator \<Rightarrow> failure_outcome result \<times> 's coordinator" where
  "report_failure attempt code = guarded (\<lambda>c.
     case check_failure_report attempt code c of
       Inl e \<Rightarrow> (Inl e, c)
     | Inr grant \<Rightarrow>
       (let record = failure_entry code grant c in
        case co_persist (encode_failure record) c of
          (Inl e, c1) \<Rightarrow> (Inl e, c1)
        | (Inr _, c1) \<Rightarrow>
          (case apply_failure record c1 of
             (Inl e, c2) \<Rightarrow> (Inl e, c2)
           | (Inr _, c2) \<Rightarrow>
               (Inr \<lparr>of_permanent = fd_permanent record, of_attempts = fd_attempts record, of_ready_at = fd_ready_at record\<rparr>,
                note_completion (release_attempt attempt (failure_edge_outcome code grant c) code c2)))))"

section \<open>Congestion, cancellation and time\<close>

definition check_reporter :: "congestion_intent \<Rightarrow> topology \<Rightarrow> status" where
  "check_reporter intent t =
     (if ci_reporter_kind intent = PK_Producer then
        (case tp_producer t (ci_reporter_id intent) of
           Inl _ \<Rightarrow> Inl UnknownParticipant
         | Inr record \<Rightarrow>
             if pd_incarnation record \<noteq> ci_reporter_incarnation intent then Inl StaleIncarnation
             else if \<not> holds_authority (pd_state record) then Inl ParticipantNotActive else ok_status)
      else
        (case tp_consumer t (ci_reporter_id intent) of
           Inl _ \<Rightarrow> Inl UnknownParticipant
         | Inr record \<Rightarrow>
             if cs_incarnation record \<noteq> ci_reporter_incarnation intent then Inl StaleIncarnation
             else if \<not> holds_authority (cs_state record) then Inl ParticipantNotActive else ok_status))"

definition store_reading :: "congestion_intent \<Rightarrow> 's coordinator \<Rightarrow> 's coordinator" where
  "store_reading intent c =
     (let reading = \<lparr>pr_level = ci_level intent, pr_observed = True, pr_fresh = True,
            pr_observed_at = ci_observed_at intent, pr_reporter = ci_reporter_incarnation intent,
            pr_policy_generation = ci_policy_generation intent\<rparr>
      in if intent_is_global intent then c\<lparr>co_global_pressure := Some reading\<rparr>
         else c\<lparr>co_producer_pressure := (if ci_producer intent \<noteq> 0
                    then (co_producer_pressure c)(ci_producer intent \<mapsto> reading) else co_producer_pressure c),
                co_consumer_pressure := (if ci_consumer intent \<noteq> 0
                    then (co_consumer_pressure c)(ci_consumer intent \<mapsto> reading) else co_consumer_pressure c)\<rparr>)"

definition update_congestion :: "congestion_intent \<Rightarrow> 's coordinator \<Rightarrow> status \<times> 's coordinator" where
  "update_congestion intent = guarded (\<lambda>c.
     case ensure_open c of
       Inl e \<Rightarrow> (Inl e, c)
     | Inr _ \<Rightarrow>
       if ci_level intent > 100 then (Inl InvalidArgument, c)
       else if ci_policy_generation intent \<noteq> pe_generation (or_policy (co_request c)) then (Inl StalePolicy, c)
       else if ci_observed_at intent > co_clock c then (Inl InvalidArgument, c)
       else case check_reporter intent (the (co_topology c)) of
         Inl e \<Rightarrow> (Inl e, c)
       | Inr _ \<Rightarrow> (ok_status, store_reading intent c))"

definition cancel_shuffle :: "error_code \<Rightarrow> 's coordinator \<Rightarrow> status \<times> 's coordinator" where
  "cancel_shuffle reason = guarded (\<lambda>c.
     if co_state c = SS_Cancelled then (ok_status, c)
     else if co_state c \<noteq> SS_Open then (Inl InvalidState, c)
     else if reason = Ok then (Inl InvalidArgument, c)
     else co_commit_record (encode_shuffle_state (state_record SS_Cancelled reason (co_request c) (co_clock c))) c)"

definition advance_tick :: "'s coordinator \<Rightarrow> tick_id result \<times> 's coordinator" where
  "advance_tick = guarded (\<lambda>c.
     (Inr (clock_advance (co_clock c)), c\<lparr>co_clock := clock_advance (co_clock c)\<rparr>))"

section \<open>Inspection\<close>

definition compute_progress :: "'s coordinator \<Rightarrow> progress_snapshot option" where
  "compute_progress c =
     (case co_topology c of
        None \<Rightarrow> None
      | Some t \<Rightarrow> Some (ledger_progress (co_ledger c)
          (case planned_edge_count t of Inl _ \<Rightarrow> 0 | Inr required \<Rightarrow> required) (co_clock c)))"

definition manifest_of :: "partition_id \<Rightarrow> 's coordinator \<Rightarrow> partition_manifest result" where
  "manifest_of part = guarded_view (\<lambda>c.
     case map_of (co_manifests c) part of None \<Rightarrow> Inl PartitionNotProduced | Some manifest \<Rightarrow> Inr manifest)"

text \<open>Without a topology \<open>compute_progress\<close> returns a default snapshot, the zero of every counter.\<close>

definition empty_progress :: progress_snapshot where
  "empty_progress = \<lparr>sn_shuffle = 0, sn_shuffle_generation = 0, sn_partitions_total = 0,
     sn_partitions_committed = 0, sn_partitions_failed = 0, sn_partitions_incomplete = 0,
     sn_edges_required = 0, sn_edges_completed = 0, sn_edges_failed = 0, sn_edges_incomplete = 0,
     sn_edges_over_counted = 0, sn_bytes_committed = 0, sn_bytes_attempted = 0,
     sn_duplicate_commits_suppressed = 0, sn_retriable_failures = 0, sn_permanent_failures = 0,
     sn_authority_refusals = 0, sn_tracked_partitions = 0, sn_tracked_edges = 0, sn_tick = 0\<rparr>"

definition progress_or_empty :: "'s coordinator \<Rightarrow> progress_snapshot" where
  "progress_or_empty c = (case compute_progress c of None \<Rightarrow> empty_progress | Some snapshot \<Rightarrow> snapshot)"

definition co_progress :: "'s coordinator \<Rightarrow> progress_snapshot result" where
  "co_progress = guarded_view (\<lambda>c. case compute_progress c of None \<Rightarrow> Inl InvalidState | Some snapshot \<Rightarrow> Inr snapshot)"

definition missing_partitions :: "topology \<Rightarrow> (u64 \<times> partition_manifest) list \<Rightarrow> nat list" where
  "missing_partitions t manifests =
     filter (\<lambda>index. map_of manifests (word_of_nat index) = None) [0..<unat (tp_partition_count t)]"

definition inactive_participants :: "topology \<Rightarrow> nat" where
  "inactive_participants t =
     length (filter (\<lambda>record. \<not> holds_authority (pd_state record)) (tp_producers t)) +
     length (filter (\<lambda>record. \<not> holds_authority (cs_state record)) (tp_consumers t))"

definition explain_topology :: "'s coordinator \<Rightarrow> explain_entry list" where
  "explain_topology c =
     (case co_topology c of
        None \<Rightarrow> []
      | Some t \<Rightarrow>
        (case missing_partitions t (co_manifests c) of
           [] \<Rightarrow> []
         | first_missing # rest \<Rightarrow>
             [\<lparr>xe_code = PartitionNotProduced, xe_subject = ''partition '' @ dec_digits first_missing,
               xe_detail = ''partitions without an accepted manifest are explicitly incomplete'',
               xe_count = word_of_nat (Suc (length rest))\<rparr>]) @
        (if inactive_participants t > 0 then
           [\<lparr>xe_code = ParticipantNotActive, xe_subject = ''topology'',
             xe_detail = ''registered participants that currently hold no authority'',
             xe_count = word_of_nat (inactive_participants t)\<rparr>]
         else []))"

definition explain_restart :: "'s coordinator \<Rightarrow> explain_entry list" where
  "explain_restart c =
     (if co_pending_revalidation c > 0 then
        [\<lparr>xe_code = RevalidationRequired, xe_subject = ''epoch '' @ id_to_string (co_epoch c),
          xe_detail = ''participants must re-register with a fresh incarnation after the restart'',
          xe_count = ucast (co_pending_revalidation c)\<rparr>]
      else []) @
     (if co_history_incomplete c then
        [\<lparr>xe_code = RevalidationRequired, xe_subject = ''journal'',
          xe_detail = ''recovery discarded a torn journal tail; the discarded record was never acknowledged'',
          xe_count = 1\<rparr>]
      else [])"

definition explain_state :: "'s coordinator \<Rightarrow> explain_entry list" where
  "explain_state c =
     (if co_state c \<noteq> SS_Open then
        [\<lparr>xe_code = (if co_state c = SS_Cancelled then co_reason c else InvalidState), xe_subject = ''shuffle'',
          xe_detail = ''shuffle state is '' @ shuffle_state_to_string (co_state c), xe_count = 1\<rparr>]
      else []) @
     (if \<not> co_durable c then
        [\<lparr>xe_code = CapabilityUnsupported, xe_subject = ''durability'',
          xe_detail = ''this coordinator runs without a durable sink; commits are not durable'', xe_count = 1\<rparr>]
      else [])"

definition explain_accounting :: "progress_snapshot \<Rightarrow> explain_entry list" where
  "explain_accounting snapshot =
     (if sn_edges_over_counted snapshot > 0 then
        [\<lparr>xe_code = AccountingMismatch, xe_subject = ''progress'',
          xe_detail = ''more edges are resolved than the current requirement implies'',
          xe_count = sn_edges_over_counted snapshot\<rparr>]
      else if \<not> accounting_closes snapshot then
        [\<lparr>xe_code = AccountingMismatch, xe_subject = ''progress'',
          xe_detail = ''required edge accounting does not close against completed and failed edges'', xe_count = 1\<rparr>]
      else [])"

text \<open>\<open>std::sort\<close> by code and subject; entries that agree on both do not arise.\<close>

definition build_explanation :: "'s coordinator \<Rightarrow> explain_entry list" where
  "build_explanation c =
     sort_key (\<lambda>entry. (code_value (xe_code entry), xe_subject entry))
       (ledger_explain (co_ledger c) @ explain_topology c @ explain_restart c @ explain_state c @
        explain_accounting (progress_or_empty c))"

definition co_explain :: "'s coordinator \<Rightarrow> explain_entry list result" where
  "co_explain = guarded_view (\<lambda>c. Inr (build_explanation c))"

definition co_status :: "'s coordinator \<Rightarrow> coordinator_status result" where
  "co_status = guarded_view (\<lambda>c. Inr \<lparr>
     st_state = co_state c, st_reason = co_reason c, st_epoch = co_epoch c,
     st_shuffle = or_shuffle (co_request c), st_shuffle_generation = or_generation (co_request c),
     st_topology_generation = (case co_topology c of None \<Rightarrow> 0 | Some t \<Rightarrow> tp_generation t),
     st_policy_generation = pe_generation (or_policy (co_request c)), st_tick = co_clock c,
     st_active_producers = (case co_topology c of None \<Rightarrow> 0 | Some t \<Rightarrow> active_producer_count t),
     st_active_consumers = (case co_topology c of None \<Rightarrow> 0 | Some t \<Rightarrow> active_consumer_count t),
     st_in_flight = sc_global_in_flight (co_scheduler c), st_persisted_records = co_persisted_records c,
     st_durable = co_durable c, st_revalidation_required = (co_pending_revalidation c > 0),
     st_history_incomplete = co_history_incomplete c, st_progress = progress_or_empty c\<rparr>)"

section \<open>Snapshot and recovery\<close>

definition kSnapshotPayloadVersion :: u32 where
  "kSnapshotPayloadVersion = 1"

definition producer_entry :: "'s coordinator \<Rightarrow> producer_record \<Rightarrow> participant_record" where
  "producer_entry c entry = \<lparr>pa_kind = PK_Producer, pa_id = pd_id entry, pa_incarnation = pd_incarnation entry,
     pa_state = pd_state entry, pa_endpoint = pd_endpoint entry, pa_selection = selection_all, pa_at = co_clock c\<rparr>"

definition consumer_entry :: "'s coordinator \<Rightarrow> topology \<Rightarrow> consumer_record \<Rightarrow> participant_record" where
  "consumer_entry c t entry = \<lparr>pa_kind = PK_Consumer, pa_id = cs_id entry, pa_incarnation = cs_incarnation entry,
     pa_state = cs_state entry, pa_endpoint = cs_endpoint entry, pa_selection = tp_pattern t (cs_pattern entry),
     pa_at = co_clock c\<rparr>"

definition snapshot_authority :: "'s coordinator \<Rightarrow> bytes list" where
  "snapshot_authority c =
     [encode_epoch \<lparr>er_epoch = co_epoch c, er_opened_at = co_clock c\<rparr>] @
     (if co_state c \<noteq> SS_Closed
      then [encode_shuffle_state (state_record (co_state c) (co_reason c) (co_request c) (co_clock c))] else []) @
     (case co_topology c of
        None \<Rightarrow> []
      | Some t \<Rightarrow> map (encode_participant \<circ> producer_entry c) (tp_producers t) @
          map (encode_participant \<circ> consumer_entry c t) (tp_consumers t))"

fun snapshot_manifests :: "limits \<Rightarrow> (u64 \<times> partition_manifest) list \<Rightarrow> bytes list result" where
  "snapshot_manifests l [] = Inr []"
| "snapshot_manifests l ((key, manifest) # rest) =
     (case encode_manifest_record manifest l of
        Inl e \<Rightarrow> Inl e
      | Inr encoded \<Rightarrow>
        (case snapshot_manifests l rest of Inl e \<Rightarrow> Inl e | Inr others \<Rightarrow> Inr (encoded # others)))"

definition snapshot_payload :: "'s coordinator \<Rightarrow> bytes result" where
  "snapshot_payload = guarded_view (\<lambda>c.
     case snapshot_manifests (co_limits c) (sort_key fst (co_manifests c)) of
       Inl e \<Rightarrow> Inl e
     | Inr manifests \<Rightarrow>
       (let records = snapshot_authority c @ manifests in
        Inr (put_u32 kSnapshotPayloadVersion @ put_u32 (word_of_nat (length records)) @
             concat (map put_byte_string records) @ put_byte_string (ledger_encode (co_ledger c)))))"

text \<open>The replay of a snapshot threads the scratch coordinator through the reader.\<close>

definition rd_replay :: "limits \<Rightarrow> 's coordinator \<Rightarrow> 's coordinator result reader" where
  "rd_replay l c = do {
     data \<leftarrow> rd_bytes (max_journal_record_bytes l);
     rd_check (case apply_record data c of (Inl e, _) \<Rightarrow> ret (Inl e) | (Inr _, c1) \<Rightarrow> ret (Inr c1)) }"

definition rd_snapshot :: "limits \<Rightarrow> 's coordinator \<Rightarrow> 's coordinator result reader" where
  "rd_snapshot l c = do {
     version \<leftarrow> rd_u32;
     rd_check (
       if version \<noteq> kSnapshotPayloadVersion then ret (Inl UnsupportedVersion)
       else do {
         record_count \<leftarrow> rd_collection_count (ucast (max_collection_items l));
         rd_sub (rd_fold (unat record_count) (rd_replay l) c) (\<lambda>c1. do {
           ledger_bytes \<leftarrow> rd_bytes (max_state_bytes l);
           rd_check (case rd_all rd_ledger ledger_bytes l of
             Inl e \<Rightarrow> ret (Inl e)
           | Inr lg \<Rightarrow> ret (Inr (c1\<lparr>co_ledger := lg\<rparr>))) }) }) }"

fun replay_journal :: "bytes list \<Rightarrow> 's coordinator \<Rightarrow> status \<times> 's coordinator" where
  "replay_journal [] c = (ok_status, c)"
| "replay_journal (record # journal) c =
     (case apply_record record c of (Inl e, c1) \<Rightarrow> (Inl e, c1) | (Inr _, c1) \<Rightarrow> replay_journal journal c1)"

text \<open>The two loops that demote the participants that held authority before the restart.\<close>

fun demote_producers :: "producer_record list \<Rightarrow> topology \<times> u64 set \<times> u32 \<Rightarrow> (topology \<times> u64 set \<times> u32) result" where
  "demote_producers [] d = Inr d"
| "demote_producers (record # records) (t, pending, suspect) =
     (if \<not> holds_authority (pd_state record) then demote_producers records (t, pending, suspect)
      else case set_producer_state (pd_id record) (pd_incarnation record) PS_Suspect t of
        (Inl e, _) \<Rightarrow> Inl e
      | (Inr _, t1) \<Rightarrow> demote_producers records (t1, insert (pd_id record) pending, suspect + 1))"

fun demote_consumers :: "consumer_record list \<Rightarrow> topology \<times> u64 set \<times> u32 \<Rightarrow> (topology \<times> u64 set \<times> u32) result" where
  "demote_consumers [] d = Inr d"
| "demote_consumers (record # records) (t, pending, suspect) =
     (if \<not> holds_authority (cs_state record) then demote_consumers records (t, pending, suspect)
      else case set_consumer_state (cs_id record) (cs_incarnation record) PS_Suspect t of
        (Inl e, _) \<Rightarrow> Inl e
      | (Inr _, t1) \<Rightarrow> demote_consumers records (t1, insert (cs_id record) pending, suspect + 1))"

definition demote_participants :: "'s coordinator \<Rightarrow> 's coordinator result" where
  "demote_participants c =
     (case co_topology c of
        None \<Rightarrow> Inr (c\<lparr>co_pending_revalidation := 0\<rparr>)
      | Some t \<Rightarrow>
        (case demote_producers (tp_producers t) (t, co_unrevalidated_producers c, 0) of
           Inl e \<Rightarrow> Inl e
         | Inr (t1, producers, suspect) \<Rightarrow>
           (case demote_consumers (tp_consumers t1) (t1, co_unrevalidated_consumers c, suspect) of
              Inl e \<Rightarrow> Inl e
            | Inr (t2, consumers, suspect') \<Rightarrow>
                Inr (c\<lparr>co_topology := Some t2, co_unrevalidated_producers := producers,
                       co_unrevalidated_consumers := consumers, co_pending_revalidation := suspect'\<rparr>))))"

text \<open>
  \<open>adopt\<close> transfers every member but the limits, the durability flag and the guard, and clears
  the grants. The sink is shared, so its state after the epoch record is kept.
\<close>

definition adopt :: "'s coordinator \<Rightarrow> 's coordinator \<Rightarrow> 's coordinator" where
  "adopt other c =
     other\<lparr>co_limits := co_limits c, co_durable := co_durable c, co_inside := co_inside c, co_grants := Map.empty\<rparr>"

definition recovered_scratch :: "bytes \<Rightarrow> bool \<Rightarrow> 's coordinator \<Rightarrow> 's coordinator result" where
  "recovered_scratch snapshot incomplete c =
     (let scratch = (mk_coordinator (co_limits c) None)\<lparr>co_history_incomplete := incomplete\<rparr> in
      if snapshot = [] then Inr scratch
      else rd_all (rd_snapshot (co_limits c) scratch) snapshot (co_limits c))"

definition recover :: "bytes \<Rightarrow> bytes list \<Rightarrow> bool \<Rightarrow> 's coordinator \<Rightarrow> status \<times> 's coordinator" where
  "recover snapshot journal incomplete = guarded (\<lambda>c.
     if co_state c \<noteq> SS_Closed then (Inl InvalidState, c)
     else case recovered_scratch snapshot incomplete c of
       Inl e \<Rightarrow> (Inl e, c)
     | Inr scratch \<Rightarrow>
       (case replay_journal journal scratch of
          (Inl e, _) \<Rightarrow> (Inl e, c)
        | (Inr _, scratch1) \<Rightarrow>
          (case demote_participants scratch1 of
             Inl e \<Rightarrow> (Inl e, c)
           | Inr scratch2 \<Rightarrow>
             (case persist_epoch (scratch2\<lparr>co_sink := co_sink c, co_durable := co_durable c\<rparr>) of
                (Inl e, scratch3) \<Rightarrow> (Inl e, c\<lparr>co_sink := co_sink scratch3\<rparr>)
              | (Inr _, scratch3) \<Rightarrow> (ok_status, adopt scratch3 c)))))"

end
