(* ===== verification/Fabric_Replay.thy ===== *)
theory Fabric_Replay
  imports Fabric_Coordinator
begin

text \<open>
  What the journal of a coordinator is worth. \<open>durable_part\<close> is what durable records determine;
  the locale \<open>durable_log\<close> is the contract of a durable sink, and inside it every call of the
  coordinator keeps \<open>tracked\<close>: the records the sink has accepted replay, without an error, to the
  durable part of the coordinator.
\<close>

section \<open>Specification\<close>

text \<open>
  The part of the coordinator that durable records determine: everything but the sink, the
  guard, the clock, the scheduler, the grants, the congestion evidence, the pending
  revalidations and the attempted bytes of the ledger.
\<close>

definition durable_part :: "'s coordinator \<Rightarrow> 's coordinator" where
  "durable_part c = (mk_coordinator (co_limits c) None)
     \<lparr>co_state := co_state c, co_reason := co_reason c, co_request := co_request c, co_epoch := co_epoch c,
      co_topology := co_topology c, co_ledger := (co_ledger c)\<lparr>ld_attempted_bytes := 0\<rparr>,
      co_manifests := co_manifests c, co_facts := co_facts c, co_commits_applied := co_commits_applied c,
      co_failures_applied := co_failures_applied c\<rparr>"

text \<open>
  What the coordinator relies on of a durable sink (the contract of \<open>DurableSink::persist\<close>):
  an accepted record is the next one of the log, a refused one is not in it.
\<close>

locale durable_log =
  fixes persist :: "bytes \<Rightarrow> 's \<Rightarrow> status \<times> 's" and log :: "'s \<Rightarrow> bytes list" and sound :: "'s \<Rightarrow> bool"
  assumes persisted: "sound s \<Longrightarrow> persist record s = (Inr u, s') \<Longrightarrow> sound s' \<and> log s' = log s @ [record]"
    and refused: "sound s \<Longrightarrow> persist record s = (Inl e, s') \<Longrightarrow> sound s' \<and> log s' = log s"

text \<open>The journal behind the sink replays to the durable part of the coordinator.\<close>

definition journalled ::
  "(bytes \<Rightarrow> 's \<Rightarrow> status \<times> 's) \<Rightarrow> ('s \<Rightarrow> bytes list) \<Rightarrow> ('s \<Rightarrow> bool) \<Rightarrow> 's coordinator \<Rightarrow> bool" where
  "journalled persist log sound c \<longleftrightarrow>
     (\<exists>sink d. co_sink c = Some sink \<and> sk_persist sink = persist \<and> sound (sk_state sink) \<and>
        replay_journal (log (sk_state sink)) (mk_coordinator (co_limits c) None) = (ok_status, d) \<and>
        durable_part d = durable_part c)"

text \<open>Endpoints and selections that the durable records of a participant can carry.\<close>

definition topology_admitted :: "limits \<Rightarrow> topology \<Rightarrow> bool" where
  "topology_admitted l t \<longleftrightarrow>
     (\<forall>r \<in> set (tp_producers t). text_admitted (max_endpoint_bytes l) l (pd_endpoint r) \<and> pd_id r \<noteq> 0 \<and> pd_incarnation r \<noteq> 0) \<and>
     (\<forall>r \<in> set (tp_consumers t). text_admitted (max_endpoint_bytes l) l (cs_endpoint r) \<and> cs_id r \<noteq> 0 \<and> cs_incarnation r \<noteq> 0) \<and>
     (\<forall>e \<in> set (tp_patterns t). selection_admitted l l (pt_selection e))"

definition ledger_reached :: "'s coordinator \<Rightarrow> bool" where
  "ledger_reached c \<longleftrightarrow>
     ledger_step\<^sup>*\<^sup>* (ledger_bind (or_shuffle (co_request c)) (or_generation (co_request c))
       (or_partition_count (co_request c)) (mk_ledger (co_limits c))) (co_ledger c)"

definition topology_bound :: "'s coordinator \<Rightarrow> topology \<Rightarrow> bool" where
  "topology_bound c t \<longleftrightarrow>
     topology_inv t \<and> tp_limits t = co_limits c \<and> tp_shuffle t = or_shuffle (co_request c) \<and>
     tp_shuffle_generation t = or_generation (co_request c) \<and>
     tp_partition_count t = or_partition_count (co_request c) \<and> tp_partition_count t \<noteq> 0 \<and>
     topology_admitted (co_limits c) t"

definition coordinator_inv :: "'s coordinator \<Rightarrow> bool" where
  "coordinator_inv c \<longleftrightarrow>
     limits_validate (co_limits c) = ok_status \<and> 32 \<le> max_allocation_bytes (co_limits c) \<and>
     (co_state c = SS_Closed \<longleftrightarrow> co_topology c = None) \<and>
     (case co_topology c of
        None \<Rightarrow> (co_ledger c)\<lparr>ld_attempted_bytes := 0\<rparr> = mk_ledger (co_limits c)
      | Some t \<Rightarrow> topology_bound c t \<and> ledger_reached c \<and> validate_policy (or_policy (co_request c)) = ok_status) \<and>
     (\<forall>k m. map_of (co_manifests c) k = Some m \<longrightarrow> manifest_record_admitted (co_limits c) (co_limits c) m)"

definition tracked ::
  "(bytes \<Rightarrow> 's \<Rightarrow> status \<times> 's) \<Rightarrow> ('s \<Rightarrow> bytes list) \<Rightarrow> ('s \<Rightarrow> bool) \<Rightarrow> 's coordinator \<Rightarrow> bool" where
  "tracked persist log sound c \<longleftrightarrow> journalled persist log sound c \<and> coordinator_inv c"

text \<open>The calls that persist nothing keep the durable part and the sink.\<close>

definition keeps_journal :: "('s coordinator \<Rightarrow> 'a \<times> 's coordinator) \<Rightarrow> bool" where
  "keeps_journal body \<longleftrightarrow> (\<forall>c. durable_part (snd (body c)) = durable_part c \<and> co_sink (snd (body c)) = co_sink c)"

section \<open>Lemmas: the durable part\<close>

lemma durable_part_eq_iff:
  "durable_part c = durable_part d \<longleftrightarrow>
     co_limits c = co_limits d \<and> co_state c = co_state d \<and> co_reason c = co_reason d \<and> co_request c = co_request d \<and>
     co_epoch c = co_epoch d \<and> co_topology c = co_topology d \<and>
     (co_ledger c)\<lparr>ld_attempted_bytes := 0\<rparr> = (co_ledger d)\<lparr>ld_attempted_bytes := 0\<rparr> \<and>
     co_manifests c = co_manifests d \<and> co_facts c = co_facts d \<and>
     co_commits_applied c = co_commits_applied d \<and> co_failures_applied c = co_failures_applied d"
  by (auto simp: durable_part_def mk_coordinator_def)

lemma durable_part_raise_clock [simp]: "durable_part (raise_clock at c) = durable_part c"
  by (simp add: durable_part_eq_iff raise_clock_def)

lemma raise_clock_fields [simp]:
  "co_limits (raise_clock at c) = co_limits c" "co_state (raise_clock at c) = co_state c"
  "co_topology (raise_clock at c) = co_topology c" "co_request (raise_clock at c) = co_request c"
  "co_ledger (raise_clock at c) = co_ledger c" "co_manifests (raise_clock at c) = co_manifests c"
  "co_sink (raise_clock at c) = co_sink c" "co_inside (raise_clock at c) = co_inside c"
  "co_reason (raise_clock at c) = co_reason c" "co_epoch (raise_clock at c) = co_epoch c"
  "co_facts (raise_clock at c) = co_facts c" "co_commits_applied (raise_clock at c) = co_commits_applied c"
  "co_failures_applied (raise_clock at c) = co_failures_applied c" "co_grants (raise_clock at c) = co_grants c"
  "co_scheduler (raise_clock at c) = co_scheduler c"
  by (simp_all add: raise_clock_def)

lemma durable_part_revalidate [simp]: "durable_part (revalidate kind pid c) = durable_part c"
  by (simp add: durable_part_eq_iff revalidate_def Let_def)

lemma durable_part_topology:
  "durable_part (c\<lparr>co_topology := t\<rparr>) = (durable_part c)\<lparr>co_topology := t\<rparr>"
  by (simp add: durable_part_def mk_coordinator_def)

lemma apply_participant_part:
  assumes "durable_part c = durable_part d"
  shows "fst (apply_participant r c) = fst (apply_participant r d) \<and>
    durable_part (snd (apply_participant r c)) = durable_part (snd (apply_participant r d))"
proof -
  have t: "co_topology c = co_topology d" using assms by (simp add: durable_part_eq_iff)
  show ?thesis
    by (simp add: apply_participant_def t Let_def durable_part_topology assms split: option.split sum.split prod.split)
qed

lemma apply_shuffle_state_part:
  assumes "durable_part c = durable_part d"
  shows "fst (apply_shuffle_state r c) = fst (apply_shuffle_state r d) \<and>
    durable_part (snd (apply_shuffle_state r c)) = durable_part (snd (apply_shuffle_state r d))"
proof -
  have e: "durable_part (enter_state r c) = durable_part (enter_state r d)" if "durable_part c = durable_part d" for c d :: "'a coordinator"
    using that by (simp add: enter_state_def Let_def durable_part_eq_iff)
  have b: "ledger_bind x y z lg\<lparr>ld_attempted_bytes := 0\<rparr> = ledger_bind x y z (lg\<lparr>ld_attempted_bytes := 0\<rparr>)" for x y z lg
    by (simp add: ledger_bind_def)
  have o: "durable_part (adopt_open r c) = durable_part (adopt_open r d)"
    using assms by (simp add: adopt_open_def durable_part_eq_iff b split: option.split)
  have "co_state c = co_state d" "co_request c = co_request d" using assms by (simp_all add: durable_part_eq_iff)
  then show ?thesis using e [OF assms] e [OF o] by (simp add: apply_shuffle_state_def assms)
qed

lemma ledger_attempted_eq:
  "lg\<lparr>ld_attempted_bytes := 0\<rparr> = lg'\<lparr>ld_attempted_bytes := 0\<rparr> \<Longrightarrow> lg = lg'\<lparr>ld_attempted_bytes := ld_attempted_bytes lg\<rparr>"
  by (cases lg; cases lg') simp

lemma apply_manifest_part:
  assumes "durable_part c = durable_part d"
  shows "fst (apply_manifest m c) = fst (apply_manifest m d) \<and>
    durable_part (snd (apply_manifest m c)) = durable_part (snd (apply_manifest m d))"
proof -
  have l: "co_ledger c = (co_ledger d)\<lparr>ld_attempted_bytes := ld_attempted_bytes (co_ledger c)\<rparr>"
    using assms by (intro ledger_attempted_eq) (simp add: durable_part_eq_iff)
  have m: "co_manifests c = co_manifests d" "co_topology c = co_topology d" using assms by (simp_all add: durable_part_eq_iff)
  show ?thesis
    using assms by (subst (1 2) apply_manifest_def, subst (1 2) l, subst (1 2) apply_manifest_def)
      (simp add: attempted_retire m durable_part_eq_iff split: sum.split prod.split)
qed

lemma apply_commit_part:
  assumes "durable_part c = durable_part d"
  shows "fst (apply_commit r c) = fst (apply_commit r d) \<and>
    durable_part (snd (apply_commit r c)) = durable_part (snd (apply_commit r d))"
proof -
  have l: "co_ledger c = (co_ledger d)\<lparr>ld_attempted_bytes := ld_attempted_bytes (co_ledger c)\<rparr>"
    using assms by (intro ledger_attempted_eq) (simp add: durable_part_eq_iff)
  show ?thesis
    using assms by (subst (1 2) apply_commit_def, subst (1 2) l, subst (1 2) apply_commit_def)
      (simp add: attempted_commit durable_part_eq_iff split: sum.split prod.split)
qed

lemma apply_failure_part:
  assumes "durable_part c = durable_part d"
  shows "fst (apply_failure r c) = fst (apply_failure r d) \<and>
    durable_part (snd (apply_failure r c)) = durable_part (snd (apply_failure r d))"
proof -
  have l: "co_ledger c = (co_ledger d)\<lparr>ld_attempted_bytes := ld_attempted_bytes (co_ledger c)\<rparr>"
    using assms by (intro ledger_attempted_eq) (simp add: durable_part_eq_iff)
  show ?thesis
    using assms by (subst (1 2) apply_failure_def, subst (1 2) l, subst (1 2) apply_failure_def)
      (simp add: attempted_record_failure durable_part_eq_iff split: sum.split prod.split)
qed

lemma apply_epoch_part: "durable_part c = durable_part d \<Longrightarrow> durable_part (apply_epoch r c) = durable_part (apply_epoch r d)"
  by (simp add: apply_epoch_def durable_part_eq_iff)

lemma apply_durable_part:
  assumes "durable_part c = durable_part d"
  shows "fst (apply_durable r c) = fst (apply_durable r d) \<and>
    durable_part (snd (apply_durable r c)) = durable_part (snd (apply_durable r d))"
  by (cases r) (simp_all add: apply_epoch_part [OF assms] apply_participant_part [OF assms]
      apply_shuffle_state_part [OF assms] apply_manifest_part [OF assms] apply_commit_part [OF assms]
      apply_failure_part [OF assms])

lemma apply_record_part:
  assumes "durable_part c = durable_part d"
  shows "fst (apply_record data c) = fst (apply_record data d) \<and>
    durable_part (snd (apply_record data c)) = durable_part (snd (apply_record data d))"
proof -
  have "co_limits c = co_limits d" using assms by (simp add: durable_part_eq_iff)
  then show ?thesis using apply_durable_part [OF assms] assms by (simp add: apply_record_def split: sum.split)
qed

lemma replay_append:
  "replay_journal (xs @ ys) c =
     (case replay_journal xs c of (Inl e, c1) \<Rightarrow> (Inl e, c1) | (Inr _, c1) \<Rightarrow> replay_journal ys c1)"
  by (induction xs arbitrary: c) (auto split: prod.split sum.split)

lemma co_persist_part:
  "co_persist data c = (r, c1) \<Longrightarrow> durable_part c1 = durable_part c"
  by (auto simp: co_persist_def durable_part_eq_iff split: option.splits prod.splits sum.splits)

lemma co_persist_fields:
  assumes "co_persist data c = (r, c1)"
  shows "co_limits c1 = co_limits c" "co_clock c1 = co_clock c" "co_ledger c1 = co_ledger c" "co_topology c1 = co_topology c"
    "co_request c1 = co_request c" "co_state c1 = co_state c" "co_inside c1 = co_inside c" "co_grants c1 = co_grants c"
    "co_manifests c1 = co_manifests c" "co_facts c1 = co_facts c" "co_scheduler c1 = co_scheduler c" "co_epoch c1 = co_epoch c"
  using assms by (auto simp: co_persist_def split: option.splits prod.splits sum.splits)

lemma journalled_cong:
  assumes "journalled persist log sound c" "co_sink c' = co_sink c" "durable_part c' = durable_part c"
  shows "journalled persist log sound c'"
proof -
  have "co_limits c' = co_limits c" using assms(3) by (simp add: durable_part_eq_iff)
  then show ?thesis using assms by (simp add: journalled_def)
qed

lemma apply_durable_frame:
  "co_limits (snd (apply_durable r c)) = co_limits c \<and> co_sink (snd (apply_durable r c)) = co_sink c \<and>
   co_inside (snd (apply_durable r c)) = co_inside c"
  by (cases r) (auto simp: apply_epoch_def apply_shuffle_state_def enter_state_def adopt_open_def Let_def
      apply_participant_def revalidate_def apply_manifest_def apply_commit_def apply_failure_def
      split: option.split sum.split prod.split)

lemma apply_record_frame:
  assumes "apply_record data c = (r, c')"
  shows "co_limits c' = co_limits c" "co_sink c' = co_sink c" "co_inside c' = co_inside c"
proof -
  have "co_limits c' = co_limits c \<and> co_sink c' = co_sink c \<and> co_inside c' = co_inside c"
  proof (cases "rd_all (decode_record (co_limits c)) data (co_limits c)")
    case (Inr entry)
    then show ?thesis using assms apply_durable_frame [of entry c] by (simp add: apply_record_def)
  qed (use assms in \<open>auto simp: apply_record_def\<close>)
  then show "co_limits c' = co_limits c" "co_sink c' = co_sink c" "co_inside c' = co_inside c" by simp_all
qed

context durable_log
begin

lemma persist_refused:
  assumes "journalled persist log sound c" "co_persist data c = (Inl e, c1)"
  shows "journalled persist log sound c1"
proof -
  obtain sink d where c: "co_sink c = Some sink" "sk_persist sink = persist" "sound (sk_state sink)"
    and d: "replay_journal (log (sk_state sink)) (mk_coordinator (co_limits c) None) = (ok_status, d)"
      "durable_part d = durable_part c"
    using assms(1) by (auto simp: journalled_def)
  obtain s where s: "persist data (sk_state sink) = (Inl e, s)" "c1 = c\<lparr>co_sink := Some (sink\<lparr>sk_state := s\<rparr>)\<rparr>"
    using assms(2) c by (auto simp: co_persist_def split: prod.splits sum.splits)
  have "durable_part c1 = durable_part c" using co_persist_part [OF assms(2)] .
  then show ?thesis
    using refused [OF c(3) s(1)] c d s(2) by (auto simp: journalled_def)
qed

lemma persist_applied:
  assumes "journalled persist log sound c" "co_persist data c = (Inr u, c1)"
    and live: "apply_record data c1 = (ok_status, c2)"
    and c3: "durable_part c3 = durable_part c2" "co_sink c3 = co_sink c1"
  shows "journalled persist log sound c3"
proof -
  obtain sink d where c: "co_sink c = Some sink" "sk_persist sink = persist" "sound (sk_state sink)"
    and d: "replay_journal (log (sk_state sink)) (mk_coordinator (co_limits c) None) = (ok_status, d)"
      "durable_part d = durable_part c"
    using assms(1) by (auto simp: journalled_def)
  obtain s where s: "persist data (sk_state sink) = (ok_status, s)" "co_sink c1 = Some (sink\<lparr>sk_state := s\<rparr>)"
    using assms(2) c by (auto simp: co_persist_def split: prod.splits sum.splits)
  have part: "durable_part d = durable_part c1" using co_persist_part [OF assms(2)] d(2) by simp
  obtain d2 where d2: "apply_record data d = (ok_status, d2)" "durable_part d2 = durable_part c2"
    using apply_record_part [OF part, of data] live by (cases "apply_record data d") auto
  have "co_limits c1 = co_limits c" using co_persist_fields [OF assms(2)] by simp
  moreover have "co_limits c2 = co_limits c1" using apply_record_frame [OF live] by simp
  moreover have "co_limits c3 = co_limits c2" using c3(1) by (simp add: durable_part_eq_iff)
  ultimately show ?thesis
    using persisted [OF c(3) s(1)] c s d d2 c3 by (auto simp: journalled_def replay_append)
qed

lemma commit_record_journalled:
  assumes "journalled persist log sound c"
    and "\<And>c1. co_persist data c = (ok_status, c1) \<Longrightarrow> fst (apply_record data c1) = ok_status"
  shows "journalled persist log sound (snd (co_commit_record data c))"
proof (cases "co_persist data c")
  case (Pair r c1)
  show ?thesis
  proof (cases r)
    case (Inl e)
    then show ?thesis using persist_refused assms(1) Pair by (auto simp: co_commit_record_def)
  next
    case (Inr u)
    then obtain c2 where c2: "apply_record data c1 = (ok_status, c2)"
      using assms(2) [of c1] Pair by (cases "apply_record data c1") auto
    have "co_sink c2 = co_sink c1" using apply_record_frame [OF c2] by simp
    then show ?thesis
      using persist_applied [OF assms(1) _ c2, of u c2] Pair Inr c2 by (simp add: co_commit_record_def)
  qed
qed

end

lemma ledger_step_attempted: "ledger_step lg (lg\<lparr>ld_attempted_bytes := n\<rparr>)"
  using step_attempt_bytes [of lg "n - ld_attempted_bytes lg"] by (simp add: note_attempt_bytes_def)

lemma ledger_reached_part:
  assumes "durable_part c = durable_part d" "ledger_reached c"
  shows "ledger_reached d"
proof -
  have "co_ledger d = (co_ledger c)\<lparr>ld_attempted_bytes := ld_attempted_bytes (co_ledger d)\<rparr>"
    using assms(1) by (intro ledger_attempted_eq) (simp add: durable_part_eq_iff)
  then have "ledger_step (co_ledger c) (co_ledger d)" using ledger_step_attempted by metis
  then show ?thesis using assms by (simp add: ledger_reached_def durable_part_eq_iff)
qed

lemma coordinator_inv_part: "durable_part c = durable_part d \<Longrightarrow> coordinator_inv c = coordinator_inv d"
  using ledger_reached_part [of c d] ledger_reached_part [of d c]
  by (auto simp: durable_part_eq_iff coordinator_inv_def topology_bound_def split: option.split)

lemma selection_durable_canonical: "selection_durable s \<Longrightarrow> selection_canonical s"
  by (auto simp: selection_durable_def selection_canonical_def)

lemma admitted_pattern_ops [simp]:
  "topology_admitted l (add_consumer_to_pattern p cid t) = topology_admitted l t"
  "topology_admitted l (remove_consumer_from_pattern p cid t) = topology_admitted l t"
proof -
  have *: "(\<forall>e \<in> set (ps[i := (ps ! i)\<lparr>pt_consumers := cs\<rparr>]). selection_admitted l l (pt_selection e)) \<longleftrightarrow>
      (\<forall>e \<in> set ps. selection_admitted l l (pt_selection e))" if "i < length ps" for i ps cs
    using that by (auto simp: all_set_conv_all_nth nth_list_update)
  show "topology_admitted l (add_consumer_to_pattern p cid t) = topology_admitted l t"
    "topology_admitted l (remove_consumer_from_pattern p cid t) = topology_admitted l t"
    by (auto simp: topology_admitted_def add_consumer_to_pattern_def remove_consumer_from_pattern_def Let_def * not_le)
qed

lemma admitted_bump [simp]:
  "topology_admitted l (bump_generation t) = topology_admitted l t"
  "topology_admitted l (rebuild_active_producers t) = topology_admitted l t"
  "topology_admitted l (rebuild_pattern_order t) = topology_admitted l t"
  by (simp_all add: topology_admitted_def bump_generation_def rebuild_active_producers_def rebuild_pattern_order_def)

lemma admitted_intern:
  "topology_admitted l t \<Longrightarrow> selection_admitted l l s \<Longrightarrow> topology_admitted l (snd (intern_pattern s t))"
  by (auto simp: intern_pattern_def Let_def split: option.split) (auto simp: topology_admitted_def)

lemma admitted_producers:
  assumes "topology_admitted l t" "\<And>r. r \<in> set rs \<Longrightarrow> r \<in> set (tp_producers t) \<or> text_admitted (max_endpoint_bytes l) l (pd_endpoint r) \<and> pd_id r \<noteq> 0 \<and> pd_incarnation r \<noteq> 0"
  shows "topology_admitted l (t\<lparr>tp_producers := rs\<rparr>)"
  using assms by (auto simp: topology_admitted_def)

lemma admitted_consumers:
  assumes "topology_admitted l t" "\<And>r. r \<in> set rs \<Longrightarrow> r \<in> set (tp_consumers t) \<or> text_admitted (max_endpoint_bytes l) l (cs_endpoint r) \<and> cs_id r \<noteq> 0 \<and> cs_incarnation r \<noteq> 0"
  shows "topology_admitted l (t\<lparr>tp_consumers := rs\<rparr>)"
  using assms by (auto simp: topology_admitted_def)

lemma admitted_register_producer:
  assumes "topology_admitted l t" "text_admitted (max_endpoint_bytes l) l ep"
  shows "topology_admitted l (snd (register_producer pid inc ep t))"
proof (cases "check_producer_registration t pid inc ep")
  case (Inr u)
  then have "inc \<noteq> 0" "pid \<noteq> 0" by (auto simp: check_producer_registration_def split: if_splits)
  then show ?thesis
    using assms Inr by (auto simp: register_producer_def Let_def intro!: admitted_producers
      dest!: set_update_subset_insert [THEN subsetD] simp: set_insert_at)
qed (use assms in \<open>simp add: register_producer_def\<close>)

lemma admitted_register_consumer:
  assumes a: "topology_admitted l t" "text_admitted (max_endpoint_bytes l) l ep" and s: "selection_admitted l l s"
  shows "topology_admitted l (snd (register_consumer cid inc ep s t))"
proof (cases "check_consumer_registration t cid inc ep s")
  case (Inr u)
  then have inc: "inc \<noteq> 0" "cid \<noteq> 0" by (auto simp: check_consumer_registration_def split: if_splits)
  obtain res t1 where i: "intern_pattern s t = (res, t1)" by fastforce
  then have t1: "topology_admitted l t1" using admitted_intern [OF a(1) s] by simp
  let ?t2 = "\<lambda>r. remove_consumer_from_pattern (cs_pattern r) cid t1"
  have u: "topology_admitted l (?t2 r\<lparr>tp_consumers := (tp_consumers (?t2 r))[k := r']\<rparr>)"
    if "cs_endpoint r' = ep" "cs_incarnation r' = inc" "cs_id r' = cid" for r r' k
    by (rule admitted_consumers) (use that a t1 inc in \<open>auto dest!: set_update_subset_insert [THEN subsetD]\<close>)
  have n: "topology_admitted l (t1\<lparr>tp_consumers := insert_at k r' (tp_consumers t1)\<rparr>)"
    if "cs_endpoint r' = ep" "cs_incarnation r' = inc" "cs_id r' = cid" for r' k
    by (rule admitted_consumers) (use that a t1 inc in \<open>auto simp: set_insert_at\<close>)
  show ?thesis using a t1 by (auto simp: register_consumer_def i Let_def split: sum.split intro!: u [simplified] n)
qed (use a in \<open>simp add: register_consumer_def\<close>)

lemma admitted_set_producer_state:
  assumes "topology_inv t" "topology_admitted l t"
  shows "topology_admitted l (snd (set_producer_state pid inc st t))"
proof (cases "check_participant_state t PK_Producer pid inc st")
  case (Inr u)
  then obtain r where r: "r \<in> set (tp_producers t)" "tp_producers t ! lower_bound pd_id (tp_producers t) pid = r"
    using check_participant_producer [OF assms(1)] by metis
  then have "topology_admitted l (t\<lparr>tp_producers := (tp_producers t)[k := r\<lparr>pd_state := st\<rparr>]\<rparr>)" for k
    using assms(2) by (intro admitted_producers)
      (auto simp: topology_admitted_def dest!: set_update_subset_insert [THEN subsetD])
  then show ?thesis using Inr r assms by (simp add: set_producer_state_def Let_def)
qed (use assms in \<open>simp add: set_producer_state_def\<close>)

lemma admitted_set_consumer_state:
  assumes "topology_inv t" "topology_admitted l t"
  shows "topology_admitted l (snd (set_consumer_state cid inc st t))"
proof (cases "check_participant_state t PK_Consumer cid inc st")
  case (Inr u)
  then obtain r where r: "r \<in> set (tp_consumers t)" "tp_consumers t ! lower_bound cs_id (tp_consumers t) cid = r"
    using check_participant_consumer [OF assms(1)] by metis
  then have "topology_admitted l (t\<lparr>tp_consumers := (tp_consumers t)[k := r\<lparr>cs_state := st\<rparr>]\<rparr>)" for k
    using assms(2) by (intro admitted_consumers)
      (auto simp: topology_admitted_def dest!: set_update_subset_insert [THEN subsetD])
  then show ?thesis using Inr r assms by (simp add: set_consumer_state_def Let_def)
qed (use assms in \<open>simp add: set_consumer_state_def\<close>)

lemma mk_coordinator_inv:
  "limits_validate l = ok_status \<Longrightarrow> 32 \<le> max_allocation_bytes l \<Longrightarrow> coordinator_inv (mk_coordinator l sink)"
  by (simp add: coordinator_inv_def mk_coordinator_def mk_ledger_def)

lemma coordinator_inv_cong:
  assumes "co_limits c = co_limits d" "(co_state c = SS_Closed) = (co_state d = SS_Closed)" "co_request c = co_request d"
    "co_topology c = co_topology d" "co_ledger c = co_ledger d" "co_manifests c = co_manifests d"
  shows "coordinator_inv c = coordinator_inv d"
  using assms by (simp add: coordinator_inv_def topology_bound_def ledger_reached_def split: option.split)

lemma apply_epoch_inv: "coordinator_inv (apply_epoch r c) = coordinator_inv c"
  by (rule coordinator_inv_cong) (simp_all add: apply_epoch_def)

lemma coordinator_inv_ledger_step:
  assumes "coordinator_inv c" "co_topology c = Some t" "ledger_step (co_ledger c) lg"
  shows "coordinator_inv (c\<lparr>co_ledger := lg\<rparr>)"
proof -
  have "ledger_reached c" using assms(1,2) by (simp add: coordinator_inv_def)
  then have "ledger_reached (c\<lparr>co_ledger := lg\<rparr>)"
    using assms(3) by (auto simp: ledger_reached_def intro: rtranclp.rtrancl_into_rtrancl)
  then show ?thesis using assms(1,2) by (auto simp: coordinator_inv_def topology_bound_def)
qed

lemma inv_raise_clock [simp]: "coordinator_inv (raise_clock at c) = coordinator_inv c"
  by (rule coordinator_inv_part) simp

lemma apply_commit_inv:
  assumes "coordinator_inv c" "co_topology c = Some t"
  shows "coordinator_inv (snd (apply_commit r c))"
proof -
  obtain res lg where e: "ledger_commit (cm_request r) (cm_at r) (co_ledger c) = (res, lg)" by fastforce
  then have "ledger_step (co_ledger c) lg" using step_commit [of "co_ledger c" "cm_request r" "cm_at r"] by simp
  have "coordinator_inv (c\<lparr>co_ledger := lg, co_commits_applied := n\<rparr>) = coordinator_inv (c\<lparr>co_ledger := lg\<rparr>)" for n
    by (rule coordinator_inv_cong) simp_all
  with coordinator_inv_ledger_step [OF assms \<open>ledger_step (co_ledger c) lg\<close>]
  show ?thesis by (simp add: apply_commit_def e split: sum.split)
qed

lemma apply_failure_inv:
  assumes "coordinator_inv c" "co_topology c = Some t"
  shows "coordinator_inv (snd (apply_failure r c))"
proof -
  obtain res lg where e: "record_failure (fd_key r) (fd_code r) (fd_permanent r) (fd_attempts r)
             (fd_recorded_at r) (fd_ready_at r) (co_ledger c) = (res, lg)" by fastforce
  then have s: "ledger_step (co_ledger c) lg"
    using step_failure [of "co_ledger c" "fd_key r" "fd_code r" "fd_permanent r" "fd_attempts r" "fd_recorded_at r" "fd_ready_at r"]
    by simp
  have "coordinator_inv (c\<lparr>co_ledger := lg, co_failures_applied := n\<rparr>) = coordinator_inv (c\<lparr>co_ledger := lg\<rparr>)" for n
    by (rule coordinator_inv_cong) simp_all
  with coordinator_inv_ledger_step [OF assms s] show ?thesis by (simp add: apply_failure_def e split: sum.split)
qed

lemma apply_manifest_inv:
  assumes inv: "coordinator_inv c" and t: "co_topology c = Some t"
    and m: "manifest_record_admitted (co_limits c) (co_limits c) m"
  shows "coordinator_inv (snd (apply_manifest m c))"
proof -
  obtain res lg where e: "retire_generation (pm_partition m) (pm_partition_generation m) (co_ledger c) = (res, lg)" by fastforce
  then have "ledger_step (co_ledger c) lg"
    using step_retire [of "co_ledger c" "pm_partition m" "pm_partition_generation m"] by simp
  from coordinator_inv_ledger_step [OF inv t this]
  have "coordinator_inv (c\<lparr>co_ledger := lg, co_manifests := AList.update (pm_partition m) m (co_manifests c)\<rparr>)"
    using m t by (auto simp: coordinator_inv_def topology_bound_def ledger_reached_def update_conv)
  moreover have "coordinator_inv (c\<lparr>co_manifests := AList.update (pm_partition m) m (co_manifests c), co_facts := f, co_ledger := lg\<rparr>) =
      coordinator_inv (c\<lparr>co_ledger := lg, co_manifests := AList.update (pm_partition m) m (co_manifests c)\<rparr>)" for f
    by (rule coordinator_inv_cong) simp_all
  ultimately show ?thesis using inv by (simp add: apply_manifest_def e split: sum.split)
qed

lemma register_participant_bound:
  assumes b: "topology_bound c t" and a: "participant_admitted (co_limits c) (co_limits c) r"
  shows "topology_bound c (snd (register_participant r t))"
proof -
  have s: "selection_canonical (pa_selection r)" "text_admitted (max_endpoint_bytes (co_limits c)) (co_limits c) (pa_endpoint r)"
    "selection_admitted (co_limits c) (co_limits c) (pa_selection r)"
    using a by (auto simp: participant_admitted_def selection_admitted_def intro: selection_durable_canonical)
  have step: "topology_step t (snd (register_participant r t))"
    using s(1) by (auto simp: register_participant_def intro: topology_step.intros)
  have "topology_admitted (co_limits c) (snd (register_participant r t))"
    using b s by (auto simp: register_participant_def topology_bound_def intro: admitted_register_producer admitted_register_consumer)
  then show ?thesis
    using b topology_step_inv [OF step] topology_step_frame [OF step] by (auto simp: topology_bound_def same_frame_def)
qed

lemma move_participant_bound:
  assumes b: "topology_bound c t"
  shows "topology_bound c (snd (move_participant r t))"
proof (cases "pa_state r = PS_Active")
  case False
  have step: "topology_step t (snd (move_participant r t))"
    using False by (auto simp: move_participant_def intro: topology_step.intros)
  have "topology_admitted (co_limits c) (snd (move_participant r t))"
    using b by (auto simp: move_participant_def topology_bound_def intro: admitted_set_producer_state admitted_set_consumer_state)
  then show ?thesis
    using b topology_step_inv [OF step] topology_step_frame [OF step] by (auto simp: topology_bound_def same_frame_def)
qed (use b in \<open>simp add: move_participant_def\<close>)

lemma coordinator_inv_topology:
  assumes "coordinator_inv c" "co_topology c = Some t" "topology_bound c t'"
  shows "coordinator_inv (c\<lparr>co_topology := Some t'\<rparr>)"
  using assms by (auto simp: coordinator_inv_def topology_bound_def ledger_reached_def)

lemma apply_participant_inv:
  assumes inv: "coordinator_inv c" and a: "participant_admitted (co_limits c) (co_limits c) r"
  shows "coordinator_inv (snd (apply_participant r c))"
proof (cases "co_topology c")
  case (Some t)
  obtain r1 t1 where t1: "register_participant r t = (r1, t1)" by fastforce
  obtain r2 t2 where t2: "move_participant r t1 = (r2, t2)" by fastforce
  have "topology_bound c t" using inv Some by (simp add: coordinator_inv_def)
  then have b: "topology_bound c t1" "topology_bound c t2"
    using register_participant_bound [OF _ a, of t] move_participant_bound [of c t1 r] t1 t2 by auto
  then have i: "coordinator_inv (c\<lparr>co_topology := Some t1\<rparr>)" "coordinator_inv (c\<lparr>co_topology := Some t2\<rparr>)"
    using coordinator_inv_topology [OF inv Some] by auto
  have "coordinator_inv (revalidate k p c') = coordinator_inv c'" for k p and c' :: "'a coordinator"
    by (rule coordinator_inv_part) simp
  then show ?thesis using i by (simp add: apply_participant_def Some t1 t2 Let_def split: sum.split option.split)
qed (use inv in \<open>simp add: apply_participant_def\<close>)

lemma enter_state_inv:
  assumes "coordinator_inv c" "co_topology c \<noteq> None" "sr_state r \<noteq> SS_Closed"
  shows "coordinator_inv (enter_state r c)"
proof -
  have "coordinator_inv (c\<lparr>co_state := sr_state r, co_reason := x, co_scheduler := s, co_grants := g\<rparr>)"
    "coordinator_inv (c\<lparr>co_state := sr_state r, co_reason := x\<rparr>)" for s g x
    using assms by (auto simp: coordinator_inv_def topology_bound_def ledger_reached_def split: option.splits)
  then show ?thesis by (simp add: enter_state_def Let_def)
qed

lemma adopt_open_inv:
  assumes "coordinator_inv c" "co_topology c = None" "validate_policy (sr_policy r) = ok_status" "sr_partition_count r \<noteq> 0"
    and op: "sr_state r = SS_Open"
  shows "coordinator_inv (enter_state r (adopt_open r c))"
proof -
  let ?c = "adopt_open r c"
  have lg: "co_ledger c = (mk_ledger (co_limits c))\<lparr>ld_attempted_bytes := ld_attempted_bytes (co_ledger c)\<rparr>"
    using assms by (intro ledger_attempted_eq) (simp add: coordinator_inv_def mk_ledger_def)
  have "co_ledger ?c = (ledger_bind (sr_shuffle r) (sr_generation r) (sr_partition_count r) (mk_ledger (co_limits c)))
      \<lparr>ld_attempted_bytes := ld_attempted_bytes (co_ledger c)\<rparr>"
    by (subst adopt_open_def, subst lg) (simp add: ledger_bind_def)
  then have "ledger_reached ?c"
    using r_into_rtranclp [where r = ledger_step, OF ledger_step_attempted] by (simp add: ledger_reached_def adopt_open_def)
  moreover have "topology_bound ?c (mk_topology (sr_shuffle r) (sr_generation r) (sr_partition_count r) (co_limits c))"
    using mk_topology_inv assms(4) by (simp add: topology_bound_def adopt_open_def topology_admitted_def mk_topology_def)
  ultimately have "coordinator_inv (?c\<lparr>co_state := SS_Open\<rparr>)"
    using assms by (auto simp: coordinator_inv_def topology_bound_def ledger_reached_def adopt_open_def)
  then have "coordinator_inv (enter_state r (?c\<lparr>co_state := SS_Open\<rparr>))"
    using op by (intro enter_state_inv) (simp_all add: adopt_open_def assms(2))
  then show ?thesis by (simp add: enter_state_def Let_def)
qed

lemma apply_record_bytes:
  "record_admitted (co_limits c) (co_limits c) r \<Longrightarrow> apply_record (record_bytes r) c = apply_durable r c"
  by (simp add: apply_record_def durable.read_back)

lemma tracked_cong:
  "tracked persist log sound c \<Longrightarrow> co_sink c' = co_sink c \<Longrightarrow> durable_part c' = durable_part c \<Longrightarrow> tracked persist log sound c'"
  using journalled_cong [of persist log sound c c'] coordinator_inv_part [of c' c] by (auto simp: tracked_def)

lemma durable_part_inside [simp]: "durable_part (c\<lparr>co_inside := b\<rparr>) = durable_part c"
  by (simp add: durable_part_eq_iff)

lemma tracked_inside [simp]: "tracked persist log sound (c\<lparr>co_inside := b\<rparr>) = tracked persist log sound c"
  using tracked_cong [of persist log sound c "c\<lparr>co_inside := b\<rparr>"] tracked_cong [of persist log sound "c\<lparr>co_inside := b\<rparr>" c] by auto

lemma tracked_guarded:
  assumes "tracked persist log sound c"
    and "\<And>d. tracked persist log sound d \<Longrightarrow> co_limits d = co_limits c \<Longrightarrow> tracked persist log sound (snd (body d))"
  shows "tracked persist log sound (snd (guarded body c))"
  using assms(1) assms(2) [of "c\<lparr>co_inside := True\<rparr>"] by (auto simp: guarded_def split: prod.split)

lemma coordinator_invD:
  assumes "coordinator_inv c"
  shows "limits_validate (co_limits c) = ok_status" "32 \<le> max_allocation_bytes (co_limits c)"
    "8 \<le> max_allocation_bytes (co_limits c)" "4 \<le> max_allocation_bytes (co_limits c)"
    and "co_topology c = Some t \<Longrightarrow> topology_bound c t"
    and "co_topology c = Some t \<Longrightarrow> ledger_reached c"
    and "co_topology c = Some t \<Longrightarrow> validate_policy (or_policy (co_request c)) = ok_status"
    and "map_of (co_manifests c) k = Some m \<Longrightarrow> manifest_record_admitted (co_limits c) (co_limits c) m"
    and "co_topology c = None \<longleftrightarrow> co_state c = SS_Closed"
  using assms alloc_32 [of "co_limits c"] by (auto simp: coordinator_inv_def)

lemma ensure_openD:
  assumes "ensure_open c = Inr u"
  obtains t where "co_state c = SS_Open" "co_topology c = Some t"
  using assms by (auto simp: ensure_open_def split: if_splits)

lemma ledger_reached_count: "ledger_reached c \<Longrightarrow> ld_partition_count (co_ledger c) = or_partition_count (co_request c)"
proof -
  have step: "ledger_step lg lg' \<Longrightarrow> ld_partition_count lg' = ld_partition_count lg" for lg lg'
    by (induction rule: ledger_step.induct)
      (auto simp: retire_generation_def note_attempt_bytes_def record_failure_frame split: option.splits)
  assume "ledger_reached c"
  then show ?thesis
    unfolding ledger_reached_def by (induction rule: rtranclp_induct) (auto simp: step ledger_bind_def)
qed

context durable_log
begin

lemma record_commit:
  assumes tr: "tracked persist log sound c" and adm: "record_admitted (co_limits c) (co_limits c) r"
    and ok: "fst (apply_durable r c) = ok_status" and keeps: "coordinator_inv (snd (apply_durable r c))"
    and run: "co_commit_record (record_bytes r) c = (res, c')"
  shows "tracked persist log sound c' \<and>
    (res = ok_status \<longrightarrow> durable_part c' = durable_part (snd (apply_durable r c))) \<and>
    (res \<noteq> ok_status \<longrightarrow> durable_part c' = durable_part c)"
proof -
  obtain st c1 where p: "co_persist (record_bytes r) c = (st, c1)" by fastforce
  have c1: "durable_part c1 = durable_part c" "co_limits c1 = co_limits c"
    using co_persist_part [OF p] co_persist_fields [OF p] by auto
  have a: "apply_record (record_bytes r) c1 = apply_durable r c1" using adm c1 by (simp add: apply_record_bytes)
  have b: "fst (apply_durable r c1) = ok_status" "durable_part (snd (apply_durable r c1)) = durable_part (snd (apply_durable r c))"
    using apply_durable_part [OF c1(1), of r] ok by auto
  have j: "journalled persist log sound c'"
    using commit_record_journalled [of c "record_bytes r"] tr run p a b by (auto simp: tracked_def)
  show ?thesis
  proof (cases st)
    case (Inl e)
    then have "c' = c1" "res = Inl e" using run p by (auto simp: co_commit_record_def)
    then show ?thesis using j c1 tr coordinator_inv_part [OF c1(1)] by (auto simp: tracked_def)
  next
    case (Inr u)
    then have "c' = snd (apply_durable r c1)" "res = ok_status"
      using run p a b(1) by (auto simp: co_commit_record_def dest: arg_cong [where f = fst] arg_cong [where f = snd])
    then show ?thesis using j b(2) keeps coordinator_inv_part [OF b(2)] by (auto simp: tracked_def)
  qed
qed

lemma tracked_record_commit:
  assumes "tracked persist log sound c" "record_admitted (co_limits c) (co_limits c) r"
    and "fst (apply_durable r c) = ok_status" "coordinator_inv (snd (apply_durable r c))"
  shows "tracked persist log sound (snd (co_commit_record (record_bytes r) c))"
  using record_commit [OF assms] by (metis prod.collapse)

lemma tracked_persist_epoch:
  assumes tr: "tracked persist log sound c" and run: "persist_epoch c = (res, c')"
  shows "tracked persist log sound c'"
    and "res = ok_status \<Longrightarrow> co_state c' = co_state c \<and> co_topology c' = co_topology c \<and> co_limits c' = co_limits c"
proof -
  let ?r = "DR_Epoch \<lparr>er_epoch = co_epoch c + 1, er_opened_at = co_clock c\<rparr>"
  have inv: "coordinator_inv c" using tr by (simp add: tracked_def)
  have *: "tracked persist log sound c' \<and>
    (res = ok_status \<longrightarrow> durable_part c' = durable_part (snd (apply_durable ?r c))) \<and>
    (res \<noteq> ok_status \<longrightarrow> durable_part c' = durable_part c)"
    by (rule record_commit [OF tr])
      (use coordinator_invD(3) [OF inv] inv run in \<open>auto simp: persist_epoch_def record_bytes_encode apply_epoch_inv\<close>)
  then show "tracked persist log sound c'" by simp
  show "res = ok_status \<Longrightarrow> co_state c' = co_state c \<and> co_topology c' = co_topology c \<and> co_limits c' = co_limits c"
    using * by (simp add: durable_part_eq_iff apply_epoch_def)
qed

lemma tracked_open:
  assumes "tracked persist log sound c"
  shows "tracked persist log sound (snd (open_shuffle q c))"
  unfolding open_shuffle_def
proof (rule tracked_guarded [OF assms])
  fix c :: "'s coordinator"
  assume tr: "tracked persist log sound c"
  show "tracked persist log sound (snd (case check_open_request q c of
       Inl e \<Rightarrow> (Inl e, c)
     | Inr _ \<Rightarrow>
       (case persist_epoch c of
          (Inl e, c1) \<Rightarrow> (Inl e, c1)
        | (Inr _, c1) \<Rightarrow>
            co_commit_record (encode_shuffle_state (state_record SS_Open Ok q (co_clock c1))) c1)))"
  proof (cases "check_open_request q c")
    case (Inr u)
    have q: "co_state c = SS_Closed" "or_partition_count q \<noteq> 0" "validate_policy (or_policy q) = ok_status"
      using Inr by (auto simp: check_open_request_def split: if_splits sum.splits)
    obtain res c1 where e: "persist_epoch c = (res, c1)" by fastforce
    note t1 = tracked_persist_epoch [OF tr e]
    have "tracked persist log sound (snd (co_commit_record (encode_shuffle_state (state_record SS_Open Ok q (co_clock c1))) c1))"
      if "res = ok_status"
    proof -
      let ?r = "state_record SS_Open Ok q (co_clock c1)"
      have inv: "coordinator_inv c1" using t1(1) by (simp add: tracked_def)
      have s: "co_state c1 = SS_Closed" "co_topology c1 = None" using t1(2) that q(1) coordinator_invD(9) [OF inv] by auto
      have "tracked persist log sound (snd (co_commit_record (record_bytes (DR_Shuffle ?r)) c1))"
        by (rule tracked_record_commit [OF t1(1)])
          (use q s coordinator_invD(3) [OF inv] adopt_open_inv [OF inv s(2), of ?r] in
            \<open>auto simp: state_record_def shuffle_state_admitted_def apply_shuffle_state_def\<close>)
      then show ?thesis by (simp add: record_bytes_encode)
    qed
    then show ?thesis using Inr e t1(1) by (cases res) auto
  qed (use tr in simp)
qed

end

section \<open>Lemmas: participants\<close>

lemma endpoint_admitted:
  assumes inv: "coordinator_inv c" and "length ep \<le> unat (max_endpoint_bytes (co_limits c))" "is_valid_utf8 ep"
  shows "text_admitted (max_endpoint_bytes (co_limits c)) (co_limits c) ep"
proof -
  let ?l = "co_limits c"
  have "max_endpoint_bytes ?l \<le> max_string_bytes ?l" "ucast (max_string_bytes ?l) \<le> max_allocation_bytes ?l"
    using coordinator_invD(1) [OF inv] by (auto simp: limits_validate_def not_less split: if_splits)
  then have "unat (max_endpoint_bytes ?l) \<le> unat (max_allocation_bytes ?l)"
    by (simp add: word_le_nat_alt)
  then show ?thesis using assms coordinator_invD(4) [OF inv] by (simp add: text_admitted_def)
qed

lemma selection_all_admitted: "coordinator_inv c \<Longrightarrow> selection_admitted (co_limits c) (co_limits c) selection_all"
  using coordinator_invD(3) [of c] by (simp add: selection_admitted_def selection_all_def selection_durable_def)

lemma producer_known_again:
  assumes inv: "topology_inv t" and ep: "length ep \<le> unat (max_endpoint_bytes (tp_limits t))"
    and r: "r \<in> set (tp_producers t)" "pd_endpoint r = ep" "pd_incarnation r \<noteq> 0" "pd_id r \<noteq> 0"
  shows "register_producer (pd_id r) (pd_incarnation r) ep t = (ok_status, t)"
proof -
  note asc = topology_invD(1) [OF inv]
  have "find_producer (tp_producers t) (pd_id r) = Some r" using r(1) by (simp add: find_producer_iff [OF asc])
  then have chk: "check_producer_registration t (pd_id r) (pd_incarnation r) ep = ok_status"
    using r ep by (simp add: check_producer_registration_def)
  then show ?thesis using found_at_nth [OF asc r(1)] r by (simp add: register_producer_def Let_def)
qed

lemma pattern_interned:
  assumes inv: "topology_inv t" and p: "unat p < length (tp_patterns t)"
  shows "intern_pattern (tp_pattern t p) t = (Inr p, t)" "check_selection t (tp_pattern t p) = ok_status"
    "tp_pattern_index t (canonical_key (tp_pattern t p)) = Some p"
proof -
  have k: "pt_key (tp_patterns t ! unat p) = canonical_key (tp_pattern t p)"
    using inv p by (simp add: topology_inv_defs list_all_length tp_pattern_def)
  show i: "tp_pattern_index t (canonical_key (tp_pattern t p)) = Some p"
    using inv p k by (simp add: topology_inv_defs)
  then show "intern_pattern (tp_pattern t p) t = (Inr p, t)" by (simp add: intern_pattern_def)
  have "selection_wf (tp_partition_count t) (tp_pattern t p)"
    using topology_invD(6) [OF inv p] p by (simp add: tp_pattern_def)
  then show "check_selection t (tp_pattern t p) = ok_status"
    by (auto simp: check_selection_def selection_wf_def list_ex_iff not_le not_less split: selection_kind.splits)
qed

lemma consumer_known_again:
  assumes inv: "topology_inv t" and ep: "length ep \<le> unat (max_endpoint_bytes (tp_limits t))" "tp_partition_count t \<noteq> 0"
    and r: "r \<in> set (tp_consumers t)" "cs_endpoint r = ep" "cs_incarnation r \<noteq> 0" "cs_id r \<noteq> 0"
  shows "register_consumer (cs_id r) (cs_incarnation r) ep (tp_pattern t (cs_pattern r)) t = (ok_status, t)"
proof -
  note asc = topology_invD(2) [OF inv]
  note p = pattern_interned [OF inv topology_invD(9) [OF inv r(1)]]
  have "find_consumer (tp_consumers t) (cs_id r) = Some r" using r(1) by (simp add: find_consumer_iff [OF asc])
  then have "check_consumer_registration t (cs_id r) (cs_incarnation r) ep (tp_pattern t (cs_pattern r)) = ok_status"
    using r ep p by (simp add: check_consumer_registration_def)
  then show ?thesis using found_at_nth [OF asc r(1)] r p by (simp add: register_consumer_def Let_def)
qed

lemma apply_participant_ok:
  "co_topology c = Some t \<Longrightarrow> register_participant r t = (ok_status, t1) \<Longrightarrow>
   fst (move_participant r t1) = ok_status \<Longrightarrow> fst (apply_participant r c) = ok_status"
  by (auto simp: apply_participant_def Let_def split: sum.splits prod.splits option.splits)

lemma register_outcome_state:
  "snd (register_outcome kind pid inc ep s t c) = snd (commit_participant kind pid inc PS_Active ep s c)"
  by (simp add: register_outcome_def split: sum.split prod.split)

context durable_log
begin

lemma tracked_commit_participant:
  assumes tr: "tracked persist log sound c" and t: "co_topology c = Some t"
    and a: "text_admitted (max_endpoint_bytes (co_limits c)) (co_limits c) ep" "selection_admitted (co_limits c) (co_limits c) s"
    and r: "r = \<lparr>pa_kind = kind, pa_id = pid, pa_incarnation = inc, pa_state = st, pa_endpoint = ep, pa_selection = s, pa_at = co_clock c\<rparr>"
    and reg: "register_participant r t = (ok_status, t1)" and move: "fst (move_participant r t1) = ok_status"
  shows "tracked persist log sound (snd (commit_participant kind pid inc st ep s c))"
proof -
  have inv: "coordinator_inv c" using tr by (simp add: tracked_def)
  have adm: "participant_admitted (co_limits c) (co_limits c) r" using a r by (simp add: participant_admitted_def)
  have "tracked persist log sound (snd (co_commit_record (record_bytes (DR_Participant r)) c))"
    using adm apply_participant_ok [OF t reg move] apply_participant_inv [OF inv adm]
    by (intro tracked_record_commit [OF tr]) simp_all
  then show ?thesis by (simp add: commit_participant_def record_bytes_encode r)
qed

lemma tracked_register_producer:
  assumes "tracked persist log sound c" "is_valid_utf8 ep"
  shows "tracked persist log sound (snd (co_register_producer pid inc ep c))"
  unfolding co_register_producer_def
proof (rule tracked_guarded [OF assms(1)], goal_cases)
  case (1 c)
  show ?case
  proof (cases "\<exists>u. ensure_open c = Inr u \<and> check_producer_registration (the (co_topology c)) pid inc ep = Inr u")
    case True
    then obtain t where t: "co_topology c = Some t" and chk: "check_producer_registration t pid inc ep = ok_status"
      by (auto elim: ensure_openD)
    have inv: "coordinator_inv c" using 1 by (simp add: tracked_def)
    have "tp_limits t = co_limits c" using coordinator_invD(5) [OF inv t] by (simp add: topology_bound_def)
    then have "length ep \<le> unat (max_endpoint_bytes (co_limits c))"
      using chk by (auto simp: check_producer_registration_def split: if_splits)
    then have adm: "text_admitted (max_endpoint_bytes (co_limits c)) (co_limits c) ep"
      using endpoint_admitted [OF inv] assms(2) by simp
    obtain t1 where "register_producer pid inc ep t = (ok_status, t1)"
      using chk register_producer_status [of pid inc ep t] by (cases "register_producer pid inc ep t") auto
    then have "tracked persist log sound (snd (commit_participant PK_Producer pid inc PS_Active ep selection_all c))"
      by (intro tracked_commit_participant [OF 1(1) t adm selection_all_admitted [OF inv] refl])
        (simp_all add: register_participant_def move_participant_def)
    then show ?thesis using True chk t by (auto simp: register_outcome_state)
  qed (use 1 in \<open>auto simp: Let_def split: sum.split\<close>)
qed

lemma tracked_register_consumer:
  assumes "tracked persist log sound c" "is_valid_utf8 ep" "selection_admitted (co_limits c) (co_limits c) s"
  shows "tracked persist log sound (snd (co_register_consumer cid inc ep s c))"
  unfolding co_register_consumer_def
proof (rule tracked_guarded [OF assms(1)], goal_cases)
  case (1 c')
  let ?c = c'
  show ?case
  proof (cases "\<exists>u. ensure_open c' = Inr u \<and> check_consumer_registration (the (co_topology c')) cid inc ep s = Inr u")
    case True
    then obtain t where t: "co_topology c' = Some t" and chk: "check_consumer_registration t cid inc ep s = ok_status"
      by (auto elim: ensure_openD)
    have inv: "coordinator_inv c'" using 1 by (simp add: tracked_def)
    have "tp_limits t = co_limits c'" using coordinator_invD(5) [OF inv t] by (simp add: topology_bound_def)
    then have "length ep \<le> unat (max_endpoint_bytes (co_limits c'))"
      using chk by (auto simp: check_consumer_registration_def split: if_splits)
    then have adm: "text_admitted (max_endpoint_bytes (co_limits c')) (co_limits c') ep"
      using endpoint_admitted [OF inv] assms(2) by simp
    obtain t1 where "register_consumer cid inc ep s t = (ok_status, t1)"
      using chk register_consumer_status [of cid inc ep s t] by (cases "register_consumer cid inc ep s t") auto
    then have "tracked persist log sound (snd (commit_participant PK_Consumer cid inc PS_Active ep s c'))"
      using 1 assms(3) by (intro tracked_commit_participant [OF _ t adm _ refl])
        (simp_all add: register_participant_def move_participant_def)
    then show ?thesis using True chk t by (auto simp: register_outcome_state)
  qed (use 1 in \<open>auto simp: Let_def split: sum.split\<close>)
qed

end

lemma known_participant:
  assumes b: "topology_bound c t" and chk: "check_participant_state t kind pid inc st = ok_status"
    and terms: "participant_terms kind pid t = (ep, s)" and inv: "coordinator_inv c"
    and r: "r = \<lparr>pa_kind = kind, pa_id = pid, pa_incarnation = inc, pa_state = st, pa_endpoint = ep, pa_selection = s, pa_at = at\<rparr>"
  shows "register_participant r t = (ok_status, t)"
    "text_admitted (max_endpoint_bytes (co_limits c)) (co_limits c) ep" "selection_admitted (co_limits c) (co_limits c) s"
proof -
  have ti: "topology_inv t" and l: "tp_limits t = co_limits c" and n: "tp_partition_count t \<noteq> 0"
    and adm: "topology_admitted (co_limits c) t"
    using b by (auto simp: topology_bound_def)
  have pid: "pid \<noteq> 0" using chk by (auto simp: check_participant_state_def)
  have "register_participant r t = (ok_status, t) \<and>
    text_admitted (max_endpoint_bytes (co_limits c)) (co_limits c) ep \<and> selection_admitted (co_limits c) (co_limits c) s"
  proof (cases "kind = PK_Producer")
    case True
    then obtain p where p: "p \<in> set (tp_producers t)" "pd_id p = pid" "pd_incarnation p = inc"
      using check_participant_producer [OF ti] chk by metis
    then have "find_producer (tp_producers t) pid = Some p"
      by (simp add: find_producer_iff [OF topology_invD(1) [OF ti]])
    then have e: "ep = pd_endpoint p" "s = selection_all"
      using terms True by (simp_all add: participant_terms_def tp_producer_def)
    have a: "text_admitted (max_endpoint_bytes (co_limits c)) (co_limits c) ep" "inc \<noteq> 0"
      using adm p(1) unfolding topology_admitted_def e(1) p(3) [symmetric] by blast+
    then have len: "length (pd_endpoint p) \<le> unat (max_endpoint_bytes (tp_limits t))"
      unfolding e(1) l text_admitted_def by blast
    have "register_producer pid inc ep t = (ok_status, t)"
      using producer_known_again [OF ti len p(1) refl] a(2) pid unfolding p(2,3) e(1) by blast
    then show ?thesis using a(1) e(2) True selection_all_admitted [OF inv] by (simp add: register_participant_def r)
  next
    case False
    then have k: "kind = PK_Consumer" by (cases kind) simp_all
    then obtain p where p: "p \<in> set (tp_consumers t)" "cs_id p = pid" "cs_incarnation p = inc"
      using check_participant_consumer [OF ti] chk by metis
    then have "find_consumer (tp_consumers t) pid = Some p"
      by (simp add: find_consumer_iff [OF topology_invD(2) [OF ti]])
    then have e: "ep = cs_endpoint p" "s = tp_pattern t (cs_pattern p)"
      using terms k by (simp_all add: participant_terms_def tp_consumer_def)
    have a: "text_admitted (max_endpoint_bytes (co_limits c)) (co_limits c) ep" "inc \<noteq> 0"
      using adm p(1) unfolding topology_admitted_def e(1) p(3) [symmetric] by blast+
    then have len: "length (cs_endpoint p) \<le> unat (max_endpoint_bytes (tp_limits t))"
      unfolding e(1) l text_admitted_def by blast
    have "register_consumer pid inc ep s t = (ok_status, t)"
      using consumer_known_again [OF ti len n p(1) refl] a(2) pid unfolding p(2,3) e by blast
    moreover have "selection_admitted (co_limits c) (co_limits c) s"
      using adm topology_invD(9) [OF ti p(1)] e by (simp add: topology_admitted_def tp_pattern_def)
    ultimately show ?thesis using a(1) k by (simp add: register_participant_def r)
  qed
  then show "register_participant r t = (ok_status, t)"
    "text_admitted (max_endpoint_bytes (co_limits c)) (co_limits c) ep" "selection_admitted (co_limits c) (co_limits c) s"
    by simp_all
qed

lemma move_known:
  "check_participant_state t kind pid inc st = ok_status \<Longrightarrow> pa_kind r = kind \<Longrightarrow> pa_id r = pid \<Longrightarrow>
   pa_incarnation r = inc \<Longrightarrow> pa_state r = st \<Longrightarrow> fst (move_participant r t) = ok_status"
  by (cases kind) (simp_all add: move_participant_def set_producer_state_status set_consumer_state_status)

lemma manifest_restamped:
  "manifest_record_admitted l L (m\<lparr>pm_topology_generation := g\<rparr>) = manifest_record_admitted l L m"
proof -
  have "length (manifest_bytes (m\<lparr>pm_topology_generation := g\<rparr>)) = length (manifest_bytes m)"
    by (simp add: manifest_bytes_def write_identity_def write_chunks_def put_u64_le)
  then show ?thesis
    by (simp add: manifest_record_admitted_def manifest_admitted_def validate_manifest_def bytes_admitted_def
        split: sum.split)
qed

lemma publication_applies:
  assumes inv: "coordinator_inv c" and t: "co_topology c = Some t"
    and chk: "check_publication m t c = ok_status" "check_manifest_order (co_manifests c) m' = ok_status"
    and m': "m' = m\<lparr>pm_topology_generation := g\<rparr>"
  shows "fst (apply_manifest m' c) = ok_status"
proof -
  have "pm_partition m < ucast (or_partition_count (co_request c))"
    using chk(1) by (auto simp: check_publication_def not_le split: sum.splits if_splits)
  then have "fst (retire_generation (pm_partition m) h (co_ledger c)) = ok_status" for h
    using ledger_reached_count [OF coordinator_invD(6) [OF inv t]] by (simp add: retire_generation_def)
  then show ?thesis using chk(2) t m' by (simp add: apply_manifest_def split: prod.split) (metis fst_conv)
qed

lemma evidence_admitted:
  assumes inv: "coordinator_inv c" and "check_evidence q c = ok_status" "ek_consumer (rq_edge q) = rq_consumer q"
  shows "request_admitted (co_limits c) (co_limits c) q"
proof -
  obtain m where m: "map_of (co_manifests c) (ek_partition (rq_edge q)) = Some m"
    and d: "rq_manifest_digest q = compute_manifest_digest m"
      "rq_observed_partition_digest q = compute_manifest_digest m \<or> rq_observed_partition_digest q = compute_partition_digest m"
      "list_all2 (\<lambda>d chunk. d = cd_digest chunk) (rq_observed_chunk_digests q) (pm_chunks m)"
    using assms(2) by (auto simp: check_evidence_def split: option.splits if_splits)
  have "manifest_admitted (co_limits c) m"
    using coordinator_invD(8) [OF inv m] by (simp add: manifest_record_admitted_def)
  moreover have "rq_observed_chunk_digests q = map cd_digest (pm_chunks m)"
    using d(3) by (induction rule: list_all2_induct) simp_all
  ultimately show ?thesis
    using assms(3) d(1,2) coordinator_invD(2) [OF inv]
    by (auto simp: request_admitted_def manifest_admitted_def chunk_admitted_def digest_wf_def
        compute_manifest_digest_def compute_partition_digest_def)
qed

lemma check_transferD:
  assumes "check_transfer q c = ok_status"
  obtains grant t where "co_grants c (rq_attempt q) = Some grant" "co_state c = SS_Open" "co_topology c = Some t"
    "check_attempt q grant c = ok_status" "check_endpoints q t = ok_status" "check_evidence q c = ok_status"
    "validate_commit (co_ledger c) q = ok_status" "ek_consumer (rq_edge q) = rq_consumer q"
proof -
  obtain grant where g: "co_grants c (rq_attempt q) = Some grant" "ensure_open c = ok_status" "check_attempt q grant c = ok_status"
      "check_endpoints q (the (co_topology c)) = ok_status" "check_evidence q c = ok_status" "validate_commit (co_ledger c) q = ok_status"
    using assms by (auto simp: check_transfer_def split: if_splits option.splits sum.splits)
  moreover obtain t where "co_state c = SS_Open" "co_topology c = Some t" using g(2) by (rule ensure_openD)
  moreover have "ek_consumer (rq_edge q) = rq_consumer q"
    using g(3) by (auto simp: check_attempt_def split: if_splits)
  ultimately show thesis using that by simp
qed

lemma guard_fields [simp]:
  "durable_part (note_grant g c) = durable_part c" "co_sink (note_grant g c) = co_sink c"
  by (simp_all add: note_grant_def durable_part_eq_iff note_attempt_bytes_def)

lemma fold_note_grant [simp]:
  "durable_part (fold note_grant gs c) = durable_part c" "co_sink (fold note_grant gs c) = co_sink c"
  by (induction gs arbitrary: c) simp_all

lemma release_attempt_fields [simp]:
  "durable_part (release_attempt a out code c) = durable_part c" "co_sink (release_attempt a out code c) = co_sink c"
  by (simp_all add: release_attempt_def durable_part_eq_iff)

lemma scheduler_part [simp]: "durable_part (c\<lparr>co_scheduler := s\<rparr>) = durable_part c"
  by (simp add: durable_part_eq_iff)

lemma store_reading_fields [simp]:
  "durable_part (store_reading intent c) = durable_part c" "co_sink (store_reading intent c) = co_sink c"
  by (simp_all add: store_reading_def Let_def durable_part_eq_iff)

lemma tracked_keeps:
  assumes "tracked persist log sound c" "keeps_journal body"
  shows "tracked persist log sound (snd (guarded body c))"
  by (rule tracked_guarded [OF assms(1)], rule tracked_cong) (use assms(2) in \<open>simp_all add: keeps_journal_def\<close>)

lemma tracked_next_wave: "tracked persist log sound c \<Longrightarrow> tracked persist log sound (snd (co_next_wave c))"
  unfolding co_next_wave_def
  by (rule tracked_keeps)
    (auto simp: keeps_journal_def ensure_scheduler_def split: sum.split option.split prod.split)

lemma tracked_update_congestion: "tracked persist log sound c \<Longrightarrow> tracked persist log sound (snd (update_congestion intent c))"
  unfolding update_congestion_def by (rule tracked_keeps) (auto simp: keeps_journal_def split: sum.split)

lemma tracked_advance_tick: "tracked persist log sound c \<Longrightarrow> tracked persist log sound (snd (advance_tick c))"
  unfolding advance_tick_def by (rule tracked_keeps) (auto simp: keeps_journal_def durable_part_eq_iff)

context durable_log
begin

lemma tracked_set_participant_state:
  assumes "tracked persist log sound c"
  shows "tracked persist log sound (snd (set_participant_state kind pid inc st c))"
  unfolding set_participant_state_def
proof (rule tracked_guarded [OF assms], goal_cases)
  case (1 c)
  show ?case
  proof (cases "\<exists>u. ensure_open c = Inr u \<and> check_participant_state (the (co_topology c)) kind pid inc st = Inr u")
    case True
    then obtain t where t: "co_topology c = Some t" and chk: "check_participant_state t kind pid inc st = ok_status"
      by (auto elim: ensure_openD)
    have inv: "coordinator_inv c" using 1 by (simp add: tracked_def)
    obtain ep s where e: "participant_terms kind pid t = (ep, s)" by fastforce
    note k = known_participant [OF coordinator_invD(5) [OF inv t] chk e inv refl]
    have "tracked persist log sound (snd (commit_participant kind pid inc st ep s c))"
      by (rule tracked_commit_participant [OF 1(1) t k(2,3) refl k(1)]) (rule move_known [OF chk]; simp)
    then show ?thesis using True chk t e by auto
  qed (use 1 in \<open>auto simp: Let_def split: sum.split\<close>)
qed

lemma tracked_publish_manifest:
  assumes "tracked persist log sound c" "manifest_record_admitted (co_limits c) (co_limits c) m"
  shows "tracked persist log sound (snd (publish_manifest m c))"
  unfolding publish_manifest_def
proof (rule tracked_guarded [OF assms(1)], goal_cases)
  case (1 d)
  let ?m = "m\<lparr>pm_topology_generation := tp_generation (the (co_topology d))\<rparr>"
  show ?case
  proof (cases "\<exists>u. ensure_open d = Inr u \<and> check_publication m (the (co_topology d)) d = Inr u \<and>
      check_manifest_order (co_manifests d) ?m = Inr u")
    case True
    then obtain t where t: "co_topology d = Some t" and chk: "check_publication m t d = ok_status"
        "check_manifest_order (co_manifests d) ?m = ok_status"
      by (auto elim: ensure_openD)
    have inv: "coordinator_inv d" using 1 by (simp add: tracked_def)
    have adm: "manifest_record_admitted (co_limits d) (co_limits d) ?m" using assms(2) 1 by (simp add: manifest_restamped)
    have "tracked persist log sound (snd (co_commit_record (record_bytes (DR_Manifest ?m)) d))"
      using adm publication_applies [OF inv t chk refl] apply_manifest_inv [OF inv t adm]
      by (intro tracked_record_commit [OF 1(1)]) simp_all
    moreover have "encode_manifest_record ?m (co_limits d) = Inr (record_bytes (DR_Manifest ?m))"
      using adm by (simp add: record_bytes_encode manifest_record_admitted_def)
    ultimately show ?thesis using True chk t by (auto simp: Let_def split: prod.split sum.split)
  qed (use 1 in \<open>auto simp: Let_def split: sum.split\<close>)
qed

lemma tracked_state_record:
  assumes tr: "tracked persist log sound c" and t: "co_topology c = Some t" and st: "st \<noteq> SS_Closed" "st \<noteq> SS_Open"
  shows "tracked persist log sound (snd (co_commit_record (encode_shuffle_state (state_record st reason (co_request c) at)) c))"
proof -
  have inv: "coordinator_inv c" using tr by (simp add: tracked_def)
  let ?r = "state_record st reason (co_request c) at"
  have "tracked persist log sound (snd (co_commit_record (record_bytes (DR_Shuffle ?r)) c))"
    using st coordinator_invD(3) [OF inv] coordinator_invD(7) [OF inv t] enter_state_inv [OF inv, of ?r] t
    by (intro tracked_record_commit [OF tr]) (simp_all add: state_record_def shuffle_state_admitted_def apply_shuffle_state_def)
  then show ?thesis by (simp add: record_bytes_encode)
qed

lemma tracked_note_completion:
  assumes "tracked persist log sound c"
  shows "tracked persist log sound (note_completion c)"
  using assms tracked_state_record [OF assms] by (simp add: note_completion_def Let_def split: option.split sum.split)

lemma tracked_cancel_shuffle:
  assumes "tracked persist log sound c"
  shows "tracked persist log sound (snd (cancel_shuffle reason c))"
  unfolding cancel_shuffle_def
proof (rule tracked_guarded [OF assms], goal_cases)
  case (1 d)
  have "co_topology d \<noteq> None" if "co_state d = SS_Open"
    using 1(1) that coordinator_invD(9) [of d] by (auto simp: tracked_def)
  then show ?case using 1 tracked_state_record [OF 1(1)] by auto
qed

lemma tracked_applied:
  assumes tr: "tracked persist log sound c" and adm: "record_admitted (co_limits c) (co_limits c) r"
    and p: "co_persist (record_bytes r) c = (Inr u, c1)"
    and ok: "fst (apply_durable r c1) = ok_status" and keeps: "coordinator_inv (snd (apply_durable r c1))"
    and d: "durable_part d = durable_part (snd (apply_durable r c1))" "co_sink d = co_sink c1"
  shows "tracked persist log sound d"
proof -
  have "co_limits c1 = co_limits c" using co_persist_fields [OF p] by simp
  then have a: "apply_record (record_bytes r) c1 = (ok_status, snd (apply_durable r c1))"
    using adm ok by (simp add: apply_record_bytes prod_eq_iff)
  show ?thesis
    using persist_applied [OF _ p a d] tr keeps coordinator_inv_part [OF d(1)] by (simp add: tracked_def)
qed

lemma tracked_commit_transfer:
  assumes "tracked persist log sound c"
  shows "tracked persist log sound (snd (commit_transfer q c))"
  unfolding commit_transfer_def
proof (rule tracked_guarded [OF assms], goal_cases)
  case (1 d)
  show ?case
  proof (cases "check_transfer q d")
    case (Inr u)
    then obtain t where t: "co_topology d = Some t" "check_evidence q d = ok_status" "validate_commit (co_ledger d) q = ok_status"
      "ek_consumer (rq_edge q) = rq_consumer q"
      by (auto elim: check_transferD)
    let ?r = "\<lparr>cm_request = q, cm_at = co_clock d\<rparr>"
    obtain st c1 where p: "co_persist (encode_commit ?r) d = (st, c1)" by fastforce
    note f = co_persist_fields [OF p]
    have inv: "coordinator_inv d" "coordinator_inv c1"
      using 1(1) coordinator_inv_part [OF co_persist_part [OF p]] by (simp_all add: tracked_def)
    obtain receipt lg where lc: "ledger_commit q (co_clock d) (co_ledger d) = (Inr receipt, lg)"
      using t(3) commit_status [of q "co_clock d" "co_ledger d"] by (metis prod.collapse)
    let ?d = "release_attempt (rq_attempt q) EO_Completed Ok
                    (c1\<lparr>co_ledger := lg, co_commits_applied := co_commits_applied c1 + 1\<rparr>)"
    have "tracked persist log sound ?d" if "st = Inr v" for v
      by (rule tracked_applied [OF 1(1) _ p [folded record_bytes_encode, unfolded that]])
        (use evidence_admitted [OF inv(1) t(2,4)] apply_commit_inv [OF inv(2), of t ?r] t f lc in
          \<open>simp_all add: apply_commit_def\<close>)
    from tracked_note_completion [OF this] have "tracked persist log sound (snd (accept_commit q c1))" if "st = Inr v" for v
      using that f lc by (simp add: accept_commit_def Let_def)
    moreover have "tracked persist log sound c1" if "st = Inl e" for e
      using persist_refused [of d _ e c1] p 1(1) that inv by (simp add: tracked_def)
    ultimately show ?thesis using Inr p by (simp split: sum.split)
  qed (use 1 in simp)
qed

lemma tracked_report_failure:
  assumes "tracked persist log sound c" "code_value code \<le> code_value TooManyTrackedEdges"
  shows "tracked persist log sound (snd (report_failure attempt code c))"
  unfolding report_failure_def
proof (rule tracked_guarded [OF assms(1)], goal_cases)
  case (1 d)
  show ?case
  proof (cases "check_failure_report attempt code d")
    case (Inr grant)
    let ?r = "failure_entry code grant d"
    have o: "ensure_open d = ok_status" and v: "validate_failure (co_ledger d) (fd_key ?r) code = ok_status"
      using Inr by (auto simp: check_failure_report_def split: if_splits option.splits sum.splits)
    obtain t where t: "co_topology d = Some t" using o by (rule ensure_openD)
    have code: "code \<noteq> Ok" "fd_code ?r = code" using v by (auto simp: validate_failure_def failure_entry_def split: if_splits)
    obtain st c1 where p: "co_persist (encode_failure ?r) d = (st, c1)" by fastforce
    note f = co_persist_fields [OF p]
    have inv: "coordinator_inv d" "coordinator_inv c1"
      using 1(1) coordinator_inv_part [OF co_persist_part [OF p]] by (simp_all add: tracked_def)
    have "fst (apply_failure ?r c1) = ok_status"
      using v code f by (auto simp: apply_failure_def record_failure_def validate_failure_def split: option.splits if_splits)
    then obtain c2 where c2: "apply_failure ?r c1 = (ok_status, c2)" by (metis prod.collapse)
    have sink: "co_sink c2 = co_sink c1" using apply_durable_frame [of "DR_Failure ?r" c1] c2 by simp
    let ?d = "release_attempt attempt (failure_edge_outcome code grant d) code c2"
    have "tracked persist log sound ?d" if "st = Inr w" for w
      by (rule tracked_applied [OF 1(1) _ p [folded record_bytes_encode, unfolded that]])
        (use apply_failure_inv [OF inv(2), of t ?r] coordinator_invD(3) [OF inv(1)] assms(2) code t f c2 sink in
          \<open>simp_all add: failure_admitted_def\<close>)
    from tracked_note_completion [OF this] have "tracked persist log sound (note_completion ?d)" if "st = Inr w" for w
      using that by simp
    moreover have "tracked persist log sound c1" if "st = Inl e" for e
      using persist_refused [of d _ e c1] p 1(1) that inv by (simp add: tracked_def)
    ultimately show ?thesis using Inr p c2 by (simp add: Let_def split: sum.split)
  qed (use 1 in simp)
qed

end

end
