(* ===== verification/Fabric_Recovery.thy ===== *)
theory Fabric_Recovery
  imports Fabric_Replay
begin

text \<open>
  Runs of the coordinator and its recovery. A run is a list of public calls (\<open>run_call\<close>); inside
  \<open>durable_log\<close> a run keeps the journal in step with the coordinator, and a fresh coordinator that
  recovers from that journal resumes the run (\<open>resumes\<close>): same shuffle, accounting and manifests,
  no grant, no participant with authority, a later epoch.
\<close>

section \<open>Specification\<close>

datatype coordinator_call =
    Call_Open open_request
  | Call_Register_Producer producer_id incarnation_id bytes
  | Call_Register_Consumer consumer_id incarnation_id bytes partition_selection
  | Call_Participant_State participant_kind u64 incarnation_id participant_state
  | Call_Publish partition_manifest
  | Call_Next_Wave
  | Call_Commit commit_request
  | Call_Failure transfer_attempt_id error_code
  | Call_Congestion congestion_intent
  | Call_Cancel error_code
  | Call_Tick

fun run_call :: "coordinator_call \<Rightarrow> 's coordinator \<Rightarrow> 's coordinator" where
  "run_call (Call_Open request) c = snd (open_shuffle request c)"
| "run_call (Call_Register_Producer pid incarnation endpoint) c = snd (co_register_producer pid incarnation endpoint c)"
| "run_call (Call_Register_Consumer cid incarnation endpoint selection) c =
     snd (co_register_consumer cid incarnation endpoint selection c)"
| "run_call (Call_Participant_State kind pid incarnation state) c =
     snd (set_participant_state kind pid incarnation state c)"
| "run_call (Call_Publish manifest) c = snd (publish_manifest manifest c)"
| "run_call Call_Next_Wave c = snd (co_next_wave c)"
| "run_call (Call_Commit request) c = snd (commit_transfer request c)"
| "run_call (Call_Failure attempt code) c = snd (report_failure attempt code c)"
| "run_call (Call_Congestion intent) c = snd (update_congestion intent c)"
| "run_call (Call_Cancel reason) c = snd (cancel_shuffle reason c)"
| "run_call Call_Tick c = snd (advance_tick c)"

text \<open>
  What the arguments of a call must be for its durable record to be readable again: a UTF-8
  endpoint, a canonical selection, a manifest within the codec limits, an assigned error code.
\<close>

fun call_admitted :: "limits \<Rightarrow> coordinator_call \<Rightarrow> bool" where
  "call_admitted l (Call_Register_Producer pid incarnation endpoint) \<longleftrightarrow> is_valid_utf8 endpoint"
| "call_admitted l (Call_Register_Consumer cid incarnation endpoint selection) \<longleftrightarrow>
     is_valid_utf8 endpoint \<and> selection_admitted l l selection"
| "call_admitted l (Call_Publish manifest) \<longleftrightarrow> manifest_record_admitted l l manifest"
| "call_admitted l (Call_Failure attempt code) \<longleftrightarrow> code_value code \<le> code_value TooManyTrackedEdges"
| "call_admitted l _ \<longleftrightarrow> True"

text \<open>The coordinator of a limits value over a sink with the given behaviour.\<close>

definition fresh_coordinator :: "limits \<Rightarrow> (bytes \<Rightarrow> 's \<Rightarrow> status \<times> 's) \<Rightarrow> bool \<Rightarrow> 's \<Rightarrow> 's coordinator" where
  "fresh_coordinator l persist durable s =
     mk_coordinator l (Some \<lparr>sk_persist = persist, sk_claims_durability = durable, sk_state = s\<rparr>)"

text \<open>What the restart makes of a participant: authority is suspended, everything else kept.\<close>

definition suspended_producer :: "producer_record \<Rightarrow> producer_record" where
  "suspended_producer r = (if holds_authority (pd_state r) then r\<lparr>pd_state := PS_Suspect\<rparr> else r)"

definition suspended_consumer :: "consumer_record \<Rightarrow> consumer_record" where
  "suspended_consumer r = (if holds_authority (cs_state r) then r\<lparr>cs_state := PS_Suspect\<rparr> else r)"

definition suspends :: "topology \<Rightarrow> topology \<Rightarrow> bool" where
  "suspends t t' \<longleftrightarrow> same_frame t t' \<and> tp_producers t' = map suspended_producer (tp_producers t) \<and>
     tp_consumers t' = map suspended_consumer (tp_consumers t) \<and> tp_patterns t' = tp_patterns t"

text \<open>
  What a restart keeps of a coordinator and what it does not: the same shuffle, accounting and
  manifests; no grant and no participant with authority; a later epoch.
\<close>

definition resumes :: "'s coordinator \<Rightarrow> 's coordinator \<Rightarrow> bool" where
  "resumes c c' \<longleftrightarrow>
     co_state c' = co_state c \<and> co_reason c' = co_reason c \<and> co_request c' = co_request c \<and>
     co_manifests c' = co_manifests c \<and> co_facts c' = co_facts c \<and>
     (co_ledger c')\<lparr>ld_attempted_bytes := 0\<rparr> = (co_ledger c)\<lparr>ld_attempted_bytes := 0\<rparr> \<and>
     co_grants c' = Map.empty \<and> co_epoch c' = max (co_epoch c) (co_epoch c + 1) \<and>
     (case co_topology c of
        None \<Rightarrow> co_topology c' = None
      | Some t \<Rightarrow> \<exists>t'. co_topology c' = Some t' \<and> suspends t t' \<and> topology_inv t')"

text \<open>What the coordinator must hold for a completion to be accepted, stated against its own tables.\<close>

definition commit_backed :: "commit_request \<Rightarrow> 's coordinator \<Rightarrow> bool" where
  "commit_backed q c \<longleftrightarrow> co_state c = SS_Open \<and>
     (\<exists>grant. co_grants c (rq_attempt q) = Some grant \<and> rq_edge q = grant_key grant \<and>
        rq_producer q = dg_producer grant \<and> rq_manifest_digest q = dg_manifest_digest grant) \<and>
     (\<exists>t producer consumer. co_topology c = Some t \<and> owner_of t (ek_partition (rq_edge q)) = Inr (rq_producer q) \<and>
        tp_producer t (rq_producer q) = Inr producer \<and> pd_incarnation producer = rq_producer_incarnation q \<and>
        holds_authority (pd_state producer) \<and> tp_consumer t (ek_consumer (rq_edge q)) = Inr consumer \<and>
        cs_incarnation consumer = rq_consumer_incarnation q \<and> holds_authority (cs_state consumer)) \<and>
     (\<exists>manifest. map_of (co_manifests c) (ek_partition (rq_edge q)) = Some manifest \<and>
        pm_partition_generation manifest = ek_partition_generation (rq_edge q) \<and>
        rq_manifest_digest q = compute_manifest_digest manifest \<and> rq_bytes q = pm_total_bytes manifest \<and>
        rq_observed_chunk_digests q = map cd_digest (pm_chunks manifest) \<and> rq_integrity_verified q)"

definition cancelled_coordinator :: "unit coordinator" where
  "cancelled_coordinator = (mk_coordinator default_limits (Some volatile_sink))\<lparr>co_state := SS_Cancelled, co_reason := Cancelled\<rparr>"

section \<open>Lemmas: runs\<close>

lemma mk_coordinator_fields [simp]:
  "co_limits (mk_coordinator l sink) = l" "co_sink (mk_coordinator l sink) = sink"
  "co_state (mk_coordinator l sink) = SS_Closed" "co_inside (mk_coordinator l sink) = False"
  by (simp_all add: mk_coordinator_def)

lemma co_persist_limits: "co_limits (snd (co_persist data c)) = co_limits c"
  using co_persist_fields(1) [of data c] by (cases "co_persist data c") auto

lemma co_commit_record_limits [simp]: "co_limits (snd (co_commit_record data c)) = co_limits c"
proof (cases "co_persist data c")
  case (Pair r c1)
  moreover have "co_limits c1 = co_limits c" using co_persist_fields(1) [OF Pair] .
  moreover have "co_limits (snd (apply_record data c1)) = co_limits c1"
    using apply_record_frame(1) [of data c1] by (cases "apply_record data c1") auto
  ultimately show ?thesis by (simp add: co_commit_record_def split: sum.split)
qed

lemma limits_eq:
  "co_commit_record data c = (r, c1) \<Longrightarrow> co_limits c1 = co_limits c"
  "co_persist data c = (r, c1) \<Longrightarrow> co_limits c1 = co_limits c"
  "persist_epoch c = (r, c1) \<Longrightarrow> co_limits c1 = co_limits c"
  using co_commit_record_limits [of data c] co_persist_limits [of data c]
    co_commit_record_limits [of "encode_epoch \<lparr>er_epoch = co_epoch c + 1, er_opened_at = co_clock c\<rparr>" c]
  by (auto simp: persist_epoch_def)

lemma guarded_limits:
  assumes "\<And>d. co_limits (snd (body d)) = co_limits d"
  shows "co_limits (snd (guarded body c)) = co_limits c"
  using assms [of "c\<lparr>co_inside := True\<rparr>"] by (cases "body (c\<lparr>co_inside := True\<rparr>)") (auto simp: guarded_def)

lemma keeps_limits: "keeps_journal body \<Longrightarrow> co_limits (snd (body c)) = co_limits c"
  by (simp add: keeps_journal_def durable_part_eq_iff)

lemma note_completion_limits [simp]: "co_limits (note_completion c) = co_limits c"
  by (simp add: note_completion_def Let_def split: option.split sum.split)

lemma part_limits: "durable_part c = durable_part d \<Longrightarrow> co_limits c = co_limits d"
  by (simp add: durable_part_eq_iff)

lemma release_limits [simp]: "co_limits (release_attempt a out code c) = co_limits c"
  by (simp add: release_attempt_def)

lemma run_call_limits: "co_limits (run_call call c) = co_limits c"
proof (cases call)
  case (Call_Open x)
  then show ?thesis by (auto simp: open_shuffle_def intro!: guarded_limits split: sum.split prod.split dest: limits_eq)
next
  case (Call_Register_Producer x1 x2 x3)
  then show ?thesis
    by (auto simp: co_register_producer_def register_outcome_state commit_participant_def Let_def intro!: guarded_limits split: sum.split)
next
  case (Call_Register_Consumer x1 x2 x3 x4)
  then show ?thesis
    by (auto simp: co_register_consumer_def register_outcome_state commit_participant_def Let_def intro!: guarded_limits split: sum.split)
next
  case (Call_Participant_State x1 x2 x3 x4)
  then show ?thesis
    by (auto simp: set_participant_state_def commit_participant_def Let_def intro!: guarded_limits split: sum.split prod.split)
next
  case (Call_Publish x)
  then show ?thesis
    by (auto simp: publish_manifest_def Let_def intro!: guarded_limits split: sum.split prod.split dest: limits_eq)
next
  case Call_Next_Wave
  then show ?thesis
    by (auto simp: co_next_wave_def ensure_scheduler_def part_limits [OF fold_note_grant(1)] intro!: guarded_limits
        split: sum.split prod.split option.split)
next
  case (Call_Commit x)
  then show ?thesis
    by (auto simp: commit_transfer_def accept_commit_def Let_def intro!: guarded_limits split: sum.split prod.split dest: limits_eq)
next
  case (Call_Failure a code)
  have "co_limits (snd (apply_failure r d)) = co_limits d" for r and d :: "'a coordinator"
    using apply_durable_frame [of "DR_Failure r" d] by simp
  then have "apply_failure r d = (x, d') \<Longrightarrow> co_limits d' = co_limits d" for r x and d d' :: "'a coordinator" by (metis snd_conv)
  then show ?thesis using Call_Failure
    by (auto simp: report_failure_def Let_def intro!: guarded_limits split: sum.split prod.split dest: limits_eq)
next
  case (Call_Congestion x)
  then show ?thesis
    by (auto simp: update_congestion_def store_reading_def Let_def intro!: guarded_limits split: sum.split)
next
  case (Call_Cancel x)
  then show ?thesis by (auto simp: cancel_shuffle_def intro!: guarded_limits)
next
  case Call_Tick
  then show ?thesis by (auto simp: advance_tick_def intro!: guarded_limits)
qed

context durable_log
begin

lemma tracked_call:
  assumes "tracked persist log sound c" "call_admitted (co_limits c) call"
  shows "tracked persist log sound (run_call call c)"
  using assms
  by (cases call) (simp_all add: tracked_open tracked_register_producer tracked_register_consumer
      tracked_set_participant_state tracked_publish_manifest tracked_next_wave tracked_commit_transfer
      tracked_report_failure tracked_update_congestion tracked_cancel_shuffle tracked_advance_tick)

lemma tracked_run:
  assumes "tracked persist log sound c" "list_all (call_admitted (co_limits c)) calls"
  shows "tracked persist log sound (fold run_call calls c)"
  using assms by (induction calls arbitrary: c) (simp_all add: tracked_call run_call_limits)

lemma tracked_fresh:
  assumes "sound s" "log s = []" "limits_validate l = ok_status" "32 \<le> max_allocation_bytes l"
  shows "tracked persist log sound (fresh_coordinator l persist durable s)"
proof -
  have "durable_part (mk_coordinator l None) = durable_part (fresh_coordinator l persist durable s)"
    by (simp add: durable_part_eq_iff fresh_coordinator_def mk_coordinator_def)
  then show ?thesis
    using assms mk_coordinator_inv [OF assms(3,4)]
    by (simp add: tracked_def journalled_def fresh_coordinator_def)
qed

end

section \<open>Lemmas: demotion\<close>

lemma lower_bound_append:
  "key_ascending key (xs @ y # ys) \<Longrightarrow> lower_bound key (xs @ y # ys) (key y) = length xs"
  by (induction xs) auto

lemma set_producer_state_at:
  assumes inv: "topology_inv t" and ps: "tp_producers t = xs @ r # ys" and r: "pd_id r \<noteq> 0" "pd_state r \<noteq> st"
  shows "set_producer_state (pd_id r) (pd_incarnation r) st t =
    (ok_status, bump_generation (rebuild_active_producers (t\<lparr>tp_producers := xs @ r\<lparr>pd_state := st\<rparr> # ys\<rparr>)))"
proof -
  note asc = topology_invD(1) [OF inv]
  have "find_producer (tp_producers t) (pd_id r) = Some r" by (subst find_producer_iff [OF asc]) (simp add: ps)
  then have "check_participant_state t PK_Producer (pd_id r) (pd_incarnation r) st = ok_status"
    using r by (simp add: check_participant_state_def)
  moreover have "lower_bound pd_id (xs @ r # ys) (pd_id r) = length xs"
    using lower_bound_append [of pd_id xs r ys] asc ps by simp
  ultimately show ?thesis using r ps by (simp add: set_producer_state_def Let_def)
qed

lemma set_consumer_state_at:
  assumes inv: "topology_inv t" and ps: "tp_consumers t = xs @ r # ys" and r: "cs_id r \<noteq> 0" "cs_state r \<noteq> st"
    and counts: "counts_toward_requirement (cs_state r)" "counts_toward_requirement st"
  shows "set_consumer_state (cs_id r) (cs_incarnation r) st t =
    (ok_status, bump_generation (t\<lparr>tp_consumers := xs @ r\<lparr>cs_state := st\<rparr> # ys\<rparr>))"
proof -
  note asc = topology_invD(2) [OF inv]
  have "find_consumer (tp_consumers t) (cs_id r) = Some r" by (subst find_consumer_iff [OF asc]) (simp add: ps)
  then have "check_participant_state t PK_Consumer (cs_id r) (cs_incarnation r) st = ok_status"
    using r by (simp add: check_participant_state_def)
  moreover have "lower_bound cs_id (xs @ r # ys) (cs_id r) = length xs"
    using lower_bound_append [of cs_id xs r ys] asc ps by simp
  ultimately show ?thesis using r ps counts by (simp add: set_consumer_state_def Let_def)
qed

lemma demote_producers_result:
  assumes "topology_inv t" "tp_producers t = xs @ ys" "\<forall>r \<in> set ys. pd_id r \<noteq> 0"
  shows "\<exists>t' pending' n'. demote_producers ys (t, pending, n) = Inr (t', pending', n') \<and> topology_inv t' \<and> same_frame t t' \<and>
    tp_producers t' = xs @ map suspended_producer ys \<and> tp_consumers t' = tp_consumers t \<and> tp_patterns t' = tp_patterns t"
  using assms
proof (induction ys arbitrary: t xs pending n)
  case (Cons r ys)
  show ?case
  proof (cases "holds_authority (pd_state r)")
    case True
    let ?t = "bump_generation (rebuild_active_producers (t\<lparr>tp_producers := xs @ r\<lparr>pd_state := PS_Suspect\<rparr> # ys\<rparr>))"
    have s: "set_producer_state (pd_id r) (pd_incarnation r) PS_Suspect t = (ok_status, ?t)"
      using True Cons.prems by (intro set_producer_state_at) (auto simp: holds_authority_def)
    have inv: "topology_inv ?t" using set_producer_state_inv [OF Cons.prems(1), of "pd_id r" "pd_incarnation r" PS_Suspect] s by simp
    have ps: "tp_producers ?t = (xs @ [r\<lparr>pd_state := PS_Suspect\<rparr>]) @ ys"
      by (simp add: bump_generation_def rebuild_active_producers_def)
    have f: "same_frame t ?t" "tp_consumers ?t = tp_consumers t" "tp_patterns ?t = tp_patterns t"
      by (simp_all add: same_frame_def bump_generation_def rebuild_active_producers_def)
    show ?thesis
      using Cons.IH [OF inv ps, of "insert (pd_id r) pending" "n + 1"] Cons.prems(3) True s f
      by (auto simp: suspended_producer_def same_frame_def)
  next
    case False
    then show ?thesis using Cons.IH [OF Cons.prems(1), of "xs @ [r]" pending n] Cons.prems
      by (auto simp: suspended_producer_def)
  qed
qed (auto simp: same_frame_def)

lemma demote_consumers_result:
  assumes "topology_inv t" "tp_consumers t = xs @ ys" "\<forall>r \<in> set ys. cs_id r \<noteq> 0"
  shows "\<exists>t' pending' n'. demote_consumers ys (t, pending, n) = Inr (t', pending', n') \<and> topology_inv t' \<and> same_frame t t' \<and>
    tp_consumers t' = xs @ map suspended_consumer ys \<and> tp_producers t' = tp_producers t \<and> tp_patterns t' = tp_patterns t"
  using assms
proof (induction ys arbitrary: t xs pending n)
  case (Cons r ys)
  show ?case
  proof (cases "holds_authority (cs_state r)")
    case True
    let ?t = "bump_generation (t\<lparr>tp_consumers := xs @ r\<lparr>cs_state := PS_Suspect\<rparr> # ys\<rparr>)"
    have s: "set_consumer_state (cs_id r) (cs_incarnation r) PS_Suspect t = (ok_status, ?t)"
      using True Cons.prems by (intro set_consumer_state_at) (auto simp: holds_authority_def counts_toward_requirement_def)
    have inv: "topology_inv ?t" using set_consumer_state_inv [OF Cons.prems(1), of "cs_id r" "cs_incarnation r" PS_Suspect] s by simp
    have ps: "tp_consumers ?t = (xs @ [r\<lparr>cs_state := PS_Suspect\<rparr>]) @ ys"
      by (simp add: bump_generation_def)
    have f: "same_frame t ?t" "tp_producers ?t = tp_producers t" "tp_patterns ?t = tp_patterns t"
      by (simp_all add: same_frame_def bump_generation_def)
    show ?thesis
      using Cons.IH [OF inv ps, of "insert (cs_id r) pending" "n + 1"] Cons.prems(3) True s f
      by (auto simp: suspended_consumer_def same_frame_def)
  next
    case False
    then show ?thesis using Cons.IH [OF Cons.prems(1), of "xs @ [r]" pending n] Cons.prems
      by (auto simp: suspended_consumer_def)
  qed
qed (auto simp: same_frame_def)

lemma demote_participants_result:
  assumes "coordinator_inv c" "co_topology c = Some t"
  shows "\<exists>t' up uc n. demote_participants c = Inr (c\<lparr>co_topology := Some t', co_unrevalidated_producers := up,
      co_unrevalidated_consumers := uc, co_pending_revalidation := n\<rparr>) \<and> suspends t t' \<and> topology_inv t'"
proof -
  have t: "topology_inv t" "\<forall>r \<in> set (tp_producers t). pd_id r \<noteq> 0" "\<forall>r \<in> set (tp_consumers t). cs_id r \<noteq> 0"
    using coordinator_invD(5) [OF assms] by (auto simp: topology_bound_def topology_admitted_def)
  obtain t1 up n where p: "demote_producers (tp_producers t) (t, co_unrevalidated_producers c, 0) = Inr (t1, up, n)"
      "topology_inv t1" "same_frame t t1" "tp_producers t1 = map suspended_producer (tp_producers t)"
      "tp_consumers t1 = tp_consumers t" "tp_patterns t1 = tp_patterns t"
    using demote_producers_result [of t "[]" "tp_producers t" "co_unrevalidated_producers c" 0] t by auto
  obtain t2 uc m where q: "demote_consumers (tp_consumers t1) (t1, co_unrevalidated_consumers c, n) = Inr (t2, uc, m)"
      "topology_inv t2" "same_frame t1 t2" "tp_producers t2 = tp_producers t1"
      "tp_consumers t2 = map suspended_consumer (tp_consumers t1)" "tp_patterns t2 = tp_patterns t1"
    using demote_consumers_result [of t1 "[]" "tp_consumers t1" "co_unrevalidated_consumers c" n] t p by auto
  show ?thesis
    using p q assms(2) by (auto simp: demote_participants_def suspends_def same_frame_def)
qed

lemma suspended_consumer_fields [simp]:
  "cs_id (suspended_consumer r) = cs_id r" "cs_pattern (suspended_consumer r) = cs_pattern r"
  "counts_toward_requirement (cs_state (suspended_consumer r)) = counts_toward_requirement (cs_state r)"
  by (simp_all add: suspended_consumer_def counts_toward_requirement_def holds_authority_def)

lemma image_restricted_image:
  "(\<And>x. P (f x) = P x) \<Longrightarrow> (\<And>x. k (f x) = k x) \<Longrightarrow> k ` {y \<in> f ` S. P y} = k ` {x \<in> S. P x}"
  by (auto simp: image_iff) metis

lemma suspends_required:
  assumes s: "suspends t t'"
  shows "required_edges t' = required_edges t"
proof -
  have "tp_pattern t' p = tp_pattern t p" for p using s by (simp add: suspends_def tp_pattern_def)
  then have "required_consumers t' part = required_consumers t part" for part
    using s unfolding required_consumers_def suspends_def
    by (simp only: set_map) (rule image_restricted_image; simp)
  then show ?thesis using s by (simp add: required_edges_def suspends_def same_frame_def)
qed

lemma suspends_no_authority:
  "suspends t t' \<Longrightarrow> (\<forall>r \<in> set (tp_producers t'). \<not> holds_authority (pd_state r)) \<and>
     (\<forall>r \<in> set (tp_consumers t'). \<not> holds_authority (cs_state r))"
  by (auto simp: suspends_def suspended_producer_def suspended_consumer_def holds_authority_def)

section \<open>Lemmas: recovery\<close>

lemma replay_part:
  "durable_part c = durable_part d \<Longrightarrow> replay_journal J c = (ok_status, c') \<Longrightarrow>
   \<exists>d'. replay_journal J d = (ok_status, d') \<and> durable_part d' = durable_part c'"
proof (induction J arbitrary: c d)
  case (Cons x J)
  obtain c1 where c1: "apply_record x c = (ok_status, c1)" "replay_journal J c1 = (ok_status, c')"
    using Cons.prems(2) by (auto split: prod.splits sum.splits)
  moreover obtain d1 where "apply_record x d = (ok_status, d1)" "durable_part c1 = durable_part d1"
    using apply_record_part [OF Cons.prems(1), of x] c1 by (cases "apply_record x d") auto
  ultimately show ?case using Cons.IH by simp
qed simp

lemma demoted:
  assumes "coordinator_inv c"
  shows "\<exists>c'. demote_participants c = Inr c' \<and> durable_part (c'\<lparr>co_topology := None\<rparr>) = durable_part (c\<lparr>co_topology := None\<rparr>) \<and>
    (case co_topology c of None \<Rightarrow> co_topology c' = None
     | Some t \<Rightarrow> \<exists>t'. co_topology c' = Some t' \<and> suspends t t' \<and> topology_inv t')"
proof (cases "co_topology c")
  case None
  then show ?thesis by (simp add: demote_participants_def durable_part_eq_iff)
next
  case (Some t)
  then show ?thesis using demote_participants_result [OF assms Some] by (auto simp: durable_part_eq_iff)
qed

lemma persist_epoch_result:
  assumes "8 \<le> max_allocation_bytes (co_limits c)" "persist_epoch c = (st, c')"
  shows "(st = ok_status \<longrightarrow> (\<exists>c1. durable_part c1 = durable_part c \<and>
      c' = apply_epoch \<lparr>er_epoch = co_epoch c + 1, er_opened_at = co_clock c\<rparr> c1)) \<and>
    (\<forall>e. st = Inl e \<longrightarrow> (\<exists>k data s'. co_sink c = Some k \<and> sk_persist k data (sk_state k) = (Inl e, s') \<and>
      co_sink c' = Some (k\<lparr>sk_state := s'\<rparr>)))"
proof -
  let ?r = "\<lparr>er_epoch = co_epoch c + 1, er_opened_at = co_clock c\<rparr>"
  obtain st1 c1 where p: "co_persist (encode_epoch ?r) c = (st1, c1)" by fastforce
  have "apply_record (encode_epoch ?r) c1 = (ok_status, apply_epoch ?r c1)"
    using apply_record_bytes [of c1 "DR_Epoch ?r"] assms(1) co_persist_fields(1) [OF p] by (simp add: record_bytes_encode)
  then have "(st1 = ok_status \<longrightarrow> st = ok_status \<and> c' = apply_epoch ?r c1) \<and> (\<forall>e. st1 = Inl e \<longrightarrow> st = Inl e \<and> c' = c1)"
    using assms(2) p by (auto simp: persist_epoch_def co_commit_record_def)
  moreover have "st1 = Inl e \<Longrightarrow> \<exists>k data s'. co_sink c = Some k \<and> sk_persist k data (sk_state k) = (Inl e, s') \<and>
      co_sink c1 = Some (k\<lparr>sk_state := s'\<rparr>)" for e
    using p by (fastforce simp: co_persist_def split: option.splits prod.splits sum.splits)
  ultimately show ?thesis using co_persist_part [OF p] by (cases st1) auto
qed

lemma apply_epoch_fields:
  "co_state (apply_epoch r c) = co_state c" "co_reason (apply_epoch r c) = co_reason c"
  "co_request (apply_epoch r c) = co_request c" "co_manifests (apply_epoch r c) = co_manifests c"
  "co_facts (apply_epoch r c) = co_facts c" "co_ledger (apply_epoch r c) = co_ledger c"
  "co_topology (apply_epoch r c) = co_topology c" "co_epoch (apply_epoch r c) = max (co_epoch c) (er_epoch r)"
  by (auto simp: apply_epoch_def max_def)

lemma leave_guard: "\<not> co_inside c \<Longrightarrow> c\<lparr>co_sink := x, co_inside := False\<rparr> = c\<lparr>co_sink := x\<rparr>"
  by (cases c) simp

context durable_log
begin

lemma recover_tracked:
  assumes tr: "tracked persist log sound c" and k: "co_sink c = Some k"
    and fresh: "c0 = mk_coordinator (co_limits c) sink" and run: "recover [] (log (sk_state k)) torn c0 = (st, c')"
  shows "(st = ok_status \<and> resumes c c') \<or>
    (\<exists>e s data s'. st = Inl e \<and> sink = Some s \<and> sk_persist s data (sk_state s) = (Inl e, s') \<and>
       c' = c0\<lparr>co_sink := Some (s\<lparr>sk_state := s'\<rparr>)\<rparr>)"
proof -
  have inv: "coordinator_inv c" using tr by (simp add: tracked_def)
  let ?s0 = "(mk_coordinator (co_limits c) None)\<lparr>co_history_incomplete := torn\<rparr>"
  obtain d where d: "replay_journal (log (sk_state k)) (mk_coordinator (co_limits c) None) = (ok_status, d)"
      "durable_part d = durable_part c"
    using tr k by (auto simp: tracked_def journalled_def)
  have "durable_part (mk_coordinator (co_limits c) None) = durable_part ?s0" by (simp add: durable_part_eq_iff)
  from replay_part [OF this d(1)] obtain d1 where d1: "replay_journal (log (sk_state k)) ?s0 = (ok_status, d1)"
      "durable_part d1 = durable_part c"
    using d(2) by auto
  then have inv1: "coordinator_inv d1" using inv coordinator_inv_part by metis
  obtain d2 where d2: "demote_participants d1 = Inr d2" "durable_part (d2\<lparr>co_topology := None\<rparr>) = durable_part (d1\<lparr>co_topology := None\<rparr>)"
      "case co_topology d1 of None \<Rightarrow> co_topology d2 = None
       | Some t \<Rightarrow> \<exists>t'. co_topology d2 = Some t' \<and> suspends t t' \<and> topology_inv t'"
    using demoted [OF inv1] by blast
  let ?d3 = "d2\<lparr>co_sink := sink, co_durable := co_durable c0\<rparr>"
  obtain st3 d4 where d4: "persist_epoch ?d3 = (st3, d4)" by fastforce
  have l: "co_limits d2 = co_limits c" using d1(2) d2(2) by (simp add: durable_part_eq_iff)
  have e: "co_epoch d2 = co_epoch c" using d1(2) d2(2) by (simp add: durable_part_eq_iff)
  have "c0\<lparr>co_sink := x, co_inside := False\<rparr> = c0\<lparr>co_sink := x\<rparr>" for x using leave_guard [of c0] fresh by simp
  then have r: "st3 = Inl e \<Longrightarrow> st = Inl e \<and> c' = c0\<lparr>co_sink := co_sink d4\<rparr>"
    "st3 = ok_status \<Longrightarrow> st = ok_status \<and> c' = (adopt d4 (c0\<lparr>co_inside := True\<rparr>))\<lparr>co_inside := False\<rparr>" for e
    using run d1(1) d2(1) d4 fresh by (auto simp: recover_def guarded_def recovered_scratch_def)
  have "8 \<le> max_allocation_bytes (co_limits ?d3)" using coordinator_invD(3) [OF inv] l by simp
  note p = persist_epoch_result [OF this d4]
  show ?thesis
  proof (cases st3)
    case (Inl e)
    then obtain s data s' where "sink = Some s" "sk_persist s data (sk_state s) = (Inl e, s')" "co_sink d4 = Some (s\<lparr>sk_state := s'\<rparr>)"
      using p by auto
    then show ?thesis using r(1) [OF Inl] by metis
  next
    case (Inr u)
    obtain c1 where c1: "durable_part c1 = durable_part ?d3"
        "d4 = apply_epoch \<lparr>er_epoch = co_epoch ?d3 + 1, er_opened_at = co_clock ?d3\<rparr> c1"
      using p Inr by auto
    have same: "co_topology d1 = co_topology c" "co_topology c1 = co_topology d2" "co_epoch c1 = co_epoch c"
      "co_state c1 = co_state c" "co_reason c1 = co_reason c" "co_request c1 = co_request c" "co_manifests c1 = co_manifests c"
      "co_facts c1 = co_facts c" "(co_ledger c1)\<lparr>ld_attempted_bytes := 0\<rparr> = (co_ledger c)\<lparr>ld_attempted_bytes := 0\<rparr>"
      using d1(2) c1(1) e d2(2) by (simp_all add: durable_part_eq_iff)
    then have "resumes c c'"
      using r(2) Inr c1(2) d2(3) e by (simp add: resumes_def adopt_def apply_epoch_fields split: option.splits)
    then show ?thesis using r(2) Inr by simp
  qed
qed

end

section \<open>Lemmas: what a call may change\<close>

lemma guarded_part:
  assumes "durable_part (snd (body (c\<lparr>co_inside := True\<rparr>))) = durable_part c"
  shows "durable_part (snd (guarded body c)) = durable_part c"
  using assms by (cases "body (c\<lparr>co_inside := True\<rparr>)") (auto simp: guarded_def)

lemma settled_closed:
  assumes "co_state c \<noteq> SS_Open"
  shows "\<exists>e. ensure_open (c\<lparr>co_inside := b\<rparr>) = Inl e" "\<exists>e. check_transfer q (c\<lparr>co_inside := b\<rparr>) = Inl e"
    "\<exists>e. check_failure_report a code (c\<lparr>co_inside := b\<rparr>) = Inl e"
proof -
  show o: "\<exists>e. ensure_open (c\<lparr>co_inside := b\<rparr>) = Inl e" using assms by (simp add: ensure_open_def)
  show "\<exists>e. check_transfer q (c\<lparr>co_inside := b\<rparr>) = Inl e"
    "\<exists>e. check_failure_report a code (c\<lparr>co_inside := b\<rparr>) = Inl e"
    using o by (auto simp: check_transfer_def check_failure_report_def split: option.split)
qed

lemma settled_keeps:
  assumes "co_state c \<noteq> SS_Open" "co_state c \<noteq> SS_Closed"
  shows "durable_part (run_call call c) = durable_part c"
proof -
  note s = settled_closed [OF assms(1)]
  have o: "\<exists>e. check_open_request q (c\<lparr>co_inside := True\<rparr>) = Inl e" for q using assms(2) by (simp add: check_open_request_def)
  show ?thesis
  proof (cases call)
    case (Call_Open q)
    then show ?thesis using o [of q] by (auto simp: open_shuffle_def intro!: guarded_part)
  next
    case (Call_Commit q)
    then show ?thesis using s(2) [of q True] by (auto simp: commit_transfer_def intro!: guarded_part)
  next
    case (Call_Failure a code)
    then show ?thesis using s(3) [of a code True] by (auto simp: report_failure_def intro!: guarded_part)
  next
    case Call_Next_Wave
    then show ?thesis using s(1) [of True] by (auto simp: co_next_wave_def intro!: guarded_part)
  next
    case (Call_Cancel r)
    then show ?thesis using assms by (auto simp: cancel_shuffle_def intro!: guarded_part)
  next
    case Call_Tick
    have "durable_part (c\<lparr>co_inside := True, co_clock := x\<rparr>) = durable_part c" for x by (simp add: durable_part_eq_iff)
    with Call_Tick show ?thesis by (auto simp: advance_tick_def intro!: guarded_part)
  qed (use s(1) [of True] in \<open>auto simp: co_register_producer_def co_register_consumer_def set_participant_state_def
         publish_manifest_def update_congestion_def intro!: guarded_part\<close>)
qed

lemma settled_run:
  assumes "co_state c \<noteq> SS_Open" "co_state c \<noteq> SS_Closed"
  shows "durable_part (fold run_call calls c) = durable_part c"
  using assms
proof (induction calls arbitrary: c)
  case (Cons call calls)
  have "durable_part (run_call call c) = durable_part c" by (rule settled_keeps) (use Cons.prems in auto)
  moreover from this have "co_state (run_call call c) = co_state c" by (simp add: durable_part_eq_iff)
  ultimately show ?case using Cons.IH [of "run_call call c"] Cons.prems by simp
qed simp

lemma apply_record_grants: "co_grants c a = None \<Longrightarrow> co_grants (snd (apply_record data c)) a = None"
proof -
  assume g: "co_grants c a = None"
  have rv: "co_grants (revalidate k p d) = co_grants d" for k p and d :: "'a coordinator"
    by (simp add: revalidate_def Let_def)
  have "co_grants (snd (apply_durable r c)) a = None" for r
    using g by (cases r) (auto simp: apply_epoch_def apply_shuffle_state_def enter_state_def adopt_open_def Let_def
      apply_participant_def rv apply_manifest_def apply_commit_def apply_failure_def
      split: option.split sum.split prod.split)
  then show ?thesis using g by (simp add: apply_record_def split: sum.split)
qed

lemma commit_record_grants:
  assumes "co_grants c a = None"
  shows "co_grants (snd (co_commit_record data c)) a = None"
proof (cases "co_persist data c")
  case (Pair st c1)
  then show ?thesis
    using assms co_persist_fields(8) [OF Pair] apply_record_grants [of c1 a data] by (simp add: co_commit_record_def split: sum.split)
qed

lemma note_completion_grants: "co_grants c a = None \<Longrightarrow> co_grants (note_completion c) a = None"
  by (simp add: note_completion_def Let_def commit_record_grants split: option.split sum.split)

lemma commit_transferD:
  assumes "commit_transfer q c = (Inr outcome, c')"
  obtains "\<not> co_inside c" "check_transfer q c = ok_status" "co_grants c' (rq_attempt q) = None"
proof -
  have i: "\<not> co_inside c" using assms by (auto simp: commit_transfer_def guarded_def)
  have chk: "check_transfer q (c\<lparr>co_inside := True\<rparr>) = check_transfer q c"
    by (simp add: check_transfer_def ensure_open_def check_attempt_def check_evidence_def
        split: option.split sum.split)
  have ok: "check_transfer q c = ok_status"
    using assms i by (cases "check_transfer q c") (auto simp: commit_transfer_def guarded_def chk)
  obtain st c1 where p: "co_persist (encode_commit \<lparr>cm_request = q, cm_at = co_clock c\<rparr>) (c\<lparr>co_inside := True\<rparr>) = (st, c1)" by fastforce
  obtain r c2 where a: "accept_commit q c1 = (r, c2)" by fastforce
  have c1: "r = Inr outcome" "co_grants c' = co_grants (snd (accept_commit q c1))"
    using assms i ok p a by (cases st; auto simp: commit_transfer_def guarded_def chk)+
  have "co_grants (snd (accept_commit q c1)) (rq_attempt q) = None"
    using c1(1) a by (auto simp: accept_commit_def Let_def release_attempt_def split: sum.splits prod.splits intro!: note_completion_grants)
  then show thesis using that i ok c1(2) by simp
qed

context durable_log
begin

lemma log_determines:
  assumes "tracked persist log sound c" "tracked persist log sound d" "co_limits c = co_limits d"
    "co_sink c = Some k" "co_sink d = Some k'" "log (sk_state k) = log (sk_state k')"
  shows "durable_part c = durable_part d"
  using assms by (auto simp: tracked_def journalled_def)

end

lemma check_transfer_inside [simp]: "check_transfer q (c\<lparr>co_inside := b\<rparr>) = check_transfer q c"
  by (simp add: check_transfer_def ensure_open_def check_attempt_def check_evidence_def split: option.split sum.split)

lemma commit_transfer_refused:
  assumes "commit_transfer q c = (Inl e, c')"
  shows "durable_part c' = durable_part c"
proof (cases "co_inside c")
  case True
  then show ?thesis using assms by (simp add: commit_transfer_def guarded_def)
next
  case out: False
  let ?c = "c\<lparr>co_inside := True\<rparr>"
  show ?thesis
  proof (cases "check_transfer q c")
    case (Inl x)
    then show ?thesis using assms out by (auto simp: commit_transfer_def guarded_def)
  next
    case (Inr u)
    obtain st c1 where p: "co_persist (encode_commit \<lparr>cm_request = q, cm_at = co_clock c\<rparr>) ?c = (st, c1)" by fastforce
    have "validate_commit (co_ledger c1) q = ok_status"
      using Inr co_persist_fields [OF p] by (auto elim: check_transferD)
    then obtain receipt lg where "ledger_commit q (co_clock c1) (co_ledger c1) = (Inr receipt, lg)"
      using commit_status [of q "co_clock c1" "co_ledger c1"] by (metis prod.collapse)
    then obtain outcome d where "accept_commit q c1 = (Inr outcome, d)" by (simp add: accept_commit_def Let_def)
    then have "c' = c1\<lparr>co_inside := False\<rparr>"
      using assms out Inr p by (cases st) (auto simp: commit_transfer_def guarded_def)
    then show ?thesis using co_persist_part [OF p] by simp
  qed
qed

lemma check_transfer_backed:
  assumes "check_transfer q c = ok_status"
  shows "commit_backed q c"
proof -
  obtain grant t where g: "co_grants c (rq_attempt q) = Some grant" "co_state c = SS_Open" "co_topology c = Some t"
    "check_attempt q grant c = ok_status" "check_endpoints q t = ok_status" "check_evidence q c = ok_status"
    "ek_consumer (rq_edge q) = rq_consumer q"
    using assms by (rule check_transferD)
  have a: "rq_edge q = grant_key grant" "rq_producer q = dg_producer grant" "rq_manifest_digest q = dg_manifest_digest grant"
    using g(4) by (cases "rq_edge q"; auto simp: check_attempt_def grant_key_def split: if_splits)+
  have e: "\<exists>producer consumer. owner_of t (ek_partition (rq_edge q)) = Inr (rq_producer q) \<and>
        tp_producer t (rq_producer q) = Inr producer \<and> pd_incarnation producer = rq_producer_incarnation q \<and>
        holds_authority (pd_state producer) \<and> tp_consumer t (ek_consumer (rq_edge q)) = Inr consumer \<and>
        cs_incarnation consumer = rq_consumer_incarnation q \<and> holds_authority (cs_state consumer)"
    using g(5,7) by (auto simp: check_endpoints_def split: sum.splits if_splits)
  have ls: "list_all2 (\<lambda>d chunk. d = cd_digest chunk) ds chunks \<Longrightarrow> ds = map cd_digest chunks" for ds chunks
    by (induction rule: list_all2_induct) simp_all
  have "\<exists>manifest. map_of (co_manifests c) (ek_partition (rq_edge q)) = Some manifest \<and>
        pm_partition_generation manifest = ek_partition_generation (rq_edge q) \<and>
        rq_manifest_digest q = compute_manifest_digest manifest \<and> rq_bytes q = pm_total_bytes manifest \<and>
        rq_observed_chunk_digests q = map cd_digest (pm_chunks manifest) \<and> rq_integrity_verified q"
    using g(6) by (auto simp: check_evidence_def split: option.splits if_splits dest: ls)
  then show ?thesis using g a e by (simp add: commit_backed_def)
qed

section \<open>Properties\<close>

text \<open>
  C3. A completion is accepted only against what the coordinator holds: a live grant for exactly that
  edge, the current owner and an active consumer under the incarnations the request names, and the
  accepted manifest with its digest, size and every chunk digest. The grant is used up by it. A
  refused completion leaves everything durable as it was.
\<close>

theorem commit_authorised:
  "case commit_transfer q c of
     (Inr outcome, c') \<Rightarrow> commit_backed q c \<and> co_grants c' (rq_attempt q) = None
   | (Inl e, c') \<Rightarrow> durable_part c' = durable_part c"
proof (cases "commit_transfer q c")
  case (Pair r c')
  show ?thesis
  proof (cases r)
    case (Inl e)
    then show ?thesis using Pair commit_transfer_refused [of q c e c'] by simp
  next
    case (Inr outcome)
    then have "check_transfer q c = ok_status" "co_grants c' (rq_attempt q) = None"
      using Pair commit_transferD [of q c outcome c'] by metis+
    then show ?thesis using Pair Inr check_transfer_backed by simp
  qed
qed

text \<open>
  C20. A shuffle that has left the open state stays as it is: no sequence of calls changes anything
  durable about it, and completions are refused.
\<close>

theorem settled_shuffle_final:
  assumes "co_state c \<noteq> SS_Open" "co_state c \<noteq> SS_Closed"
  shows "durable_part (fold run_call calls c) = durable_part c \<and> (\<exists>e. fst (commit_transfer q (fold run_call calls c)) = Inl e)"
proof -
  let ?c = "fold run_call calls c"
  have d: "durable_part ?c = durable_part c" by (rule settled_run [OF assms])
  then have "co_state ?c \<noteq> SS_Open" using assms by (simp add: durable_part_eq_iff)
  then obtain e where "check_transfer q ?c = Inl e" using settled_closed(2) [of ?c q "co_inside ?c"] by auto
  then have "\<exists>e. fst (commit_transfer q ?c) = Inl e" by (simp add: commit_transfer_def guarded_def)
  then show ?thesis using d by simp
qed

theorem settled_shuffle_final_witness:
  "durable_part (fold run_call [Call_Tick, Call_Cancel Cancelled, Call_Next_Wave] cancelled_coordinator) =
     durable_part cancelled_coordinator \<and>
   (\<exists>e. fst (commit_transfer (delivery 0 1 5) (fold run_call [Call_Tick, Call_Cancel Cancelled, Call_Next_Wave] cancelled_coordinator)) = Inl e)"
  by (rule settled_shuffle_final) (simp_all add: cancelled_coordinator_def)

end
