(* ===== verification/Fabric_Journal.thy ===== *)
theory Fabric_Journal
  imports Fabric_Store Fabric_Recovery
begin

text \<open>
  What the durable store promises: the journal read back under any schedule of partial and
  interrupted calls, appends that are all or nothing, torn tails, snapshots that are installed whole,
  the store sink as an instance of \<open>durable_log\<close>, and the coordinator over it.
\<close>

section \<open>Specification\<close>

text \<open>A journal entry as it stands in the file, and what a scan makes of a list of entries.\<close>

definition encode_entry :: "u64 \<times> bytes \<Rightarrow> bytes" where
  "encode_entry entry = journal_header (fst entry) (snd entry) @ snd entry"

definition entry_fits :: "limits \<Rightarrow> u64 \<times> bytes \<Rightarrow> bool" where
  "entry_fits l entry \<longleftrightarrow> length (snd entry) \<le> unat (max_journal_record_bytes l) \<and> length (snd entry) \<le> 0xFFFFFFFF"

fun adopt_entries :: "u64 \<Rightarrow> u64 \<Rightarrow> nat \<Rightarrow> (u64 \<times> bytes) list \<Rightarrow> journal_scan \<Rightarrow> journal_scan" where
  "adopt_entries snapshot_sequence last_seen position [] scan = scan"
| "adopt_entries snapshot_sequence last_seen position (entry # entries) scan =
     adopt_entries snapshot_sequence (fst entry) (position + length (encode_entry entry)) entries
       (scan_record snapshot_sequence last_seen (fst entry) (snd entry) (position + length (encode_entry entry)) scan)"

fun adopted :: "u64 \<Rightarrow> u64 \<Rightarrow> (u64 \<times> bytes) list \<Rightarrow> bytes list" where
  "adopted snapshot_sequence last_seen [] = []"
| "adopted snapshot_sequence last_seen (entry # entries) =
     (if fst entry = last_seen \<or> fst entry \<le> snapshot_sequence then [] else [snd entry]) @
     adopted snapshot_sequence (fst entry) entries"

text \<open>What is left of a file after its complete records: how the reference reader classifies it.\<close>

definition parse_record :: "limits \<Rightarrow> bytes \<Rightarrow> scanned_record" where
  "parse_record l data =
     (let header = take kJournalHeaderBytes data;
          payload = take (unat (load_u32 header 4)) (drop kJournalHeaderBytes data)
      in if data = [] then SR_End
         else if length data < kJournalHeaderBytes then SR_Refused JT_TornTail
         else if \<not> check_journal_header header l then SR_Refused JT_Corrupt
         else if length payload \<noteq> unat (load_u32 header 4) then SR_Refused JT_TornTail
         else if crc32c payload \<noteq> load_u32 header 20 then SR_Refused JT_Corrupt
         else SR_Record (load_u64 header 8) payload)"

text \<open>How a scan ends, from what follows the last complete record.\<close>

definition finish_scan :: "scanned_record \<Rightarrow> nat \<Rightarrow> nat \<Rightarrow> u64 \<Rightarrow> journal_scan \<Rightarrow> journal_scan" where
  "finish_scan r fsize record_offset last_seen scan =
     (case r of SR_Refused tail \<Rightarrow> scan_refused tail fsize record_offset last_seen scan
      | _ \<Rightarrow> scan\<lparr>jn_last_sequence := last_seen\<rparr>)"

text \<open>
  The bytes of the journal the store vouches for, and the records in them. After a failed append
  whose clean-up failed as well the file may hold more; the writer is then given up.
\<close>

definition acknowledged :: "durable_store \<Rightarrow> host \<Rightarrow> bytes" where
  "acknowledged s h = (case os_files h F_Journal of None \<Rightarrow> [] | Some content \<Rightarrow> take (ds_journal_bytes s) content)"

definition journal_image :: "durable_store \<Rightarrow> (u64 \<times> bytes) list \<Rightarrow> bytes \<Rightarrow> bool" where
  "journal_image s entries data \<longleftrightarrow> data = concat (map encode_entry entries) \<and> list_all (entry_fits (ds_limits s)) entries \<and>
     sorted (0 # map fst entries) \<and> last (0 # map fst entries) \<le> ds_last_sequence s"

definition store_inv :: "durable_store \<Rightarrow> host \<Rightarrow> bool" where
  "store_inv s h \<longleftrightarrow> ds_opened s \<and> ds_snapshot_sequence s \<le> ds_last_sequence s \<and>
     length (acknowledged s h) = ds_journal_bytes s \<and> (\<exists>entries. journal_image s entries (acknowledged s h)) \<and>
     (\<forall>position. \<not> ds_journal_degraded s \<longrightarrow> ds_journal s = Some position \<longrightarrow>
        position = ds_journal_bytes s \<and> os_files h F_Journal = Some (acknowledged s h))"

definition scanned_records :: "limits \<Rightarrow> u64 \<Rightarrow> bytes \<Rightarrow> bytes list" where
  "scanned_records l snapshot_sequence data =
     (case fst (scan_loop l snapshot_sequence (length data) (mk_scanner data) 0 empty_scan []) of
        Inl _ \<Rightarrow> [] | Inr scan \<Rightarrow> jn_records scan)"

definition store_log :: "store_sink \<Rightarrow> bytes list" where
  "store_log k = scanned_records (ds_limits (ss_store k)) (ds_snapshot_sequence (ss_store k))
     (acknowledged (ss_store k) (ss_host k))"

text \<open>A sound sink over a store that has no snapshot.\<close>

definition store_sound :: "limits \<Rightarrow> store_sink \<Rightarrow> bool" where
  "store_sound l k \<longleftrightarrow> store_inv (ss_store k) (ss_host k) \<and> ds_limits (ss_store k) = l \<and>
     ds_snapshot_sequence (ss_store k) = 0 \<and> os_files (ss_host k) F_Primary = None \<and> os_files (ss_host k) F_Previous = None"

definition journal_content :: "host \<Rightarrow> bytes" where
  "journal_content h = (case os_files h F_Journal of None \<Rightarrow> [] | Some content \<Rightarrow> content)"

definition benign :: "host \<Rightarrow> bool" where
  "benign h \<longleftrightarrow> IO_Fail \<notin> set (os_events h)"

text \<open>What may follow the acknowledged bytes after a crash: nothing, or a proper prefix of one record.\<close>

definition torn_write :: "limits \<Rightarrow> bytes \<Rightarrow> bool" where
  "torn_write l junk \<longleftrightarrow> junk = [] \<or>
     (\<exists>entry k. entry_fits l entry \<and> junk = take k (encode_entry entry) \<and> 0 < k \<and> k < length (encode_entry entry))"

definition snapshot_file :: "u64 \<Rightarrow> bytes \<Rightarrow> bytes" where
  "snapshot_file sequence state = snapshot_header sequence state @ state"

text \<open>
  What a compaction, successful or not, may have done to the snapshot files: nothing, the primary
  moved aside, or the new snapshot installed in full.
\<close>

definition snapshot_kept :: "bytes \<Rightarrow> host \<Rightarrow> host \<Rightarrow> bool" where
  "snapshot_kept new h h' \<longleftrightarrow>
     (os_files h' F_Primary = os_files h F_Primary \<and> os_files h' F_Previous = os_files h F_Previous) \<or>
     (os_files h' F_Primary = None \<and> os_files h' F_Previous = os_files h F_Primary \<and> os_files h F_Primary \<noteq> None) \<or>
     os_files h' F_Primary = Some new"

text \<open>The payloads a list of appends gets accepted, with the store after them.\<close>

fun append_all :: "bytes list \<Rightarrow> durable_store \<Rightarrow> host \<Rightarrow> bytes list \<times> durable_store \<times> host" where
  "append_all [] s h = ([], s, h)"
| "append_all (payload # payloads) s h =
     (case store_append payload s h of
        (Inl e, s1, h1) \<Rightarrow> append_all payloads s1 h1
      | (Inr sequence, s1, h1) \<Rightarrow>
          (case append_all payloads s1 h1 of (accepted, s2, h2) \<Rightarrow> (payload # accepted, s2, h2)))"

definition empty_host :: host where
  "empty_host = \<lparr>os_files = (\<lambda>name. None), os_events = []\<rparr>"

definition empty_store :: durable_store where
  "empty_store = fst (snd (store_open (mk_store ''state'' default_limits) empty_host))"

definition empty_sink :: store_sink where
  "empty_sink = \<lparr>ss_store = empty_store, ss_host = empty_host, ss_compact_every = 64, ss_since_compact = 0\<rparr>"

definition reopened_sink :: "durable_store \<Rightarrow> host \<Rightarrow> u32 \<Rightarrow> store_sink" where
  "reopened_sink s h every = \<lparr>ss_store = s, ss_host = h, ss_compact_every = every, ss_since_compact = 0\<rparr>"

definition sample_calls :: "coordinator_call list" where
  "sample_calls = [Call_Open \<lparr>or_shuffle = 1, or_generation = 1, or_partition_count = 2, or_policy = default_policy\<rparr>,
     Call_Register_Producer 1 1 [104, 111, 115, 116], Call_Next_Wave, Call_Cancel Cancelled, Call_Tick]"

section \<open>Lemmas: record images\<close>

lemma store_bytes_append:
  "length a = offset \<Longrightarrow> store_bytes (a @ b) offset v = a @ v @ drop (length v) b"
  by (simp add: store_bytes_def)

lemma journal_header_eq:
  "journal_header sequence payload =
     (let front = le_bytes 4 kJournalRecordMagic @ le_bytes 4 (word_of_nat (length payload) :: u32) @ le_bytes 8 sequence
      in front @ le_bytes 4 (crc32c front) @ le_bytes 4 (crc32c payload))"
proof -
  let ?a = "le_bytes 4 kJournalRecordMagic" and ?b = "le_bytes 4 (word_of_nat (length payload) :: u32)" and ?c = "le_bytes 8 sequence"
  have h1: "store_u32 (replicate kJournalHeaderBytes 0) 0 kJournalRecordMagic = ?a @ replicate 20 0"
    using store_bytes_append [of "[]" 0 "replicate 24 0" ?a] by (simp add: store_u32_def kJournalHeaderBytes_def)
  have h2: "store_u32 (?a @ replicate 20 0) 4 (word_of_nat (length payload)) = (?a @ ?b) @ replicate 16 0"
    by (simp add: store_u32_def store_bytes_append)
  have h3: "store_u64 ((?a @ ?b) @ replicate 16 0) 8 sequence = (?a @ ?b @ ?c) @ replicate 8 0"
    by (subst store_u64_def, subst store_bytes_append) simp_all
  have h4: "store_u32 ((?a @ ?b @ ?c) @ replicate 8 0) 16 v = (?a @ ?b @ ?c @ le_bytes 4 v) @ replicate 4 0" for v
    by (subst store_u32_def, subst store_bytes_append) simp_all
  have h5: "store_u32 ((?a @ ?b @ ?c @ le_bytes 4 v) @ replicate 4 0) 20 w = ?a @ ?b @ ?c @ le_bytes 4 v @ le_bytes 4 w" for v w
    by (subst store_u32_def, subst store_bytes_append) simp_all
  have t: "take 16 ((?a @ ?b @ ?c) @ replicate 8 0) = ?a @ ?b @ ?c" by simp
  show ?thesis unfolding journal_header_def Let_def h1 h2 h3 t h4 h5 by simp
qed

lemma length_journal_header [simp]: "length (journal_header sequence payload) = 24"
  by (simp add: journal_header_eq Let_def)

lemma length_encode_entry: "length (encode_entry entry) = 24 + length (snd entry)"
  by (simp add: encode_entry_def)

lemma load_le [simp]:
  "length a = offset \<Longrightarrow> load_u32 (a @ le_bytes 4 v @ b) offset = v"
  "length a = offset \<Longrightarrow> load_u64 (a @ le_bytes 8 w @ b) offset = w"
  by (simp_all add: load_u32_def load_u64_def le_word_bytes_full)

lemma journal_header_fields:
  assumes "h = journal_header sequence payload"
  shows "load_u32 h 0 = kJournalRecordMagic" "load_u32 h 4 = word_of_nat (length payload)" "load_u64 h 8 = sequence"
    "load_u32 h 16 = crc32c (take 16 h)" "load_u32 h 20 = crc32c payload"
proof -
  let ?a = "le_bytes 4 kJournalRecordMagic" and ?b = "le_bytes 4 (word_of_nat (length payload) :: u32)" and ?c = "le_bytes 8 sequence"
  let ?d = "le_bytes 4 (crc32c (?a @ ?b @ ?c))" and ?e = "le_bytes 4 (crc32c payload)"
  have h: "h = ?a @ ?b @ ?c @ ?d @ ?e" using assms by (simp add: journal_header_eq Let_def)
  show "load_u32 h 0 = kJournalRecordMagic" using load_le(1) [of "[]" 0 kJournalRecordMagic] by (simp add: h)
  show "load_u32 h 4 = word_of_nat (length payload)" using load_le(1) [of ?a 4 "word_of_nat (length payload)" "?c @ ?d @ ?e"] by (simp add: h)
  show "load_u64 h 8 = sequence" using load_le(2) [of "?a @ ?b" 8 sequence "?d @ ?e"] by (simp add: h)
  have "take 16 h = ?a @ ?b @ ?c" by (simp add: h)
  then show "load_u32 h 16 = crc32c (take 16 h)" using load_le(1) [of "?a @ ?b @ ?c" 16 "crc32c (?a @ ?b @ ?c)" ?e] by (simp add: h)
  show "load_u32 h 20 = crc32c payload" using load_le(1) [of "?a @ ?b @ ?c @ ?d" 20 "crc32c payload" "[]"] by (simp add: h)
qed

lemma parse_entry:
  assumes "entry_fits l entry"
  shows "parse_record l (encode_entry entry @ rest) = SR_Record (fst entry) (snd entry)"
proof -
  obtain sequence payload where e: "entry = (sequence, payload)" by fastforce
  let ?h = "journal_header sequence payload"
  note f = journal_header_fields [OF refl, of sequence payload]
  have n: "unat (word_of_nat (length payload) :: u32) = length payload"
    using assms e by (intro unat_of_length_u32) (simp add: entry_fits_def)
  have t: "take kJournalHeaderBytes (encode_entry entry @ rest) = ?h" "drop kJournalHeaderBytes (encode_entry entry @ rest) = payload @ rest"
    by (simp_all add: e encode_entry_def kJournalHeaderBytes_def)
  have ne: "encode_entry entry @ rest \<noteq> []" "\<not> length (encode_entry entry @ rest) < kJournalHeaderBytes"
    using length_encode_entry [of entry] by (auto simp: kJournalHeaderBytes_def dest: arg_cong [where f = length])
  have chk: "check_journal_header ?h l"
    using assms e f n by (simp add: check_journal_header_def entry_fits_def)
  show ?thesis
    unfolding parse_record_def Let_def t using ne chk f n by (simp add: e)
qed

lemma parse_torn:
  assumes fits: "entry_fits l entry" and p: "data = take k (encode_entry entry)" "0 < k" "k < length (encode_entry entry)"
  shows "parse_record l data = SR_Refused JT_TornTail"
proof -
  obtain sequence payload where e: "entry = (sequence, payload)" by fastforce
  let ?h = "journal_header sequence payload"
  note f = journal_header_fields [OF refl, of sequence payload]
  have n: "unat (word_of_nat (length payload) :: u32) = length payload"
    using fits e by (intro unat_of_length_u32) (simp add: entry_fits_def)
  have len: "length data = k" "k < 24 + length payload" using p length_encode_entry [of entry] e by auto
  then have ne: "data \<noteq> []" using p(2) by auto
  show ?thesis
  proof (cases "k < 24")
    case True
    then show ?thesis using ne len by (simp add: parse_record_def Let_def kJournalHeaderBytes_def)
  next
    case False
    then have d: "take 24 data = ?h" "drop 24 data = take (k - 24) payload"
      using p(1) by (simp_all add: e encode_entry_def)
    have "check_journal_header ?h l" using fits e f n by (simp add: check_journal_header_def entry_fits_def)
    then show ?thesis
      unfolding parse_record_def Let_def kJournalHeaderBytes_def d using ne False len f n by simp
  qed
qed

declare scan_loop.simps [simp del]

section \<open>Lemmas: scanning\<close>

lemma read_full_ok:
  "IO_Fail \<notin> set es \<Longrightarrow> \<exists>got sc' es'. read_full wanted sc es = (Inr got, sc', es') \<and> set es' \<subseteq> set es"
proof (induction wanted arbitrary: sc es rule: less_induct)
  case (less wanted)
  obtain r sc1 es1 where rf: "refill sc es = (r, sc1, es1)" by (cases "refill sc es") auto
  have ok: "r = ok_status" "set es1 \<subseteq> set es"
    using rf read_upto_ok [OF less.prems, of kReadBufferBytes "js_rest sc"]
    by (auto simp: refill_def split: if_splits prod.splits sum.splits)
  show ?case
  proof (cases "wanted = 0 \<or> js_buffer sc1 = []")
    case True
    then show ?thesis using rf ok by (subst read_full.simps) auto
  next
    case False
    let ?n = "min (length (js_buffer sc1)) wanted"
    let ?sc2 = "sc1\<lparr>js_buffer := drop ?n (js_buffer sc1), js_position := js_position sc1 + ?n\<rparr>"
    have "wanted - ?n < wanted" using False by (cases "js_buffer sc1"; simp)
    moreover have "IO_Fail \<notin> set es1" using less.prems ok by auto
    ultimately obtain got sc' es' where "read_full (wanted - ?n) ?sc2 es1 = (Inr got, sc', es')" "set es' \<subseteq> set es1"
      using less.IH by metis
    then show ?thesis using False rf ok by (subst read_full.simps) (auto simp: Let_def)
  qed
qed

lemma read_record_ok:
  assumes "IO_Fail \<notin> set es"
  shows "\<exists>r sc' es'. read_record l sc es = (Inr r, sc', es') \<and> set es' \<subseteq> set es"
proof -
  obtain header sc1 es1 where h: "read_full kJournalHeaderBytes sc es = (Inr header, sc1, es1)" "set es1 \<subseteq> set es"
    using read_full_ok [OF assms] by blast
  then have "IO_Fail \<notin> set es1" using assms by auto
  then obtain payload sc2 es2 where "read_full (unat (load_u32 header 4)) sc1 es1 = (Inr payload, sc2, es2)" "set es2 \<subseteq> set es1"
    using read_full_ok by blast
  then show ?thesis using h by (auto simp: read_record_def)
qed

lemma read_record_parse:
  assumes "read_record l sc es = (Inr r, sc', es')"
  shows "r = parse_record l (unread sc)"
    and "r = SR_Record sequence payload \<Longrightarrow> unread sc' = drop (24 + length payload) (unread sc) \<and>
      js_position sc' = js_position sc + 24 + length payload"
proof -
  obtain header sc1 es1 where h: "read_full kJournalHeaderBytes sc es = (Inr header, sc1, es1)"
    using assms by (auto simp: read_record_def split: prod.splits sum.splits)
  note f = read_full_take [OF h]
  have hd: "header = take 24 (unread sc)" "unread sc1 = drop 24 (unread sc)" "js_position sc1 = js_position sc + length header"
    using f by (simp_all add: kJournalHeaderBytes_def)
  have full: "length header = 24 \<longleftrightarrow> 24 \<le> length (unread sc)" using hd(1) by auto
  have "r = parse_record l (unread sc) \<and> (\<forall>sequence payload. r = SR_Record sequence payload \<longrightarrow>
    unread sc' = drop (24 + length payload) (unread sc) \<and> js_position sc' = js_position sc + 24 + length payload)"
  proof (cases "length header = 24 \<and> check_journal_header header l")
    case False
    then show ?thesis
      using assms h hd full by (auto simp: read_record_def parse_record_def Let_def kJournalHeaderBytes_def)
  next
    case True
    then obtain payload sc2 es2 where p: "read_full (unat (load_u32 header 4)) sc1 es1 = (Inr payload, sc2, es2)"
      using assms h by (auto simp: read_record_def kJournalHeaderBytes_def split: prod.splits sum.splits)
    note g = read_full_take [OF p]
    have d: "drop (unat (load_u32 header 4)) (drop 24 (unread sc)) = drop (24 + unat (load_u32 header 4)) (unread sc)"
      by (simp add: add.commute)
    show ?thesis
      using assms h p g hd full True d
      by (auto simp: read_record_def parse_record_def Let_def kJournalHeaderBytes_def split: if_splits)
  qed
  then show "r = parse_record l (unread sc)"
    "r = SR_Record sequence payload \<Longrightarrow> unread sc' = drop (24 + length payload) (unread sc) \<and>
      js_position sc' = js_position sc + 24 + length payload" by simp_all
qed

lemma scan_loop_entries:
  assumes "unread sc = concat (map encode_entry entries) @ rest" "list_all (entry_fits l) entries"
    and "sorted (last_seen # map fst entries)" "\<And>s p. parse_record l rest \<noteq> SR_Record s p" "IO_Fail \<notin> set es"
  shows "\<exists>es'. scan_loop l snapshot_sequence fsize sc last_seen scan es =
    (Inr (finish_scan (parse_record l rest) fsize (js_position sc + length (concat (map encode_entry entries)))
       (last (last_seen # map fst entries)) (adopt_entries snapshot_sequence last_seen (js_position sc) entries scan)), es') \<and>
    set es' \<subseteq> set es"
  using assms
proof (induction entries arbitrary: sc last_seen scan es)
  case Nil
  obtain r sc' es' where r: "read_record l sc es = (Inr r, sc', es')" "set es' \<subseteq> set es"
    using read_record_ok [OF Nil.prems(5)] by blast
  have p: "parse_record l rest = r" using read_record_parse(1) [OF r(1)] Nil.prems(1) by simp
  consider "r = SR_End" | tail where "r = SR_Refused tail" using Nil.prems(4) p by (cases r) auto
  then show ?case using r unfolding p by cases (subst scan_loop.simps, simp add: finish_scan_def)+
next
  case (Cons entry entries)
  obtain r sc' es' where r: "read_record l sc es = (Inr r, sc', es')" "set es' \<subseteq> set es"
    using read_record_ok [OF Cons.prems(5)] by blast
  have "r = parse_record l (encode_entry entry @ concat (map encode_entry entries) @ rest)"
    using read_record_parse(1) [OF r(1)] Cons.prems(1) by simp
  then have rr: "r = SR_Record (fst entry) (snd entry)" using parse_entry [of l entry] Cons.prems(2) by simp
  note u = read_record_parse(2) [OF r(1) rr]
  have u': "unread sc' = concat (map encode_entry entries) @ rest"
    "js_position sc' = js_position sc + length (encode_entry entry)"
    using u Cons.prems(1) by (simp_all add: length_encode_entry)
  have nf: "IO_Fail \<notin> set es'" using Cons.prems(5) r(2) by auto
  have s: "sorted (fst entry # map fst entries)" "\<not> fst entry < last_seen" using Cons.prems(3) by (auto simp: not_less)
  obtain es2 where "scan_loop l snapshot_sequence fsize sc' (fst entry)
      (scan_record snapshot_sequence last_seen (fst entry) (snd entry) (js_position sc') scan) es' =
    (Inr (finish_scan (parse_record l rest) fsize (js_position sc' + length (concat (map encode_entry entries)))
       (last (fst entry # map fst entries)) (adopt_entries snapshot_sequence (fst entry) (js_position sc') entries
         (scan_record snapshot_sequence last_seen (fst entry) (snd entry) (js_position sc') scan))), es2)" "set es2 \<subseteq> set es'"
    using Cons.IH [OF u'(1) _ s(1) Cons.prems(4) nf] Cons.prems(2) by fastforce
  then show ?case using r rr s(2) u'(2) by (subst scan_loop.simps) (auto simp: add.assoc)
qed

lemma adopt_entries_fields:
  "jn_records (adopt_entries snap last_seen position entries scan) = jn_records scan @ adopted snap last_seen entries"
  "jn_tail (adopt_entries snap last_seen position entries scan) = jn_tail scan"
  "jn_replayable_bytes (adopt_entries snap last_seen position entries scan) =
     (if entries = [] then jn_replayable_bytes scan else position + length (concat (map encode_entry entries)))"
  by (induction entries arbitrary: last_seen position scan) (auto simp: scan_record_def)

lemma adopted_append: "adopted snap last_seen (entries @ later) =
    adopted snap last_seen entries @ adopted snap (last (last_seen # map fst entries)) later"
  by (induction entries arbitrary: last_seen) auto

section \<open>Lemmas: writing\<close>

lemma syscall_files [simp]: "os_files (snd (syscall h)) = os_files h"
  by (simp add: syscall_def split: prod.split)

lemma syscall_eq: "syscall h = (ok, h1) \<Longrightarrow> os_files h1 = os_files h"
  using syscall_files [of h] by simp

lemma set_file_files [simp]: "os_files (set_file name content h) = (os_files h)(name := content)"
  by (simp add: set_file_def)

lemma resized_id [simp]: "resized (length xs) xs = xs"
  by (simp add: resized_def)

lemma resized_append [simp]: "resized (length xs) (xs @ ys) = xs"
  by (simp add: resized_def)

lemma take_resized: "n \<le> length xs \<Longrightarrow> resized n xs = take n xs"
  by (simp add: resized_def)

lemma write_at_end: "position = length content \<Longrightarrow> write_at position data content = content @ data"
  by (simp add: write_at_def)

lemma write_all_end:
  "write_all data (length content) content es = (st, position, content', es') \<Longrightarrow>
   \<exists>k. content' = content @ take k data \<and> position = length content' \<and> (st = ok_status \<longrightarrow> content' = content @ data)"
proof (induction "length data + length es" arbitrary: data content es rule: less_induct)
  case less
  obtain event es1 where p: "pop_event es = (event, es1)" by fastforce
  then have len: "length es1 \<le> length es" "event \<noteq> None \<Longrightarrow> length es1 < length es"
    by (auto simp: pop_event_def split: list.splits)
  consider "data = []" | "data \<noteq> []" "event = Some IO_Fail" | "data \<noteq> []" "event = Some IO_Interrupted"
    | "data \<noteq> []" "event = None" | m where "data \<noteq> []" "event = Some (IO_Partial m)"
    by (cases event; cases "the event") auto
  then show ?case
  proof cases
    case 1
    then show ?thesis using less.prems by (subst (asm) write_all.simps) auto
  next
    case 2
    then have "content' = content @ take 0 data \<and> position = length content' \<and> st \<noteq> ok_status"
      using less.prems p by (subst (asm) write_all.simps) auto
    then show ?thesis by blast
  next
    case 3
    then have "write_all data (length content) content es1 = (st, position, content', es')"
      using less.prems p by (subst (asm) write_all.simps) auto
    then show ?thesis using less.hyps [of data es1 content] len 3 by auto
  next
    case 4
    let ?n = "transfer_size None (length data)"
    have "write_all (drop ?n data) (length (content @ take ?n data)) (content @ take ?n data) es1 = (st, position, content', es')"
      using less.prems p 4 by (subst (asm) write_all.simps) (auto simp: Let_def write_at_end transfer_size_def)
    moreover have "length (drop ?n data) + length es1 < length data + length es"
      using 4 len by (cases data) (auto simp: transfer_size_def kTransferBytes_def)
    ultimately obtain k where "content' = (content @ take ?n data) @ take k (drop ?n data)" "position = length content'"
        "st = ok_status \<longrightarrow> content' = (content @ take ?n data) @ drop ?n data"
      using less.hyps by blast
    then show ?thesis using take_add [of ?n k data] by (intro exI [of _ "?n + k"]) simp
  next
    case (5 m)
    let ?n = "transfer_size event (length data)"
    have "write_all (drop ?n data) (length (content @ take ?n data)) (content @ take ?n data) es1 = (st, position, content', es')"
      using less.prems p 5 by (subst (asm) write_all.simps) (auto simp: Let_def write_at_end transfer_size_def min_def)
    moreover have "length (drop ?n data) + length es1 < length data + length es"
      using 5 len by auto
    ultimately obtain k where "content' = (content @ take ?n data) @ take k (drop ?n data)" "position = length content'"
        "st = ok_status \<longrightarrow> content' = (content @ take ?n data) @ drop ?n data"
      using less.hyps by blast
    then show ?thesis using take_add [of ?n k data] by (intro exI [of _ "?n + k"]) simp
  qed
qed

lemma write_file_end:
  assumes "write_file name data (length content) h = (st, position, h')" "os_files h name = Some content"
  shows "\<exists>k. os_files h' = (os_files h)(name \<mapsto> content @ take k data) \<and> position = length (content @ take k data) \<and>
    (st = ok_status \<longrightarrow> content @ take k data = content @ data)"
proof -
  obtain st' position' content' es where w: "write_all data (length content) content (os_events h) = (st', position', content', es)"
    by (cases "write_all data (length content) content (os_events h)") auto
  then obtain k where "content' = content @ take k data" "position' = length content'" "st' = ok_status \<longrightarrow> content' = content @ data"
    using write_all_end [OF w] by blast
  then show ?thesis using assms w by (intro exI [of _ k]) (auto simp: write_file_def)
qed

lemma write_flushed_end:
  assumes "write_flushed name header payload (length content) h = (st, position, h')" "os_files h name = Some content"
  shows "\<exists>junk. os_files h' = (os_files h)(name \<mapsto> content @ junk) \<and>
    (st = ok_status \<longrightarrow> junk = header @ payload \<and> position = length (content @ junk))"
proof -
  obtain st1 p1 h1 where w1: "write_file name header (length content) h = (st1, p1, h1)" by (cases "write_file name header (length content) h") auto
  obtain k1 where k1: "os_files h1 = (os_files h)(name \<mapsto> content @ take k1 header)" "p1 = length (content @ take k1 header)"
      "st1 = ok_status \<longrightarrow> content @ take k1 header = content @ header"
    using write_file_end [OF w1 assms(2)] by blast
  show ?thesis
  proof (cases "st1 = ok_status")
    case False
    then show ?thesis using assms(1) w1 k1 by (cases st1) (auto simp: write_flushed_def)
  next
    case True
    then have k: "os_files h1 = (os_files h)(name \<mapsto> content @ header)" "p1 = length (content @ header)" using k1 by auto
    obtain st2 p2 h2 where w2: "write_file name payload p1 h1 = (st2, p2, h2)" by (cases "write_file name payload p1 h1") auto
    obtain k2 where k2: "os_files h2 = (os_files h1)(name \<mapsto> (content @ header) @ take k2 payload)" "p2 = length ((content @ header) @ take k2 payload)"
        "st2 = ok_status \<longrightarrow> (content @ header) @ take k2 payload = (content @ header) @ payload"
      using write_file_end [of name payload "content @ header" h1 st2 p2 h2] w2 k by auto
    obtain st3 h3 where f: "flush_file h2 = (st3, h3)" by fastforce
    have f': "os_files h3 = os_files h2"
      using f by (auto simp: flush_file_def split: prod.splits bool.splits dest: syscall_eq)
    show ?thesis
      using assms(1) True w1 w2 k k2 f f' by (cases st2) (auto simp: write_flushed_def)
  qed
qed

lemma truncate_journal:
  assumes "truncate_file name size' h = (st, position, h')" "os_files h name = Some content"
  shows "(os_files h' = os_files h \<or> os_files h' = (os_files h)(name \<mapsto> resized size' content)) \<and>
    (st = ok_status \<longrightarrow> os_files h' = (os_files h)(name \<mapsto> resized size' content) \<and> position = Some size')"
  using assms
  by (auto simp: truncate_file_def ftruncate_def flush_file_def split: prod.splits bool.splits dest!: syscall_eq)

lemma open_for_append_journal:
  assumes "open_for_append name offset h = (r, h')"
  shows "os_files h' name = os_files h name \<or>
      os_files h' name = Some (case os_files h name of None \<Rightarrow> [] | Some content \<Rightarrow> content) \<or>
      os_files h' name = Some (resized offset (case os_files h name of None \<Rightarrow> [] | Some content \<Rightarrow> content))"
    and "\<And>n. n \<noteq> name \<Longrightarrow> os_files h' n = os_files h n"
    and "r = Inr position \<Longrightarrow> position = offset \<and>
      os_files h' name = Some (resized offset (case os_files h name of None \<Rightarrow> [] | Some content \<Rightarrow> content))"
  using assms
  by (auto simp: open_for_append_def ftruncate_def Let_def split: prod.splits bool.splits option.splits dest!: syscall_eq)

section \<open>Lemmas: append\<close>

lemma acknowledged_take: "acknowledged s h = take (ds_journal_bytes s) (journal_content h)"
  by (simp add: acknowledged_def journal_content_def split: option.split)

lemma store_inv_resized:
  "length (acknowledged s h) = ds_journal_bytes s \<Longrightarrow> resized (ds_journal_bytes s) (journal_content h) = acknowledged s h"
  by (auto simp: acknowledged_take resized_def min_def split: if_splits)

lemma ensure_journal_inv:
  assumes inv: "store_inv s h" and ok: "\<not> ds_journal_degraded s" and run: "ensure_journal s h = (r, s1, h1)"
  shows "store_inv s1 h1 \<and> acknowledged s1 h1 = acknowledged s h \<and> (\<exists>j. s1 = s\<lparr>ds_journal := j\<rparr>) \<and>
    (r = ok_status \<longrightarrow> ds_journal s1 = Some (ds_journal_bytes s) \<and> os_files h1 F_Journal = Some (acknowledged s h))"
proof (cases "ds_journal s")
  case (Some p)
  have "s\<lparr>ds_journal := Some p\<rparr> = s" using Some by (cases s) simp
  then have "\<exists>j. s = s\<lparr>ds_journal := j\<rparr>" by metis
  then show ?thesis using inv ok run Some by (auto simp: ensure_journal_def store_inv_def)
next
  case None
  obtain r' h' where a: "open_for_append F_Journal (ds_journal_bytes s) h = (r', h')" by fastforce
  note f = open_for_append_journal [OF a, folded journal_content_def]
  let ?b = "acknowledged s h"
  have len: "length ?b = ds_journal_bytes s" using inv by (simp add: store_inv_def)
  have "journal_content h' = journal_content h \<or> journal_content h' = ?b"
    using f(1) store_inv_resized [OF len] by (auto simp: journal_content_def)
  then have ack: "acknowledged s h' = ?b" using len by (auto simp: acknowledged_take)
  have keep: "store_inv (s\<lparr>ds_journal := j\<rparr>) h'"
    if "\<And>p. j = Some p \<Longrightarrow> p = ds_journal_bytes s \<and> os_files h' F_Journal = Some ?b" for j
  proof -
    have "acknowledged (s\<lparr>ds_journal := j\<rparr>) h' = ?b" using ack by (simp add: acknowledged_take)
    moreover have "journal_image (s\<lparr>ds_journal := j\<rparr>) entries d = journal_image s entries d" for entries d
      by (simp add: journal_image_def)
    ultimately show ?thesis using inv that by (auto simp: store_inv_def)
  qed
  have s: "s = s\<lparr>ds_journal := None\<rparr>" using None by (cases s) simp
  show ?thesis
  proof (cases r')
    case (Inl e)
    then have "r = Inl e" "s1 = s" "h1 = h'" using run a None by (auto simp: ensure_journal_def)
    moreover have "store_inv s h'" by (subst s) (rule keep, simp)
    ultimately show ?thesis using ack s by auto
  next
    case (Inr p)
    then have "r = ok_status" "s1 = s\<lparr>ds_journal := Some (ds_journal_bytes s)\<rparr>" "h1 = h'" "os_files h' F_Journal = Some ?b"
      using run a None f(3) store_inv_resized [OF len] by (auto simp: ensure_journal_def)
    then show ?thesis using ack keep [of "Some (ds_journal_bytes s)"] by (auto simp: acknowledged_def)
  qed
qed

lemma check_append_ok:
  assumes "check_append p s = Inr sequence"
  shows "ds_opened s" "\<not> ds_journal_degraded s" "entry_fits (ds_limits s) (sequence, p)"
    "ds_last_sequence s < sequence" "sequence = ds_last_sequence s + 1"
proof -
  have a: "ds_opened s" "\<not> ds_journal_degraded s" "length p \<le> unat (max_journal_record_bytes (ds_limits s))" "length p \<le> 0xFFFFFFFF"
      "checked_add (ds_last_sequence s) 1 = Inr sequence"
    using assms by (auto simp: check_append_def not_less split: if_splits)
  show "ds_opened s" "\<not> ds_journal_degraded s" "entry_fits (ds_limits s) (sequence, p)" using a by (simp_all add: entry_fits_def)
  have "\<not> add_overflows (ds_last_sequence s) 1" "sequence = ds_last_sequence s + 1"
    using a(5) by (auto simp: checked_add_def split: if_splits)
  then show "sequence = ds_last_sequence s + 1" "ds_last_sequence s < sequence"
    by (auto simp: add_overflows_def word_less_nat_alt unat_word_ariths)
qed

lemma sorted_snoc_last: "sorted (x # xs) \<Longrightarrow> last (x # xs) \<le> y \<Longrightarrow> sorted ((x # xs) @ [y])"
  by (induction xs arbitrary: x) fastforce+

lemma append_accepted:
  assumes inv: "store_inv s h" and run: "store_append p s h = (Inr sequence, s', h')"
  shows "store_inv s' h'" "acknowledged s' h' = acknowledged s h @ encode_entry (sequence, p)"
    "ds_limits s' = ds_limits s" "ds_snapshot_sequence s' = ds_snapshot_sequence s"
    "entry_fits (ds_limits s) (sequence, p)" "ds_last_sequence s < sequence" "ds_last_sequence s' = sequence"
    "ds_journal_degraded s' = ds_journal_degraded s" "ds_journal s' = Some (ds_journal_bytes s')"
proof -
  have chk: "check_append p s = Inr sequence"
    using run by (auto simp: store_append_def split: sum.splits prod.splits)
  note c = check_append_ok [OF chk]
  obtain st s1 h1 where e: "ensure_journal s h = (st, s1, h1)" by (cases "ensure_journal s h") auto
  have ok: "st = ok_status" using run chk e by (cases st) (auto simp: store_append_def)
  note i = ensure_journal_inv [OF inv c(2) e]
  let ?b = "acknowledged s h" and ?e = "journal_header sequence p @ p"
  have len: "length ?b = ds_journal_bytes s" using inv by (simp add: store_inv_def)
  obtain j where s1: "s1 = s\<lparr>ds_journal := j\<rparr>" using i by blast
  have j: "ds_journal s1 = Some (length ?b)" "os_files h1 F_Journal = Some ?b" "ds_journal_bytes s1 = length ?b"
    using i ok len s1 by auto
  obtain st2 p2 h2 where w: "write_flushed F_Journal (journal_header sequence p) p (length ?b) h1 = (st2, p2, h2)"
    by (cases "write_flushed F_Journal (journal_header sequence p) p (length ?b) h1") auto
  have ok2: "st2 = ok_status" using run chk e ok j w by (cases st2) (auto simp: store_append_def split: prod.splits)
  then have f: "os_files h2 F_Journal = Some (?b @ ?e)" "p2 = length (?b @ ?e)"
    using write_flushed_end [OF w j(2)] by auto
  have s': "s' = s1\<lparr>ds_journal := Some p2, ds_last_sequence := sequence, ds_journal_bytes := length (?b @ ?e),
      ds_appended_records := ds_appended_records s1 + 1\<rparr>" "h' = h2"
    using run chk e ok j w ok2 by (auto simp: store_append_def kJournalHeaderBytes_def)
  show a: "acknowledged s' h' = ?b @ encode_entry (sequence, p)"
    using f s' by (simp add: acknowledged_def encode_entry_def)
  show "ds_limits s' = ds_limits s" "ds_snapshot_sequence s' = ds_snapshot_sequence s" "ds_last_sequence s' = sequence"
    "ds_journal_degraded s' = ds_journal_degraded s" "ds_journal s' = Some (ds_journal_bytes s')"
    using s' s1 f(2) by simp_all
  show "entry_fits (ds_limits s) (sequence, p)" "ds_last_sequence s < sequence" using c by simp_all
  obtain entries where en: "journal_image s entries ?b" using inv by (auto simp: store_inv_def)
  have "last (0 # map fst entries) \<le> ds_last_sequence s" using en unfolding journal_image_def by blast
  then have "last (0 # map fst entries) < sequence" using c(4) by (rule le_less_trans)
  moreover have "sorted (0 # map fst entries)" using en by (simp add: journal_image_def)
  ultimately have "sorted ((0 # map fst entries) @ [sequence])"
    by (intro sorted_snoc_last) (auto intro: less_imp_le)
  then have im: "journal_image s' (entries @ [(sequence, p)]) (?b @ encode_entry (sequence, p))"
    using en c(3) s' s1 by (simp add: journal_image_def)
  show "store_inv s' h'"
    unfolding store_inv_def a
    using inv im c(1,4) s' s1 f a by (auto simp: store_inv_def encode_entry_def)
qed

lemma append_refused:
  assumes inv: "store_inv s h" and run: "store_append p s h = (Inl e, s', h')"
  shows "store_inv s' h'" "acknowledged s' h' = acknowledged s h" "ds_limits s' = ds_limits s"
    "ds_snapshot_sequence s' = ds_snapshot_sequence s" "ds_last_sequence s' = ds_last_sequence s"
    "ds_journal_bytes s' = ds_journal_bytes s"
proof -
  have "store_inv s' h' \<and> acknowledged s' h' = acknowledged s h \<and> ds_limits s' = ds_limits s \<and>
    ds_snapshot_sequence s' = ds_snapshot_sequence s \<and> ds_last_sequence s' = ds_last_sequence s \<and>
    ds_journal_bytes s' = ds_journal_bytes s"
  proof (cases "check_append p s")
    case (Inl x)
    then show ?thesis using run inv by (simp add: store_append_def)
  next
    case (Inr sequence)
    note c = check_append_ok [OF Inr]
    obtain st s1 h1 where e: "ensure_journal s h = (st, s1, h1)" by (cases "ensure_journal s h") auto
    note i = ensure_journal_inv [OF inv c(2) e]
    let ?b = "acknowledged s h"
    have len: "length ?b = ds_journal_bytes s" using inv by (simp add: store_inv_def)
    obtain j where s1: "s1 = s\<lparr>ds_journal := j\<rparr>" using i by blast
    show ?thesis
    proof (cases st)
      case (Inl x)
      then show ?thesis using run Inr e i s1 by (auto simp: store_append_def)
    next
      case ok: (Inr u)
      have j: "ds_journal s1 = Some (length ?b)" "os_files h1 F_Journal = Some ?b" "ds_journal_bytes s1 = length ?b"
        using i ok len s1 by auto
      obtain st2 p2 h2 where w: "write_flushed F_Journal (journal_header sequence p) p (length ?b) h1 = (st2, p2, h2)"
        by (cases "write_flushed F_Journal (journal_header sequence p) p (length ?b) h1") auto
      obtain x where bad: "st2 = Inl x" using run Inr e ok j w by (cases st2) (auto simp: store_append_def)
      obtain junk where f: "os_files h2 F_Journal = Some (?b @ junk)" using write_flushed_end [OF w j(2)] by auto
      obtain st3 p3 h3 where tr: "truncate_file F_Journal (length ?b) h2 = (st3, p3, h3)"
        by (cases "truncate_file F_Journal (length ?b) h2") auto
      note g = truncate_journal [OF tr f]
      have h': "h' = h3" "ds_journal_bytes s' = length ?b" "ds_limits s' = ds_limits s"
          "ds_snapshot_sequence s' = ds_snapshot_sequence s" "ds_last_sequence s' = ds_last_sequence s" "ds_opened s' = ds_opened s"
        using run Inr e ok j w bad tr s1 len by (auto simp: store_append_def roll_back_def split: sum.splits)
      have deg: "ds_journal_degraded s' \<or> (ds_journal s' = Some (length ?b) \<and> st3 = ok_status)"
        using run Inr e ok j w bad tr s1 g by (auto simp: store_append_def roll_back_def split: sum.splits)
      have a: "acknowledged s' h' = ?b"
        using g f h' by (auto simp: acknowledged_def)
      have st3: "st3 = ok_status \<Longrightarrow> os_files h' F_Journal = Some ?b" using g h' by simp
      have "journal_image s' entries d = journal_image s entries d" for entries d
        using h' by (simp add: journal_image_def)
      then have "store_inv s' h'"
        unfolding store_inv_def a using inv h' deg st3 len by (auto simp: store_inv_def)
      then show ?thesis using a h' len by simp
    qed
  qed
  then show "store_inv s' h'" "acknowledged s' h' = acknowledged s h" "ds_limits s' = ds_limits s"
    "ds_snapshot_sequence s' = ds_snapshot_sequence s" "ds_last_sequence s' = ds_last_sequence s"
    "ds_journal_bytes s' = ds_journal_bytes s"
    by simp_all
qed

section \<open>Lemmas: the store as a durable log\<close>

lemma append_other_files:
  assumes "store_append p s h = (r, s', h')" "name \<noteq> F_Journal"
  shows "os_files h' name = os_files h name"
proof -
  have w: "write_file F_Journal d q h1 = (st, q', h2) \<Longrightarrow> os_files h2 name = os_files h1 name" for d q h1 st q' h2
    using assms(2) by (auto simp: write_file_def split: option.splits prod.splits)
  have fl: "flush_file h1 = (st, h2) \<Longrightarrow> os_files h2 = os_files h1" for h1 st h2
    by (auto simp: flush_file_def split: prod.splits bool.splits dest: syscall_eq)
  have wf: "write_flushed F_Journal a b q h1 = (st, q', h2) \<Longrightarrow> os_files h2 name = os_files h1 name" for a b q h1 st q' h2
    by (auto simp: write_flushed_def split: prod.splits sum.splits dest!: w fl)
  have tr: "truncate_file F_Journal n h1 = (st, q', h2) \<Longrightarrow> os_files h2 name = os_files h1 name" for n h1 st q' h2
    using assms(2) by (auto simp: truncate_file_def ftruncate_def split: prod.splits bool.splits dest!: syscall_eq fl)
  have ej: "ensure_journal s1 h1 = (st, s2, h2) \<Longrightarrow> os_files h2 name = os_files h1 name" for s1 h1 st s2 h2
    using assms(2) by (auto simp: ensure_journal_def split: if_splits prod.splits sum.splits dest!: open_for_append_journal(2))
  show ?thesis
    using assms(1) by (auto simp: store_append_def roll_back_def split: sum.splits prod.splits dest!: wf tr ej)
qed

lemma scan_clean:
  assumes "journal_image s entries data"
  shows "\<exists>es'. scan_loop (ds_limits s) snap fsize (mk_scanner data) 0 empty_scan [] =
    (Inr ((adopt_entries snap 0 0 entries empty_scan)\<lparr>jn_last_sequence := last (0 # map fst entries)\<rparr>), es')"
proof -
  have "parse_record (ds_limits s) [] = SR_End" by (simp add: parse_record_def Let_def)
  then show ?thesis
    using scan_loop_entries [of "mk_scanner data" entries "[]" "ds_limits s" 0 "[]" snap fsize empty_scan] assms
    by (simp add: journal_image_def finish_scan_def unread_def mk_scanner_def)
qed

lemma scanned_records_image:
  assumes "journal_image s entries data"
  shows "scanned_records (ds_limits s) snap data = adopted snap 0 entries"
proof -
  obtain es' where "scan_loop (ds_limits s) snap (length data) (mk_scanner data) 0 empty_scan [] =
    (Inr ((adopt_entries snap 0 0 entries empty_scan)\<lparr>jn_last_sequence := last (0 # map fst entries)\<rparr>), es')"
    using scan_clean [OF assms] by blast
  then show ?thesis unfolding scanned_records_def by (simp add: adopt_entries_fields empty_scan_def)
qed

lemma append_image:
  assumes inv: "store_inv s h" and run: "store_append p s h = (Inr sequence, s', h')"
    and im: "journal_image s entries (acknowledged s h)"
  shows "journal_image s' (entries @ [(sequence, p)]) (acknowledged s' h')"
    "adopted (ds_snapshot_sequence s) 0 (entries @ [(sequence, p)]) = adopted (ds_snapshot_sequence s) 0 entries @ [p]"
proof -
  note a = append_accepted [OF inv run]
  have le: "last (0 # map fst entries) \<le> ds_last_sequence s" "sorted (0 # map fst entries)"
    using im unfolding journal_image_def by blast+
  then have lt: "last (0 # map fst entries) < sequence" using a(6) by (auto intro: le_less_trans)
  then have "sorted ((0 # map fst entries) @ [sequence])" by (intro sorted_snoc_last le) simp
  then show "journal_image s' (entries @ [(sequence, p)]) (acknowledged s' h')"
    using im a by (simp add: journal_image_def)
  have "ds_snapshot_sequence s \<le> ds_last_sequence s" using inv by (simp add: store_inv_def)
  then have "\<not> sequence \<le> ds_snapshot_sequence s" using a(6) by simp
  then show "adopted (ds_snapshot_sequence s) 0 (entries @ [(sequence, p)]) = adopted (ds_snapshot_sequence s) 0 entries @ [p]"
    using lt by (auto simp: adopted_append simp del: last.simps)
qed

lemma sink_refused_compaction [simp]: "sink_compact (Some (Inl e)) k = k"
  by (simp add: sink_compact_def)

lemma snapshot_refused_inside: "co_inside c \<Longrightarrow> snapshot_payload c = Inl InvalidState"
  by (simp add: snapshot_payload_def guarded_view_def)

interpretation store: durable_log "sink_persist (Some (Inl InvalidState))" store_log "store_sound l" for l
proof
  fix k k' :: store_sink and data u
  assume s: "store_sound l k" and run: "sink_persist (Some (Inl InvalidState)) data k = (Inr u, k')"
  have inv: "store_inv (ss_store k) (ss_host k)" using s by (simp add: store_sound_def)
  obtain sequence s' h' where a: "store_append data (ss_store k) (ss_host k) = (Inr sequence, s', h')"
    and k': "ss_store k' = s'" "ss_host k' = h'"
    using run by (auto simp: sink_persist_def split: sum.splits prod.splits)
  obtain entries where im: "journal_image (ss_store k) entries (acknowledged (ss_store k) (ss_host k))"
    using inv by (auto simp: store_inv_def)
  note b = append_accepted [OF inv a] append_image [OF inv a im]
  have "store_log k' = store_log k @ [data]"
    using scanned_records_image [OF im, of "ds_snapshot_sequence (ss_store k)"]
      scanned_records_image [OF b(10), of "ds_snapshot_sequence (ss_store k)"] b(3,4,11)
    by (simp add: store_log_def k')
  moreover have "store_sound l k'"
    using s b(1,3,4) append_other_files [OF a] by (simp add: store_sound_def k')
  ultimately show "store_sound l k' \<and> store_log k' = store_log k @ [data]" by simp
next
  fix k k' :: store_sink and data e
  assume s: "store_sound l k" and run: "sink_persist (Some (Inl InvalidState)) data k = (Inl e, k')"
  have inv: "store_inv (ss_store k) (ss_host k)" using s by (simp add: store_sound_def)
  obtain s' h' where a: "store_append data (ss_store k) (ss_host k) = (Inl e, s', h')"
    and k': "ss_store k' = s'" "ss_host k' = h'"
    using run by (auto simp: sink_persist_def split: sum.splits prod.splits)
  note b = append_refused [OF inv a]
  show "store_sound l k' \<and> store_log k' = store_log k"
    using s b append_other_files [OF a] by (simp add: store_sound_def store_log_def k')
qed

section \<open>Lemmas: reopening\<close>

lemma syscall_benign:
  assumes "benign h"
  obtains h1 where "syscall h = (True, h1)" "os_files h1 = os_files h" "benign h1"
proof (cases "os_events h")
  case Nil
  then show thesis using that [of h] by (simp add: syscall_def pop_event_def assms)
next
  case (Cons e es)
  then show thesis using that [of "h\<lparr>os_events := es\<rparr>"] assms by (auto simp: syscall_def pop_event_def benign_def)
qed

lemma missing_snapshot:
  assumes "benign h" "os_files h name = None"
  obtains h1 where "decode_snapshot_file name l h = (Inl InvalidArgument, h1)" "os_files h1 = os_files h" "benign h1"
proof -
  obtain h1 where "syscall h = (True, h1)" "os_files h1 = os_files h" "benign h1" using syscall_benign [OF assms(1)] by blast
  then show thesis using that [of h1] assms(2) by (simp add: decode_snapshot_file_def open_for_read_def)
qed

lemma no_snapshot:
  assumes "benign h" "os_files h F_Primary = None" "os_files h F_Previous = None"
  obtains h1 where "adopt_snapshot l h = (Inr None, h1)" "os_files h1 = os_files h" "benign h1"
proof -
  obtain h1 where h1: "decode_snapshot_file F_Primary l h = (Inl InvalidArgument, h1)" "os_files h1 = os_files h" "benign h1"
    using missing_snapshot [OF assms(1,2)] by blast
  obtain h2 where h2: "decode_snapshot_file F_Previous l h1 = (Inl InvalidArgument, h2)" "os_files h2 = os_files h1" "benign h2"
    using missing_snapshot [of h1 F_Previous l] h1 assms(3) by auto
  show thesis using that [of h2] h1 h2 by (simp add: adopt_snapshot_def)
qed

lemma parse_junk:
  "torn_write l junk \<Longrightarrow> parse_record l junk = (if junk = [] then SR_End else SR_Refused JT_TornTail)"
  using parse_torn [of l _ junk] by (cases "junk = []") (auto simp: torn_write_def, simp add: parse_record_def)

lemma journal_small_enough: "n \<le> 4 * unat (max_state_bytes l) \<Longrightarrow> \<not> journal_too_large l n"
  by (auto simp: journal_too_large_def checked_mul_def mul_overflows_def unat_word_ariths not_less word_le_nat_alt
      split: if_splits)

lemma scan_journal_image:
  assumes h: "benign h" "os_files h F_Journal = Some (data @ junk)" and im: "journal_image s entries data"
    and junk: "torn_write (ds_limits s) junk" and small: "\<not> journal_too_large (ds_limits s) (length (data @ junk))"
  shows "\<exists>scan h'. scan_journal (ds_limits s) snap h = (Inr (scan, True), h') \<and> os_files h' = os_files h \<and> benign h' \<and>
    jn_records scan = adopted snap 0 entries \<and> jn_replayable_bytes scan = length data \<and>
    jn_last_sequence scan = last (0 # map fst entries) \<and> jn_tail scan = (if junk = [] then JT_Clean else JT_TornTail) \<and>
    jn_bytes_discarded scan = (if junk = [] then jn_bytes_discarded (adopt_entries snap 0 0 entries empty_scan) else length junk)"
proof -
  obtain h1 where h1: "syscall h = (True, h1)" "os_files h1 = os_files h" "benign h1" using syscall_benign [OF h(1)] by blast
  obtain h2 where h2: "syscall h1 = (True, h2)" "os_files h2 = os_files h1" "benign h2" using syscall_benign [OF h1(3)] by blast
  have p: "parse_record (ds_limits s) junk = (if junk = [] then SR_End else SR_Refused JT_TornTail)" by (rule parse_junk [OF junk])
  have d: "data = concat (map encode_entry entries)" using im by (simp add: journal_image_def)
  let ?scan = "finish_scan (parse_record (ds_limits s) junk) (length (data @ junk)) (length data) (last (0 # map fst entries))
       (adopt_entries snap 0 0 entries empty_scan)"
  obtain es where es: "scan_loop (ds_limits s) snap (length (data @ junk)) (mk_scanner (data @ junk)) 0 empty_scan (os_events h2) =
    (Inr ?scan, es)" "set es \<subseteq> set (os_events h2)"
  proof -
    have "unread (mk_scanner (data @ junk)) = concat (map encode_entry entries) @ junk" "js_position (mk_scanner (data @ junk)) = 0"
      using d by (simp_all add: unread_def mk_scanner_def)
    moreover have "list_all (entry_fits (ds_limits s)) entries" "sorted (0 # map fst entries)"
      using im by (simp_all add: journal_image_def)
    moreover have "parse_record (ds_limits s) junk \<noteq> SR_Record a b" for a b using p by simp
    moreover have "IO_Fail \<notin> set (os_events h2)" using h2(3) by (simp add: benign_def)
    ultimately show thesis
      using that d scan_loop_entries [of "mk_scanner (data @ junk)" entries junk "ds_limits s" 0 "os_events h2" snap "length (data @ junk)" empty_scan]
      by (metis add_0)
  qed
  have run: "scan_journal (ds_limits s) snap h = (Inr (?scan, True), h2\<lparr>os_events := es\<rparr>)"
    using h h1 h2 es small by (simp add: scan_journal_def open_for_read_def file_size_def)
  have "jn_replayable_bytes (adopt_entries snap 0 0 entries empty_scan) = length data"
    using d by (simp add: adopt_entries_fields empty_scan_def)
  then show ?thesis
    using run h1 h2 es(2) p
    by (intro exI [of _ ?scan] exI [of _ "h2\<lparr>os_events := es\<rparr>"])
      (auto simp: benign_def finish_scan_def scan_refused_def adopt_entries_fields(1,2) empty_scan_def)
qed

lemma open_for_append_benign:
  assumes "benign h" "os_files h name = Some content"
  shows "\<exists>h'. open_for_append name offset h = (Inr offset, h') \<and> os_files h' = (os_files h)(name \<mapsto> resized offset content) \<and> benign h'"
proof -
  obtain h1 where h1: "syscall h = (True, h1)" "os_files h1 = os_files h" "benign h1" using syscall_benign [OF assms(1)] by blast
  let ?h2 = "set_file name (Some content) h1"
  have "benign ?h2" using h1(3) by (simp add: benign_def set_file_def)
  then obtain h3 where h3: "syscall ?h2 = (True, h3)" "os_files h3 = os_files ?h2" "benign h3" using syscall_benign by blast
  let ?h4 = "set_file name (Some (resized offset content)) h3"
  have "benign ?h4" using h3(3) by (simp add: benign_def set_file_def)
  then obtain h5 where h5: "syscall ?h4 = (True, h5)" "os_files h5 = os_files ?h4" "benign h5" using syscall_benign by blast
  show ?thesis using h1 h3 h5 assms(2) by (simp add: open_for_append_def ftruncate_def)
qed

lemma store_reopen:
  assumes h: "benign h" "os_files h F_Primary = None" "os_files h F_Previous = None" "os_files h F_Journal = Some (data @ junk)"
    and im: "journal_image s entries data" and junk: "torn_write (ds_limits s) junk"
    and small: "\<not> journal_too_large (ds_limits s) (length (data @ junk))" and dir: "dir \<noteq> []"
  shows "\<exists>s' h'. store_open (mk_store dir (ds_limits s)) h = (ok_status, s', h') \<and> ds_records s' = adopted 0 0 entries \<and>
    store_inv s' h' \<and> acknowledged s' h' = data \<and> os_files h' F_Journal = Some data \<and>
    rr_tail (ds_report s') = (if junk = [] then JT_Clean else JT_TornTail) \<and>
    ds_limits s' = ds_limits s \<and> ds_snapshot_sequence s' = 0 \<and> os_files h' F_Primary = None \<and> os_files h' F_Previous = None"
proof -
  let ?l = "ds_limits s"
  obtain h1 where h1: "syscall h = (True, h1)" "os_files h1 = os_files h" "benign h1" using syscall_benign [OF h(1)] by blast
  obtain h2 where h2: "adopt_snapshot ?l h1 = (Inr None, h2)" "os_files h2 = os_files h1" "benign h2"
    using no_snapshot [of h1 ?l] h1 h by auto
  have j2: "os_files h2 F_Journal = Some (data @ junk)" using h1 h2 h by simp
  obtain scan h3 where sc: "scan_journal ?l 0 h2 = (Inr (scan, True), h3)" "os_files h3 = os_files h2" "benign h3"
      "jn_records scan = adopted 0 0 entries" "jn_replayable_bytes scan = length data"
      "jn_last_sequence scan = last (0 # map fst entries)" "jn_tail scan = (if junk = [] then JT_Clean else JT_TornTail)"
    using scan_journal_image [OF h2(3) j2 im junk small, of 0] by blast
  obtain h4 where h4: "open_for_append F_Journal (length data) h3 = (Inr (length data), h4)"
      "os_files h4 = (os_files h3)(F_Journal \<mapsto> resized (length data) (data @ junk))"
    using open_for_append_benign [OF sc(3), of F_Journal "data @ junk" "length data"] sc j2 by auto
  have f4: "os_files h4 F_Journal = Some data" using h4 by simp
  let ?s = "(scanned_store scan True (snapshot_store None (mk_store dir ?l)))\<lparr>ds_journal := Some (length data), ds_opened := True\<rparr>"
  have run: "store_open (mk_store dir ?l) h = (ok_status, ?s, h4)"
    using dir h1 h2 sc h4 by (simp add: store_open_def snapshot_store_def scanned_store_def mk_store_def Let_def)
  have s: "ds_limits ?s = ?l" "ds_snapshot_sequence ?s = 0" "ds_journal_bytes ?s = length data" "ds_records ?s = adopted 0 0 entries"
      "ds_last_sequence ?s = last (0 # map fst entries)" "rr_tail (ds_report ?s) = (if junk = [] then JT_Clean else JT_TornTail)"
      "ds_opened ?s" "ds_journal ?s = Some (length data)"
    using sc by (simp_all add: snapshot_store_def scanned_store_def scanned_report_def mk_store_def Let_def max_def)
  have a: "acknowledged ?s h4 = data" using f4 s(3) by (simp add: acknowledged_def)
  have "journal_image ?s entries data" using im s unfolding journal_image_def by (simp del: last.simps)
  then have "store_inv ?s h4" unfolding store_inv_def a using s f4 by auto
  then show ?thesis
    using run s a f4 h h1 h2 sc h4 by (intro exI [of _ ?s] exI [of _ h4]) simp
qed

section \<open>Lemmas: snapshots\<close>

lemma snapshot_header_eq:
  "snapshot_header sequence state =
     (let front = kSnapshotMagic @ le_bytes 4 kSnapshotVersion @ le_bytes 4 (0 :: u32) @ le_bytes 8 sequence @
        le_bytes 8 (word_of_nat (length state) :: u64)
      in front @ le_bytes 4 (crc32c front) @ le_bytes 4 (crc32c state) @ sha256 state)"
proof -
  let ?m = kSnapshotMagic and ?a = "le_bytes 4 kSnapshotVersion" and ?b = "le_bytes 4 (0 :: u32)" and ?c = "le_bytes 8 sequence"
    and ?d = "le_bytes 8 (word_of_nat (length state) :: u64)"
  have m: "length ?m = 8" by (simp add: kSnapshotMagic_def)
  have h0: "store_bytes (replicate kSnapshotHeaderBytes 0) 0 ?m = ?m @ replicate 64 0"
    using store_bytes_append [of "[]" 0 "replicate 72 0" ?m] m by (simp add: kSnapshotHeaderBytes_def)
  have h1: "store_u32 (?m @ replicate 64 0) 8 kSnapshotVersion = (?m @ ?a) @ replicate 60 0"
    using m by (simp add: store_u32_def store_bytes_append)
  have h2: "store_u32 ((?m @ ?a) @ replicate 60 0) 12 0 = (?m @ ?a @ ?b) @ replicate 56 0"
    using m by (subst store_u32_def, subst store_bytes_append) simp_all
  have h3: "store_u64 ((?m @ ?a @ ?b) @ replicate 56 0) 16 sequence = (?m @ ?a @ ?b @ ?c) @ replicate 48 0"
    using m by (subst store_u64_def, subst store_bytes_append) simp_all
  have h4: "store_u64 ((?m @ ?a @ ?b @ ?c) @ replicate 48 0) 24 (word_of_nat (length state)) = (?m @ ?a @ ?b @ ?c @ ?d) @ replicate 40 0"
    using m by (subst store_u64_def, subst store_bytes_append) simp_all
  have t: "take 32 ((?m @ ?a @ ?b @ ?c @ ?d) @ replicate 40 0) = ?m @ ?a @ ?b @ ?c @ ?d" using m by simp
  have h5: "store_u32 ((?m @ ?a @ ?b @ ?c @ ?d) @ replicate 40 0) 32 v = (?m @ ?a @ ?b @ ?c @ ?d @ le_bytes 4 v) @ replicate 36 0" for v
    using m by (subst store_u32_def, subst store_bytes_append) simp_all
  have h6: "store_u32 ((?m @ ?a @ ?b @ ?c @ ?d @ le_bytes 4 v) @ replicate 36 0) 36 w =
      (?m @ ?a @ ?b @ ?c @ ?d @ le_bytes 4 v @ le_bytes 4 w) @ replicate 32 0" for v w
    using m by (subst store_u32_def, subst store_bytes_append) simp_all
  have h7: "store_bytes ((?m @ ?a @ ?b @ ?c @ ?d @ le_bytes 4 v @ le_bytes 4 w) @ replicate 32 0) 40 (sha256 state) =
      ?m @ ?a @ ?b @ ?c @ ?d @ le_bytes 4 v @ le_bytes 4 w @ sha256 state" for v w
    using m by (subst store_bytes_append) simp_all
  show ?thesis unfolding snapshot_header_def Let_def h0 h1 h2 h3 h4 t h5 h6 h7 by simp
qed

lemma length_snapshot_header [simp]: "length (snapshot_header sequence state) = 72"
  by (simp add: snapshot_header_eq Let_def kSnapshotMagic_def)

lemma snapshot_header_fields:
  assumes "h = snapshot_header sequence state"
  shows "take 8 h = kSnapshotMagic" "load_u32 h 8 = kSnapshotVersion" "load_u32 h 12 = 0" "load_u64 h 16 = sequence"
    "load_u64 h 24 = word_of_nat (length state)" "load_u32 h 32 = crc32c (take 32 h)" "load_u32 h 36 = crc32c state"
    "take 32 (drop 40 h) = sha256 state"
proof -
  let ?m = kSnapshotMagic and ?a = "le_bytes 4 kSnapshotVersion" and ?b = "le_bytes 4 (0 :: u32)" and ?c = "le_bytes 8 sequence"
    and ?d = "le_bytes 8 (word_of_nat (length state) :: u64)"
  let ?e = "le_bytes 4 (crc32c (?m @ ?a @ ?b @ ?c @ ?d))" and ?f = "le_bytes 4 (crc32c state)" and ?g = "sha256 state"
  have h: "h = ?m @ ?a @ ?b @ ?c @ ?d @ ?e @ ?f @ ?g" using assms by (simp add: snapshot_header_eq Let_def)
  have m: "length ?m = 8" by (simp add: kSnapshotMagic_def)
  show "take 8 h = kSnapshotMagic" using m by (simp add: h)
  show "load_u32 h 8 = kSnapshotVersion" using m by (simp add: h)
  show "load_u32 h 12 = 0" using m load_le(1) [of "?m @ ?a" 12 0 "?c @ ?d @ ?e @ ?f @ ?g"] by (simp add: h)
  show "load_u64 h 16 = sequence" using m load_le(2) [of "?m @ ?a @ ?b" 16 sequence "?d @ ?e @ ?f @ ?g"] by (simp add: h)
  show "load_u64 h 24 = word_of_nat (length state)"
    using m load_le(2) [of "?m @ ?a @ ?b @ ?c" 24 "word_of_nat (length state)" "?e @ ?f @ ?g"] by (simp add: h)
  have "take 32 h = ?m @ ?a @ ?b @ ?c @ ?d" using m by (simp add: h)
  then show "load_u32 h 32 = crc32c (take 32 h)"
    using m load_le(1) [of "?m @ ?a @ ?b @ ?c @ ?d" 32 "crc32c (?m @ ?a @ ?b @ ?c @ ?d)" "?f @ ?g"] by (simp add: h)
  show "load_u32 h 36 = crc32c state"
    using m load_le(1) [of "?m @ ?a @ ?b @ ?c @ ?d @ ?e" 36 "crc32c state" ?g] by (simp add: h)
  show "take 32 (drop 40 h) = sha256 state" using m by (simp add: h)
qed

lemma read_exact_benign:
  assumes "benign h" "wanted \<le> length rest"
  shows "\<exists>h'. read_exact wanted rest h = (Inr (take wanted rest, drop wanted rest), h') \<and> os_files h' = os_files h \<and> benign h'"
proof -
  obtain p es where r: "read_upto wanted rest (os_events h) = (Inr p, es)" "set es \<subseteq> set (os_events h)"
    using read_upto_ok [of "os_events h" wanted rest] assms(1) by (auto simp: benign_def)
  then have "p = (take wanted rest, drop wanted rest)" using read_upto_take by (cases p) auto
  then show ?thesis using r assms by (auto simp: read_exact_def benign_def)
qed

lemma decode_written_snapshot:
  assumes h: "benign h" "os_files h name = Some (snapshot_file sequence state)"
    and fits: "length state \<le> unat (max_state_bytes l)" "length state + 72 < 2 ^ 64"
  shows "\<exists>h'. decode_snapshot_file name l h = (Inr \<lparr>si_sequence = sequence, si_payload = state\<rparr>, h') \<and>
    os_files h' = os_files h \<and> benign h'"
proof -
  let ?h = "snapshot_header sequence state" and ?f = "snapshot_file sequence state"
  note f = snapshot_header_fields [OF refl, of sequence state]
  obtain h1 where h1: "syscall h = (True, h1)" "os_files h1 = os_files h" "benign h1" using syscall_benign [OF h(1)] by blast
  obtain h2 where h2: "syscall h1 = (True, h2)" "os_files h2 = os_files h1" "benign h2" using syscall_benign [OF h1(3)] by blast
  obtain h3 where h3: "read_exact 72 ?f h2 = (Inr (?h, state), h3)" "os_files h3 = os_files h2" "benign h3"
    using read_exact_benign [OF h2(3), of 72 ?f] by (auto simp: snapshot_file_def)
  obtain h4 where h4: "read_exact (length state) state h3 = (Inr (state, []), h4)" "os_files h4 = os_files h3" "benign h4"
    using read_exact_benign [OF h3(3), of "length state" state] by auto
  have n: "unat (word_of_nat (length state) :: u64) = length state"
    using fits(2) by (simp add: unat_of_nat)
  have add: "checked_add (word_of_nat kSnapshotHeaderBytes) (word_of_nat (length state)) = Inr (72 + word_of_nat (length state))"
    "unat (72 + word_of_nat (length state) :: u64) = 72 + length state"
    using fits(2) n by (simp_all add: checked_add_def add_overflows_iff kSnapshotHeaderBytes_def unat_word_ariths)
  have "check_snapshot_header ?h (length ?f) l = Inr (length state)"
    using f fits(1) n add by (simp add: check_snapshot_header_def snapshot_file_def word_less_nat_alt)
  moreover have "check_snapshot_payload ?h state = Inr \<lparr>si_sequence = sequence, si_payload = state\<rparr>"
    using f by (simp add: check_snapshot_payload_def)
  ultimately show ?thesis
    using h h1 h2 h3 h4 by (simp add: decode_snapshot_file_def open_for_read_def file_size_def kSnapshotHeaderBytes_def snapshot_file_def)
qed

section \<open>Lemmas: compaction\<close>

lemma remove_quietly_files: "n \<noteq> name \<Longrightarrow> os_files (remove_quietly name h) n = os_files h n"
  by (auto simp: remove_quietly_def split: prod.split bool.split dest: syscall_eq)

lemma rename_file_files:
  assumes "rename_file source destination h = (ok, h')" "source \<noteq> destination"
  shows "\<not> ok \<Longrightarrow> os_files h' = os_files h"
    "ok \<Longrightarrow> os_files h' = (os_files h)(destination := os_files h source, source := None)"
  using assms by (auto simp: rename_file_def split: prod.splits bool.splits dest!: syscall_eq)

lemma replace_file_files:
  assumes "replace_file F_Temporary F_Primary F_Previous h = (st, h')" "os_files h F_Temporary = Some new"
  shows "snapshot_kept new h h'" "st = ok_status \<Longrightarrow> os_files h' F_Primary = Some new" "os_files h' F_Journal = os_files h F_Journal"
proof -
  obtain present h1 where p: "path_exists F_Primary h = (present, h1)" by fastforce
  have f1: "os_files h1 = os_files h" "present \<Longrightarrow> os_files h F_Primary \<noteq> None"
    using p by (auto simp: path_exists_def split: prod.splits dest: syscall_eq)
  obtain ok h2 where r: "(if present then rename_file F_Primary F_Previous h1 else (True, h1)) = (ok, h2)" by fastforce
  obtain ok3 h3 where r3: "rename_file F_Temporary F_Primary h2 = (ok3, h3)" by fastforce
  have f2: "\<not> ok \<Longrightarrow> os_files h2 = os_files h"
      "ok \<Longrightarrow> os_files h2 = os_files h \<or>
        os_files h F_Primary \<noteq> None \<and> os_files h2 = (os_files h)(F_Previous := os_files h F_Primary, F_Primary := None)"
    using r rename_file_files [of F_Primary F_Previous h1 ok h2] f1 by (auto split: if_splits)
  note f3 = rename_file_files [OF r3]
  have res: "(st, h') = (if \<not> ok then (Inl AtomicReplaceFailed, h2) else if \<not> ok3 then (Inl AtomicReplaceFailed, h3) else (ok_status, h3))"
    using assms(1) p r r3 by (simp add: replace_file_def split: bool.splits)
  have t2: "os_files h2 F_Temporary = Some new" using f2 assms(2) by (cases ok) auto
  have j2: "os_files h2 F_Journal = os_files h F_Journal" using f2 by (cases ok) auto
  show "snapshot_kept new h h'"
    using res f2 f3 t2 by (cases ok; cases ok3) (auto simp: snapshot_kept_def)
  show "st = ok_status \<Longrightarrow> os_files h' F_Primary = Some new"
    using res f3 t2 by (cases ok; cases ok3) auto
  show "os_files h' F_Journal = os_files h F_Journal"
    using res f3 j2 by (cases ok; cases ok3) auto
qed

lemma write_snapshot_files:
  assumes "write_snapshot sequence state h = (st, h')"
  shows "snapshot_kept (snapshot_file sequence state) h h'"
    "st = ok_status \<Longrightarrow> os_files h' F_Primary = Some (snapshot_file sequence state)"
    "os_files h' F_Journal = os_files h F_Journal"
proof -
  let ?new = "snapshot_file sequence state"
  obtain st1 h1 where c: "create_for_write F_Temporary h = (st1, h1)" by fastforce
  have f1: "\<And>n. n \<noteq> F_Temporary \<Longrightarrow> os_files h1 n = os_files h n" "st1 = ok_status \<Longrightarrow> os_files h1 F_Temporary = Some []"
    using c by (auto simp: create_for_write_def split: prod.splits bool.splits dest!: syscall_eq)
  obtain st2 p2 h2 where w: "write_flushed F_Temporary (snapshot_header sequence state) state 0 h1 = (st2, p2, h2)"
    by (cases "write_flushed F_Temporary (snapshot_header sequence state) state 0 h1") auto
  have f2: "st1 = ok_status \<Longrightarrow> n \<noteq> F_Temporary \<Longrightarrow> os_files h2 n = os_files h n"
      "st1 = ok_status \<Longrightarrow> st2 = ok_status \<Longrightarrow> os_files h2 F_Temporary = Some ?new" for n
    using write_flushed_end [of F_Temporary "snapshot_header sequence state" state "[]" h1 st2 p2 h2] w f1 by (auto simp: snapshot_file_def)
  obtain st3 h3 where r: "replace_file F_Temporary F_Primary F_Previous h2 = (st3, h3)" by fastforce
  have "write_snapshot sequence state h = (case st1 of Inl e \<Rightarrow> (Inl e, h1) | Inr _ \<Rightarrow> (case st2 of Inl e \<Rightarrow> (Inl PersistenceFailure, remove_quietly F_Temporary h2)
      | Inr _ \<Rightarrow> (case st3 of Inl e \<Rightarrow> (Inl e, remove_quietly F_Temporary h3) | Inr _ \<Rightarrow> (ok_status, h3))))"
    using c w r by (cases st1; cases st2; cases st3) (simp_all add: write_snapshot_def)
  then consider e where "st1 = Inl e" "h' = h1" "st = Inl e"
    | e where "st1 = ok_status" "st2 = Inl e" "h' = remove_quietly F_Temporary h2" "st = Inl PersistenceFailure"
    | e where "st1 = ok_status" "st2 = ok_status" "st3 = Inl e" "h' = remove_quietly F_Temporary h3" "st = Inl e"
    | "st1 = ok_status" "st2 = ok_status" "st3 = ok_status" "h' = h3" "st = ok_status"
    using assms by (cases st1; cases st2; cases st3) auto
  note cases = this
  have k: "st1 = ok_status \<Longrightarrow> snapshot_kept x h2 y = snapshot_kept x h y" for x y
    using f2(1) by (simp add: snapshot_kept_def)
  have q: "snapshot_kept x y (remove_quietly F_Temporary z) = snapshot_kept x y z" for x y z
    by (simp add: snapshot_kept_def remove_quietly_files)
  show "snapshot_kept ?new h h'"
    using cases
  proof cases
    case 3
    then show ?thesis using replace_file_files(1) [OF r f2(2)] k q by simp
  next
    case 4
    then show ?thesis using replace_file_files(1) [OF r f2(2)] k by simp
  qed (use f1 f2 in \<open>simp_all add: snapshot_kept_def remove_quietly_files\<close>)
  show "st = ok_status \<Longrightarrow> os_files h' F_Primary = Some ?new"
    using cases
  proof cases
    case 4
    then show "st = ok_status \<Longrightarrow> ?thesis" using replace_file_files(2) [OF r f2(2)] by simp
  qed simp_all
  show "os_files h' F_Journal = os_files h F_Journal"
    using cases
  proof cases
    case 3
    then show ?thesis using replace_file_files(3) [OF r f2(2)] f2 by (simp add: remove_quietly_files)
  next
    case 4
    then show ?thesis using replace_file_files(3) [OF r f2(2)] f2 by simp
  qed (use f1 f2 in \<open>simp_all add: remove_quietly_files\<close>)
qed

lemma compact_files:
  assumes "store_compact state sequence s h = (st, s', h')"
  shows "snapshot_kept (snapshot_file sequence state) h h'"
    "st = ok_status \<Longrightarrow> os_files h' F_Primary = Some (snapshot_file sequence state) \<and> journal_content h' = [] \<and>
       length state \<le> unat (max_state_bytes (ds_limits s)) \<and> sequence \<le> ds_last_sequence s \<and>
       s' = s\<lparr>ds_journal := Some 0, ds_snapshot_sequence := sequence, ds_journal_bytes := 0\<rparr>"
proof -
  obtain st1 h1 where w: "write_snapshot sequence state h = (st1, h1)" by fastforce
  obtain st2 s2 h2 where e: "ensure_journal s h1 = (st2, s2, h2)" by (cases "ensure_journal s h1") auto
  obtain st3 p3 h3 where t: "truncate_file F_Journal 0 h2 = (st3, p3, h3)" by (cases "truncate_file F_Journal 0 h2") auto
  have f2: "n \<noteq> F_Journal \<Longrightarrow> os_files h2 n = os_files h1 n" "\<exists>j. s2 = s\<lparr>ds_journal := j\<rparr>"
    for n
  proof -
    show "n \<noteq> F_Journal \<Longrightarrow> os_files h2 n = os_files h1 n"
      using e by (auto simp: ensure_journal_def split: if_splits prod.splits sum.splits dest: open_for_append_journal(2))
    have same: "\<exists>j. x = x\<lparr>ds_journal := j\<rparr>" for x :: durable_store by (rule exI [of _ "ds_journal x"]) simp
    show "\<exists>j. s2 = s\<lparr>ds_journal := j\<rparr>"
      using e unfolding ensure_journal_def by (auto split: if_splits prod.splits sum.splits intro: same)
  qed
  have fl: "flush_file x = (z, y) \<Longrightarrow> os_files y = os_files x" for x y z
    by (auto simp: flush_file_def split: prod.splits bool.splits dest: syscall_eq)
  have f3: "n \<noteq> F_Journal \<Longrightarrow> os_files h3 n = os_files h2 n" for n
    using t by (auto simp: truncate_file_def ftruncate_def split: prod.splits bool.splits dest!: syscall_eq fl)
  have k: "snapshot_kept new h x = snapshot_kept new h y" if "os_files x F_Primary = os_files y F_Primary" "os_files x F_Previous = os_files y F_Previous" for new x y
    using that by (simp add: snapshot_kept_def)
  have tr: "st3 = ok_status \<Longrightarrow> journal_content h3 = [] \<and> p3 = Some 0"
    using t by (auto simp: truncate_file_def ftruncate_def journal_content_def resized_def
        split: prod.splits bool.splits option.splits dest!: syscall_eq fl)
  note ws = write_snapshot_files [OF w]
  show "snapshot_kept (snapshot_file sequence state) h h'"
    using assms w e t ws(1) f2(1) f3 k [of h2 h1] k [of h3 h2]
    by (auto simp: store_compact_def snapshot_kept_def split: if_splits sum.splits)
  assume ok: "st = ok_status"
  have all: "st1 = ok_status" "st2 = ok_status" "st3 = ok_status" "h' = h3" "length state \<le> unat (max_state_bytes (ds_limits s))"
      "sequence \<le> ds_last_sequence s" "s' = s2\<lparr>ds_journal := p3, ds_snapshot_sequence := sequence, ds_journal_bytes := 0\<rparr>"
    using assms ok w e t by (auto simp: store_compact_def not_less split: if_splits sum.splits)
  show "os_files h' F_Primary = Some (snapshot_file sequence state) \<and> journal_content h' = [] \<and>
       length state \<le> unat (max_state_bytes (ds_limits s)) \<and> sequence \<le> ds_last_sequence s \<and>
       s' = s\<lparr>ds_journal := Some 0, ds_snapshot_sequence := sequence, ds_journal_bytes := 0\<rparr>"
    using ws(2) f2(1) [of F_Primary] f3 [of F_Primary] f2(2) all tr by auto
qed

section \<open>Lemmas: runs of the store\<close>

lemma scan_loop_schedule:
  assumes "IO_Fail \<notin> set es" "IO_Fail \<notin> set es'" "unread sc = unread sc'" "js_position sc = js_position sc'"
  shows "fst (scan_loop l snap fsize sc last_seen scan es) = fst (scan_loop l snap fsize sc' last_seen scan es')"
  using assms
proof (induction "length (unread sc)" arbitrary: sc sc' last_seen scan es es' rule: less_induct)
  case less
  obtain r sc1 es1 where r: "read_record l sc es = (Inr r, sc1, es1)" "set es1 \<subseteq> set es" using read_record_ok [OF less.prems(1)] by blast
  obtain r' sc2 es2 where r': "read_record l sc' es' = (Inr r', sc2, es2)" "set es2 \<subseteq> set es'" using read_record_ok [OF less.prems(2)] by blast
  have eq: "r' = r" using read_record_parse(1) [OF r(1)] read_record_parse(1) [OF r'(1)] less.prems(3) by simp
  show ?case
  proof (cases r)
    case (SR_Record sequence payload)
    have u: "unread sc1 = unread sc2" "js_position sc1 = js_position sc2"
      using read_record_parse(2) [OF r(1) SR_Record] read_record_parse(2) [OF r'(1), of sequence payload] eq SR_Record less.prems(3,4) by auto
    have "length (unread sc1) < length (unread sc)" using read_record_consumes [of l sc es] r SR_Record by blast
    moreover have "IO_Fail \<notin> set es1" "IO_Fail \<notin> set es2" using r(2) r'(2) less.prems by auto
    ultimately have "fst (scan_loop l snap fsize sc1 a b es1) = fst (scan_loop l snap fsize sc2 a b es2)" for a b
      using less.hyps u by blast
    then show ?thesis
      using r r' eq SR_Record u less.prems(4) by (simp add: scan_loop.simps [of l snap fsize sc] scan_loop.simps [of l snap fsize sc'])
  qed (use r r' eq less.prems(4) in \<open>simp_all add: scan_loop.simps [of l snap fsize sc] scan_loop.simps [of l snap fsize sc']\<close>)
qed

lemma write_flushed_benign:
  assumes "benign h" "os_files h name = Some content"
  shows "\<exists>h'. write_flushed name header payload (length content) h = (ok_status, length (content @ header @ payload), h') \<and> benign h'"
proof -
  have w: "\<exists>h'. write_file name data (length x) h1 = (ok_status, length (x @ data), h') \<and> benign h' \<and> os_files h' name = Some (x @ data)"
    if b: "benign h1" and f: "os_files h1 name = Some x" for data x h1
  proof -
    obtain es' where "write_all data (length x) x (os_events h1) = (ok_status, length x + length data, write_at (length x) data x, es')"
        "set es' \<subseteq> set (os_events h1)"
      using write_all_complete [of "os_events h1" "length x" x data] b unfolding benign_def by blast
    then show ?thesis using b f by (auto simp: write_file_def benign_def write_at_end)
  qed
  obtain h1 where h1: "write_file name header (length content) h = (ok_status, length (content @ header), h1)" "benign h1"
      "os_files h1 name = Some (content @ header)" using w [OF assms] by blast
  obtain h2 where h2: "write_file name payload (length (content @ header)) h1 = (ok_status, length ((content @ header) @ payload), h2)" "benign h2"
    using w [OF h1(2,3)] by blast
  obtain h3 where "syscall h2 = (True, h3)" "benign h3" using syscall_benign [OF h2(2)] by blast
  then show ?thesis using h1 h2 by (simp add: write_flushed_def flush_file_def)
qed

lemma ensure_journal_benign:
  assumes "benign h" "store_inv s h"
  shows "\<exists>s1 h1. ensure_journal s h = (ok_status, s1, h1) \<and> benign h1"
proof (cases "ds_journal s")
  case None
  show ?thesis
  proof (cases "os_files h F_Journal")
    case None': None
    have b: "benign (set_file F_Journal x g) = benign g" for x g by (simp add: benign_def set_file_def)
    obtain h1 where h1: "syscall h = (True, h1)" "os_files h1 = os_files h" "benign h1" using syscall_benign [OF assms(1)] by blast
    obtain h2 where h2: "syscall (set_file F_Journal (Some []) h1) = (True, h2)" "benign h2" using syscall_benign b h1(3) by metis
    obtain h3 where "syscall (set_file F_Journal (map_option (resized (ds_journal_bytes s)) (os_files h2 F_Journal)) h2) = (True, h3)" "benign h3"
      using syscall_benign b h2(2) by metis
    then show ?thesis using h1 h2 None None' by (simp add: ensure_journal_def open_for_append_def ftruncate_def)
  next
    case (Some content)
    then show ?thesis using open_for_append_benign [OF assms(1) Some, of "ds_journal_bytes s"] None by (auto simp: ensure_journal_def)
  qed
qed (use assms in \<open>auto simp: ensure_journal_def\<close>)

lemma append_benign:
  assumes h: "benign h" "store_inv s h" and chk: "check_append p s = Inr sequence"
  shows "\<exists>s' h'. store_append p s h = (Inr sequence, s', h') \<and> benign h'"
proof -
  obtain s1 h1 where e: "ensure_journal s h = (ok_status, s1, h1)" "benign h1" using ensure_journal_benign [OF h] by blast
  note i = ensure_journal_inv [OF h(2) check_append_ok(2) [OF chk] e(1)]
  have len: "length (acknowledged s h) = ds_journal_bytes s" using h(2) by (simp add: store_inv_def)
  then obtain h2 where "write_flushed F_Journal (journal_header sequence p) p (the (ds_journal s1)) h1 =
      (ok_status, length (acknowledged s h @ journal_header sequence p @ p), h2)" "benign h2"
    using write_flushed_benign [OF e(2), of F_Journal "acknowledged s h" "journal_header sequence p" p] i by auto
  then show ?thesis using chk e by (simp add: store_append_def)
qed

lemma append_all_log:
  assumes "store_inv s h" "journal_image s entries (acknowledged s h)" "append_all ps s h = (accepted, s', h')"
  shows "store_inv s' h' \<and> ds_limits s' = ds_limits s \<and> ds_snapshot_sequence s' = ds_snapshot_sequence s \<and>
    (\<forall>name. name \<noteq> F_Journal \<longrightarrow> os_files h' name = os_files h name) \<and>
    (\<exists>later. journal_image s' later (acknowledged s' h') \<and>
       adopted (ds_snapshot_sequence s) 0 later = adopted (ds_snapshot_sequence s) 0 entries @ accepted)"
  using assms
proof (induction ps arbitrary: s h entries accepted)
  case (Cons p ps)
  obtain r s1 h1 where a: "store_append p s h = (r, s1, h1)" by (cases "store_append p s h") auto
  note o = append_other_files [OF a]
  show ?case
  proof (cases r)
    case (Inl e)
    note b = append_refused [OF Cons.prems(1) a [unfolded Inl]]
    have "journal_image s1 entries (acknowledged s1 h1)" using Cons.prems(2) b by (simp add: journal_image_def)
    then show ?thesis using Cons.IH [OF b(1), of entries accepted] Cons.prems(3) a Inl b o by auto
  next
    case (Inr sequence)
    note a' = a [unfolded Inr]
    note b = append_accepted [OF Cons.prems(1) a'] append_image [OF Cons.prems(1) a' Cons.prems(2)]
    obtain acc where acc: "append_all ps s1 h1 = (acc, s', h')" "accepted = p # acc"
      using Cons.prems(3) a Inr by (auto split: prod.splits)
    show ?thesis using Cons.IH [OF b(1) b(10) acc(1)] acc(2) b o by auto
  qed
qed auto

lemma empty_store_eval:
  "empty_store = (scanned_store (empty_scan\<lparr>jn_tail := JT_Missing\<rparr>) False (snapshot_store None (mk_store ''state'' default_limits)))\<lparr>ds_opened := True\<rparr>"
  by (simp add: empty_store_def empty_host_def store_open_def syscall_def pop_event_def adopt_snapshot_def
      decode_snapshot_file_def open_for_read_def scan_journal_def Let_def mk_store_def)

lemma empty_store_inv: "store_inv empty_store empty_host" "ds_limits empty_store = default_limits"
  "ds_snapshot_sequence empty_store = 0" "acknowledged empty_store empty_host = []" "journal_image empty_store [] []"
  "check_append [7] empty_store = Inr 1"
  by (auto simp: store_inv_def journal_image_def acknowledged_def empty_store_eval empty_host_def scanned_store_def snapshot_store_def
      mk_store_def Let_def empty_scan_def check_append_def default_limits_def checked_add_def add_overflows_def)

lemma empty_sink_sound: "store_sound default_limits empty_sink" "store_log empty_sink = []"
  using empty_store_inv scanned_records_image [OF empty_store_inv(5), of 0]
  by (simp_all add: store_sound_def store_log_def empty_sink_def empty_host_def)

lemma recover_from_log:
  assumes tr: "tracked (sink_persist (Some (Inl InvalidState))) store_log (store_sound l) c" and l: "co_limits c = l"
    and k: "co_sink c = Some k"
  shows "case recover [] (store_log (sk_state k)) torn
              (fresh_coordinator l (sink_persist (Some (Inl InvalidState))) True (reopened_sink s' h' every)) of
         (Inr _, c') \<Rightarrow> resumes c c' \<and>
           (case (co_topology c, co_topology c') of (Some t, Some t') \<Rightarrow> required_edges t' = required_edges t | _ \<Rightarrow> True)
       | (Inl e, c') \<Rightarrow> \<exists>data. fst (store_append data s' h') = Inl e"
proof -
  let ?P = "sink_persist (Some (Inl InvalidState))"
  let ?c0 = "fresh_coordinator l ?P True (reopened_sink s' h' every)"
  obtain st c' where r: "recover [] (store_log (sk_state k)) torn ?c0 = (st, c')" by fastforce
  have "?c0 = mk_coordinator (co_limits c) (co_sink ?c0)" by (simp add: fresh_coordinator_def l)
  note rt = store.recover_tracked [OF tr k this r]
  show ?thesis
  proof (cases st)
    case (Inl e)
    then obtain data x where "?P data (reopened_sink s' h' every) = (Inl e, x)"
      using rt by (auto simp: fresh_coordinator_def)
    then have "fst (store_append data s' h') = Inl e"
      by (auto simp: sink_persist_def reopened_sink_def split: sum.splits prod.splits)
    then show ?thesis using r Inl by auto
  next
    case (Inr u)
    then have res: "resumes c c'" using rt by auto
    then have "case (co_topology c, co_topology c') of (Some t, Some t') \<Rightarrow> required_edges t' = required_edges t | _ \<Rightarrow> True"
      by (auto simp: resumes_def suspends_required split: option.splits)
    then show ?thesis using res r Inr by simp
  qed
qed

lemma run_limits: "co_limits (fold run_call calls c) = co_limits c"
  by (induction calls arbitrary: c) (simp_all add: run_call_limits)

section \<open>Properties\<close>



text \<open>
  C22. The journal scan does not depend on how the operating system cuts up the reads: under every
  schedule of interrupted and partial calls the buffered scan returns what it returns when every read
  is served in full.
\<close>

theorem scan_schedule_independent:
  assumes "IO_Fail \<notin> set es"
  shows "fst (scan_loop l snapshot_sequence (length data) (mk_scanner data) 0 empty_scan es) =
    fst (scan_loop l snapshot_sequence (length data) (mk_scanner data) 0 empty_scan [])"
  by (rule scan_loop_schedule) (use assms in simp_all)

theorem scan_schedule_independent_witness:
  "fst (scan_loop default_limits 0 2 (mk_scanner [1, 2]) 0 empty_scan [IO_Partial 1, IO_Interrupted]) =
   fst (scan_loop default_limits 0 2 (mk_scanner [1, 2]) 0 empty_scan [])"
  using scan_schedule_independent [of "[IO_Partial 1, IO_Interrupted]" default_limits 0 "[1, 2]"] by (simp add: numeral_2_eq_2)

text \<open>
  C5. Compaction never leaves half a snapshot: whatever fails, the primary snapshot file is the old
  one, has been moved aside as the previous one, or is the complete new one. When compaction succeeds
  the primary decodes to the state and sequence it was given and the journal is empty.
\<close>

theorem compaction_atomic:
  assumes "unat (max_state_bytes (ds_limits s)) + 72 < 2 ^ 64"
  shows "case store_compact state sequence s h of (st, s', h') \<Rightarrow>
    snapshot_kept (snapshot_file sequence state) h h' \<and>
    (case st of Inl _ \<Rightarrow> True
     | Inr _ \<Rightarrow> fst (decode_snapshot_file F_Primary (ds_limits s) (h'\<lparr>os_events := []\<rparr>)) =
          Inr \<lparr>si_sequence = sequence, si_payload = state\<rparr> \<and>
        journal_content h' = [] \<and> ds_snapshot_sequence s' = sequence \<and> ds_journal_bytes s' = 0)"
proof -
  obtain st s' h' where run: "store_compact state sequence s h = (st, s', h')" by (cases "store_compact state sequence s h") auto
  note c = compact_files [OF run]
  have "fst (decode_snapshot_file F_Primary (ds_limits s) (h'\<lparr>os_events := []\<rparr>)) = Inr \<lparr>si_sequence = sequence, si_payload = state\<rparr>"
    if "st = ok_status"
  proof -
    have "benign (h'\<lparr>os_events := []\<rparr>)" "os_files (h'\<lparr>os_events := []\<rparr>) F_Primary = Some (snapshot_file sequence state)"
      "length state \<le> unat (max_state_bytes (ds_limits s))" using c(2) [OF that] by (simp_all add: benign_def)
    moreover from this have "length state + 72 < 2 ^ 64" using assms by linarith
    ultimately show ?thesis using decode_written_snapshot [of "h'\<lparr>os_events := []\<rparr>" F_Primary sequence state "ds_limits s"] by auto
  qed
  then show ?thesis using run c by (auto split: sum.split)
qed

theorem compaction_atomic_witness:
  "case store_compact [1, 2] 0 empty_store empty_host of (st, s', h') \<Rightarrow>
    snapshot_kept (snapshot_file 0 [1, 2]) empty_host h' \<and>
    (case st of Inl _ \<Rightarrow> True
     | Inr _ \<Rightarrow> fst (decode_snapshot_file F_Primary default_limits (h'\<lparr>os_events := []\<rparr>)) =
          Inr \<lparr>si_sequence = 0, si_payload = [1, 2]\<rparr> \<and>
        journal_content h' = [] \<and> ds_snapshot_sequence s' = 0 \<and> ds_journal_bytes s' = 0)"
  using compaction_atomic [where s = empty_store and state = "[1, 2]" and sequence = 0 and h = empty_host]
  unfolding empty_store_inv(2) by (simp add: default_limits_def)



text \<open>
  C21. Nothing durable happens behind the journal's back: a call that leaves the acknowledged records
  as they were, because it failed a check, was refused by the store or has nothing to record, leaves
  the durable part of the coordinator unchanged.
\<close>

theorem unlogged_call_harmless:
  assumes "tracked (sink_persist (Some (Inl InvalidState))) store_log (store_sound l) c"
    and "call_admitted (co_limits c) call" "co_sink c = Some k" "co_sink (run_call call c) = Some k'"
    and "store_log (sk_state k') = store_log (sk_state k)"
  shows "durable_part (run_call call c) = durable_part c"
  by (rule store.log_determines [OF store.tracked_call [OF assms(1,2)] assms(1) run_call_limits assms(4,3,5)])

lemma sample_fresh_tracked:
  "tracked (sink_persist (Some (Inl InvalidState))) store_log (store_sound default_limits)
     (fresh_coordinator default_limits (sink_persist (Some (Inl InvalidState))) True empty_sink)"
  by (rule store.tracked_fresh [OF empty_sink_sound]) (simp_all add: default_limits_def limits_validate_def)

theorem unlogged_call_harmless_witness:
  "durable_part (run_call Call_Tick (fresh_coordinator default_limits (sink_persist (Some (Inl InvalidState))) True empty_sink)) =
   durable_part (fresh_coordinator default_limits (sink_persist (Some (Inl InvalidState))) True empty_sink)"
  by (rule unlogged_call_harmless [OF sample_fresh_tracked])
    (simp_all add: fresh_coordinator_def advance_tick_def guarded_def)

text \<open>
  The sink asks the coordinator for a snapshot while the coordinator is inside the call that persists,
  so the request is always refused and compaction never runs.
\<close>

theorem sink_never_compacts: "sink_compact (Some (snapshot_payload (c\<lparr>co_inside := True\<rparr>))) k = k"
  by (simp add: snapshot_refused_inside)

text \<open>
  \<open>append\<close> does not bound the journal, but a journal above four times \<open>max_state_bytes\<close> cannot be
  opened any more.
\<close>

theorem outgrown_journal_refused:
  assumes "benign h" "os_files h F_Primary = None" "os_files h F_Previous = None" "os_files h F_Journal = Some content"
    and "journal_too_large l (length content)" "dir \<noteq> []"
  shows "fst (store_open (mk_store dir l) h) = Inl StateTooLarge"
proof -
  obtain h1 where h1: "syscall h = (True, h1)" "os_files h1 = os_files h" "benign h1" using syscall_benign [OF assms(1)] by blast
  obtain h2 where h2: "adopt_snapshot l h1 = (Inr None, h2)" "os_files h2 = os_files h1" "benign h2"
    using no_snapshot [of h1 l] h1 assms by auto
  obtain h3 where h3: "syscall h2 = (True, h3)" "os_files h3 = os_files h2" "benign h3" using syscall_benign [OF h2(3)] by blast
  obtain h4 where h4: "syscall h3 = (True, h4)" using syscall_benign [OF h3(3)] by blast
  have "scan_journal l 0 h2 = (Inl StateTooLarge, h4)"
    using assms(4,5) h1 h2 h3 h4 by (simp add: scan_journal_def open_for_read_def file_size_def)
  then show ?thesis using assms(6) h1 h2 by (simp add: store_open_def snapshot_store_def mk_store_def Let_def)
qed

end
