(* ===== verification/Fabric_Frame.thy ===== *)
theory Fabric_Frame
  imports Fabric_Codec
begin

text \<open>
  The wire frames (\<open>frame.hpp\<close>, \<open>frame.cpp\<close>): the 40-byte header with its two checksums, encoding,
  decoding, the bounded stream reader and the replay guard.

  A message type is the number it has on the wire, since the C++ enumeration can hold any 16-bit
  value. Offsets and sizes of buffers are naturals. A span into the stream's buffer is the bytes it
  views. The header is written field by field into a buffer of the final size; the fields are
  contiguous, so the model concatenates them.
\<close>

section \<open>Message types\<close>

datatype message_type = MessageType (type_value: u16)

abbreviation HandshakeRequest :: message_type where "HandshakeRequest \<equiv> MessageType 1"
abbreviation HandshakeResponse :: message_type where "HandshakeResponse \<equiv> MessageType 2"
abbreviation ErrorResponse :: message_type where "ErrorResponse \<equiv> MessageType 3"
abbreviation OpenShuffleRequest :: message_type where "OpenShuffleRequest \<equiv> MessageType 10"
abbreviation OpenShuffleResponse :: message_type where "OpenShuffleResponse \<equiv> MessageType 11"
abbreviation RegisterParticipantRequest :: message_type where "RegisterParticipantRequest \<equiv> MessageType 12"
abbreviation RegisterParticipantResponse :: message_type where "RegisterParticipantResponse \<equiv> MessageType 13"
abbreviation PublishManifestRequest :: message_type where "PublishManifestRequest \<equiv> MessageType 14"
abbreviation PublishManifestResponse :: message_type where "PublishManifestResponse \<equiv> MessageType 15"
abbreviation NextWaveRequest :: message_type where "NextWaveRequest \<equiv> MessageType 16"
abbreviation NextWaveResponse :: message_type where "NextWaveResponse \<equiv> MessageType 17"
abbreviation CommitTransferRequest :: message_type where "CommitTransferRequest \<equiv> MessageType 18"
abbreviation CommitTransferResponse :: message_type where "CommitTransferResponse \<equiv> MessageType 19"
abbreviation ReportFailureRequest :: message_type where "ReportFailureRequest \<equiv> MessageType 20"
abbreviation ReportFailureResponse :: message_type where "ReportFailureResponse \<equiv> MessageType 21"
abbreviation CongestionIntentRequest :: message_type where "CongestionIntentRequest \<equiv> MessageType 22"
abbreviation CongestionIntentResponse :: message_type where "CongestionIntentResponse \<equiv> MessageType 23"
abbreviation CancelShuffleRequest :: message_type where "CancelShuffleRequest \<equiv> MessageType 24"
abbreviation CancelShuffleResponse :: message_type where "CancelShuffleResponse \<equiv> MessageType 25"
abbreviation ProgressRequest :: message_type where "ProgressRequest \<equiv> MessageType 26"
abbreviation ProgressResponse :: message_type where "ProgressResponse \<equiv> MessageType 27"
abbreviation ExplainRequest :: message_type where "ExplainRequest \<equiv> MessageType 28"
abbreviation ExplainResponse :: message_type where "ExplainResponse \<equiv> MessageType 29"
abbreviation CloseRequest :: message_type where "CloseRequest \<equiv> MessageType 30"
abbreviation CloseResponse :: message_type where "CloseResponse \<equiv> MessageType 31"
abbreviation ManifestRequest :: message_type where "ManifestRequest \<equiv> MessageType 32"
abbreviation ManifestResponse :: message_type where "ManifestResponse \<equiv> MessageType 33"
abbreviation StatusRequest :: message_type where "StatusRequest \<equiv> MessageType 34"
abbreviation StatusResponse :: message_type where "StatusResponse \<equiv> MessageType 35"
abbreviation ChunkFetchRequest :: message_type where "ChunkFetchRequest \<equiv> MessageType 40"
abbreviation ChunkFetchResponse :: message_type where "ChunkFetchResponse \<equiv> MessageType 41"
abbreviation ChunkFetchFailure :: message_type where "ChunkFetchFailure \<equiv> MessageType 42"

definition kMessageTypes :: "message_type list" where
  "kMessageTypes =
    [HandshakeRequest, HandshakeResponse, ErrorResponse, OpenShuffleRequest, OpenShuffleResponse,
     RegisterParticipantRequest, RegisterParticipantResponse, PublishManifestRequest,
     PublishManifestResponse, NextWaveRequest, NextWaveResponse, CommitTransferRequest,
     CommitTransferResponse, ReportFailureRequest, ReportFailureResponse, CongestionIntentRequest,
     CongestionIntentResponse, CancelShuffleRequest, CancelShuffleResponse, ProgressRequest,
     ProgressResponse, ExplainRequest, ExplainResponse, CloseRequest, CloseResponse,
     ManifestRequest, ManifestResponse, StatusRequest, StatusResponse, ChunkFetchRequest,
     ChunkFetchResponse, ChunkFetchFailure]"

definition message_names :: "(message_type \<times> string) list" where
  "message_names =
    [(HandshakeRequest, ''HandshakeRequest''), (HandshakeResponse, ''HandshakeResponse''),
     (ErrorResponse, ''ErrorResponse''), (OpenShuffleRequest, ''OpenShuffleRequest''),
     (OpenShuffleResponse, ''OpenShuffleResponse''),
     (RegisterParticipantRequest, ''RegisterParticipantRequest''),
     (RegisterParticipantResponse, ''RegisterParticipantResponse''),
     (PublishManifestRequest, ''PublishManifestRequest''),
     (PublishManifestResponse, ''PublishManifestResponse''), (NextWaveRequest, ''NextWaveRequest''),
     (NextWaveResponse, ''NextWaveResponse''), (CommitTransferRequest, ''CommitTransferRequest''),
     (CommitTransferResponse, ''CommitTransferResponse''),
     (ReportFailureRequest, ''ReportFailureRequest''),
     (ReportFailureResponse, ''ReportFailureResponse''),
     (CongestionIntentRequest, ''CongestionIntentRequest''),
     (CongestionIntentResponse, ''CongestionIntentResponse''),
     (CancelShuffleRequest, ''CancelShuffleRequest''),
     (CancelShuffleResponse, ''CancelShuffleResponse''), (ProgressRequest, ''ProgressRequest''),
     (ProgressResponse, ''ProgressResponse''), (ExplainRequest, ''ExplainRequest''),
     (ExplainResponse, ''ExplainResponse''), (CloseRequest, ''CloseRequest''),
     (CloseResponse, ''CloseResponse''), (ManifestRequest, ''ManifestRequest''),
     (ManifestResponse, ''ManifestResponse''), (StatusRequest, ''StatusRequest''),
     (StatusResponse, ''StatusResponse''), (ChunkFetchRequest, ''ChunkFetchRequest''),
     (ChunkFetchResponse, ''ChunkFetchResponse''), (ChunkFetchFailure, ''ChunkFetchFailure'')]"

definition message_to_string :: "message_type \<Rightarrow> string" where
  "message_to_string type = (case map_of message_names type of None \<Rightarrow> ''Unknown'' | Some name \<Rightarrow> name)"

definition is_known_message_type :: "message_type \<Rightarrow> bool" where
  "is_known_message_type type \<longleftrightarrow> type \<in> set kMessageTypes"

definition is_response :: "message_type \<Rightarrow> bool" where
  "is_response type \<longleftrightarrow> type \<in> set
    [HandshakeResponse, ErrorResponse, OpenShuffleResponse, RegisterParticipantResponse,
     PublishManifestResponse, NextWaveResponse, CommitTransferResponse, ReportFailureResponse,
     CongestionIntentResponse, CancelShuffleResponse, ProgressResponse, ExplainResponse,
     CloseResponse, ManifestResponse, StatusResponse, ChunkFetchResponse, ChunkFetchFailure]"

definition is_request :: "message_type \<Rightarrow> bool" where
  "is_request type \<longleftrightarrow> type \<in> set
    [HandshakeRequest, OpenShuffleRequest, RegisterParticipantRequest, PublishManifestRequest,
     NextWaveRequest, CommitTransferRequest, ReportFailureRequest, CongestionIntentRequest,
     CancelShuffleRequest, ProgressRequest, ExplainRequest, CloseRequest, ManifestRequest,
     StatusRequest, ChunkFetchRequest]"

section \<open>Headers\<close>

definition kFrameMagic :: u32 where "kFrameMagic = 0x31424653"

definition kMagicBytes :: bytes where "kMagicBytes = [0x53, 0x46, 0x42, 0x31]"

definition kProtocolVersion :: u16 where "kProtocolVersion = 1"

definition kFrameHeaderBytes :: nat where "kFrameHeaderBytes = 40"

definition kFrameHeaderCrcOffset :: nat where "kFrameHeaderCrcOffset = 36"

definition kFlagResponse :: u32 where "kFlagResponse = 1"

definition kFlagReservedMask :: u32 where "kFlagReservedMask = 0xfffffffe"

definition kCompactThresholdBytes :: nat where "kCompactThresholdBytes = 4096"

record frame_header =
  fh_version :: u16
  fh_type :: message_type
  fh_flags :: u32
  fh_session :: u64
  fh_sequence :: u64
  fh_payload_length :: u32
  fh_payload_crc32c :: u32

definition carries_response_flag :: "frame_header \<Rightarrow> bool" where
  "carries_response_flag header \<longleftrightarrow> fh_flags header AND kFlagResponse \<noteq> 0"

definition read_u16 :: "bytes \<Rightarrow> nat \<Rightarrow> u16" where
  "read_u16 data offset = le_word (take 2 (drop offset data))"

definition read_u32 :: "bytes \<Rightarrow> nat \<Rightarrow> u32" where
  "read_u32 data offset = le_word (take 4 (drop offset data))"

definition read_u64 :: "bytes \<Rightarrow> nat \<Rightarrow> u64" where
  "read_u64 data offset = le_word (take 8 (drop offset data))"

text \<open>The first 36 bytes of a header, in wire order, and the frame with both derived fields filled in.\<close>

definition header_front :: "frame_header \<Rightarrow> bytes" where
  "header_front header =
     le_bytes 4 kFrameMagic @ le_bytes 2 (fh_version header) @ le_bytes 2 (type_value (fh_type header)) @
     le_bytes 4 (fh_flags header) @ le_bytes 8 (fh_session header) @ le_bytes 8 (fh_sequence header) @
     le_bytes 4 (fh_payload_length header) @ le_bytes 4 (fh_payload_crc32c header)"

definition frame_bytes :: "frame_header \<Rightarrow> bytes \<Rightarrow> bytes" where
  "frame_bytes header payload =
     (let front = header_front (header\<lparr>fh_payload_length := word_of_nat (length payload), fh_payload_crc32c := crc32c payload\<rparr>)
      in front @ le_bytes 4 (crc32c front) @ payload)"

definition check_frame :: "frame_header \<Rightarrow> bytes \<Rightarrow> limits \<Rightarrow> status" where
  "check_frame header payload l =
     (if fh_version header \<noteq> kProtocolVersion then Inl UnsupportedVersion
      else if \<not> is_known_message_type (fh_type header) then Inl FrameTypeUnsupported
      else if fh_flags header AND kFlagReservedMask \<noteq> 0 then Inl MalformedInput
      else if fh_sequence header = 0 then Inl SequenceViolation
      else if length payload > unat (max_frame_payload_bytes l) then Inl OversizedInput
      else if length payload > 0xFFFFFFFF then Inl OversizedInput
      else if fh_payload_length header \<noteq> 0 \<and> unat (fh_payload_length header) \<noteq> length payload then Inl InvalidArgument
      else if fh_payload_crc32c header \<noteq> 0 \<and> fh_payload_crc32c header \<noteq> crc32c payload then Inl InvalidArgument
      else case checked_add (word_of_nat kFrameHeaderBytes) (word_of_nat (length payload)) of
        Inl e \<Rightarrow> Inl e
      | Inr whole \<Rightarrow> if whole > max_allocation_bytes l then Inl LimitExceeded else ok_status)"

definition encode_frame :: "frame_header \<Rightarrow> bytes \<Rightarrow> bytes \<Rightarrow> limits \<Rightarrow> status \<times> bytes" where
  "encode_frame header payload out l =
     (case check_frame header payload l of
        Inl e \<Rightarrow> (Inl e, out) | Inr _ \<Rightarrow> (ok_status, frame_bytes header payload))"

definition decode_header :: "bytes \<Rightarrow> limits \<Rightarrow> frame_header result" where
  "decode_header data l =
     (if length data < kFrameHeaderBytes then Inl TruncatedInput
      else if length data > kFrameHeaderBytes then Inl TrailingGarbage
      else if read_u32 data 0 \<noteq> kFrameMagic then Inl ProtocolViolation
      else if read_u16 data 4 \<noteq> kProtocolVersion then Inl UnsupportedVersion
      else if read_u32 data kFrameHeaderCrcOffset \<noteq> crc32c (take kFrameHeaderCrcOffset data) then Inl ChecksumMismatch
      else if read_u32 data 8 AND kFlagReservedMask \<noteq> 0 then Inl MalformedInput
      else if \<not> is_known_message_type (MessageType (read_u16 data 6)) then Inl FrameTypeUnsupported
      else if ucast (read_u32 data 28) > max_frame_payload_bytes l then Inl OversizedInput
      else if read_u64 data 20 = 0 then Inl SequenceViolation
      else Inr \<lparr>fh_version = read_u16 data 4, fh_type = MessageType (read_u16 data 6), fh_flags = read_u32 data 8,
        fh_session = read_u64 data 12, fh_sequence = read_u64 data 20, fh_payload_length = read_u32 data 28,
        fh_payload_crc32c = read_u32 data 32\<rparr>)"

record decoded_frame =
  df_header :: frame_header
  df_payload :: bytes
  df_consumed :: nat

definition frame_size :: "frame_header \<Rightarrow> nat result" where
  "frame_size header =
     (case checked_add (word_of_nat kFrameHeaderBytes) (ucast (fh_payload_length header)) of
        Inl e \<Rightarrow> Inl e | Inr whole \<Rightarrow> Inr (unat whole))"

definition decode_frame_prefix :: "bytes \<Rightarrow> limits \<Rightarrow> decoded_frame result" where
  "decode_frame_prefix data l =
     (if length data < kFrameHeaderBytes then Inl TruncatedInput
      else case decode_header (take kFrameHeaderBytes data) l of
        Inl e \<Rightarrow> Inl e
      | Inr header \<Rightarrow>
        (case frame_size header of
           Inl e \<Rightarrow> Inl e
         | Inr fsize \<Rightarrow>
           if length data < fsize then Inl TruncatedInput
           else
             (let payload = take (unat (fh_payload_length header)) (drop kFrameHeaderBytes data) in
              if crc32c payload \<noteq> fh_payload_crc32c header then Inl ChecksumMismatch
              else Inr \<lparr>df_header = header, df_payload = payload, df_consumed = fsize\<rparr>)))"

definition decode_frame :: "bytes \<Rightarrow> limits \<Rightarrow> decoded_frame result" where
  "decode_frame data l =
     (case decode_frame_prefix data l of
        Inl e \<Rightarrow> Inl e
      | Inr frame \<Rightarrow> if df_consumed frame \<noteq> length data then Inl TrailingGarbage else Inr frame)"

section \<open>The stream reader\<close>

record frame_stream =
  fs_buffer :: bytes
  fs_consumed :: nat
  fs_limits :: limits

definition mk_stream :: "limits \<Rightarrow> frame_stream" where
  "mk_stream l = \<lparr>fs_buffer = [], fs_consumed = 0, fs_limits = l\<rparr>"

definition buffered :: "frame_stream \<Rightarrow> nat" where
  "buffered s = length (fs_buffer s) - fs_consumed s"

definition stream_capacity :: "frame_stream \<Rightarrow> nat" where
  "stream_capacity s =
     (case checked_add (word_of_nat kFrameHeaderBytes) (max_frame_payload_bytes (fs_limits s)) of
        Inl _ \<Rightarrow> 2 ^ 64 - 1 | Inr whole \<Rightarrow> unat whole)"

definition stream_compact :: "frame_stream \<Rightarrow> frame_stream" where
  "stream_compact s =
     (if fs_consumed s = 0 then s
      else if fs_consumed s = length (fs_buffer s) then s\<lparr>fs_buffer := [], fs_consumed := 0\<rparr>
      else if fs_consumed s < kCompactThresholdBytes then s
      else s\<lparr>fs_buffer := drop (fs_consumed s) (fs_buffer s), fs_consumed := 0\<rparr>)"

definition stream_feed :: "bytes \<Rightarrow> frame_stream \<Rightarrow> status \<times> frame_stream" where
  "stream_feed data s =
     (if data = [] then (ok_status, s)
      else
        (let s1 = stream_compact s in
         if buffered s1 + length data \<ge> 2 ^ 64 then (Inl ResourceExhausted, s1)
         else if buffered s1 + length data > stream_capacity s1 then (Inl ResourceExhausted, s1)
         else (ok_status, s1\<lparr>fs_buffer := fs_buffer s1 @ data\<rparr>)))"

definition stream_next :: "frame_stream \<Rightarrow> decoded_frame result \<times> frame_stream" where
  "stream_next s =
     (let s1 = stream_compact s; queued = drop (fs_consumed s1) (fs_buffer s1) in
      if queued = [] then (Inl NoWorkAvailable, s1)
      else if take 4 queued \<noteq> take (length queued) kMagicBytes then (Inl ProtocolViolation, s1)
      else if length queued < kFrameHeaderBytes then (Inl NoWorkAvailable, s1)
      else case decode_header (take kFrameHeaderBytes queued) (fs_limits s1) of
        Inl e \<Rightarrow> (Inl e, s1)
      | Inr header \<Rightarrow>
        (case frame_size header of
           Inl e \<Rightarrow> (Inl e, s1)
         | Inr fsize \<Rightarrow>
           if length queued < fsize then (Inl NoWorkAvailable, s1)
           else
             (case decode_frame_prefix queued (fs_limits s1) of
                Inl e \<Rightarrow> (Inl e, s1)
              | Inr frame \<Rightarrow> (Inr frame, s1\<lparr>fs_consumed := fs_consumed s1 + df_consumed frame\<rparr>))))"

section \<open>The replay guard\<close>

definition kMaxReplayWindow :: u64 where "kMaxReplayWindow = 2 ^ 16"

definition kMaxForwardJump :: u64 where "kMaxForwardJump = 2 ^ 40"

record replay_guard =
  rg_recent :: "u64 list"
  rg_recent_set :: "u64 set"
  rg_highest :: u64
  rg_window :: u64

definition mk_guard :: "u64 \<Rightarrow> replay_guard" where
  "mk_guard window = \<lparr>rg_recent = [], rg_recent_set = {}, rg_highest = 0,
     rg_window = (if window < kMaxReplayWindow then window else kMaxReplayWindow)\<rparr>"

fun evict :: "nat \<Rightarrow> u64 list \<Rightarrow> u64 set \<Rightarrow> u64 list \<times> u64 set" where
  "evict window [] members = ([], members)"
| "evict window (oldest # recent) members =
     (if length (oldest # recent) > window then evict window recent (members - {oldest})
      else (oldest # recent, members))"

definition guard_remember :: "u64 \<Rightarrow> replay_guard \<Rightarrow> replay_guard" where
  "guard_remember sequence g =
     (case evict (unat (rg_window g)) (rg_recent g @ [sequence]) (insert sequence (rg_recent_set g)) of
        (recent, members) \<Rightarrow> g\<lparr>rg_recent := recent, rg_recent_set := members\<rparr>)"

definition guard_accept :: "u64 \<Rightarrow> replay_guard \<Rightarrow> bool result \<times> replay_guard" where
  "guard_accept sequence g =
     (if sequence = 0 then (Inl SequenceViolation, g)
      else if rg_highest g \<noteq> 0 \<and> sequence \<le> rg_highest g then
        (if sequence = rg_highest g \<or> sequence \<in> rg_recent_set g then (Inr False, g)
         else case rg_recent g of
           [] \<Rightarrow> (Inl SequenceViolation, g)
         | oldest # _ \<Rightarrow>
             if sequence < oldest then (Inl SequenceViolation, g) else (Inr True, guard_remember sequence g))
      else if sequence - rg_highest g > kMaxForwardJump then (Inl MalformedInput, g)
      else (Inr True, guard_remember sequence (g\<lparr>rg_highest := sequence\<rparr>)))"

section \<open>Specification\<close>

definition header_ok :: "limits \<Rightarrow> frame_header \<Rightarrow> bool" where
  "header_ok l h \<longleftrightarrow> fh_version h = kProtocolVersion \<and> fh_flags h AND kFlagReservedMask = 0 \<and>
     is_known_message_type (fh_type h) \<and> ucast (fh_payload_length h) \<le> max_frame_payload_bytes l \<and> fh_sequence h \<noteq> 0"

definition frame_ok :: "limits \<Rightarrow> decoded_frame \<Rightarrow> bool" where
  "frame_ok l f \<longleftrightarrow> header_ok l (df_header f) \<and> unat (fh_payload_length (df_header f)) = length (df_payload f) \<and>
     fh_payload_crc32c (df_header f) = crc32c (df_payload f) \<and> df_consumed f = 40 + length (df_payload f)"

definition frame_image :: "decoded_frame \<Rightarrow> bytes" where
  "frame_image f = frame_bytes (df_header f) (df_payload f)"

definition stream_content :: "frame_stream \<Rightarrow> bytes" where
  "stream_content s = drop (fs_consumed s) (fs_buffer s)"

definition stream_inv :: "frame_stream \<Rightarrow> bool" where
  "stream_inv s \<longleftrightarrow> fs_consumed s \<le> length (fs_buffer s) \<and> buffered s \<le> stream_capacity s \<and>
     length (fs_buffer s) \<le> stream_capacity s + (kCompactThresholdBytes - 1)"

inductive stream_step :: "frame_stream \<Rightarrow> frame_stream \<Rightarrow> bool" where
  step_feed: "stream_step s (snd (stream_feed data s))"
| step_next: "stream_step s (snd (stream_next s))"

definition leftover :: "decoded_frame list \<Rightarrow> bytes \<Rightarrow> bytes" where
  "leftover fs data = drop (sum_list (map df_consumed fs)) data"

text \<open>A run of the guard over arriving sequence numbers, with the ones it accepted.\<close>

fun guard_run :: "u64 list \<Rightarrow> replay_guard \<Rightarrow> u64 list \<times> replay_guard" where
  "guard_run [] g = ([], g)"
| "guard_run (sequence # sequences) g =
     (case guard_accept sequence g of (r, g1) \<Rightarrow>
      (case guard_run sequences g1 of (accepted, g2) \<Rightarrow>
         (if r = Inr True then sequence # accepted else accepted, g2)))"

definition guard_seen :: "u64 list \<Rightarrow> replay_guard \<Rightarrow> bool" where
  "guard_seen accepted g \<longleftrightarrow> (\<forall>x\<in>set accepted. x \<le> rg_highest g) \<and> (rg_highest g = 0 \<longleftrightarrow> accepted = []) \<and>
     (accepted \<noteq> [] \<longrightarrow> rg_highest g \<in> set accepted) \<and>
     (length accepted \<le> unat (rg_window g) \<longrightarrow> rg_recent g = accepted \<and> rg_recent_set g = set accepted)"

definition sample_header :: frame_header where
  "sample_header = \<lparr>fh_version = 1, fh_type = StatusRequest, fh_flags = 0, fh_session = 7, fh_sequence = 3,
     fh_payload_length = 0, fh_payload_crc32c = 0\<rparr>"

definition sample_frame :: decoded_frame where
  "sample_frame = \<lparr>df_header = sample_header\<lparr>fh_payload_length := 2, fh_payload_crc32c := crc32c [5, 6]\<rparr>,
     df_payload = [5, 6], df_consumed = 42\<rparr>"

definition guard_at :: "nat \<Rightarrow> u64 list \<Rightarrow> u64 \<Rightarrow> replay_guard" where
  "guard_at window accepted highest =
     (let recent = drop (length accepted - window) accepted in
      \<lparr>rg_recent = recent, rg_recent_set = set recent, rg_highest = highest, rg_window = word_of_nat window\<rparr>)"

section \<open>Lemmas: headers\<close>

lemma length_header_front [simp]: "length (header_front h) = 36"
  by (simp add: header_front_def)

lemma length_frame_bytes [simp]: "length (frame_bytes h payload) = 40 + length payload"
  by (simp add: frame_bytes_def Let_def)

lemma read_at:
  "length a = offset \<Longrightarrow> read_u16 (a @ le_bytes 2 u @ b) offset = u"
  "length a = offset \<Longrightarrow> read_u32 (a @ le_bytes 4 v @ b) offset = v"
  "length a = offset \<Longrightarrow> read_u64 (a @ le_bytes 8 w @ b) offset = w"
  by (simp_all add: read_u16_def read_u32_def read_u64_def le_word_bytes_full)

lemma bytes_at:
  "offset + 2 \<le> length data \<Longrightarrow> le_bytes 2 (read_u16 data offset) = take 2 (drop offset data)"
  "offset + 4 \<le> length data \<Longrightarrow> le_bytes 4 (read_u32 data offset) = take 4 (drop offset data)"
  "offset + 8 \<le> length data \<Longrightarrow> le_bytes 8 (read_u64 data offset) = take 8 (drop offset data)"
  by (simp_all add: read_u16_def read_u32_def read_u64_def le_bytes_word)

lemma cut: "take n (drop k xs) @ drop (k + n) xs = drop k xs"
  by (metis append_take_drop_id drop_drop add.commute)

lemma header_fields:
  assumes "data = header_front h @ rest"
  shows "read_u32 data 0 = kFrameMagic" "read_u16 data 4 = fh_version h" "read_u16 data 6 = type_value (fh_type h)"
    "read_u32 data 8 = fh_flags h" "read_u64 data 12 = fh_session h" "read_u64 data 20 = fh_sequence h"
    "read_u32 data 28 = fh_payload_length h" "read_u32 data 32 = fh_payload_crc32c h"
proof -
  let ?a = "le_bytes 4 kFrameMagic" and ?b = "le_bytes 2 (fh_version h)" and ?c = "le_bytes 2 (type_value (fh_type h))"
  let ?d = "le_bytes 4 (fh_flags h)" and ?e = "le_bytes 8 (fh_session h)" and ?f = "le_bytes 8 (fh_sequence h)"
  let ?g = "le_bytes 4 (fh_payload_length h)" and ?i = "le_bytes 4 (fh_payload_crc32c h)"
  have d: "data = ?a @ ?b @ ?c @ ?d @ ?e @ ?f @ ?g @ ?i @ rest" by (simp add: assms header_front_def)
  show "read_u32 data 0 = kFrameMagic" using read_at(2) [of "[]" 0] d by simp
  show "read_u16 data 4 = fh_version h" using read_at(1) [of ?a 4] d by simp
  show "read_u16 data 6 = type_value (fh_type h)" using read_at(1) [of "?a @ ?b" 6] d by simp
  show "read_u32 data 8 = fh_flags h" using read_at(2) [of "?a @ ?b @ ?c" 8] d by simp
  show "read_u64 data 12 = fh_session h" using read_at(3) [of "?a @ ?b @ ?c @ ?d" 12] d by simp
  show "read_u64 data 20 = fh_sequence h" using read_at(3) [of "?a @ ?b @ ?c @ ?d @ ?e" 20] d by simp
  show "read_u32 data 28 = fh_payload_length h" using read_at(2) [of "?a @ ?b @ ?c @ ?d @ ?e @ ?f" 28] d by simp
  show "read_u32 data 32 = fh_payload_crc32c h" using read_at(2) [of "?a @ ?b @ ?c @ ?d @ ?e @ ?f @ ?g" 32] d by simp
qed

lemma header_rebuild:
  assumes "36 \<le> length data" "read_u32 data 0 = kFrameMagic"
  shows "take 36 data = header_front \<lparr>fh_version = read_u16 data 4, fh_type = MessageType (read_u16 data 6),
    fh_flags = read_u32 data 8, fh_session = read_u64 data 12, fh_sequence = read_u64 data 20,
    fh_payload_length = read_u32 data 28, fh_payload_crc32c = read_u32 data 32\<rparr>"
proof -
  have m: "le_bytes 4 kFrameMagic = take 4 (drop 0 data)" using bytes_at(2) [of 0 data] assms by simp
  define front where "front = take 4 (drop 0 data) @ take 2 (drop 4 data) @ take 2 (drop 6 data) @ take 4 (drop 8 data) @
      take 8 (drop 12 data) @ take 8 (drop 20 data) @ take 4 (drop 28 data) @ take 4 (drop 32 data)"
  have "front @ drop 36 data = data"
    using cut [of 4 0 data] cut [of 2 4 data] cut [of 2 6 data] cut [of 4 8 data] cut [of 8 12 data] cut [of 8 20 data]
      cut [of 4 28 data] cut [of 4 32 data] by (simp add: front_def)
  then have "front @ drop 36 data = take 36 data @ drop 36 data" by simp
  then have "take 36 data = front" by (simp only: append_same_eq)
  then show ?thesis using assms by (simp add: header_front_def front_def m bytes_at)
qed

lemma decode_header_iff:
  "decode_header data l = Inr h \<longleftrightarrow> data = header_front h @ le_bytes 4 (crc32c (header_front h)) \<and> header_ok l h"
proof
  assume d: "decode_header data l = Inr h"
  then have n: "length data = 40" "read_u32 data 0 = kFrameMagic"
    and c: "read_u32 data 36 = crc32c (take 36 data)" and ok: "header_ok l h"
    and h: "h = \<lparr>fh_version = read_u16 data 4, fh_type = MessageType (read_u16 data 6),
      fh_flags = read_u32 data 8, fh_session = read_u64 data 12, fh_sequence = read_u64 data 20,
      fh_payload_length = read_u32 data 28, fh_payload_crc32c = read_u32 data 32\<rparr>"
    by (auto simp: decode_header_def header_ok_def kFrameHeaderBytes_def kFrameHeaderCrcOffset_def not_less split: if_splits)
  have "take 36 data = header_front h" using header_rebuild [of data] n h by simp
  moreover have "drop 36 data = le_bytes 4 (crc32c (take 36 data))"
    using bytes_at(2) [of 36 data] n c by simp
  ultimately show "data = header_front h @ le_bytes 4 (crc32c (header_front h)) \<and> header_ok l h"
    using ok append_take_drop_id [of 36 data] by simp
next
  assume "data = header_front h @ le_bytes 4 (crc32c (header_front h)) \<and> header_ok l h"
  then have d: "data = header_front h @ le_bytes 4 (crc32c (header_front h))" and ok: "header_ok l h" by simp_all
  have c: "read_u32 data 36 = crc32c (take 36 data)"
    using read_at(2) [of "header_front h" 36 "crc32c (header_front h)" "[]"] by (simp add: d)
  have "length data = 40" by (simp add: d)
  then show "decode_header data l = Inr h"
    using header_fields [OF d] c ok
    by (simp add: decode_header_def kFrameHeaderBytes_def kFrameHeaderCrcOffset_def header_ok_def not_less)
qed

lemma frame_size_eq [simp]: "frame_size h = Inr (40 + unat (fh_payload_length h))"
proof -
  have u: "unat (ucast (fh_payload_length h) :: u64) = unat (fh_payload_length h)" by (simp add: unat_ucast_u32)
  have b: "unat (fh_payload_length h) < 2 ^ 32" by (rule unat32_bound)
  then have "checked_add (40 :: u64) (ucast (fh_payload_length h)) = Inr (40 + ucast (fh_payload_length h))"
    using u by (simp add: checked_add_eq)
  then show ?thesis using checked_add_unat [of 40 "ucast (fh_payload_length h)"] u
    by (simp add: frame_size_def kFrameHeaderBytes_def)
qed

lemma frame_bytes_same:
  assumes "unat (fh_payload_length h) = length payload" "fh_payload_crc32c h = crc32c payload"
  shows "frame_bytes h payload = header_front h @ le_bytes 4 (crc32c (header_front h)) @ payload"
proof -
  have "word_of_nat (length payload) = fh_payload_length h" by (simp flip: assms(1))
  then have "h\<lparr>fh_payload_length := word_of_nat (length payload), fh_payload_crc32c := crc32c payload\<rparr> = h"
    using assms(2) by simp
  then show ?thesis by (simp add: frame_bytes_def Let_def)
qed

lemma decode_frame_prefix_iff:
  "decode_frame_prefix data l = Inr f \<longleftrightarrow> frame_ok l f \<and> (\<exists>rest. data = frame_image f @ rest)"
proof
  assume d: "decode_frame_prefix data l = Inr f"
  then have n: "40 \<le> length data" by (simp add: decode_frame_prefix_def kFrameHeaderBytes_def split: if_splits)
  then obtain g where h: "decode_header (take 40 data) l = Inr g"
    using d by (cases "decode_header (take 40 data) l") (simp_all add: decode_frame_prefix_def kFrameHeaderBytes_def)
  then have f: "f = \<lparr>df_header = g, df_payload = take (unat (fh_payload_length g)) (drop 40 data), df_consumed = 40 + unat (fh_payload_length g)\<rparr>"
    and m: "40 + unat (fh_payload_length g) \<le> length data" and c: "crc32c (df_payload f) = fh_payload_crc32c g"
    using d n by (auto simp: decode_frame_prefix_def kFrameHeaderBytes_def Let_def split: if_splits)
  have g: "df_header f = g" "df_consumed f = 40 + unat (fh_payload_length g)"
    and p: "df_payload f = take (unat (fh_payload_length g)) (drop 40 data)" by (simp_all add: f)
  have len: "unat (fh_payload_length g) = length (df_payload f)" using p m by simp
  have "df_payload f @ drop (40 + unat (fh_payload_length g)) data = drop 40 data"
    unfolding p by (rule cut)
  then have "take 40 data @ df_payload f @ drop (40 + unat (fh_payload_length g)) data = data" by simp
  moreover have "frame_image f = take 40 data @ df_payload f"
    using h frame_bytes_same [OF len c [symmetric]] by (simp add: decode_header_iff frame_image_def g)
  ultimately have "\<exists>rest. data = frame_image f @ rest" by (metis append.assoc)
  then show "frame_ok l f \<and> (\<exists>rest. data = frame_image f @ rest)"
    using h len c g by (auto simp: decode_header_iff frame_ok_def)
next
  assume "frame_ok l f \<and> (\<exists>rest. data = frame_image f @ rest)"
  then obtain rest where ok: "frame_ok l f" and d: "data = frame_image f @ rest" by blast
  let ?h = "df_header f"
  have e: "data = (header_front ?h @ le_bytes 4 (crc32c (header_front ?h))) @ df_payload f @ rest"
    using ok d frame_bytes_same [of ?h "df_payload f"] by (simp add: frame_image_def frame_ok_def)
  have t: "take 40 data = header_front ?h @ le_bytes 4 (crc32c (header_front ?h))" "drop 40 data = df_payload f @ rest"
    unfolding e by simp_all
  then have "decode_header (take 40 data) l = Inr ?h" using ok by (simp add: decode_header_iff frame_ok_def)
  then show "decode_frame_prefix data l = Inr f"
    using ok t(2) by (auto simp: decode_frame_prefix_def kFrameHeaderBytes_def Let_def frame_ok_def e)
qed

lemma decode_frame_iff: "decode_frame data l = Inr f \<longleftrightarrow> frame_ok l f \<and> data = frame_image f"
proof -
  have "df_consumed f = length data \<longleftrightarrow> rest = []" if "frame_ok l f" "data = frame_image f @ rest" for rest
    using that by (simp add: frame_ok_def frame_image_def)
  then show ?thesis
    using decode_frame_prefix_iff [of data l f]
    by (cases "decode_frame_prefix data l") (auto simp: decode_frame_def split: if_splits)
qed

section \<open>Lemmas: encoding and tampering\<close>

lemma check_frame_iff:
  "check_frame h payload l = ok_status \<longleftrightarrow>
     header_ok l (h\<lparr>fh_payload_length := word_of_nat (length payload)\<rparr>) \<and> length payload < 2 ^ 32 \<and>
     (fh_payload_length h = 0 \<or> unat (fh_payload_length h) = length payload) \<and>
     (fh_payload_crc32c h = 0 \<or> fh_payload_crc32c h = crc32c payload) \<and>
     40 + length payload \<le> unat (max_allocation_bytes l)"
proof (cases "length payload < 2 ^ 32")
  case True
  then have u: "unat (word_of_nat (length payload) :: u64) = length payload" "unat (word_of_nat (length payload) :: u32) = length payload"
    by (simp_all add: unat_of_nat take_bit_nat_eq_self)
  have a: "checked_add (40 :: u64) (word_of_nat (length payload)) = Inr (40 + word_of_nat (length payload))"
    using u True by (simp add: checked_add_eq)
  have b: "unat (40 + word_of_nat (length payload) :: u64) = 40 + length payload"
    using checked_add_unat [OF a] u by simp
  have c: "(ucast (word_of_nat (length payload) :: u32) :: u64) \<le> max_frame_payload_bytes l \<longleftrightarrow>
      length payload \<le> unat (max_frame_payload_bytes l)"
    using u by (simp add: word_le_nat_alt unat_ucast_u32)
  show ?thesis
    using True a b by (auto simp: check_frame_def header_ok_def kFrameHeaderBytes_def c word_less_nat_alt not_less)
next
  case False
  then show ?thesis by (simp add: check_frame_def)
qed

lemma encode_frame_iff:
  "encode_frame h payload out l = (ok_status, data) \<longleftrightarrow> check_frame h payload l = ok_status \<and> data = frame_bytes h payload"
  by (cases "check_frame h payload l") (auto simp: encode_frame_def)

lemma frame_image_front:
  "frame_ok l f \<Longrightarrow> frame_image f = header_front (df_header f) @ le_bytes 4 (crc32c (header_front (df_header f))) @ df_payload f"
  by (simp add: frame_image_def frame_bytes_same frame_ok_def)

lemma header_front_inj: "header_front h = header_front h' \<Longrightarrow> h = h'"
proof -
  assume eq: "header_front h = header_front h'"
  have a: "header_front h = header_front h @ []" "header_front h = header_front h' @ []" using eq by simp_all
  have "type_value (fh_type h) = type_value (fh_type h')" using header_fields(3) [OF a(1)] header_fields(3) [OF a(2)] by simp
  then have t: "fh_type h = fh_type h'" by (rule message_type.expand)
  show "h = h'"
    using header_fields [OF a(1)] header_fields [OF a(2)] by (intro frame_header.equality t) simp_all
qed

lemma crc32c_update_differs: "i < length xs \<Longrightarrow> b \<noteq> xs ! i \<Longrightarrow> crc32c (xs[i := b]) \<noteq> crc32c xs"
  using crc32c_byte_change [of b "xs ! i" "take i xs" "drop (Suc i) xs"]
  by (simp add: upd_conv_take_nth_drop id_take_nth_drop [symmetric])

lemma le_bytes_inj: "le_bytes 4 (u :: u32) = le_bytes 4 v \<Longrightarrow> u = v"
  by (drule arg_cong [where f = "le_word :: bytes \<Rightarrow> u32"]) (simp add: le_word_bytes_full)

lemma altered_frame_refused:
  assumes f: "frame_ok l f" and g: "frame_ok l g" and i: "i < length (frame_image f)" "b \<noteq> frame_image f ! i"
  shows "(frame_image f)[i := b] \<noteq> frame_image g"
proof
  let ?F = "header_front (df_header f)" and ?G = "header_front (df_header g)"
  let ?c = "\<lambda>xs. le_bytes 4 (crc32c xs)"
  assume eq: "(frame_image f)[i := b] = frame_image g"
  note im = frame_image_front [OF f] frame_image_front [OF g]
  consider "i < 36" | "36 \<le> i" "i < 40" | "40 \<le> i" by linarith
  then show False
  proof cases
    case 1
    then have "?F[i := b] @ ?c ?F @ df_payload f = ?G @ ?c ?G @ df_payload g"
      using eq by (simp add: im list_update_append)
    then have "?F[i := b] = ?G \<and> ?c ?F = ?c ?G" by (simp add: append_eq_append_conv)
    then have "?F[i := b] = ?G" "?c ?F = ?c ?G" by blast+
    then show False using crc32c_update_differs [of i ?F b] i 1 le_bytes_inj by (auto simp: im nth_append)
  next
    case 2
    then have k: "i - 36 < 4" by linarith
    have "?F @ (?c ?F)[i - 36 := b] @ df_payload f = ?G @ ?c ?G @ df_payload g"
      using eq 2 k by (auto simp: im list_update_append)
    then have "?F = ?G \<and> (?c ?F)[i - 36 := b] = ?c ?G" by (auto simp: append_eq_append_conv)
    then have "?F = ?G" "(?c ?F)[i - 36 := b] = ?c ?G" by blast+
    then have "b = ?c ?F ! (i - 36)" using k by (metis length_le_bytes nth_list_update_eq)
    then show False using i 2 k by (simp add: im nth_append)
  next
    case 3
    then have k: "\<not> i < 36" "\<not> i - 36 < 4" "i - 36 - 4 = i - 40" by linarith+
    then have "?F @ ?c ?F @ (df_payload f)[i - 40 := b] = ?G @ ?c ?G @ df_payload g"
      using eq by (simp only: im list_update_append length_header_front length_le_bytes if_False)
    then have "?F = ?G \<and> (df_payload f)[i - 40 := b] = df_payload g" by (simp add: append_eq_append_conv)
    then have "?F = ?G" "(df_payload f)[i - 40 := b] = df_payload g" by blast+
    then have "crc32c ((df_payload f)[i - 40 := b]) = crc32c (df_payload f)"
      using f g header_front_inj by (metis frame_ok_def)
    moreover have "frame_image f ! i = df_payload f ! (i - 40)"
      using k by (simp only: im nth_append length_header_front length_le_bytes if_False)
    moreover have "i - 40 < length (df_payload f)" using i(1) 3 by (simp add: im)
    ultimately show False using crc32c_update_differs [of "i - 40" "df_payload f" b] i(2) by simp
  qed
qed

lemma u32_of_nat_iff: "unat (w :: u32) = n \<longleftrightarrow> w = word_of_nat n \<and> n < 2 ^ 32"
proof
  assume "unat w = n"
  then show "w = word_of_nat n \<and> n < 2 ^ 32" using unat32_bound [of w] by auto
qed (simp add: unat_of_nat take_bit_nat_eq_self)

section \<open>Lemmas: the stream reader\<close>

lemma compact_content [simp]: "stream_content (stream_compact s) = stream_content s"
  by (simp add: stream_content_def stream_compact_def)

lemma compact_limits [simp]: "fs_limits (stream_compact s) = fs_limits s"
  by (simp add: stream_compact_def)

lemma buffered_content: "buffered s = length (stream_content s)"
  by (simp add: buffered_def stream_content_def)

lemma capacity_limits: "fs_limits s = fs_limits t \<Longrightarrow> stream_capacity s = stream_capacity t"
  by (simp add: stream_capacity_def)

lemma stream_capacity_bound: "stream_capacity s < 2 ^ 64"
  using unat64_bound by (auto simp: stream_capacity_def split: sum.split)

lemma compact_consumed: "fs_consumed s \<le> length (fs_buffer s) \<Longrightarrow>
    fs_consumed (stream_compact s) \<le> length (fs_buffer (stream_compact s)) \<and> fs_consumed (stream_compact s) < kCompactThresholdBytes"
  by (simp add: stream_compact_def kCompactThresholdBytes_def)

lemma feed_result:
  "stream_feed data s = (ok_status, s') \<Longrightarrow> fs_consumed s \<le> length (fs_buffer s) \<Longrightarrow>
    stream_content s' = stream_content s @ data \<and> fs_limits s' = fs_limits s \<and> fs_consumed s' \<le> length (fs_buffer s')"
  using compact_consumed [of s] compact_content [of s]
  by (auto simp: stream_feed_def Let_def stream_content_def split: if_splits)

lemma feed_accepts:
  "buffered s + length data \<le> stream_capacity s \<Longrightarrow> fst (stream_feed data s) = ok_status"
  using stream_capacity_bound [of s] capacity_limits [OF compact_limits, of s]
  by (auto simp: stream_feed_def Let_def buffered_content not_less)

lemma magic_bytes: "le_bytes 4 kFrameMagic = kMagicBytes"
  by code_simp

lemma frame_image_magic: "frame_ok l f \<Longrightarrow> take 4 (frame_image f @ rest) = kMagicBytes"
  by (simp add: frame_image_front header_front_def flip: magic_bytes)

lemma frame_image_length [simp]: "length (frame_image f) = 40 + length (df_payload f)"
  by (simp add: frame_image_def)

lemma next_frame:
  assumes "decode_frame_prefix (stream_content s) (fs_limits s) = Inr f"
  shows "fst (stream_next s) = Inr f" "stream_content (snd (stream_next s)) = drop (df_consumed f) (stream_content s)"
    "fs_limits (snd (stream_next s)) = fs_limits s"
    "fs_consumed s \<le> length (fs_buffer s) \<Longrightarrow> fs_consumed (snd (stream_next s)) \<le> length (fs_buffer (snd (stream_next s)))"
proof -
  obtain rest where ok: "frame_ok (fs_limits s) f" and c: "stream_content s = frame_image f @ rest"
    using assms by (auto simp: decode_frame_prefix_iff)
  let ?q = "drop (fs_consumed (stream_compact s)) (fs_buffer (stream_compact s))"
  have q: "?q = frame_image f @ rest" using c compact_content [of s] by (simp add: stream_content_def)
  have k: "df_consumed f = 40 + length (df_payload f)" "unat (fh_payload_length (df_header f)) = length (df_payload f)"
    using ok by (simp_all add: frame_ok_def)
  have d: "decode_frame_prefix (frame_image f @ rest) (fs_limits s) = Inr f" using assms c by simp
  have h: "decode_header (take 40 (frame_image f @ rest)) (fs_limits s) = Inr (df_header f)"
    using ok by (simp add: decode_header_iff frame_image_front [OF ok] frame_ok_def)
  have m: "take 4 (frame_image f @ rest) = take (length (frame_image f @ rest)) kMagicBytes"
    using frame_image_magic [OF ok] by (simp add: kMagicBytes_def)
  have ne: "frame_image f \<noteq> []" using frame_image_length [of f] by fastforce
  have n: "stream_next s = (Inr f, (stream_compact s)\<lparr>fs_consumed := fs_consumed (stream_compact s) + df_consumed f\<rparr>)"
    unfolding stream_next_def Let_def q
    using m h d k ne by (simp add: kFrameHeaderBytes_def)
  show "fst (stream_next s) = Inr f" "fs_limits (snd (stream_next s)) = fs_limits s" by (simp_all add: n)
  show "stream_content (snd (stream_next s)) = drop (df_consumed f) (stream_content s)"
    using q c by (simp add: n stream_content_def add.commute flip: drop_drop)
  have "length ?q \<ge> df_consumed f" unfolding q using k by simp
  then show "fs_consumed (snd (stream_next s)) \<le> length (fs_buffer (snd (stream_next s)))" if "fs_consumed s \<le> length (fs_buffer s)"
    using compact_consumed [OF that] by (auto simp: n)
qed

lemma next_none:
  assumes "decode_frame_prefix (stream_content s) (fs_limits s) = Inl e"
  shows "\<exists>e'. stream_next s = (Inl e', stream_compact s)"
proof -
  have "decode_frame_prefix (drop (fs_consumed (stream_compact s)) (fs_buffer (stream_compact s))) (fs_limits s) = Inl e"
    using assms compact_content [of s] by (simp add: stream_content_def)
  then show ?thesis by (auto simp: stream_next_def Let_def split: sum.split)
qed

lemma next_cases:
  obtains (frame) f where "decode_frame_prefix (stream_content s) (fs_limits s) = Inr f"
  | (none) e e' where "decode_frame_prefix (stream_content s) (fs_limits s) = Inl e" "stream_next s = (Inl e', stream_compact s)"
  using next_none by (cases "decode_frame_prefix (stream_content s) (fs_limits s)") blast+

lemma prefix_consumed: "decode_frame_prefix data l = Inr f \<Longrightarrow> 40 \<le> df_consumed f \<and> df_consumed f \<le> length data"
  by (auto simp: decode_frame_prefix_iff frame_ok_def)

lemma stream_step_inv: "stream_step s s' \<Longrightarrow> stream_inv s \<Longrightarrow> stream_inv s' \<and> fs_limits s' = fs_limits s"
proof (induction rule: stream_step.induct)
  case (step_feed s data)
  let ?c = "stream_compact s"
  have cap: "stream_capacity ?c = stream_capacity s" by (rule capacity_limits) simp
  have i: "fs_consumed ?c \<le> length (fs_buffer ?c)" "fs_consumed ?c < kCompactThresholdBytes" "buffered ?c \<le> stream_capacity s"
    using step_feed compact_consumed [of s] by (auto simp: stream_inv_def buffered_content)
  then have "length (fs_buffer ?c) \<le> stream_capacity s + (kCompactThresholdBytes - 1)" by (simp add: buffered_def kCompactThresholdBytes_def)
  then have c: "stream_inv ?c" using i cap by (simp add: stream_inv_def)
  have "stream_capacity (?c\<lparr>fs_buffer := xs\<rparr>) = stream_capacity s" for xs using cap by (simp add: stream_capacity_def)
  then show ?case
    using c i step_feed cap by (auto simp: stream_feed_def Let_def stream_inv_def buffered_def kCompactThresholdBytes_def)
next
  case (step_next s)
  let ?c = "stream_compact s"
  have cap: "stream_capacity ?c = stream_capacity s" by (rule capacity_limits) simp
  have i: "fs_consumed ?c \<le> length (fs_buffer ?c)" "fs_consumed ?c < kCompactThresholdBytes" "buffered ?c \<le> stream_capacity s"
    using step_next compact_consumed [of s] by (auto simp: stream_inv_def buffered_content)
  then have c: "stream_inv ?c" using cap by (simp add: stream_inv_def buffered_def kCompactThresholdBytes_def)
  show ?case
  proof (cases rule: next_cases [of s])
    case (frame f)
    note n = next_frame [OF frame]
    have b: "fs_buffer (snd (stream_next s)) = fs_buffer ?c"
      by (auto simp: stream_next_def Let_def split: sum.split)
    have "buffered (snd (stream_next s)) \<le> stream_capacity s"
      using n(2) step_next by (simp add: stream_inv_def buffered_content le_trans [OF diff_le_self])
    then show ?thesis using n(3,4) b c cap step_next capacity_limits [OF n(3)] by (simp add: stream_inv_def)
  next
    case none
    then show ?thesis using c by simp
  qed
qed

text \<open>
  The frames of a byte string read at once, and what a reader that drains the stream after every feed
  has returned. A reader stops at a chunk the stream refuses.
\<close>

function frames_of :: "limits \<Rightarrow> bytes \<Rightarrow> decoded_frame list" where
  "frames_of l data =
     (case decode_frame_prefix data l of
        Inl _ \<Rightarrow> [] | Inr f \<Rightarrow> f # frames_of l (drop (df_consumed f) data))"
  by pat_completeness auto
termination
  by (relation "measure (\<lambda>(l, data). length data)") (auto dest!: prefix_consumed)

function drain :: "frame_stream \<Rightarrow> decoded_frame list \<times> frame_stream" where
  "drain s =
     (case stream_next s of
        (Inl _, s1) \<Rightarrow> ([], s1)
      | (Inr f, s1) \<Rightarrow> (case drain s1 of (fs, s2) \<Rightarrow> (f # fs, s2)))"
  by pat_completeness auto
termination
proof (relation "measure (\<lambda>s. length (stream_content s))")
  fix s r s1 f
  assume r: "(r, s1) = stream_next s" "r = Inr f"
  show "(s1, s) \<in> measure (\<lambda>s. length (stream_content s))"
  proof (cases rule: next_cases [of s])
    case (frame g)
    have "s1 = snd (stream_next s)" using r by (metis snd_conv)
    then show ?thesis using next_frame(2) [OF frame] prefix_consumed [OF frame] by auto
  next
    case none
    then show ?thesis using r by simp
  qed
qed simp

fun receive :: "bytes list \<Rightarrow> frame_stream \<Rightarrow> (decoded_frame list \<times> frame_stream) option" where
  "receive [] s = Some ([], s)"
| "receive (chunk # chunks) s =
     (case stream_feed chunk s of
        (Inl _, _) \<Rightarrow> None
      | (Inr _, s1) \<Rightarrow>
        (case drain s1 of (fs, s2) \<Rightarrow>
           (case receive chunks s2 of None \<Rightarrow> None | Some (gs, s3) \<Rightarrow> Some (fs @ gs, s3))))"

section \<open>Lemmas: fragmentation\<close>

declare frames_of.simps [simp del] drain.simps [simp del]

lemma leftover_simps [simp]:
  "leftover [] data = data" "leftover (f # fs) data = leftover fs (drop (df_consumed f) data)"
  by (simp_all add: leftover_def add.commute)

lemma drain_frames:
  "fs_consumed s \<le> length (fs_buffer s) \<Longrightarrow> drain s = (fs, s') \<Longrightarrow>
    fs = frames_of (fs_limits s) (stream_content s) \<and> stream_content s' = leftover fs (stream_content s) \<and>
    fs_limits s' = fs_limits s \<and> fs_consumed s' \<le> length (fs_buffer s')"
proof (induction s arbitrary: fs s' rule: drain.induct)
  case (1 s)
  show ?case
  proof (cases rule: next_cases [of s])
    case (frame f)
    note n = next_frame [OF frame]
    obtain s1 where s1: "stream_next s = (Inr f, s1)" using n(1) by (cases "stream_next s") simp
    obtain gs s2 where d: "drain s1 = (gs, s2)" by fastforce
    then have eq: "fs = f # gs" "s' = s2" using "1.prems"(2) s1 by (simp_all add: drain.simps [of s])
    have "fs_consumed s1 \<le> length (fs_buffer s1)" using n(4) [OF "1.prems"(1)] s1 by simp
    from "1.IH" [OF s1 [symmetric] refl this d] eq show ?thesis
      using n(2,3) s1 frame by (simp add: frames_of.simps [of "fs_limits s" "stream_content s"])
  next
    case none
    then show ?thesis using "1.prems" compact_consumed [of s] compact_content [of s] compact_limits [of s]
      by (simp add: drain.simps [of s] frames_of.simps [of "fs_limits s" "stream_content s"])
  qed
qed

lemma prefix_append: "decode_frame_prefix data l = Inr f \<Longrightarrow> decode_frame_prefix (data @ more_data) l = Inr f"
  by (auto simp: decode_frame_prefix_iff)

lemma frames_of_append:
  "frames_of l (data @ more_data) = frames_of l data @ frames_of l (leftover (frames_of l data) data @ more_data)"
proof (induction l data rule: frames_of.induct)
  case (1 l data)
  show ?case
  proof (cases "decode_frame_prefix data l")
    case (Inl e)
    then show ?thesis by (simp add: frames_of.simps [of l data])
  next
    case (Inr f)
    then have p: "decode_frame_prefix (data @ more_data) l = Inr f" by (rule prefix_append)
    have "frames_of l (data @ more_data) = f # frames_of l (drop (df_consumed f) data @ more_data)"
      using p prefix_consumed [OF Inr] by (simp add: frames_of.simps [of l "data @ more_data"])
    then show ?thesis using 1 [OF Inr] Inr by (simp add: frames_of.simps [of l data])
  qed
qed

lemma receive_frames:
  "receive chunks s = Some (fs, s') \<Longrightarrow> fs_consumed s \<le> length (fs_buffer s) \<Longrightarrow> frames_of (fs_limits s) (stream_content s) = [] \<Longrightarrow>
    fs = frames_of (fs_limits s) (stream_content s @ concat chunks)"
proof (induction chunks arbitrary: s fs)
  case (Cons chunk chunks)
  then obtain u s1 where feed: "stream_feed chunk s = (Inr u, s1)" by (auto split: prod.splits sum.splits)
  obtain gs s2 where d: "drain s1 = (gs, s2)" by fastforce
  with feed Cons.prems(1) obtain hs where r: "receive chunks s2 = Some (hs, s')" "fs = gs @ hs"
    by (auto split: option.splits prod.splits)
  have f: "stream_content s1 = stream_content s @ chunk" "fs_limits s1 = fs_limits s" "fs_consumed s1 \<le> length (fs_buffer s1)"
    using feed_result [of chunk s s1] feed Cons.prems(2) by simp_all
  note g = drain_frames [OF f(3) d]
  let ?l = "fs_limits s"
  have rest: "frames_of ?l (leftover (frames_of ?l xs) xs) = []" for xs
    using frames_of_append [of ?l xs "[]"] by simp
  have "hs = frames_of ?l (stream_content s2 @ concat chunks)"
    using Cons.IH [OF r(1)] g f rest by simp
  moreover have "frames_of ?l (stream_content s @ chunk @ concat chunks) = gs @ frames_of ?l (stream_content s2 @ concat chunks)"
    using frames_of_append [of ?l "stream_content s @ chunk" "concat chunks"] g f by simp
  ultimately show ?case using r(2) by simp
qed simp

lemma frames_of_images:
  assumes "list_all (frame_ok l) fs"
  shows "frames_of l (concat (map frame_image fs)) = fs"
  using assms
proof (induction fs)
  case Nil
  have "decode_frame_prefix [] l = Inl TruncatedInput" by (simp add: decode_frame_prefix_def kFrameHeaderBytes_def)
  then show ?case by (simp add: frames_of.simps)
next
  case (Cons f fs)
  then have "decode_frame_prefix (frame_image f @ concat (map frame_image fs)) l = Inr f"
    by (auto simp: decode_frame_prefix_iff)
  moreover have "df_consumed f = length (frame_image f)" using Cons.prems by (simp add: frame_ok_def)
  ultimately show ?case using Cons by (simp add: frames_of.simps [of l "frame_image f @ concat (map frame_image fs)"])
qed

lemma drain_shrinks: "fs_consumed s \<le> length (fs_buffer s) \<Longrightarrow> drain s = (fs, s') \<Longrightarrow> buffered s' \<le> buffered s"
  using drain_frames [of s fs s'] by (simp add: buffered_content leftover_def)

lemma receive_fits:
  "fs_consumed s \<le> length (fs_buffer s) \<Longrightarrow> buffered s + length (concat chunks) \<le> stream_capacity s \<Longrightarrow> \<exists>r. receive chunks s = Some r"
proof (induction chunks arbitrary: s)
  case (Cons chunk chunks)
  obtain r s1 where feed: "stream_feed chunk s = (r, s1)" by fastforce
  then have ok: "r = ok_status" using feed_accepts [of s chunk] Cons.prems(2) by simp
  have f: "stream_content s1 = stream_content s @ chunk" "fs_limits s1 = fs_limits s" "fs_consumed s1 \<le> length (fs_buffer s1)"
    using feed_result [of chunk s s1] feed ok Cons.prems(1) by simp_all
  obtain gs s2 where d: "drain s1 = (gs, s2)" by fastforce
  note g = drain_frames [OF f(3) d] and h = drain_shrinks [OF f(3) d]
  have "stream_capacity s2 = stream_capacity s" by (rule capacity_limits) (use g f in simp)
  then have "\<exists>q. receive chunks s2 = Some q" using Cons.IH [of s2] g h f Cons.prems(2) by (simp add: buffered_content)
  then show ?case using feed ok d by auto
qed simp

section \<open>Lemmas: the replay guard\<close>

lemma evict_small: "length recent \<le> window \<Longrightarrow> evict window recent members = (recent, members)"
  by (cases recent) simp_all

lemma guard_accept_window [simp]: "rg_window (snd (guard_accept x g)) = rg_window g"
  by (auto simp: guard_accept_def guard_remember_def split: prod.split list.split)

lemma remember_seen:
  assumes "guard_seen accepted g" "x \<noteq> 0" "g' = guard_remember x (g\<lparr>rg_highest := max x (rg_highest g)\<rparr>)"
  shows "guard_seen (accepted @ [x]) g'"
proof -
  have "rg_recent g' = accepted @ [x]" "rg_recent_set g' = set (accepted @ [x])" if "length (accepted @ [x]) \<le> unat (rg_window g')"
    using that assms by (auto simp: guard_seen_def guard_remember_def evict_small split: prod.splits)
  moreover have "rg_highest g' = max x (rg_highest g)" "rg_window g' = rg_window g"
    using assms(3) by (simp_all add: guard_remember_def split: prod.split)
  moreover have "max x (rg_highest g) \<noteq> 0" using assms(2) by (auto simp: max_def word_le_nat_alt unat_eq_zero)
  ultimately show ?thesis using assms(1) by (auto simp: guard_seen_def max_def)
qed

lemma guard_accept_cases:
  assumes "guard_accept x g = (r, g')"
  obtains (new) "x \<noteq> 0" "rg_highest g = 0 \<or> rg_highest g < x" "r = Inr True" "g' = guard_remember x (g\<lparr>rg_highest := x\<rparr>)"
  | (late) "x \<noteq> 0" "x < rg_highest g" "x \<notin> rg_recent_set g" "r = Inr True" "g' = guard_remember x g"
  | (refused) "r \<noteq> Inr True" "g' = g"
proof (cases "x = 0 \<or> rg_highest g \<noteq> 0 \<and> x \<le> rg_highest g")
  case old: True
  show thesis
  proof (cases "r = Inr True")
    case True
    then have "x \<noteq> 0 \<and> x < rg_highest g \<and> x \<notin> rg_recent_set g \<and> g' = guard_remember x g"
      using assms old by (auto simp: guard_accept_def split: if_splits list.splits)
    then show thesis using True late by blast
  next
    case False
    then have "g' = g" using assms old by (auto simp: guard_accept_def split: if_splits list.splits)
    then show thesis using False refused by blast
  qed
next
  case fresh: False
  show thesis
  proof (cases "r = Inr True")
    case True
    then have "g' = guard_remember x (g\<lparr>rg_highest := x\<rparr>)"
      using assms fresh by (auto simp: guard_accept_def split: if_splits)
    then show thesis using True new fresh by (auto simp: not_le)
  next
    case False
    then have "g' = g" using assms fresh by (auto simp: guard_accept_def split: if_splits)
    then show thesis using False refused by blast
  qed
qed

lemma accept_seen:
  assumes "guard_seen accepted g" "guard_accept x g = (r, g')"
  shows "guard_seen (if r = Inr True then accepted @ [x] else accepted) g'"
    "r = Inr True \<Longrightarrow> x \<noteq> rg_highest g \<and> (x > rg_highest g \<or> x \<notin> rg_recent_set g)"
  using assms(2)
proof (atomize (full), cases rule: guard_accept_cases)
  case new
  then have "max x (rg_highest g) = x" by (auto simp: max_def)
  then show "guard_seen (if r = Inr True then accepted @ [x] else accepted) g' \<and>
      (r = Inr True \<longrightarrow> x \<noteq> rg_highest g \<and> (rg_highest g < x \<or> x \<notin> rg_recent_set g))"
    using remember_seen [OF assms(1) new(1)] new by (auto simp: word_neq_0_conv)
next
  case late
  then have "g\<lparr>rg_highest := max x (rg_highest g)\<rparr> = g" by (simp add: max_def)
  then show "guard_seen (if r = Inr True then accepted @ [x] else accepted) g' \<and>
      (r = Inr True \<longrightarrow> x \<noteq> rg_highest g \<and> (rg_highest g < x \<or> x \<notin> rg_recent_set g))"
    using remember_seen [OF assms(1) late(1)] late by auto
next
  case refused
  then show "guard_seen (if r = Inr True then accepted @ [x] else accepted) g' \<and>
      (r = Inr True \<longrightarrow> x \<noteq> rg_highest g \<and> (rg_highest g < x \<or> x \<notin> rg_recent_set g))"
    using assms(1) by simp
qed

lemma guard_run_distinct:
  assumes "guard_seen before g" "distinct before" "guard_run xs g = (accepted, g')"
    and "length (before @ accepted) \<le> unat (rg_window g) \<or> sorted (before @ accepted)"
  shows "distinct (before @ accepted)"
  using assms
proof (induction xs arbitrary: before g accepted)
  case (Cons x xs)
  obtain r g1 where a: "guard_accept x g = (r, g1)" by fastforce
  obtain rest where b: "guard_run xs g1 = (rest, g')" using Cons.prems(3) a by (auto split: prod.splits)
  have acc: "accepted = (if r = Inr True then x # rest else rest)" using Cons.prems(3) a b by simp
  note seen = accept_seen [OF Cons.prems(1) a]
  have w: "rg_window g1 = rg_window g" using guard_accept_window [of x g] a by simp
  show ?case
  proof (cases "r = Inr True")
    case True
    have "x \<notin> set before"
      using Cons.prems(4)
    proof
      assume "length (before @ accepted) \<le> unat (rg_window g)"
      then show ?thesis using seen(2) [OF True] Cons.prems(1) True by (auto simp: guard_seen_def)
    next
      assume "sorted (before @ accepted)"
      then have "\<forall>y\<in>set before. y \<le> x" using acc True by (simp add: sorted_append)
      moreover have "x \<le> rg_highest g \<and> rg_highest g \<in> set before" if "x \<in> set before"
        using that Cons.prems(1) by (auto simp: guard_seen_def)
      ultimately show ?thesis using seen(2) [OF True] by force
    qed
    then show ?thesis
      using Cons.IH [OF seen(1) _ b] Cons.prems(2,4) acc True w by simp
  next
    case False
    then show ?thesis using Cons.IH [OF seen(1) _ b] Cons.prems(2,4) acc w by simp
  qed
qed simp

section \<open>Lemmas: eviction\<close>

lemma evict_distinct: "distinct xs \<Longrightarrow> evict w xs (set xs) = (drop (length xs - w) xs, set (drop (length xs - w) xs))"
proof (induction xs)
  case (Cons x xs)
  then have "set (x # xs) - {x} = set xs" by auto
  with Cons show ?case by (auto simp: Suc_diff_le not_less_eq_eq split: nat_diff_split)
qed simp

lemma remember_at:
  assumes "w \<le> 2 ^ 16" "distinct (accepted @ [x])"
  shows "guard_remember x ((guard_at w accepted h)\<lparr>rg_highest := h'\<rparr>) = guard_at w (accepted @ [x]) h'"
proof -
  let ?recent = "drop (length accepted - w) accepted"
  have d: "distinct (?recent @ [x])" using assms(2) by (auto dest: in_set_dropD)
  have u: "unat (word_of_nat w :: u64) = w" using assms(1) by (simp add: unat_of_nat_u64)
  have "insert x (set ?recent) = set (?recent @ [x])" by auto
  then have "evict w (?recent @ [x]) (insert x (set ?recent)) =
      (drop (length (?recent @ [x]) - w) (?recent @ [x]), set (drop (length (?recent @ [x]) - w) (?recent @ [x])))"
    using evict_distinct [OF d, of w] by simp
  moreover have "drop (length (?recent @ [x]) - w) (?recent @ [x]) = drop (length (accepted @ [x]) - w) (accepted @ [x])"
    by (auto simp: Suc_diff_le not_le split: nat_diff_split)
  ultimately show ?thesis by (simp add: guard_remember_def guard_at_def Let_def u)
qed

lemma accept_next:
  assumes "w \<le> 2 ^ 16" "distinct (accepted @ [x])" "h < x" "x - h \<le> kMaxForwardJump"
  shows "guard_accept x (guard_at w accepted h) = (Inr True, guard_at w (accepted @ [x]) x)"
proof -
  have "rg_highest (guard_at w accepted h) = h" by (simp add: guard_at_def Let_def)
  moreover have "x \<noteq> 0" using assms(3) by auto
  ultimately show ?thesis using assms remember_at [OF assms(1,2), where h = h and h' = x] by (auto simp: guard_accept_def)
qed

lemma accept_late:
  assumes "w \<le> 2 ^ 16" "distinct (accepted @ [x])" "x < h" "x \<noteq> 0" "drop (length accepted - w) accepted = y # ys" "y \<le> x"
  shows "guard_accept x (guard_at w accepted h) = (Inr True, guard_at w (accepted @ [x]) h)"
proof -
  have "x \<notin> set (drop (length accepted - w) accepted)" using assms(2) by (auto dest: in_set_dropD)
  then have "rg_highest (guard_at w accepted h) = h" "rg_recent (guard_at w accepted h) = y # ys"
    "x \<notin> rg_recent_set (guard_at w accepted h)"
    using assms(5) by (auto simp: guard_at_def Let_def)
  moreover have "h \<noteq> 0" using assms(3) by auto
  have same: "(guard_at w accepted h)\<lparr>rg_highest := h\<rparr> = guard_at w accepted h" by (simp add: guard_at_def Let_def)
  moreover note remember_at [OF assms(1,2), where h = h and h' = h, unfolded same]
  ultimately show ?thesis
    using assms(3,4,6) by (auto simp: guard_accept_def)
qed

lemma guard_run_append:
  "guard_run xs g = (a, g1) \<Longrightarrow> guard_run ys g1 = (b, g2) \<Longrightarrow> guard_run (xs @ ys) g = (a @ b, g2)"
  by (induction xs arbitrary: g a) (auto split: prod.splits)

lemma u64_nat_less: "m < n \<Longrightarrow> n < 2 ^ 64 \<Longrightarrow> (word_of_nat m :: u64) < word_of_nat n"
  by (simp add: word_less_nat_alt unat_of_nat_u64)

lemma ascending_run:
  assumes "2 \<le> w" "w \<le> 2 ^ 16" "4 \<le> k" "k \<le> w + 3"
  shows "guard_run (map word_of_nat [4..<k]) (guard_at w [1, 3, 2] 3) =
    (map word_of_nat [4..<k], guard_at w ([1, 3, 2] @ map word_of_nat [4..<k]) (word_of_nat (k - 1)))"
  using assms(3,4)
proof (induction k rule: dec_induct)
  case base
  then show ?case by simp
next
  case (step k)
  let ?acc = "[1, 3, 2] @ map word_of_nat [4..<k] :: u64 list"
  have k: "k < 2 ^ 64" using step assms by simp
  have inj: "word_of_nat i = (word_of_nat j :: u64) \<longleftrightarrow> i = j" if "i < 2 ^ 64" "j < 2 ^ 64" for i j
    using that by (metis unat_of_nat_u64)
  have small: "(word_of_nat i :: u64) \<noteq> 1 \<and> (word_of_nat i :: u64) \<noteq> 2 \<and> (word_of_nat i :: u64) \<noteq> 3" if "4 \<le> i" "i \<le> k" for i
    using that k inj [of i 1] inj [of i 2] inj [of i 3] by simp
  have "distinct (map (word_of_nat :: nat \<Rightarrow> u64) [4..<Suc k])"
    unfolding distinct_map using k inj by (auto simp: inj_on_def)
  then have d: "distinct (?acc @ [word_of_nat k])" using step small by (auto simp: image_iff)
  have less: "(word_of_nat (k - 1) :: u64) < word_of_nat k" using step k by (intro u64_nat_less) simp_all
  have "(word_of_nat k :: u64) = word_of_nat (k - 1) + 1" using step.hyps(1) by (cases k) simp_all
  then have "(word_of_nat k :: u64) - word_of_nat (k - 1) \<le> kMaxForwardJump" by (simp add: kMaxForwardJump_def)
  then have "guard_accept (word_of_nat k) (guard_at w ?acc (word_of_nat (k - 1))) =
      (Inr True, guard_at w (?acc @ [word_of_nat k]) (word_of_nat k))"
    by (rule accept_next [OF assms(2) d less])
  then have "guard_run [word_of_nat k] (guard_at w ?acc (word_of_nat (k - 1))) =
      ([word_of_nat k], guard_at w (?acc @ [word_of_nat k]) (word_of_nat k))"
    by simp
  from guard_run_append [OF step.IH this] show ?case using step by simp
qed

lemma guard_start:
  assumes "2 \<le> w" "w \<le> 2 ^ 16"
  shows "guard_run [1, 3, 2] (mk_guard (word_of_nat w)) = ([1, 3, 2], guard_at w [1, 3, 2] 3)"
proof -
  have "unat (word_of_nat w :: u64) = w" using assms by (simp add: unat_of_nat_u64)
  then have "word_of_nat w \<le> kMaxReplayWindow" using assms by (simp add: kMaxReplayWindow_def word_le_nat_alt)
  then have m: "mk_guard (word_of_nat w) = guard_at w [] 0" by (auto simp: mk_guard_def guard_at_def)
  have a: "guard_accept 1 (guard_at w [] 0) = (Inr True, guard_at w [1] 1)"
    using accept_next [OF assms(2), of "[]" 1 0] by (simp add: kMaxForwardJump_def)
  have b: "guard_accept 3 (guard_at w [1] 1) = (Inr True, guard_at w [1, 3] 3)"
    using accept_next [OF assms(2), of "[1]" 3 1] by (simp add: kMaxForwardJump_def)
  have c: "guard_accept 2 (guard_at w [1, 3] 3) = (Inr True, guard_at w [1, 3, 2] 3)"
    using accept_late [OF assms(2), of "[1, 3]" 2 3 1 "[3]"] assms(1) by simp
  show ?thesis by (simp add: m a b c)
qed

lemma accepted_again:
  assumes "2 \<le> w" "w \<le> 2 ^ 16"
  shows "fst (guard_accept 3 (guard_at w ([1, 3, 2] @ map word_of_nat [4..<w + 3]) (word_of_nat (w + 2)))) = Inr True"
proof -
  let ?acc = "[1, 3, 2] @ map word_of_nat [4..<w + 3] :: u64 list"
  let ?g = "guard_at w ?acc (word_of_nat (w + 2))"
  have "length ?acc - w = 2" using assms by simp
  then have r: "rg_recent ?g = 2 # map word_of_nat [4..<w + 3]" by (simp add: guard_at_def Let_def numeral_2_eq_2)
  have "(3 :: u64) \<noteq> word_of_nat i" if "4 \<le> i" "i < w + 3" for i
    using that assms u64_of_nat_eq_iff [of i 3] by auto
  then have n: "3 \<notin> rg_recent_set ?g" using r by (auto simp: guard_at_def Let_def)
  have h: "rg_highest ?g = word_of_nat (w + 2)" by (simp add: guard_at_def Let_def)
  have "(3 :: u64) < word_of_nat (w + 2)" using u64_nat_less [of 3 "w + 2"] assms by simp
  then show ?thesis using r n h by (auto simp: guard_accept_def)
qed

lemma sample_frame_ok: "frame_ok default_limits sample_frame"
  by (simp add: frame_ok_def sample_frame_def sample_header_def header_ok_def default_limits_def kProtocolVersion_def
      is_known_message_type_def kMessageTypes_def)

section \<open>Properties\<close>

text \<open>
  C28. Decoding a frame inverts encoding it: \<open>decode_frame\<close> accepts exactly the byte strings
  \<open>encode_frame\<close> produces under the reader's limits, apart from the sender's allocation bound, and
  returns the header with the length and checksum of the payload it carries.
\<close>

theorem frame_decode_exact:
  "decode_frame data l = Inr f \<longleftrightarrow>
     encode_frame (df_header f) (df_payload f) out (l\<lparr>max_allocation_bytes := - 1\<rparr>) = (ok_status, data) \<and>
     fh_payload_length (df_header f) = word_of_nat (length (df_payload f)) \<and>
     fh_payload_crc32c (df_header f) = crc32c (df_payload f) \<and> df_consumed f = length data"
proof -
  let ?h = "df_header f" and ?p = "df_payload f"
  have len: "unat (fh_payload_length ?h) = length ?p \<longleftrightarrow> fh_payload_length ?h = word_of_nat (length ?p) \<and> length ?p < 2 ^ 32"
    by (rule u32_of_nat_iff)
  have same: "?h\<lparr>fh_payload_length := word_of_nat (length ?p)\<rparr> = ?h" if "fh_payload_length ?h = word_of_nat (length ?p)"
    using that by simp
  let ?l = "l\<lparr>max_allocation_bytes := - 1\<rparr>"
  have check: "check_frame ?h ?p ?l = ok_status \<longleftrightarrow> header_ok l ?h \<and> length ?p < 2 ^ 32"
    if "fh_payload_length ?h = word_of_nat (length ?p)" "fh_payload_crc32c ?h = crc32c ?p"
    using that len same [OF that(1)] max_u64 by (auto simp: check_frame_iff header_ok_def)
  show ?thesis
  proof (cases "fh_payload_length ?h = word_of_nat (length ?p) \<and> fh_payload_crc32c ?h = crc32c ?p")
    case True
    then show ?thesis
      using check len by (auto simp: decode_frame_iff encode_frame_iff frame_ok_def frame_image_def)
  next
    case False
    then show ?thesis using len by (auto simp: decode_frame_iff frame_ok_def)
  qed
qed

text \<open>
  C29. A frame is tamper-evident to the byte: changing any one byte of an accepted frame, in the
  header, in either checksum or in the payload, makes \<open>decode_frame\<close> refuse it.
\<close>

theorem frame_corruption_detected:
  assumes "decode_frame data l = Inr f" "i < length data" "b \<noteq> data ! i"
  shows "\<exists>e. decode_frame (data[i := b]) l = Inl e"
proof (cases "decode_frame (data[i := b]) l")
  case (Inr g)
  then show ?thesis using assms altered_frame_refused [of l f g i b] by (auto simp: decode_frame_iff)
qed simp

theorem frame_corruption_detected_witness:
  "\<exists>e. decode_frame ((frame_image sample_frame)[41 := 7]) default_limits = Inl e"
proof (rule frame_corruption_detected [of "frame_image sample_frame" default_limits sample_frame])
  show "decode_frame (frame_image sample_frame) default_limits = Inr sample_frame"
    by (simp add: decode_frame_iff sample_frame_ok)
  have p: "df_payload sample_frame = [5, 6]" by (simp add: sample_frame_def)
  show "41 < length (frame_image sample_frame)" "7 \<noteq> frame_image sample_frame ! 41"
    by (simp_all add: frame_image_front [OF sample_frame_ok] nth_append p)
qed

text \<open>
  C30. The stream reader returns the frames that were sent, however the bytes are cut into reads. A
  reader that feeds each chunk and drains the stream returns the frames of the whole byte string read
  at once; in particular, the chunks of a concatenation of encoded frames give back those frames.
\<close>

theorem stream_reassembles:
  assumes "receive chunks (mk_stream l) = Some (fs, s)"
  shows "fs = frames_of l (concat chunks) \<and>
    (\<forall>sent. list_all (frame_ok l) sent \<and> concat chunks = concat (map frame_image sent) \<longrightarrow> fs = sent)"
proof -
  have "decode_frame_prefix [] l = Inl TruncatedInput" by (simp add: decode_frame_prefix_def kFrameHeaderBytes_def)
  then have "frames_of l [] = []" by (simp add: frames_of.simps)
  then have "fs = frames_of l (concat chunks)"
    using receive_frames [OF assms] by (simp add: mk_stream_def stream_content_def)
  then show ?thesis using frames_of_images by auto
qed

theorem stream_reassembles_witness:
  "\<exists>s. receive [take 7 (frame_image sample_frame), drop 7 (frame_image sample_frame), frame_image sample_frame] (mk_stream default_limits) =
     Some ([sample_frame, sample_frame], s)"
proof -
  let ?chunks = "[take 7 (frame_image sample_frame), drop 7 (frame_image sample_frame), frame_image sample_frame]"
  have "length (concat ?chunks) \<le> stream_capacity (mk_stream default_limits)"
    by (simp add: sample_frame_def stream_capacity_def mk_stream_def default_limits_def checked_add_eq kFrameHeaderBytes_def)
  then obtain fs s where r: "receive ?chunks (mk_stream default_limits) = Some (fs, s)"
    using receive_fits [of "mk_stream default_limits" ?chunks] by (auto simp: mk_stream_def buffered_def)
  then show ?thesis
    using stream_reassembles [OF r] sample_frame_ok by (auto dest: spec [of _ "[sample_frame, sample_frame]"])
qed

text \<open>
  The stream reader is bounded: whatever a peer sends, in every state reached by feeding and
  reading, the unread bytes fit one maximal frame and the buffer holds less than the compaction
  threshold beyond that.
\<close>

theorem stream_memory_bounded:
  assumes "stream_step\<^sup>*\<^sup>* (mk_stream l) s"
  shows "buffered s \<le> stream_capacity (mk_stream l) \<and>
    length (fs_buffer s) < stream_capacity (mk_stream l) + kCompactThresholdBytes \<and> fs_consumed s \<le> length (fs_buffer s)"
proof -
  have "stream_inv s \<and> fs_limits s = l" using assms
  proof (induction rule: rtranclp_induct)
    case base
    then show ?case by (simp add: stream_inv_def mk_stream_def buffered_def)
  next
    case (step y z)
    then show ?case using stream_step_inv by blast
  qed
  moreover from this have "stream_capacity s = stream_capacity (mk_stream l)"
    by (intro capacity_limits) (simp add: mk_stream_def)
  ultimately show ?thesis by (auto simp: stream_inv_def kCompactThresholdBytes_def)
qed

theorem stream_memory_bounded_witness:
  "buffered (snd (stream_feed [1, 2, 3] (mk_stream default_limits))) \<le> stream_capacity (mk_stream default_limits)"
  using stream_memory_bounded [OF r_into_rtranclp [of stream_step, OF step_feed]] by blast



text \<open>
  C32. The replay guard can accept a sequence number twice. The retained numbers are kept in the
  order of acceptance, so evicting the oldest can lower the bound below a number already evicted:
  for every window of at least two, after \<open>1, 3, 2, 4, \<dots>, window + 2\<close> the number \<open>3\<close> is accepted again.
\<close>

theorem replay_accepted_again:
  assumes "2 \<le> w" "w \<le> 2 ^ 16"
  shows "fst (guard_run ([1, 3, 2] @ map word_of_nat [4..<w + 3] @ [3]) (mk_guard (word_of_nat w))) =
    [1, 3, 2] @ map word_of_nat [4..<w + 3] @ [3]"
proof -
  let ?g = "guard_at w ([1, 3, 2] @ map word_of_nat [4..<w + 3]) (word_of_nat (w + 3 - 1))"
  obtain g' where "guard_accept 3 ?g = (Inr True, g')"
    using accepted_again [OF assms] by (cases "guard_accept 3 ?g") simp
  then have last: "guard_run [3] ?g = ([3], g')" by simp
  from guard_run_append [OF guard_start [OF assms] guard_run_append [OF ascending_run [OF assms] last]] assms
  show ?thesis by simp
qed

theorem replay_accepted_again_witness: "fst (guard_run [1, 3, 2, 4, 3] (mk_guard 2)) = [1, 3, 2, 4, 3]"
  using replay_accepted_again [of 2] by (simp add: upt_rec)

end
