(* ===== verification/Fabric_Messages.thy ===== *)
theory Fabric_Messages
  imports Fabric_Frame Fabric_Recovery
begin

text \<open>
  The payloads of the coordinator service (\<open>service.cpp\<close>): the reply envelope, the codecs the
  server and the client share, and the bodies of the requests and responses.

  A detail text is a byte string. Names with the suffix \<open>_msg\<close> are the functions of
  \<open>service.cpp\<close> that have a namesake in \<open>records.cpp\<close>: the wire reader of a selection does not
  require it to be canonical, and the wire reader of a completion does not compare its two consumers.
\<close>

section \<open>Bounds and classification\<close>

definition kAnswerCacheEntries :: nat where "kAnswerCacheEntries = 32"

definition kReplayWindow :: u64 where "kReplayWindow = 1024"

definition kMaxWorkerThreads :: u32 where "kMaxWorkerThreads = 1024"

definition is_producer_kind :: "u8 \<Rightarrow> bool" where
  "is_producer_kind raw \<longleftrightarrow> raw = participant_kind_value PK_Producer"

definition is_consumer_kind :: "u8 \<Rightarrow> bool" where
  "is_consumer_kind raw \<longleftrightarrow> raw = participant_kind_value PK_Consumer"

text \<open>The cast of a raw kind that one of the two tests has accepted.\<close>

definition raw_kind :: "u8 \<Rightarrow> participant_kind option" where
  "raw_kind raw =
     (if \<not> is_producer_kind raw \<and> \<not> is_consumer_kind raw then None
      else if is_producer_kind raw then Some PK_Producer else Some PK_Consumer)"

definition is_known_error_code :: "u16 \<Rightarrow> bool" where
  "is_known_error_code raw \<longleftrightarrow>
     raw \<le> code_value TooManyTrackedEdges \<and> (raw = 0 \<or> raw \<ge> code_value InvalidArgument)"

section \<open>The reply envelope\<close>

definition write_ok_envelope :: bytes where
  "write_ok_envelope = put_u16 0 @ put_string []"

definition write_text :: "bytes \<Rightarrow> u32 \<Rightarrow> bytes" where
  "write_text txt max_bytes = put_string (if length txt > unat max_bytes then take (unat max_bytes) txt else txt)"

definition write_error_envelope :: "limits \<Rightarrow> error_code \<Rightarrow> bytes \<Rightarrow> bytes" where
  "write_error_envelope l code detail =
     put_u16 (code_value code) @
     put_string (if length detail > unat (max_string_bytes l) then take (unat (max_string_bytes l)) detail else detail)"

definition read_envelope :: "limits \<Rightarrow> (error_code \<times> bytes) result reader" where
  "read_envelope l = do {
     raw \<leftarrow> rd_u16;
     detail \<leftarrow> rd_string (max_string_bytes l);
     rd_check (if \<not> is_known_error_code raw then ret (Inl ProtocolViolation) else ret (Inr (ErrorCode raw, detail))) }"

section \<open>Shared payload codecs\<close>

definition write_selection_msg :: "partition_selection \<Rightarrow> limits \<Rightarrow> bytes result" where
  "write_selection_msg selection l =
     (if length (ps_list selection) > unat (max_selection_items l) then Inl OversizedInput
      else Inr (put_u8 (selection_kind_value (ps_kind selection)) @ put_u64 (ps_begin selection) @
        put_u64 (ps_end selection) @ put_u32 (word_of_nat (length (ps_list selection))) @
        concat (map put_u64 (ps_list selection))))"

definition read_selection_msg :: "limits \<Rightarrow> partition_selection result reader" where
  "read_selection_msg l = do {
     raw \<leftarrow> rd_u8;
     first \<leftarrow> rd_u64;
     limit \<leftarrow> rd_u64;
     rd_check (case selection_kind_of raw of
       None \<Rightarrow> ret (Inl MalformedInput)
     | Some kind \<Rightarrow> do {
         count \<leftarrow> rd_collection_count (max_selection_items l);
         rd_check (do {
           parts \<leftarrow> rd_many (unat count) rd_u64;
           rd_check (ret (Inr \<lparr>ps_kind = kind, ps_begin = first, ps_end = limit, ps_list = parts\<rparr>)) }) }) }"

definition read_open_shuffle :: "open_request result reader" where
  "read_open_shuffle = do {
     shuffle \<leftarrow> rd_u64;
     generation \<leftarrow> rd_u64;
     partition_count \<leftarrow> rd_u32;
     rd_check (rd_sub decode_policy (\<lambda>policy.
       rd_check (ret (Inr \<lparr>or_shuffle = shuffle, or_generation = generation,
         or_partition_count = partition_count, or_policy = policy\<rparr>)))) }"

definition write_commit_request_msg :: "commit_request \<Rightarrow> bytes" where
  "write_commit_request_msg request =
     put_u64 (ek_partition (rq_edge request)) @
     put_u64 (ek_partition_generation (rq_edge request)) @
     put_u64 (ek_consumer (rq_edge request)) @
     put_u64 (rq_attempt request) @
     put_u64 (rq_wave request) @
     put_u64 (rq_shuffle_generation request) @
     put_u64 (rq_topology_generation request) @
     put_u64 (rq_policy_generation request) @
     put_u64 (rq_producer request) @
     put_u64 (rq_producer_incarnation request) @
     put_u64 (rq_consumer request) @
     put_u64 (rq_consumer_incarnation request) @
     put_digest (rq_manifest_digest request) @
     put_digest (rq_observed_partition_digest request) @
     put_bool (rq_integrity_verified request) @
     put_u64 (rq_bytes request) @
     put_u32 (word_of_nat (length (rq_observed_chunk_digests request))) @
     concat (map put_digest (rq_observed_chunk_digests request))"

definition read_commit_request_msg :: "limits \<Rightarrow> commit_request result reader" where
  "read_commit_request_msg l = do {
     part \<leftarrow> rd_u64;
     partition_generation \<leftarrow> rd_u64;
     edge_consumer \<leftarrow> rd_u64;
     attempt \<leftarrow> rd_u64;
     wave \<leftarrow> rd_u64;
     shuffle_generation \<leftarrow> rd_u64;
     topology_generation \<leftarrow> rd_u64;
     policy_generation \<leftarrow> rd_u64;
     producer \<leftarrow> rd_u64;
     producer_incarnation \<leftarrow> rd_u64;
     consumer \<leftarrow> rd_u64;
     consumer_incarnation \<leftarrow> rd_u64;
     manifest_digest \<leftarrow> rd_digest;
     observed_partition_digest \<leftarrow> rd_digest;
     integrity_verified \<leftarrow> rd_boolean;
     n \<leftarrow> rd_u64;
     rd_check (do {
       chunks \<leftarrow> rd_collection_count (max_chunks_per_partition l);
       rd_check (do {
         digests \<leftarrow> rd_many (unat chunks) rd_digest;
         rd_check (ret (Inr
           \<lparr>rq_edge = EdgeKey part partition_generation edge_consumer, rq_attempt = attempt, rq_wave = wave,
            rq_shuffle_generation = shuffle_generation, rq_topology_generation = topology_generation,
            rq_policy_generation = policy_generation, rq_producer = producer,
            rq_producer_incarnation = producer_incarnation, rq_consumer = consumer,
            rq_consumer_incarnation = consumer_incarnation, rq_manifest_digest = manifest_digest,
            rq_observed_partition_digest = observed_partition_digest, rq_observed_chunk_digests = digests,
            rq_bytes = n, rq_integrity_verified = integrity_verified\<rparr>)) }) }) }"

definition write_progress_snapshot :: "progress_snapshot \<Rightarrow> bytes" where
  "write_progress_snapshot snapshot =
     put_u64 (sn_shuffle snapshot) @
     put_u64 (sn_shuffle_generation snapshot) @
     put_u64 (sn_partitions_total snapshot) @
     put_u64 (sn_partitions_committed snapshot) @
     put_u64 (sn_partitions_failed snapshot) @
     put_u64 (sn_partitions_incomplete snapshot) @
     put_u64 (sn_edges_required snapshot) @
     put_u64 (sn_edges_completed snapshot) @
     put_u64 (sn_edges_failed snapshot) @
     put_u64 (sn_edges_incomplete snapshot) @
     put_u64 (sn_edges_over_counted snapshot) @
     put_u64 (sn_bytes_committed snapshot) @
     put_u64 (sn_bytes_attempted snapshot) @
     put_u64 (sn_duplicate_commits_suppressed snapshot) @
     put_u64 (sn_retriable_failures snapshot) @
     put_u64 (sn_permanent_failures snapshot) @
     put_u64 (sn_authority_refusals snapshot) @
     put_u64 (sn_tracked_partitions snapshot) @
     put_u64 (sn_tracked_edges snapshot) @
     put_u64 (sn_tick snapshot)"

definition read_progress_snapshot :: "progress_snapshot result reader" where
  "read_progress_snapshot = do {
     shuffle \<leftarrow> rd_u64;
     shuffle_generation \<leftarrow> rd_u64;
     partitions_total \<leftarrow> rd_u64;
     partitions_committed \<leftarrow> rd_u64;
     partitions_failed \<leftarrow> rd_u64;
     partitions_incomplete \<leftarrow> rd_u64;
     edges_required \<leftarrow> rd_u64;
     edges_completed \<leftarrow> rd_u64;
     edges_failed \<leftarrow> rd_u64;
     edges_incomplete \<leftarrow> rd_u64;
     edges_over_counted \<leftarrow> rd_u64;
     bytes_committed \<leftarrow> rd_u64;
     bytes_attempted \<leftarrow> rd_u64;
     duplicate_commits_suppressed \<leftarrow> rd_u64;
     retriable_failures \<leftarrow> rd_u64;
     permanent_failures \<leftarrow> rd_u64;
     authority_refusals \<leftarrow> rd_u64;
     tracked_partitions \<leftarrow> rd_u64;
     tracked_edges \<leftarrow> rd_u64;
     tick \<leftarrow> rd_u64;
     rd_check (ret (Inr
       \<lparr>sn_shuffle = shuffle, sn_shuffle_generation = shuffle_generation,
        sn_partitions_total = partitions_total, sn_partitions_committed = partitions_committed,
        sn_partitions_failed = partitions_failed, sn_partitions_incomplete = partitions_incomplete,
        sn_edges_required = edges_required, sn_edges_completed = edges_completed,
        sn_edges_failed = edges_failed, sn_edges_incomplete = edges_incomplete,
        sn_edges_over_counted = edges_over_counted, sn_bytes_committed = bytes_committed,
        sn_bytes_attempted = bytes_attempted,
        sn_duplicate_commits_suppressed = duplicate_commits_suppressed,
        sn_retriable_failures = retriable_failures, sn_permanent_failures = permanent_failures,
        sn_authority_refusals = authority_refusals, sn_tracked_partitions = tracked_partitions,
        sn_tracked_edges = tracked_edges, sn_tick = tick\<rparr>)) }"

text \<open>The state of a shuffle travels as one byte; \<open>status.state\<close> is an enumeration of 16 bits.\<close>

definition write_status :: "coordinator_status \<Rightarrow> bytes" where
  "write_status status =
     put_u8 (ucast (shuffle_state_value (st_state status))) @
     put_u16 (code_value (st_reason status)) @
     put_u64 (st_epoch status) @
     put_u64 (st_shuffle status) @
     put_u64 (st_shuffle_generation status) @
     put_u64 (st_topology_generation status) @
     put_u64 (st_policy_generation status) @
     put_u64 (st_tick status) @
     put_u32 (st_active_producers status) @
     put_u32 (st_active_consumers status) @
     put_u32 (st_in_flight status) @
     put_u64 (st_persisted_records status) @
     put_bool (st_durable status) @
     put_bool (st_revalidation_required status) @
     put_bool (st_history_incomplete status) @
     write_progress_snapshot (st_progress status)"

definition read_status :: "coordinator_status result reader" where
  "read_status = do {
     raw_state \<leftarrow> rd_u8;
     raw_reason \<leftarrow> rd_u16;
     epoch \<leftarrow> rd_u64;
     shuffle \<leftarrow> rd_u64;
     shuffle_generation \<leftarrow> rd_u64;
     topology_generation \<leftarrow> rd_u64;
     policy_generation \<leftarrow> rd_u64;
     tick \<leftarrow> rd_u64;
     active_producers \<leftarrow> rd_u32;
     active_consumers \<leftarrow> rd_u32;
     in_flight \<leftarrow> rd_u32;
     persisted_records \<leftarrow> rd_u64;
     durable \<leftarrow> rd_boolean;
     revalidation_required \<leftarrow> rd_boolean;
     history_incomplete \<leftarrow> rd_boolean;
     rd_check (case shuffle_state_of (ucast raw_state) of
       None \<Rightarrow> ret (Inl ProtocolViolation)
     | Some state \<Rightarrow>
         if \<not> is_known_error_code raw_reason then ret (Inl ProtocolViolation)
         else rd_sub read_progress_snapshot (\<lambda>progress.
           rd_check (ret (Inr
             \<lparr>st_state = state, st_reason = ErrorCode raw_reason, st_epoch = epoch, st_shuffle = shuffle,
              st_shuffle_generation = shuffle_generation, st_topology_generation = topology_generation,
              st_policy_generation = policy_generation, st_tick = tick,
              st_active_producers = active_producers, st_active_consumers = active_consumers,
              st_in_flight = in_flight, st_persisted_records = persisted_records, st_durable = durable,
              st_revalidation_required = revalidation_required, st_history_incomplete = history_incomplete,
              st_progress = progress\<rparr>)))) }"

definition write_grant :: "dispatch_grant \<Rightarrow> limits \<Rightarrow> bytes" where
  "write_grant grant l =
     put_u64 (dg_attempt grant) @
     put_u64 (dg_wave grant) @
     put_u64 (dg_shuffle grant) @
     put_u64 (dg_shuffle_generation grant) @
     put_u64 (dg_partition grant) @
     put_u64 (dg_partition_generation grant) @
     put_u64 (dg_producer grant) @
     put_u64 (dg_producer_incarnation grant) @
     write_text (dg_producer_endpoint grant) (max_endpoint_bytes l) @
     put_u64 (dg_consumer grant) @
     put_u64 (dg_consumer_incarnation grant) @
     put_u64 (dg_topology_generation grant) @
     put_u64 (dg_policy_generation grant) @
     put_digest (dg_manifest_digest grant) @
     put_u64 (dg_total_bytes grant) @
     put_u32 (dg_attempt_ordinal grant) @
     put_u64 (dg_issued_at grant)"

definition read_grant :: "limits \<Rightarrow> dispatch_grant result reader" where
  "read_grant l = do {
     attempt \<leftarrow> rd_u64;
     wave \<leftarrow> rd_u64;
     shuffle \<leftarrow> rd_u64;
     shuffle_generation \<leftarrow> rd_u64;
     part \<leftarrow> rd_u64;
     partition_generation \<leftarrow> rd_u64;
     producer \<leftarrow> rd_u64;
     producer_incarnation \<leftarrow> rd_u64;
     producer_endpoint \<leftarrow> rd_string (max_endpoint_bytes l);
     consumer \<leftarrow> rd_u64;
     consumer_incarnation \<leftarrow> rd_u64;
     topology_generation \<leftarrow> rd_u64;
     policy_generation \<leftarrow> rd_u64;
     manifest_digest \<leftarrow> rd_digest;
     total_bytes \<leftarrow> rd_u64;
     attempt_ordinal \<leftarrow> rd_u32;
     issued_at \<leftarrow> rd_u64;
     rd_check (ret (Inr
       \<lparr>dg_attempt = attempt, dg_wave = wave, dg_shuffle = shuffle,
        dg_shuffle_generation = shuffle_generation, dg_partition = part,
        dg_partition_generation = partition_generation, dg_producer = producer,
        dg_producer_incarnation = producer_incarnation, dg_producer_endpoint = producer_endpoint,
        dg_consumer = consumer, dg_consumer_incarnation = consumer_incarnation,
        dg_topology_generation = topology_generation, dg_policy_generation = policy_generation,
        dg_manifest_digest = manifest_digest, dg_total_bytes = total_bytes,
        dg_attempt_ordinal = attempt_ordinal, dg_issued_at = issued_at\<rparr>)) }"

definition write_wave_plan :: "wave_plan \<Rightarrow> limits \<Rightarrow> bytes" where
  "write_wave_plan plan l =
     put_u64 (wp_id plan) @
     put_u32 (word_of_nat (length (wp_grants plan))) @
     concat (map (\<lambda>grant. write_grant grant l) (wp_grants plan)) @
     put_u32 (wp_examined plan) @
     put_u32 (wp_skipped_completed plan) @
     put_u32 (wp_skipped_failed plan) @
     put_u32 (wp_skipped_in_flight plan) @
     put_u32 (wp_skipped_unproduced plan) @
     put_u32 (wp_deferred_limits plan) @
     put_u32 (wp_deferred_source_pressure plan) @
     put_u32 (wp_deferred_destination_pressure plan) @
     put_u32 (wp_deferred_unknown_pressure plan) @
     put_u32 (wp_deferred_retry_wait plan) @
     put_bool (wp_cursor_wrapped plan) @
     put_bool (wp_all_resolved plan)"

definition read_wave_counters :: "wave_id \<Rightarrow> dispatch_grant list \<Rightarrow> wave_plan result reader" where
  "read_wave_counters wave grants = do {
     examined \<leftarrow> rd_u32;
     skipped_completed \<leftarrow> rd_u32;
     skipped_failed \<leftarrow> rd_u32;
     skipped_in_flight \<leftarrow> rd_u32;
     skipped_unproduced \<leftarrow> rd_u32;
     deferred_limits \<leftarrow> rd_u32;
     deferred_source_pressure \<leftarrow> rd_u32;
     deferred_destination_pressure \<leftarrow> rd_u32;
     deferred_unknown_pressure \<leftarrow> rd_u32;
     deferred_retry_wait \<leftarrow> rd_u32;
     cursor_wrapped \<leftarrow> rd_boolean;
     all_resolved \<leftarrow> rd_boolean;
     rd_check (ret (Inr
       \<lparr>wp_id = wave, wp_grants = grants, wp_examined = examined, wp_skipped_completed = skipped_completed,
        wp_skipped_failed = skipped_failed, wp_skipped_in_flight = skipped_in_flight,
        wp_skipped_unproduced = skipped_unproduced, wp_deferred_limits = deferred_limits,
        wp_deferred_source_pressure = deferred_source_pressure,
        wp_deferred_destination_pressure = deferred_destination_pressure,
        wp_deferred_unknown_pressure = deferred_unknown_pressure,
        wp_deferred_retry_wait = deferred_retry_wait, wp_cursor_wrapped = cursor_wrapped,
        wp_all_resolved = all_resolved\<rparr>)) }"

definition read_wave_plan :: "limits \<Rightarrow> wave_plan result reader" where
  "read_wave_plan l = do {
     wave \<leftarrow> rd_u64;
     grants \<leftarrow> rd_collection_count (ucast (max_wave_grants l));
     rd_check (rd_sub (rd_list (unat grants) (read_grant l)) (read_wave_counters wave)) }"

text \<open>The characters of an explanation are its bytes.\<close>

definition char_bytes :: "string \<Rightarrow> bytes" where
  "char_bytes = map of_char"

definition bytes_char :: "bytes \<Rightarrow> string" where
  "bytes_char = map (\<lambda>b. char_of (unat b))"

definition write_explain_entry :: "explain_entry \<Rightarrow> limits \<Rightarrow> bytes" where
  "write_explain_entry entry l =
     put_u16 (code_value (xe_code entry)) @
     write_text (char_bytes (xe_subject entry)) (max_string_bytes l) @
     write_text (char_bytes (xe_detail entry)) (max_string_bytes l) @
     put_u64 (xe_count entry)"

definition write_explanation :: "explain_entry list \<Rightarrow> limits \<Rightarrow> bytes" where
  "write_explanation entries l =
     put_u32 (word_of_nat (length entries)) @ concat (map (\<lambda>entry. write_explain_entry entry l) entries)"

definition read_explain_entry :: "limits \<Rightarrow> explain_entry result reader" where
  "read_explain_entry l = do {
     raw_code \<leftarrow> rd_u16;
     subject \<leftarrow> rd_string (max_string_bytes l);
     detail \<leftarrow> rd_string (max_string_bytes l);
     n \<leftarrow> rd_u64;
     rd_check (if \<not> is_known_error_code raw_code then ret (Inl ProtocolViolation)
       else ret (Inr \<lparr>xe_code = ErrorCode raw_code, xe_subject = bytes_char subject,
         xe_detail = bytes_char detail, xe_count = n\<rparr>)) }"

definition read_explanation :: "limits \<Rightarrow> explain_entry list result reader" where
  "read_explanation l = do {
     count \<leftarrow> rd_collection_count (ucast (max_collection_items l));
     rd_check (rd_list (unat count) (read_explain_entry l)) }"

section \<open>Specification\<close>

definition envelope_bytes :: "error_code \<times> bytes \<Rightarrow> bytes" where
  "envelope_bytes e = put_u16 (code_value (fst e)) @ put_string (snd e)"

definition envelope_admitted :: "limits \<Rightarrow> limits \<Rightarrow> error_code \<times> bytes \<Rightarrow> bool" where
  "envelope_admitted l L e \<longleftrightarrow> is_known_error_code (code_value (fst e)) \<and> text_admitted (max_string_bytes l) L (snd e)"

definition selection_msg_admitted :: "limits \<Rightarrow> limits \<Rightarrow> partition_selection \<Rightarrow> bool" where
  "selection_msg_admitted l L s \<longleftrightarrow> 8 \<le> max_allocation_bytes L \<and>
     length (ps_list s) \<le> unat (max_selection_items l) \<and> length (ps_list s) \<le> unat (max_collection_items L)"

definition request_msg_admitted :: "limits \<Rightarrow> limits \<Rightarrow> commit_request \<Rightarrow> bool" where
  "request_msg_admitted l L q \<longleftrightarrow> 32 \<le> max_allocation_bytes L \<and>
     digest_wf (rq_manifest_digest q) \<and> digest_wf (rq_observed_partition_digest q) \<and>
     (\<forall>d \<in> set (rq_observed_chunk_digests q). digest_wf d) \<and>
     length (rq_observed_chunk_digests q) \<le> unat (max_chunks_per_partition l) \<and>
     length (rq_observed_chunk_digests q) \<le> unat (max_collection_items L)"

definition status_admitted :: "limits \<Rightarrow> coordinator_status \<Rightarrow> bool" where
  "status_admitted L st \<longleftrightarrow> 8 \<le> max_allocation_bytes L \<and> is_known_error_code (code_value (st_reason st))"

definition grant_admitted :: "limits \<Rightarrow> limits \<Rightarrow> dispatch_grant \<Rightarrow> bool" where
  "grant_admitted l L g \<longleftrightarrow> 32 \<le> max_allocation_bytes L \<and> digest_wf (dg_manifest_digest g) \<and>
     text_admitted (max_endpoint_bytes l) L (dg_producer_endpoint g)"

definition plan_admitted :: "limits \<Rightarrow> limits \<Rightarrow> wave_plan \<Rightarrow> bool" where
  "plan_admitted l L p \<longleftrightarrow> 8 \<le> max_allocation_bytes L \<and> (\<forall>g \<in> set (wp_grants p). grant_admitted l L g) \<and>
     length (wp_grants p) \<le> unat (max_wave_grants l) \<and> length (wp_grants p) \<le> unat (max_collection_items L)"

definition entry_admitted :: "limits \<Rightarrow> limits \<Rightarrow> explain_entry \<Rightarrow> bool" where
  "entry_admitted l L e \<longleftrightarrow> 8 \<le> max_allocation_bytes L \<and> is_known_error_code (code_value (xe_code e)) \<and>
     text_admitted (max_string_bytes l) L (char_bytes (xe_subject e)) \<and>
     text_admitted (max_string_bytes l) L (char_bytes (xe_detail e))"

definition explanation_admitted :: "limits \<Rightarrow> limits \<Rightarrow> explain_entry list \<Rightarrow> bool" where
  "explanation_admitted l L entries \<longleftrightarrow> 4 \<le> max_allocation_bytes L \<and> (\<forall>e \<in> set entries. entry_admitted l L e) \<and>
     length entries \<le> unat (max_collection_items l) \<and> length entries \<le> unat (max_collection_items L)"

definition selection_msg_bytes :: "partition_selection \<Rightarrow> bytes" where
  "selection_msg_bytes s = put_u8 (selection_kind_value (ps_kind s)) @ put_u64 (ps_begin s) @ put_u64 (ps_end s) @
     put_u32 (word_of_nat (length (ps_list s))) @ concat (map put_u64 (ps_list s))"

definition open_bytes :: "open_request \<Rightarrow> bytes" where
  "open_bytes request = put_u64 (or_shuffle request) @ put_u64 (or_generation request) @
     put_u32 (or_partition_count request) @ encode_policy (or_policy request)"

section \<open>Lemmas: payload codecs\<close>

lemma write_text_fits: "length txt \<le> unat m \<Longrightarrow> write_text txt m = put_string txt"
  by (simp add: write_text_def)

lemma write_text_admitted: "text_admitted m L txt \<Longrightarrow> write_text txt m = put_string txt"
  by (simp add: write_text_fits text_admitted_def)

lemma raw_kind_of: "raw_kind raw = participant_kind_of raw"
  by (simp add: raw_kind_def is_producer_kind_def is_consumer_kind_def participant_kind_of_def)

lemma raw_kind_value [simp]: "raw_kind (participant_kind_value k) = Some k"
  by (simp add: raw_kind_of)

lemma write_selection_msg_fits:
  "write_selection_msg s l = Inr data \<longleftrightarrow> length (ps_list s) \<le> unat (max_selection_items l) \<and> data = selection_msg_bytes s"
  by (auto simp: write_selection_msg_def selection_msg_bytes_def)

text \<open>The wire form of a completion is its durable form.\<close>

lemma write_commit_request_msg_eq: "write_commit_request_msg = write_commit_request"
  by (rule ext) (simp add: write_commit_request_msg_def write_commit_request_def)

interpretation envelope: record_codec envelope_bytes "read_envelope l" "envelope_admitted l" for l
proof
  fix L e
  assume a: "envelope_admitted l L e"
  then have alloc: "2 \<le> max_allocation_bytes L" by (auto simp: envelope_admitted_def text_admitted_def word_le_nat_alt)
  have k: "is_known_error_code (code_value (fst e))" "text_admitted (max_string_bytes l) L (snd e)"
    using a by (auto simp: envelope_admitted_def)
  have v: "parses L (rd_check (if \<not> is_known_error_code (code_value (fst e)) then ret (Inl ProtocolViolation)
      else ret (Inr (ErrorCode (code_value (fst e)), snd e)))) [] (Inr e)"
    using k by (intro parses_check) (simp add: parses_value)
  show "parses L (read_envelope l) (envelope_bytes e) (Inr e)"
    unfolding read_envelope_def envelope_bytes_def
    by (rule u16.parses_step [OF alloc], rule utf8_string.parses_step [where ys = "[]", simplified], rule k(2), rule v)
next
  fix L
  show "decodes L (read_envelope l) (\<lambda>e xs. xs = envelope_bytes e \<and> envelope_admitted l L e)"
    unfolding read_envelope_def
    by (rule u16.decodes_step utf8_string.decodes_step decodes_check decodes_ok_if decodes_ok_error decodes_ok_value)+
      (auto simp: envelope_bytes_def envelope_admitted_def)
qed

interpretation selection_msg: record_codec selection_msg_bytes "read_selection_msg l" "selection_msg_admitted l" for l
proof
  fix L s
  assume a: "selection_msg_admitted l L s"
  then have alloc: "8 \<le> max_allocation_bytes L" "4 \<le> max_allocation_bytes L" "1 \<le> max_allocation_bytes L"
    using alloc_8 [of L] by (auto simp: selection_msg_admitted_def)
  have len: "length (ps_list s) < 2 ^ 32" "length (concat (map put_u64 (ps_list s))) = 8 * length (ps_list s)"
    using a unat32_bound [of "max_collection_items L"]
    by (auto simp: selection_msg_admitted_def length_concat comp_def sum_list_triv)
  have parts: "parses L (rd_many (unat (word_of_nat (length (ps_list s)) :: u32)) rd_u64)
      (concat (map put_u64 (ps_list s))) (ps_list s)"
    using u64.parses_many [of "ps_list s" L] alloc len by (simp add: unat_of_length_u32)
  have kind: "selection_kind_of (selection_kind_value (ps_kind s)) = Some (ps_kind s)" by simp
  show "parses L (read_selection_msg l) (selection_msg_bytes s) (Inr s)"
    unfolding read_selection_msg_def selection_msg_bytes_def
    by (rule u8.parses_step [OF alloc(3)], rule u64.parses_step [OF alloc(1)], rule u64.parses_step [OF alloc(1)],
        rule parses_check, subst kind, unfold option.case, rule parses_count)
      (use a len alloc in \<open>auto simp: selection_msg_admitted_def
         intro!: parses_check parses_bind [OF parts, where ys = "[]", simplified] parses_value\<close>)
next
  fix L
  show "decodes L (read_selection_msg l) (\<lambda>s xs. xs = selection_msg_bytes s \<and> selection_msg_admitted l L s)"
    unfolding read_selection_msg_def
    by (rule u8.decodes_step u64.decodes_step decodes_check decodes_ok_case_option decodes_imp_ok decodes_count
          decodes_bind [OF u64.reads_many] decodes_ok_value)+
      (auto simp: selection_msg_bytes_def selection_msg_admitted_def word_le_nat_alt)
qed

interpretation request_msg: record_codec write_commit_request_msg "read_commit_request_msg l" "request_msg_admitted l" for l
proof
  fix L q
  assume a: "request_msg_admitted l L q"
  then have alloc: "8 \<le> max_allocation_bytes L" "4 \<le> max_allocation_bytes L" "1 \<le> max_allocation_bytes L" "32 \<le> max_allocation_bytes L"
    using alloc_32 [of L] by (auto simp: request_msg_admitted_def)
  have d: "digest_wf (rq_manifest_digest q) \<and> 32 \<le> max_allocation_bytes L"
    "digest_wf (rq_observed_partition_digest q) \<and> 32 \<le> max_allocation_bytes L"
    using a by (auto simp: request_msg_admitted_def)
  let ?ds = "rq_observed_chunk_digests q"
  have len: "length ?ds < 2 ^ 32" using a unat32_bound [of "max_collection_items L"] by (auto simp: request_msg_admitted_def)
  have "length (concat (map put_digest ?ds)) = 32 * length ?ds"
    using a by (intro length_concat_const) (auto simp: request_msg_admitted_def length_put_digest)
  note len = len this
  have digests: "parses L (rd_many (unat (word_of_nat (length ?ds) :: u32)) rd_digest) (concat (map put_digest ?ds)) ?ds"
    using digest.parses_many [of ?ds L] a len by (simp add: unat_of_length_u32 request_msg_admitted_def)
  have e: "EdgeKey (ek_partition (rq_edge q)) (ek_partition_generation (rq_edge q)) (ek_consumer (rq_edge q)) = rq_edge q"
    by (cases "rq_edge q") simp
  show "parses L (read_commit_request_msg l) (write_commit_request_msg q) (Inr q)"
    unfolding read_commit_request_msg_def write_commit_request_msg_def
    by (rule u64.parses_step [OF alloc(1)] digest.parses_step [OF d(1)] digest.parses_step [OF d(2)]
        boolean.parses_step [OF alloc(3)] parses_check parses_count)+
      (use a len alloc in \<open>auto simp: request_msg_admitted_def e
         intro!: parses_check parses_bind [OF digests, where ys = "[]", simplified] parses_value\<close>)
next
  fix L
  show "decodes L (read_commit_request_msg l) (\<lambda>q xs. xs = write_commit_request_msg q \<and> request_msg_admitted l L q)"
    unfolding read_commit_request_msg_def
    by (rule u64.decodes_step digest.decodes_step boolean.decodes_step decodes_count decodes_check decodes_imp_ok
          decodes_bind [OF digest.reads_many] decodes_ok_value)+
      (auto simp: write_commit_request_msg_def request_msg_admitted_def word_le_nat_alt)
qed

interpretation progress: record_codec write_progress_snapshot read_progress_snapshot "\<lambda>L _. 8 \<le> max_allocation_bytes L"
proof
  show "parses L read_progress_snapshot (write_progress_snapshot r) (Inr r)" if "8 \<le> max_allocation_bytes L" for L r
    unfolding read_progress_snapshot_def write_progress_snapshot_def
    by (rule u64.parses_step [OF that] u64.parses_step [OF that, where ys = "[]", simplified] parses_check parses_value)+ simp
  show "decodes L read_progress_snapshot (\<lambda>r xs. xs = write_progress_snapshot r \<and> 8 \<le> max_allocation_bytes L)" for L
    unfolding read_progress_snapshot_def
    by (rule u64.decodes_step decodes_check decodes_ok_value)+ (simp add: write_progress_snapshot_def)
qed

lemma state_byte [simp]: "ucast (ucast (shuffle_state_value st) :: u8) = shuffle_state_value st"
  by (cases st) simp_all

lemma unat8_bound: "unat (w :: u8) < 256"
  using unsigned_less [of w] by simp

lemma state_byte_of: "ucast (raw :: u8) = shuffle_state_value st \<longleftrightarrow> raw = ucast (shuffle_state_value st)"
proof -
  have "unat (ucast raw :: u16) = unat raw"
    using unat8_bound [of raw] by (simp add: unsigned_ucast_eq take_bit_nat_eq_self)
  then show ?thesis by (cases st) (simp_all add: word_unat_eq_iff)
qed

section \<open>Lemmas: response codecs\<close>

interpretation status: record_codec write_status read_status status_admitted
proof
  fix L r
  assume a: "status_admitted L r"
  then have alloc: "8 \<le> max_allocation_bytes L" "4 \<le> max_allocation_bytes L" "2 \<le> max_allocation_bytes L" "1 \<le> max_allocation_bytes L"
    and k: "is_known_error_code (code_value (st_reason r))"
    using alloc_8 [of L] by (auto simp: status_admitted_def)
  have st: "shuffle_state_of (ucast (ucast (shuffle_state_value (st_state r)) :: u8)) = Some (st_state r)" by simp
  show "parses L read_status (write_status r) (Inr r)"
    unfolding read_status_def write_status_def
    by (rule u64.parses_step [OF alloc(1)] u32.parses_step [OF alloc(2)] u16.parses_step [OF alloc(3)]
        u8.parses_step [OF alloc(4)] boolean.parses_step [OF alloc(4)] parses_check)+
      (subst st, unfold option.case, subst if_not_P, use k in blast,
       rule progress.parses_step [OF alloc(1), where ys = "[]", simplified], rule parses_check, rule parses_value, simp)
next
  fix L
  show "decodes L read_status (\<lambda>r xs. xs = write_status r \<and> status_admitted L r)"
    unfolding read_status_def
    by (rule u64.decodes_step u32.decodes_step u16.decodes_step u8.decodes_step boolean.decodes_step decodes_check
        decodes_ok_case_option decodes_ok_if decodes_ok_error progress.decodes_ok_step decodes_ok_value decodes_imp_ok)+
      (auto simp: write_status_def status_admitted_def state_byte_of)
qed

lemma write_grant_admitted: "grant_admitted l L g \<Longrightarrow> write_grant g l =
     put_u64 (dg_attempt g) @ put_u64 (dg_wave g) @ put_u64 (dg_shuffle g) @ put_u64 (dg_shuffle_generation g) @
     put_u64 (dg_partition g) @ put_u64 (dg_partition_generation g) @ put_u64 (dg_producer g) @
     put_u64 (dg_producer_incarnation g) @ put_string (dg_producer_endpoint g) @ put_u64 (dg_consumer g) @
     put_u64 (dg_consumer_incarnation g) @ put_u64 (dg_topology_generation g) @ put_u64 (dg_policy_generation g) @
     put_digest (dg_manifest_digest g) @ put_u64 (dg_total_bytes g) @ put_u32 (dg_attempt_ordinal g) @ put_u64 (dg_issued_at g)"
  by (simp add: write_grant_def grant_admitted_def write_text_fits text_admitted_def)

interpretation grant: record_codec "\<lambda>g. write_grant g l" "read_grant l" "grant_admitted l" for l
proof
  fix L g
  assume a: "grant_admitted l L g"
  then have alloc: "8 \<le> max_allocation_bytes L" "4 \<le> max_allocation_bytes L"
    and d: "digest_wf (dg_manifest_digest g) \<and> 32 \<le> max_allocation_bytes L"
    and t: "text_admitted (max_endpoint_bytes l) L (dg_producer_endpoint g)"
    using alloc_32 [of L] by (auto simp: grant_admitted_def)
  show "parses L (read_grant l) (write_grant g l) (Inr g)"
    unfolding read_grant_def write_grant_admitted [OF a]
    by (rule u64.parses_step [OF alloc(1)] digest.parses_step [OF d] utf8_string.parses_step [OF t]
        u32.parses_step [OF alloc(2)] u64.parses_step [OF alloc(1), where ys = "[]", simplified] parses_check parses_value)+ simp
next
  fix L
  show "decodes L (read_grant l) (\<lambda>g xs. xs = write_grant g l \<and> grant_admitted l L g)"
    unfolding read_grant_def
    by (rule u64.decodes_step digest.decodes_step utf8_string.decodes_step u32.decodes_step decodes_check decodes_ok_value)+
      (auto simp: grant_admitted_def write_grant_def write_text_admitted)
qed

lemma length_grants: "8 * length gs \<le> length (concat (map (\<lambda>g. write_grant g l) gs))"
  by (induction gs) (auto simp: write_grant_def)

lemma ucast_u32_le: "n \<le> unat (ucast (m :: u32) :: u64) \<longleftrightarrow> n \<le> unat m"
  by simp

lemma parses_wave_counters:
  assumes "8 \<le> max_allocation_bytes L"
  shows "parses L (read_wave_counters (wp_id p) (wp_grants p))
    (put_u32 (wp_examined p) @ put_u32 (wp_skipped_completed p) @ put_u32 (wp_skipped_failed p) @
     put_u32 (wp_skipped_in_flight p) @ put_u32 (wp_skipped_unproduced p) @ put_u32 (wp_deferred_limits p) @
     put_u32 (wp_deferred_source_pressure p) @ put_u32 (wp_deferred_destination_pressure p) @
     put_u32 (wp_deferred_unknown_pressure p) @ put_u32 (wp_deferred_retry_wait p) @
     put_bool (wp_cursor_wrapped p) @ put_bool (wp_all_resolved p)) (Inr p)"
proof -
  have alloc: "4 \<le> max_allocation_bytes L" "1 \<le> max_allocation_bytes L" using alloc_8 [OF assms] by auto
  show ?thesis
    unfolding read_wave_counters_def
    by (rule u32.parses_step [OF alloc(1)] boolean.parses_step [OF alloc(2)]
        boolean.parses_step [OF alloc(2), where ys = "[]", simplified] parses_check parses_value)+ simp
qed

interpretation wave_plan: record_codec "\<lambda>p. write_wave_plan p l" "read_wave_plan l" "plan_admitted l" for l
proof
  fix L p
  assume a: "plan_admitted l L p"
  then have alloc: "8 \<le> max_allocation_bytes L" "4 \<le> max_allocation_bytes L"
    using alloc_8 [of L] by (auto simp: plan_admitted_def)
  have len: "length (wp_grants p) < 2 ^ 32" using a unat32_bound [of "max_collection_items L"] by (auto simp: plan_admitted_def)
  have grants: "parses L (rd_list (unat (word_of_nat (length (wp_grants p)) :: u32)) (read_grant l))
      (concat (map (\<lambda>g. write_grant g l) (wp_grants p))) (Inr (wp_grants p))"
    using grant.parses_list [of "wp_grants p" l L] a len by (simp add: unat_of_length_u32 plan_admitted_def)
  have n: "length (wp_grants p) \<le> unat (ucast (max_wave_grants l) :: u64)"
    "length (wp_grants p) \<le> unat (max_collection_items L)" using a by (simp_all add: plan_admitted_def)
  show "parses L (read_wave_plan l) (write_wave_plan p l) (Inr p)"
    unfolding read_wave_plan_def write_wave_plan_def
    by (rule u64.parses_step [OF alloc(1)], rule parses_count [OF n _ alloc(2)])
      (use length_grants [of "wp_grants p" l] in \<open>auto intro!: parses_check parses_sub [OF grants] parses_wave_counters alloc\<close>)
next
  fix L
  show "decodes L (read_wave_plan l) (\<lambda>p xs. xs = write_wave_plan p l \<and> plan_admitted l L p)"
    unfolding read_wave_plan_def
    by (rule u64.decodes_step, rule decodes_count, rule decodes_check, rule decodes_ok_sub [OF grant.decodes_list],
        unfold read_wave_counters_def)
      ((rule decodes_imp_ok, (rule u32.decodes_step boolean.decodes_step decodes_check decodes_ok_value)+),
       auto simp: plan_admitted_def write_wave_plan_def word_le_nat_alt)
qed

lemma unat_of_char: "unat (of_char c :: u8) = of_char c"
proof -
  have "(of_char c :: u8) = word_of_nat (of_char c)" by (simp add: of_char_def)
  moreover have "(of_char c :: nat) < 256" by simp
  ultimately show ?thesis by (simp add: unat_of_nat take_bit_nat_eq_self)
qed

lemma char_bytes_inverse [simp]: "bytes_char (char_bytes s) = s"
  by (simp add: char_bytes_def bytes_char_def comp_def unat_of_char)

lemma bytes_char_inverse [simp]: "char_bytes (bytes_char b) = b"
proof -
  have "of_char (char_of (unat x) :: char) = (x :: u8)" for x
    using unat8_bound [of x] by (simp add: word_unat_eq_iff unat_of_char)
  then show ?thesis by (simp add: char_bytes_def bytes_char_def comp_def)
qed

interpretation explain_entry: record_codec "\<lambda>e. write_explain_entry e l" "read_explain_entry l" "entry_admitted l" for l
proof
  fix L e
  assume a: "entry_admitted l L e"
  then have alloc: "8 \<le> max_allocation_bytes L" "2 \<le> max_allocation_bytes L"
    and k: "is_known_error_code (code_value (xe_code e))"
    and t: "text_admitted (max_string_bytes l) L (char_bytes (xe_subject e))" "text_admitted (max_string_bytes l) L (char_bytes (xe_detail e))"
    using alloc_8 [of L] by (auto simp: entry_admitted_def)
  show "parses L (read_explain_entry l) (write_explain_entry e l) (Inr e)"
    unfolding read_explain_entry_def write_explain_entry_def write_text_admitted [OF t(1)] write_text_admitted [OF t(2)]
    by (rule u16.parses_step [OF alloc(2)] utf8_string.parses_step [OF t(1)] utf8_string.parses_step [OF t(2)]
        u64.parses_step [OF alloc(1), where ys = "[]", simplified] parses_check)+
      (subst if_not_P, use k in blast, rule parses_value, simp)
next
  fix L
  show "decodes L (read_explain_entry l) (\<lambda>e xs. xs = write_explain_entry e l \<and> entry_admitted l L e)"
    unfolding read_explain_entry_def
    by (rule u64.decodes_step u16.decodes_step utf8_string.decodes_step decodes_check decodes_ok_if decodes_ok_error decodes_ok_value)+
      (auto simp: entry_admitted_def write_explain_entry_def write_text_admitted)
qed

lemma length_entries: "length es \<le> length (concat (map (\<lambda>e. write_explain_entry e l) es))"
  by (induction es) (auto simp: write_explain_entry_def)

interpretation explanation: record_codec "\<lambda>es. write_explanation es l" "read_explanation l" "explanation_admitted l" for l
proof
  fix L es
  assume a: "explanation_admitted l L es"
  then have n: "length es \<le> unat (ucast (max_collection_items l) :: u64)" "length es \<le> unat (max_collection_items L)"
    "length es \<le> length (concat (map (\<lambda>e. write_explain_entry e l) es))" "4 \<le> max_allocation_bytes L"
    using length_entries by (auto simp: explanation_admitted_def)
  have len: "length es < 2 ^ 32" using n unat32_bound [of "max_collection_items L"] by simp
  show "parses L (read_explanation l) (write_explanation es l) (Inr es)"
    unfolding read_explanation_def write_explanation_def
    by (rule parses_count [OF n], rule parses_check)
      (use explain_entry.parses_list [of es l L] a len in \<open>simp add: unat_of_length_u32 explanation_admitted_def\<close>)
next
  fix L
  show "decodes L (read_explanation l) (\<lambda>es xs. xs = write_explanation es l \<and> explanation_admitted l L es)"
    unfolding read_explanation_def
    by (rule decodes_count, rule decodes_check, rule decodes_ok_mono [OF explain_entry.decodes_list])
      (auto simp: explanation_admitted_def write_explanation_def word_le_nat_alt)
qed

lemma parses_open_request:
  assumes "8 \<le> max_allocation_bytes L" "validate_policy (or_policy r) = ok_status"
  shows "parses L read_open_shuffle (open_bytes r) (Inr r)"
proof -
  have alloc: "4 \<le> max_allocation_bytes L" using alloc_8 [OF assms(1)] by simp
  show ?thesis
    unfolding read_open_shuffle_def open_bytes_def
    by (rule u64.parses_step [OF assms(1)] u32.parses_step [OF alloc] parses_check
        parses_sub [OF parses_decode_policy [OF assms], where ys = "[]", simplified] parses_value)+ simp
qed

lemma decodes_open_request: "decodes L read_open_shuffle (\<lambda>r xs. 8 \<le> max_allocation_bytes L \<and> validate_policy (or_policy r) = ok_status)"
  unfolding read_open_shuffle_def
  by (rule u64.decodes_step u32.decodes_step decodes_check
      decodes_ok_sub [OF decodes_imp_ok [OF decodes_decode_policy]] decodes_ok_value decodes_imp_ok)+ auto

interpretation open_request: record_reader open_bytes read_open_shuffle
  "\<lambda>L r. 8 \<le> max_allocation_bytes L \<and> validate_policy (or_policy r) = ok_status" "\<lambda>_. False"
  by unfold_locales (auto intro: parses_open_request decodes_mono [OF decodes_open_request])

section \<open>Properties\<close>

text \<open>
  C27. The service payloads round-trip exactly: a wave plan, a status, a completion and an explanation
  are read from a payload if and only if the payload is what the writer produces for that value and
  the value is within the bounds of the reader. Nothing else is accepted and nothing is altered.
\<close>

theorem message_decode_exact:
  "(rd_all (read_wave_plan l) data L = Inr plan \<longleftrightarrow> data = write_wave_plan plan l \<and> plan_admitted l L plan) \<and>
   (rd_all read_status data L = Inr st \<longleftrightarrow> data = write_status st \<and> status_admitted L st) \<and>
   (rd_all (read_commit_request_msg l) data L = Inr q \<longleftrightarrow> data = write_commit_request_msg q \<and> request_msg_admitted l L q) \<and>
   (rd_all (read_explanation l) data L = Inr es \<longleftrightarrow> data = write_explanation es l \<and> explanation_admitted l L es)"
  by (intro conjI wave_plan.decode_exact status.decode_exact request_msg.decode_exact explanation.decode_exact)

end
