(* ===== verification/Fabric_Service.thy ===== *)
theory Fabric_Service
  imports Fabric_Messages
begin

text \<open>
  The server side of the coordinator service (\<open>service.cpp\<close>, \<open>service.hpp\<close>): sessions, request
  handling, the loop that serves a connection, and the life of the server around it.

  The one mutex of the service serialises the coordinator, and the other shared state (the counters,
  the registry of sessions) is touched under its own mutex or atomically, so one turn of a session's
  loop is one step here and the turns of different sessions interleave. A socket is what the turn
  receives (\<open>turn_io\<close>) and the frames it has been given to send (\<open>ss_sent\<close>). The detail text of a
  refusal is an argument, \<open>details\<close>, a function of the error code: no decision reads it.
\<close>

section \<open>Sessions\<close>

record session_identity =
  si_kind :: participant_kind
  si_participant_id :: u64
  si_incarnation :: incarnation_id
  si_boot_nonce :: u64

definition identity_valid :: "session_identity \<Rightarrow> bool" where
  "identity_valid identity \<longleftrightarrow> si_participant_id identity \<noteq> 0 \<and> si_incarnation identity \<noteq> 0"

definition check_participant_identity ::
  "session_identity \<Rightarrow> participant_kind \<Rightarrow> u64 \<Rightarrow> incarnation_id \<Rightarrow> status" where
  "check_participant_identity identity kind pid incarnation =
     (if si_kind identity \<noteq> kind \<or> si_participant_id identity \<noteq> pid \<or> si_incarnation identity \<noteq> incarnation
      then Inl IdentityMismatch else ok_status)"

record session =
  ss_id :: u64
  ss_wire_id :: u64
  ss_bound :: bool
  ss_identity :: session_identity
  ss_guard :: replay_guard
  ss_stream :: frame_stream
  ss_limits :: limits
  ss_answers :: "(u64 \<times> bytes) list"
  ss_sent :: "bytes list"

definition default_identity :: session_identity where
  "default_identity = \<lparr>si_kind = PK_Producer, si_participant_id = 0, si_incarnation = 0, si_boot_nonce = 0\<rparr>"

definition mk_session :: "u64 \<Rightarrow> limits \<Rightarrow> session" where
  "mk_session key bounds = \<lparr>ss_id = key, ss_wire_id = 0, ss_bound = False, ss_identity = default_identity,
     ss_guard = mk_guard kReplayWindow, ss_stream = mk_stream bounds, ss_limits = bounds, ss_answers = [],
     ss_sent = []\<rparr>"

definition cached_answer :: "u64 \<Rightarrow> session \<Rightarrow> bytes option" where
  "cached_answer sequence s = map_of (ss_answers s) sequence"

fun trim_answers :: "(u64 \<times> bytes) list \<Rightarrow> (u64 \<times> bytes) list" where
  "trim_answers [] = []"
| "trim_answers (oldest # rest) =
     (if length (oldest # rest) > kAnswerCacheEntries then trim_answers rest else oldest # rest)"

definition remember_answer :: "u64 \<Rightarrow> bytes \<Rightarrow> session \<Rightarrow> session" where
  "remember_answer sequence frame s = s\<lparr>ss_answers := trim_answers (ss_answers s @ [(sequence, frame)])\<rparr>"

section \<open>Handling a request\<close>

record handled =
  hd_type :: message_type
  hd_answer :: bytes
  hd_served :: bool

definition refuse :: "limits \<Rightarrow> (error_code \<Rightarrow> bytes) \<Rightarrow> bool \<Rightarrow> error_code \<Rightarrow> handled" where
  "refuse l details served code =
     \<lparr>hd_type = ErrorResponse, hd_answer = write_error_envelope l code (details code), hd_served = served\<rparr>"

text \<open>What follows a coordinator call: a refusal, or the response with its body.\<close>

definition respond ::
  "limits \<Rightarrow> (error_code \<Rightarrow> bytes) \<Rightarrow> message_type \<Rightarrow> ('a \<Rightarrow> bytes) \<Rightarrow> 'a result \<Rightarrow> handled" where
  "respond l details type body outcome =
     (case outcome of
        Inl e \<Rightarrow> refuse l details True e
      | Inr v \<Rightarrow> \<lparr>hd_type = type, hd_answer = write_ok_envelope @ body v, hd_served = True\<rparr>)"

definition no_body :: "'a \<Rightarrow> bytes" where
  "no_body v = []"

definition run_reader :: "'a result reader \<Rightarrow> bytes \<Rightarrow> limits \<Rightarrow> 'a result" where
  "run_reader m payload l = fst (run_state m (mk_reader payload l))"

definition read_handshake :: "(u8 \<times> u64 \<times> u64 \<times> u64) result reader" where
  "read_handshake = do {
     raw \<leftarrow> rd_u8;
     participant \<leftarrow> rd_u64;
     incarnation \<leftarrow> rd_u64;
     boot_nonce \<leftarrow> rd_u64;
     rd_finish (ret (Inr (raw, participant, incarnation, boot_nonce))) }"

definition handshake_identity :: "bytes \<Rightarrow> limits \<Rightarrow> session_identity result" where
  "handshake_identity payload l =
     (case run_reader read_handshake payload l of
        Inl e \<Rightarrow> Inl e
      | Inr (raw, participant, incarnation, boot_nonce) \<Rightarrow>
        (case raw_kind raw of
           None \<Rightarrow> Inl MalformedInput
         | Some kind \<Rightarrow>
           (let identity = \<lparr>si_kind = kind, si_participant_id = participant, si_incarnation = incarnation,
              si_boot_nonce = boot_nonce\<rparr> in
            if \<not> identity_valid identity then Inl InvalidArgument else Inr identity)))"

definition handle_handshake ::
  "(error_code \<Rightarrow> bytes) \<Rightarrow> decoded_frame \<Rightarrow> session \<Rightarrow> u64 \<Rightarrow> handled \<times> session \<times> u64" where
  "handle_handshake details frame s next_wire =
     (if fh_type (df_header frame) \<noteq> HandshakeRequest then (refuse (ss_limits s) details False HandshakeRequired, s, next_wire)
      else case handshake_identity (df_payload frame) (ss_limits s) of
        Inl e \<Rightarrow> (refuse (ss_limits s) details False e, s, next_wire)
      | Inr identity \<Rightarrow>
          (\<lparr>hd_type = HandshakeResponse, hd_answer = write_ok_envelope, hd_served = True\<rparr>,
           s\<lparr>ss_identity := identity, ss_wire_id := next_wire, ss_bound := True\<rparr>, next_wire + 1))"

definition handle_open ::
  "limits \<Rightarrow> (error_code \<Rightarrow> bytes) \<Rightarrow> bytes \<Rightarrow> 's coordinator \<Rightarrow> handled \<times> 's coordinator" where
  "handle_open l details payload c =
     (case rd_all read_open_shuffle payload l of
        Inl e \<Rightarrow> (refuse l details False e, c)
      | Inr request \<Rightarrow>
        (case open_shuffle request c of (outcome, c') \<Rightarrow> (respond l details OpenShuffleResponse no_body outcome, c')))"

definition read_registration :: "limits \<Rightarrow> (u8 \<times> u64 \<times> u64 \<times> bytes \<times> partition_selection) result reader" where
  "read_registration l = do {
     raw \<leftarrow> rd_u8;
     pid \<leftarrow> rd_u64;
     incarnation \<leftarrow> rd_u64;
     endpoint \<leftarrow> rd_string (max_endpoint_bytes l);
     rd_sub (read_selection_msg l) (\<lambda>selection.
       rd_finish (ret (Inr (raw, pid, incarnation, endpoint, selection)))) }"

definition registration_body :: "registration_outcome \<Rightarrow> bytes" where
  "registration_body outcome =
     put_u64 (ro_topology_generation outcome) @ put_u64 (ro_incarnation outcome) @
     put_bool (ro_superseded_previous outcome)"

definition handle_register ::
  "limits \<Rightarrow> (error_code \<Rightarrow> bytes) \<Rightarrow> session_identity \<Rightarrow> bytes \<Rightarrow> 's coordinator \<Rightarrow> handled \<times> 's coordinator" where
  "handle_register l details identity payload c =
     (case run_reader (read_registration l) payload l of
        Inl e \<Rightarrow> (refuse l details False e, c)
      | Inr (raw, pid, incarnation, endpoint, selection) \<Rightarrow>
        (case raw_kind raw of
           None \<Rightarrow> (refuse l details False MalformedInput, c)
         | Some kind \<Rightarrow>
           (case check_participant_identity identity kind pid incarnation of
              Inl e \<Rightarrow> (refuse l details False e, c)
            | Inr _ \<Rightarrow>
              (case (if kind = PK_Producer then co_register_producer pid incarnation endpoint c
                     else co_register_consumer pid incarnation endpoint selection c) of
                 (outcome, c') \<Rightarrow> (respond l details RegisterParticipantResponse registration_body outcome, c')))))"

definition read_publication :: "limits \<Rightarrow> bytes result reader" where
  "read_publication l = do {
     encoded \<leftarrow> rd_bytes (max_message_payload_bytes l);
     rd_check (rd_finish (ret (Inr encoded))) }"

definition acceptance_body :: "manifest_acceptance \<Rightarrow> bytes" where
  "acceptance_body acceptance =
     put_digest (ma_manifest_digest acceptance) @ put_u64 (ma_partition_generation acceptance)"

definition handle_publish ::
  "limits \<Rightarrow> (error_code \<Rightarrow> bytes) \<Rightarrow> session_identity \<Rightarrow> bytes \<Rightarrow> 's coordinator \<Rightarrow> handled \<times> 's coordinator" where
  "handle_publish l details identity payload c =
     (case run_reader (read_publication l) payload l of
        Inl e \<Rightarrow> (refuse l details False e, c)
      | Inr encoded \<Rightarrow>
        (case decode_manifest encoded l of
           Inl e \<Rightarrow> (refuse l details False e, c)
         | Inr manifest \<Rightarrow>
           if si_kind identity \<noteq> PK_Producer \<or> pm_producer manifest \<noteq> si_participant_id identity \<or>
              pm_producer_incarnation manifest \<noteq> si_incarnation identity
           then (refuse l details False IdentityMismatch, c)
           else case publish_manifest manifest c of
             (acceptance, c') \<Rightarrow> (respond l details PublishManifestResponse acceptance_body acceptance, c')))"

definition handle_next_wave ::
  "limits \<Rightarrow> (error_code \<Rightarrow> bytes) \<Rightarrow> bytes \<Rightarrow> 's coordinator \<Rightarrow> handled \<times> 's coordinator" where
  "handle_next_wave l details payload c =
     (case run_reader (rd_finish (ret (Inr ()))) payload l of
        Inl e \<Rightarrow> (refuse l details False e, c)
      | Inr _ \<Rightarrow>
        (case co_next_wave c of
           (plan, c') \<Rightarrow> (respond l details NextWaveResponse (\<lambda>plan. write_wave_plan plan l) plan, c')))"

definition commit_matches_identity :: "session_identity \<Rightarrow> commit_request \<Rightarrow> bool" where
  "commit_matches_identity identity commit \<longleftrightarrow>
     (if si_kind identity = PK_Consumer
      then rq_consumer commit = si_participant_id identity \<and> rq_consumer_incarnation commit = si_incarnation identity
      else rq_producer commit = si_participant_id identity \<and> rq_producer_incarnation commit = si_incarnation identity)"

definition commit_outcome_body :: "commit_outcome \<Rightarrow> bytes" where
  "commit_outcome_body outcome =
     (let receipt = oc_receipt outcome in
      put_bool (rc_newly_committed receipt) @ put_bool (rc_edge_newly_completed receipt) @
      put_bool (rc_duplicate receipt) @ put_u64 (rc_sequence receipt) @ put_digest (rc_manifest_digest receipt) @
      put_u64 (rc_accounted_bytes receipt) @ put_bool (oc_shuffle_completed outcome))"

definition handle_commit ::
  "limits \<Rightarrow> (error_code \<Rightarrow> bytes) \<Rightarrow> session_identity \<Rightarrow> bytes \<Rightarrow> 's coordinator \<Rightarrow> handled \<times> 's coordinator" where
  "handle_commit l details identity payload c =
     (case rd_all (read_commit_request_msg l) payload l of
        Inl e \<Rightarrow> (refuse l details False e, c)
      | Inr commit \<Rightarrow>
        if \<not> commit_matches_identity identity commit then (refuse l details False IdentityMismatch, c)
        else case commit_transfer commit c of
          (outcome, c') \<Rightarrow> (respond l details CommitTransferResponse commit_outcome_body outcome, c'))"

definition read_failure_report :: "(u64 \<times> u16) result reader" where
  "read_failure_report = do {
     attempt \<leftarrow> rd_u64;
     raw_code \<leftarrow> rd_u16;
     rd_finish (ret (Inr (attempt, raw_code))) }"

definition failure_outcome_body :: "failure_outcome \<Rightarrow> bytes" where
  "failure_outcome_body outcome =
     put_bool (of_permanent outcome) @ put_u32 (of_attempts outcome) @ put_u64 (of_ready_at outcome)"

definition handle_failure ::
  "limits \<Rightarrow> (error_code \<Rightarrow> bytes) \<Rightarrow> bytes \<Rightarrow> 's coordinator \<Rightarrow> handled \<times> 's coordinator" where
  "handle_failure l details payload c =
     (case run_reader read_failure_report payload l of
        Inl e \<Rightarrow> (refuse l details False e, c)
      | Inr (attempt, raw_code) \<Rightarrow>
        if raw_code = 0 \<or> \<not> is_known_error_code raw_code then (refuse l details False MalformedInput, c)
        else case report_failure attempt (ErrorCode raw_code) c of
          (outcome, c') \<Rightarrow> (respond l details ReportFailureResponse failure_outcome_body outcome, c'))"

definition read_congestion :: "(u8 \<times> congestion_intent) result reader" where
  "read_congestion = do {
     raw \<leftarrow> rd_u8;
     reporter \<leftarrow> rd_u64;
     incarnation \<leftarrow> rd_u64;
     producer \<leftarrow> rd_u64;
     consumer \<leftarrow> rd_u64;
     level \<leftarrow> rd_u32;
     policy_generation \<leftarrow> rd_u64;
     observed_at \<leftarrow> rd_u64;
     rd_finish (ret (Inr (raw, \<lparr>ci_reporter_kind = PK_Producer, ci_reporter_id = reporter,
       ci_reporter_incarnation = incarnation, ci_producer = producer, ci_consumer = consumer, ci_level = level,
       ci_policy_generation = policy_generation, ci_observed_at = observed_at\<rparr>))) }"

definition handle_congestion ::
  "limits \<Rightarrow> (error_code \<Rightarrow> bytes) \<Rightarrow> session_identity \<Rightarrow> bytes \<Rightarrow> 's coordinator \<Rightarrow> handled \<times> 's coordinator" where
  "handle_congestion l details identity payload c =
     (case run_reader read_congestion payload l of
        Inl e \<Rightarrow> (refuse l details False e, c)
      | Inr (raw, report) \<Rightarrow>
        (case raw_kind raw of
           None \<Rightarrow> (refuse l details False MalformedInput, c)
         | Some kind \<Rightarrow>
           (let intent = report\<lparr>ci_reporter_kind := kind\<rparr> in
            case check_participant_identity identity kind (ci_reporter_id intent) (ci_reporter_incarnation intent) of
              Inl e \<Rightarrow> (refuse l details False e, c)
            | Inr _ \<Rightarrow>
              (case update_congestion intent c of
                 (outcome, c') \<Rightarrow> (respond l details CongestionIntentResponse no_body outcome, c')))))"

definition read_cancellation :: "u16 result reader" where
  "read_cancellation = do { raw_reason \<leftarrow> rd_u16; rd_finish (ret (Inr raw_reason)) }"

definition handle_cancel ::
  "limits \<Rightarrow> (error_code \<Rightarrow> bytes) \<Rightarrow> bytes \<Rightarrow> 's coordinator \<Rightarrow> handled \<times> 's coordinator" where
  "handle_cancel l details payload c =
     (case run_reader read_cancellation payload l of
        Inl e \<Rightarrow> (refuse l details False e, c)
      | Inr raw_reason \<Rightarrow>
        if raw_reason = 0 \<or> \<not> is_known_error_code raw_reason then (refuse l details False MalformedInput, c)
        else case cancel_shuffle (ErrorCode raw_reason) c of
          (outcome, c') \<Rightarrow> (respond l details CancelShuffleResponse no_body outcome, c'))"

definition read_partition :: "u64 result reader" where
  "read_partition = do { part \<leftarrow> rd_u64; rd_finish (ret (Inr part)) }"

definition handle_manifest ::
  "limits \<Rightarrow> (error_code \<Rightarrow> bytes) \<Rightarrow> bytes \<Rightarrow> 's coordinator \<Rightarrow> handled" where
  "handle_manifest l details payload c =
     (case run_reader read_partition payload l of
        Inl e \<Rightarrow> refuse l details False e
      | Inr part \<Rightarrow>
          respond l details ManifestResponse put_byte_string
            (case manifest_of part c of Inl e \<Rightarrow> Inl e | Inr manifest \<Rightarrow> encode_manifest manifest l))"

definition handle_progress ::
  "limits \<Rightarrow> (error_code \<Rightarrow> bytes) \<Rightarrow> bytes \<Rightarrow> 's coordinator \<Rightarrow> handled" where
  "handle_progress l details payload c =
     (case run_reader (rd_finish (ret (Inr ()))) payload l of
        Inl e \<Rightarrow> refuse l details False e
      | Inr _ \<Rightarrow> respond l details ProgressResponse write_progress_snapshot (co_progress c))"

definition read_samples :: "u32 result reader" where
  "read_samples = do { max_samples \<leftarrow> rd_u32; rd_finish (ret (Inr max_samples)) }"

text \<open>The sample bound of the request does not influence the explanation, so \<open>co_explain\<close> does not take it.\<close>

definition handle_explain ::
  "limits \<Rightarrow> (error_code \<Rightarrow> bytes) \<Rightarrow> bytes \<Rightarrow> 's coordinator \<Rightarrow> handled" where
  "handle_explain l details payload c =
     (case run_reader read_samples payload l of
        Inl e \<Rightarrow> refuse l details False e
      | Inr _ \<Rightarrow> respond l details ExplainResponse (\<lambda>entries. write_explanation entries l) (co_explain c))"

definition handle_status ::
  "limits \<Rightarrow> (error_code \<Rightarrow> bytes) \<Rightarrow> bytes \<Rightarrow> 's coordinator \<Rightarrow> handled" where
  "handle_status l details payload c =
     (case run_reader (rd_finish (ret (Inr ()))) payload l of
        Inl e \<Rightarrow> refuse l details False e
      | Inr _ \<Rightarrow> respond l details StatusResponse write_status (co_status c))"

definition handle_close :: "limits \<Rightarrow> (error_code \<Rightarrow> bytes) \<Rightarrow> bytes \<Rightarrow> handled" where
  "handle_close l details payload =
     (case run_reader (rd_finish (ret (Inr ()))) payload l of
        Inl e \<Rightarrow> refuse l details False e
      | Inr _ \<Rightarrow> respond l details CloseResponse no_body ok_status)"

text \<open>The switch of the bound stage.\<close>

definition handle_request ::
  "limits \<Rightarrow> (error_code \<Rightarrow> bytes) \<Rightarrow> session_identity \<Rightarrow> message_type \<Rightarrow> bytes \<Rightarrow> 's coordinator \<Rightarrow> handled \<times> 's coordinator" where
  "handle_request l details identity type payload c =
     (if type = OpenShuffleRequest then handle_open l details payload c
      else if type = RegisterParticipantRequest then handle_register l details identity payload c
      else if type = PublishManifestRequest then handle_publish l details identity payload c
      else if type = NextWaveRequest then handle_next_wave l details payload c
      else if type = CommitTransferRequest then handle_commit l details identity payload c
      else if type = ReportFailureRequest then handle_failure l details payload c
      else if type = CongestionIntentRequest then handle_congestion l details identity payload c
      else if type = CancelShuffleRequest then handle_cancel l details payload c
      else if type = ManifestRequest then (handle_manifest l details payload c, c)
      else if type = ProgressRequest then (handle_progress l details payload c, c)
      else if type = ExplainRequest then (handle_explain l details payload c, c)
      else if type = StatusRequest then (handle_status l details payload c, c)
      else if type = CloseRequest then (handle_close l details payload, c)
      else (refuse l details False FrameTypeUnsupported, c))"

definition handle ::
  "(error_code \<Rightarrow> bytes) \<Rightarrow> decoded_frame \<Rightarrow> session \<Rightarrow> u64 \<Rightarrow> 's coordinator \<Rightarrow>
   handled \<times> session \<times> u64 \<times> 's coordinator" where
  "handle details frame s next_wire c =
     (let l = ss_limits s; type = fh_type (df_header frame) in
      if length (df_payload frame) > unat (max_message_payload_bytes l)
      then (refuse l details False OversizedInput, s, next_wire, c)
      else if \<not> ss_bound s then
        (case handle_handshake details frame s next_wire of (h, s', next_wire') \<Rightarrow> (h, s', next_wire', c))
      else if type = HandshakeRequest then (refuse l details False ProtocolViolation, s, next_wire, c)
      else if fh_session (df_header frame) \<noteq> ss_wire_id s then (refuse l details False IdentityMismatch, s, next_wire, c)
      else case handle_request l details (ss_identity s) type (df_payload frame) c of (h, c') \<Rightarrow> (h, s, next_wire, c'))"

section \<open>The server\<close>

record server_stats =
  sx_accepted_sessions :: u64
  sx_refused_sessions :: u64
  sx_served_requests :: u64
  sx_refused_requests :: u64
  sx_duplicate_requests :: u64
  sx_replayed_answers :: u64
  sx_active_sessions :: u32
  sx_peak_sessions :: u32

definition mk_stats :: server_stats where
  "mk_stats = \<lparr>sx_accepted_sessions = 0, sx_refused_sessions = 0, sx_served_requests = 0, sx_refused_requests = 0,
     sx_duplicate_requests = 0, sx_replayed_answers = 0, sx_active_sessions = 0, sx_peak_sessions = 0\<rparr>"

definition note_frame :: "bool \<Rightarrow> server_stats \<Rightarrow> server_stats" where
  "note_frame served x =
     (if served then x\<lparr>sx_served_requests := sx_served_requests x + 1\<rparr>
      else x\<lparr>sx_refused_requests := sx_refused_requests x + 1\<rparr>)"

definition note_duplicate :: "bool \<Rightarrow> server_stats \<Rightarrow> server_stats" where
  "note_duplicate replayed x =
     (let x = x\<lparr>sx_duplicate_requests := sx_duplicate_requests x + 1\<rparr> in
      if replayed then x\<lparr>sx_replayed_answers := sx_replayed_answers x + 1\<rparr> else x)"

record server_options =
  so_limits :: limits
  so_max_sessions :: u32
  so_worker_threads :: u32
  so_accept_backlog :: u32

record 's server =
  sv_coordinator :: "'s coordinator"
  sv_options :: server_options
  sv_sessions :: "(u64 \<times> session) list"
  sv_pending :: "u64 list"
  sv_stats :: server_stats
  sv_running :: bool
  sv_bound_port :: u16
  sv_next_session_key :: u64
  sv_next_wire_session :: u64
  sv_max_sessions :: u32
  sv_workers :: u32

definition mk_server :: "'s coordinator \<Rightarrow> server_options \<Rightarrow> 's server" where
  "mk_server c options = \<lparr>sv_coordinator = c, sv_options = options, sv_sessions = [], sv_pending = [],
     sv_stats = mk_stats, sv_running = False, sv_bound_port = 0, sv_next_session_key = 1,
     sv_next_wire_session = 1, sv_max_sessions = 1, sv_workers = 1\<rparr>"

section \<open>Serving a connection\<close>

text \<open>The reply frame, or the refusal that replaces an answer that cannot be framed.\<close>

definition reply_header :: "message_type \<Rightarrow> u64 \<Rightarrow> u64 \<Rightarrow> frame_header" where
  "reply_header type wire_id sequence = \<lparr>fh_version = kProtocolVersion, fh_type = type, fh_flags = kFlagResponse,
     fh_session = wire_id, fh_sequence = sequence, fh_payload_length = 0, fh_payload_crc32c = 0\<rparr>"

definition encode_reply ::
  "limits \<Rightarrow> (error_code \<Rightarrow> bytes) \<Rightarrow> message_type \<Rightarrow> bytes \<Rightarrow> u64 \<Rightarrow> u64 \<Rightarrow> bytes result" where
  "encode_reply l details type answer wire_id sequence =
     (case encode_frame (reply_header type wire_id sequence) answer [] l of
        (Inr _, reply) \<Rightarrow> Inr reply
      | (Inl e, reply) \<Rightarrow>
        (case encode_frame (reply_header ErrorResponse wire_id sequence) (write_error_envelope l e (details e)) reply l of
           (Inr _, refusal) \<Rightarrow> Inr refusal
         | (Inl e', _) \<Rightarrow> Inl e'))"

text \<open>What a turn meets: the outcome of a send and the outcome of a receive.\<close>

record turn_io =
  io_send :: status
  io_recv :: "bytes result"

text \<open>\<open>Continue\<close> and \<open>Ended\<close>: whether the loop goes on after the turn.\<close>

datatype turn = Continue | Ended

definition send_frame :: "status \<Rightarrow> bytes \<Rightarrow> session \<Rightarrow> status \<times> session" where
  "send_frame outcome frame s = (outcome, s\<lparr>ss_sent := ss_sent s @ [frame]\<rparr>)"

definition finish_reply ::
  "(error_code \<Rightarrow> bytes) \<Rightarrow> status \<Rightarrow> decoded_frame \<Rightarrow> message_type \<Rightarrow> bytes \<Rightarrow> session \<Rightarrow> turn \<times> session" where
  "finish_reply details outcome frame type answer s =
     (let sequence = fh_sequence (df_header frame) in
      case encode_reply (ss_limits s) details type answer (ss_wire_id s) sequence of
        Inl _ \<Rightarrow> (Ended, s)
      | Inr reply \<Rightarrow>
        (case send_frame outcome reply (remember_answer sequence reply s) of
           (Inl _, s') \<Rightarrow> (Ended, s')
         | (Inr _, s') \<Rightarrow> (if fh_type (df_header frame) = CloseRequest then Ended else Continue, s')))"

text \<open>The part of the server a turn shares with the other sessions.\<close>

record 's shared =
  sh_coordinator :: "'s coordinator"
  sh_next_wire :: u64
  sh_stats :: server_stats

definition serve_frame ::
  "(error_code \<Rightarrow> bytes) \<Rightarrow> status \<Rightarrow> decoded_frame \<Rightarrow> session \<Rightarrow> 's shared \<Rightarrow> turn \<times> session \<times> 's shared" where
  "serve_frame details outcome frame s w =
     (let sequence = fh_sequence (df_header frame) in
      case guard_accept sequence (ss_guard s) of
        (Inl e, g) \<Rightarrow>
          (case finish_reply details outcome frame ErrorResponse (write_error_envelope (ss_limits s) e (details e)) (s\<lparr>ss_guard := g\<rparr>) of
             (t, s') \<Rightarrow> (t, s', w\<lparr>sh_stats := note_frame False (sh_stats w)\<rparr>))
      | (Inr False, g) \<Rightarrow>
          (case cached_answer sequence s of
             None \<Rightarrow>
               (case finish_reply details outcome frame ErrorResponse
                   (write_error_envelope (ss_limits s) DuplicateFrame (details DuplicateFrame)) (s\<lparr>ss_guard := g\<rparr>) of
                  (t, s') \<Rightarrow> (t, s', w\<lparr>sh_stats := note_frame False (note_duplicate False (sh_stats w))\<rparr>))
           | Some cached \<Rightarrow>
               (case send_frame outcome cached (s\<lparr>ss_guard := g\<rparr>) of
                  (r, s') \<Rightarrow> (if is_ok r then Continue else Ended, s', w\<lparr>sh_stats := note_duplicate True (sh_stats w)\<rparr>)))
      | (Inr True, g) \<Rightarrow>
          (case handle details frame (s\<lparr>ss_guard := g\<rparr>) (sh_next_wire w) (sh_coordinator w) of
             (h, s1, next_wire, c) \<Rightarrow>
               (case finish_reply details outcome frame (hd_type h) (hd_answer h) s1 of
                  (t, s') \<Rightarrow> (t, s', w\<lparr>sh_coordinator := c, sh_next_wire := next_wire,
                     sh_stats := note_frame (hd_served h) (sh_stats w)\<rparr>))))"

text \<open>One turn of the loop of \<open>serve\<close>, after the check of the running flag.\<close>

definition serve_turn ::
  "(error_code \<Rightarrow> bytes) \<Rightarrow> turn_io \<Rightarrow> session \<Rightarrow> 's shared \<Rightarrow> turn \<times> session \<times> 's shared" where
  "serve_turn details io s w =
     (case stream_next (ss_stream s) of
        (Inr frame, st) \<Rightarrow> serve_frame details (io_send io) frame (s\<lparr>ss_stream := st\<rparr>) w
      | (Inl e, st) \<Rightarrow>
          if e \<noteq> NoWorkAvailable then (Ended, s\<lparr>ss_stream := st\<rparr>, w)
          else case io_recv io of
            Inl e' \<Rightarrow> (if e' = NoWorkAvailable then Continue else Ended, s\<lparr>ss_stream := st\<rparr>, w)
          | Inr arrived \<Rightarrow>
            (case stream_feed arrived st of
               (Inl _, st') \<Rightarrow> (Ended, s\<lparr>ss_stream := st'\<rparr>, w)
             | (Inr _, st') \<Rightarrow> (Continue, s\<lparr>ss_stream := st'\<rparr>, w)))"

section \<open>The life of the server\<close>

definition clamp :: "u32 \<Rightarrow> u32 \<Rightarrow> u32 \<Rightarrow> u32" where
  "clamp v lo hi = (if v < lo then lo else if hi < v then hi else v)"

definition kMaxListenBacklog :: u32 where "kMaxListenBacklog = 512"

definition server_start :: "status \<Rightarrow> u16 result \<Rightarrow> status \<Rightarrow> 's server \<Rightarrow> status \<times> 's server" where
  "server_start runtime local spawned sv =
     (if sv_running sv then (Inl InvalidState, sv)
      else case limits_validate (so_limits (sv_options sv)) of
        Inl e \<Rightarrow> (Inl e, sv)
      | Inr _ \<Rightarrow>
        if so_accept_backlog (sv_options sv) = 0 \<or> so_accept_backlog (sv_options sv) > kMaxListenBacklog
        then (Inl InvalidArgument, sv)
        else case runtime of
          Inl e \<Rightarrow> (Inl e, sv)
        | Inr _ \<Rightarrow>
          (case local of
             Inl e \<Rightarrow> (Inl e, sv)
           | Inr port \<Rightarrow>
             if port = 0 then (Inl InvalidState, sv)
             else
               (let max_sessions = clamp (so_max_sessions (sv_options sv)) 1 kMaxWorkerThreads;
                    sv1 = sv\<lparr>sv_max_sessions := max_sessions,
                      sv_workers := clamp (max (so_worker_threads (sv_options sv)) max_sessions) 1 kMaxWorkerThreads,
                      sv_stats := mk_stats, sv_sessions := [], sv_pending := []\<rparr> in
                case spawned of
                  Inl e \<Rightarrow> (Inl e, sv1\<lparr>sv_running := False, sv_bound_port := 0\<rparr>)
                | Inr _ \<Rightarrow> (ok_status, sv1\<lparr>sv_running := True, sv_bound_port := port\<rparr>))))"

definition server_stop :: "'s server \<Rightarrow> status \<times> 's server" where
  "server_stop sv = (ok_status, sv\<lparr>sv_running := False, sv_sessions := [], sv_pending := [],
     sv_stats := (sv_stats sv)\<lparr>sx_active_sessions := 0\<rparr>, sv_bound_port := 0\<rparr>)"

text \<open>A connection beyond the session bound is told so in one frame of session 0 and sequence 1.\<close>

definition refuse_socket :: "(error_code \<Rightarrow> bytes) \<Rightarrow> limits \<Rightarrow> error_code \<Rightarrow> bytes list" where
  "refuse_socket details l code =
     (case encode_frame (reply_header ErrorResponse 0 1) (write_error_envelope l code (details code)) [] l of
        (Inr _, frame) \<Rightarrow> [frame] | (Inl _, _) \<Rightarrow> [])"

definition server_accept :: "(error_code \<Rightarrow> bytes) \<Rightarrow> 's server \<Rightarrow> bytes list \<times> 's server" where
  "server_accept details sv =
     (if \<not> sv_running sv then ([], sv)
      else if length (sv_sessions sv) \<ge> unat (sv_max_sessions sv)
      then (refuse_socket details (so_limits (sv_options sv)) QueueFull,
            sv\<lparr>sv_stats := (sv_stats sv)\<lparr>sx_refused_sessions := sx_refused_sessions (sv_stats sv) + 1\<rparr>\<rparr>)
      else
        (let key = sv_next_session_key sv; x = sv_stats sv; active = sx_active_sessions x + 1 in
         ([], sv\<lparr>sv_next_session_key := key + 1,
            sv_sessions := (if map_of (sv_sessions sv) key = None
              then sv_sessions sv @ [(key, mk_session key (so_limits (sv_options sv)))] else sv_sessions sv),
            sv_pending := sv_pending sv @ [key],
            sv_stats := x\<lparr>sx_accepted_sessions := sx_accepted_sessions x + 1, sx_active_sessions := active,
              sx_peak_sessions := max (sx_peak_sessions x) active\<rparr>\<rparr>)))"

definition worker_take :: "'s server \<Rightarrow> (u64 \<times> 's server) option" where
  "worker_take sv =
     (if \<not> sv_running sv then None
      else case sv_pending sv of [] \<Rightarrow> None | key # rest \<Rightarrow> Some (key, sv\<lparr>sv_pending := rest\<rparr>))"

definition finish_session :: "u64 \<Rightarrow> 's server \<Rightarrow> 's server" where
  "finish_session key sv =
     (if map_of (sv_sessions sv) key = None then sv
      else sv\<lparr>sv_sessions := filter (\<lambda>(k, _). k \<noteq> key) (sv_sessions sv),
        sv_stats := (if sx_active_sessions (sv_stats sv) > 0
          then (sv_stats sv)\<lparr>sx_active_sessions := sx_active_sessions (sv_stats sv) - 1\<rparr> else sv_stats sv)\<rparr>)"

text \<open>A turn of the session \<open>key\<close> inside the server: the loop of \<open>serve\<close> with its way out.\<close>

definition put_session :: "u64 \<Rightarrow> session \<Rightarrow> (u64 \<times> session) list \<Rightarrow> (u64 \<times> session) list" where
  "put_session key s sessions = map (\<lambda>(k, s'). (k, if k = key then s else s')) sessions"

definition session_turn :: "(error_code \<Rightarrow> bytes) \<Rightarrow> turn_io \<Rightarrow> u64 \<Rightarrow> 's server \<Rightarrow> 's server" where
  "session_turn details io key sv =
     (case map_of (sv_sessions sv) key of
        None \<Rightarrow> sv
      | Some s \<Rightarrow>
        if \<not> sv_running sv then finish_session key sv
        else case serve_turn details io s \<lparr>sh_coordinator = sv_coordinator sv, sh_next_wire = sv_next_wire_session sv,
            sh_stats = sv_stats sv\<rparr> of
          (t, s', w) \<Rightarrow>
            (let sv' = sv\<lparr>sv_coordinator := sh_coordinator w, sv_next_wire_session := sh_next_wire w,
               sv_stats := sh_stats w, sv_sessions := put_session key s' (sv_sessions sv)\<rparr> in
             if t = Ended then finish_session key sv' else sv'))"

section \<open>Specification\<close>

text \<open>The coordinator call a request makes, if it makes one.\<close>

definition request_call :: "limits \<Rightarrow> session_identity \<Rightarrow> message_type \<Rightarrow> bytes \<Rightarrow> coordinator_call option" where
  "request_call l identity type payload =
     (if type = OpenShuffleRequest then
        (case rd_all read_open_shuffle payload l of Inl _ \<Rightarrow> None | Inr request \<Rightarrow> Some (Call_Open request))
      else if type = RegisterParticipantRequest then
        (case run_reader (read_registration l) payload l of
           Inl _ \<Rightarrow> None
         | Inr (raw, pid, incarnation, endpoint, selection) \<Rightarrow>
           (case raw_kind raw of
              None \<Rightarrow> None
            | Some kind \<Rightarrow>
              if check_participant_identity identity kind pid incarnation \<noteq> ok_status then None
              else if kind = PK_Producer then Some (Call_Register_Producer pid incarnation endpoint)
              else Some (Call_Register_Consumer pid incarnation endpoint selection)))
      else if type = PublishManifestRequest then
        (case run_reader (read_publication l) payload l of
           Inl _ \<Rightarrow> None
         | Inr encoded \<Rightarrow>
           (case decode_manifest encoded l of
              Inl _ \<Rightarrow> None
            | Inr manifest \<Rightarrow>
              if si_kind identity \<noteq> PK_Producer \<or> pm_producer manifest \<noteq> si_participant_id identity \<or>
                 pm_producer_incarnation manifest \<noteq> si_incarnation identity
              then None else Some (Call_Publish manifest)))
      else if type = NextWaveRequest then
        (case run_reader (rd_finish (ret (Inr ()))) payload l of Inl _ \<Rightarrow> None | Inr _ \<Rightarrow> Some Call_Next_Wave)
      else if type = CommitTransferRequest then
        (case rd_all (read_commit_request_msg l) payload l of
           Inl _ \<Rightarrow> None
         | Inr commit \<Rightarrow> if commit_matches_identity identity commit then Some (Call_Commit commit) else None)
      else if type = ReportFailureRequest then
        (case run_reader read_failure_report payload l of
           Inl _ \<Rightarrow> None
         | Inr (attempt, raw_code) \<Rightarrow>
             if raw_code = 0 \<or> \<not> is_known_error_code raw_code then None
             else Some (Call_Failure attempt (ErrorCode raw_code)))
      else if type = CongestionIntentRequest then
        (case run_reader read_congestion payload l of
           Inl _ \<Rightarrow> None
         | Inr (raw, report) \<Rightarrow>
           (case raw_kind raw of
              None \<Rightarrow> None
            | Some kind \<Rightarrow>
              if check_participant_identity identity kind (ci_reporter_id report) (ci_reporter_incarnation report) \<noteq> ok_status
              then None else Some (Call_Congestion (report\<lparr>ci_reporter_kind := kind\<rparr>))))
      else if type = CancelShuffleRequest then
        (case run_reader read_cancellation payload l of
           Inl _ \<Rightarrow> None
         | Inr raw_reason \<Rightarrow>
             if raw_reason = 0 \<or> \<not> is_known_error_code raw_reason then None else Some (Call_Cancel (ErrorCode raw_reason)))
      else None)"

definition frame_call :: "session \<Rightarrow> decoded_frame \<Rightarrow> coordinator_call option" where
  "frame_call s frame =
     (if length (df_payload frame) > unat (max_message_payload_bytes (ss_limits s)) \<or> \<not> ss_bound s \<or>
         fh_type (df_header frame) = HandshakeRequest \<or> fh_session (df_header frame) \<noteq> ss_wire_id s
      then None
      else request_call (ss_limits s) (ss_identity s) (fh_type (df_header frame)) (df_payload frame))"

definition apply_call :: "coordinator_call option \<Rightarrow> 's coordinator \<Rightarrow> 's coordinator" where
  "apply_call call c = (case call of None \<Rightarrow> c | Some call \<Rightarrow> run_call call c)"

text \<open>
  What a call says about its origin: the participant it speaks for is the one the handshake bound.
  The service never makes the calls that change a participant's state or advance the clock.
\<close>

fun call_attributed :: "session_identity \<Rightarrow> coordinator_call \<Rightarrow> bool" where
  "call_attributed i (Call_Register_Producer pid incarnation endpoint) \<longleftrightarrow>
     si_kind i = PK_Producer \<and> si_participant_id i = pid \<and> si_incarnation i = incarnation"
| "call_attributed i (Call_Register_Consumer cid incarnation endpoint selection) \<longleftrightarrow>
     si_kind i = PK_Consumer \<and> si_participant_id i = cid \<and> si_incarnation i = incarnation"
| "call_attributed i (Call_Publish manifest) \<longleftrightarrow>
     si_kind i = PK_Producer \<and> si_participant_id i = pm_producer manifest \<and> si_incarnation i = pm_producer_incarnation manifest"
| "call_attributed i (Call_Commit commit) \<longleftrightarrow> commit_matches_identity i commit"
| "call_attributed i (Call_Congestion intent) \<longleftrightarrow>
     si_kind i = ci_reporter_kind intent \<and> si_participant_id i = ci_reporter_id intent \<and> si_incarnation i = ci_reporter_incarnation intent"
| "call_attributed i (Call_Participant_State kind pid incarnation state) \<longleftrightarrow> False"
| "call_attributed i Call_Tick \<longleftrightarrow> False"
| "call_attributed i _ \<longleftrightarrow> True"

text \<open>What the decoders guarantee about the arguments of a call.\<close>

fun call_decoded :: "limits \<Rightarrow> coordinator_call \<Rightarrow> bool" where
  "call_decoded l (Call_Open request) \<longleftrightarrow> validate_policy (or_policy request) = ok_status"
| "call_decoded l (Call_Register_Producer pid incarnation endpoint) \<longleftrightarrow> text_admitted (max_endpoint_bytes l) l endpoint"
| "call_decoded l (Call_Register_Consumer cid incarnation endpoint selection) \<longleftrightarrow>
     text_admitted (max_endpoint_bytes l) l endpoint \<and> selection_msg_admitted l l selection"
| "call_decoded l (Call_Publish manifest) \<longleftrightarrow> manifest_record_admitted l l manifest"
| "call_decoded l (Call_Commit commit) \<longleftrightarrow> request_msg_admitted l l commit"
| "call_decoded l (Call_Failure attempt code) \<longleftrightarrow> code \<noteq> Ok \<and> is_known_error_code (code_value code)"
| "call_decoded l (Call_Cancel reason) \<longleftrightarrow> reason \<noteq> Ok \<and> is_known_error_code (code_value reason)"
| "call_decoded l _ \<longleftrightarrow> True"

text \<open>The call a session's next turn makes: that of the frame it reads, if the guard takes it as new.\<close>

definition turn_call :: "session \<Rightarrow> coordinator_call option" where
  "turn_call s =
     (case fst (stream_next (ss_stream s)) of
        Inl _ \<Rightarrow> None
      | Inr frame \<Rightarrow>
          if fst (guard_accept (fh_sequence (df_header frame)) (ss_guard s)) = Inr True then frame_call s frame else None)"

text \<open>Whether two sessions are bound alike.\<close>

definition same_session :: "session \<Rightarrow> session \<Rightarrow> bool" where
  "same_session s s' \<longleftrightarrow> ss_bound s' = ss_bound s \<and> ss_wire_id s' = ss_wire_id s \<and> ss_identity s' = ss_identity s"

text \<open>What a handshake does to a session and to the counter of session identifiers.\<close>

definition newly_bound :: "u64 \<Rightarrow> u64 \<Rightarrow> session \<Rightarrow> session \<Rightarrow> bool" where
  "newly_bound next_wire next_wire' s s' \<longleftrightarrow> \<not> ss_bound s \<and> ss_bound s' \<and> ss_wire_id s' = next_wire \<and>
     identity_valid (ss_identity s') \<and> next_wire' = next_wire + 1"

definition session_inv :: "limits \<Rightarrow> session \<Rightarrow> bool" where
  "session_inv l s \<longleftrightarrow> ss_limits s = l \<and> stream_inv (ss_stream s) \<and> fs_limits (ss_stream s) = l \<and>
     length (ss_answers s) \<le> kAnswerCacheEntries \<and> (ss_bound s \<longrightarrow> identity_valid (ss_identity s))"

text \<open>
  A run of the server: connections arrive, workers take them, and the sessions' turns interleave with
  each other and with starting and stopping. The label of a step is the coordinator call it makes.
\<close>

inductive server_step :: "'s server \<Rightarrow> coordinator_call option \<Rightarrow> 's server \<Rightarrow> bool" where
  step_start: "server_step sv None (snd (server_start runtime local spawned sv))"
| step_stop: "server_step sv None (snd (server_stop sv))"
| step_accept: "server_step sv None (snd (server_accept details sv))"
| step_take: "worker_take sv = Some (key, sv') \<Longrightarrow> server_step sv None sv'"
| step_turn: "map_of (sv_sessions sv) key = Some s \<Longrightarrow> key \<notin> set (sv_pending sv) \<Longrightarrow> sv_running sv \<Longrightarrow>
    server_step sv (turn_call s) (session_turn details io key sv)"

text \<open>A run of \<open>n\<close> steps with the calls it made.\<close>

inductive server_run :: "nat \<Rightarrow> 's server \<Rightarrow> coordinator_call list \<Rightarrow> 's server \<Rightarrow> bool" where
  run_none: "server_run 0 sv [] sv"
| run_step: "server_run n sv calls sv' \<Longrightarrow> server_step sv' call sv'' \<Longrightarrow>
    server_run (Suc n) sv (calls @ (case call of None \<Rightarrow> [] | Some made \<Rightarrow> [made])) sv''"

definition wire_ids :: "'s server \<Rightarrow> u64 list" where
  "wire_ids sv = map (ss_wire_id \<circ> snd) (filter (ss_bound \<circ> snd) (sv_sessions sv))"

text \<open>The registry, the queue and the counters agree; \<open>n\<close> bounds how far the identifiers have counted.\<close>

definition registry_inv :: "nat \<Rightarrow> 's server \<Rightarrow> bool" where
  "registry_inv n sv \<longleftrightarrow>
     distinct (map fst (sv_sessions sv)) \<and> (\<forall>key \<in> set (map fst (sv_sessions sv)). unat key < unat (sv_next_session_key sv)) \<and>
     (\<forall>s \<in> set (map snd (sv_sessions sv)). session_inv (so_limits (sv_options sv)) s) \<and>
     distinct (sv_pending sv) \<and> set (sv_pending sv) \<subseteq> set (map fst (sv_sessions sv)) \<and>
     length (sv_sessions sv) \<le> unat (sv_max_sessions sv) \<and> unat (sv_max_sessions sv) \<le> 1024 \<and>
     unat (sx_active_sessions (sv_stats sv)) = length (sv_sessions sv) \<and>
     distinct (wire_ids sv) \<and> (\<forall>wire \<in> set (wire_ids sv). 0 < unat wire \<and> unat wire < unat (sv_next_wire_session sv)) \<and>
     0 < unat (sv_next_session_key sv) \<and> unat (sv_next_session_key sv) \<le> n + 1 \<and>
     0 < unat (sv_next_wire_session sv) \<and> unat (sv_next_wire_session sv) \<le> n + 1"

definition turn_effect :: "limits \<Rightarrow> session \<Rightarrow> session \<Rightarrow> 's shared \<Rightarrow> 's shared \<Rightarrow> bool" where
  "turn_effect l s s' w w' \<longleftrightarrow> session_inv l s' \<and> ss_id s' = ss_id s \<and>
     (same_session s s' \<and> sh_next_wire w' = sh_next_wire w \<or> newly_bound (sh_next_wire w) (sh_next_wire w') s s') \<and>
     sh_coordinator w' = apply_call (turn_call s) (sh_coordinator w) \<and>
     sx_active_sessions (sh_stats w') = sx_active_sessions (sh_stats w)"

text \<open>A call that could have come from an authenticated participant, decoded within the server's limits.\<close>

definition call_of_participant :: "limits \<Rightarrow> coordinator_call \<Rightarrow> bool" where
  "call_of_participant l call \<longleftrightarrow>
     call_decoded l call \<and> (\<exists>identity. identity_valid identity \<and> call_attributed identity call)"

section \<open>Lemmas: requests\<close>

lemma check_identity_iff:
  "check_participant_identity i kind pid incarnation = Inr u \<longleftrightarrow>
     si_kind i = kind \<and> si_participant_id i = pid \<and> si_incarnation i = incarnation"
  by (auto simp: check_participant_identity_def)

lemma check_identity_cases:
  "check_participant_identity i kind pid incarnation = ok_status \<or>
   check_participant_identity i kind pid incarnation = Inl IdentityMismatch"
  by (simp add: check_participant_identity_def)

lemma handler_coordinators:
  "snd (handle_open l d payload c) =
     (case rd_all read_open_shuffle payload l of Inl _ \<Rightarrow> c | Inr request \<Rightarrow> run_call (Call_Open request) c)"
  "snd (handle_publish l d identity payload c) =
     (case run_reader (read_publication l) payload l of
        Inl _ \<Rightarrow> c
      | Inr encoded \<Rightarrow> (case decode_manifest encoded l of
          Inl _ \<Rightarrow> c
        | Inr manifest \<Rightarrow>
            if si_kind identity \<noteq> PK_Producer \<or> pm_producer manifest \<noteq> si_participant_id identity \<or>
               pm_producer_incarnation manifest \<noteq> si_incarnation identity
            then c else run_call (Call_Publish manifest) c))"
  "snd (handle_next_wave l d payload c) =
     (case run_reader (rd_finish (ret (Inr ()))) payload l of Inl _ \<Rightarrow> c | Inr _ \<Rightarrow> run_call Call_Next_Wave c)"
  "snd (handle_commit l d identity payload c) =
     (case rd_all (read_commit_request_msg l) payload l of
        Inl _ \<Rightarrow> c
      | Inr commit \<Rightarrow> if commit_matches_identity identity commit then run_call (Call_Commit commit) c else c)"
  "snd (handle_failure l d payload c) =
     (case run_reader read_failure_report payload l of
        Inl _ \<Rightarrow> c
      | Inr (attempt, raw_code) \<Rightarrow>
          if raw_code = 0 \<or> \<not> is_known_error_code raw_code then c else run_call (Call_Failure attempt (ErrorCode raw_code)) c)"
  "snd (handle_cancel l d payload c) =
     (case run_reader read_cancellation payload l of
        Inl _ \<Rightarrow> c
      | Inr raw_reason \<Rightarrow>
          if raw_reason = 0 \<or> \<not> is_known_error_code raw_reason then c else run_call (Call_Cancel (ErrorCode raw_reason)) c)"
  by (simp_all add: handle_open_def handle_publish_def handle_next_wave_def handle_commit_def handle_failure_def
      handle_cancel_def split: sum.split prod.split)

lemma register_coordinator:
  "snd (handle_register l d identity payload c) =
     (case run_reader (read_registration l) payload l of
        Inl _ \<Rightarrow> c
      | Inr (raw, pid, incarnation, endpoint, selection) \<Rightarrow>
        (case raw_kind raw of
           None \<Rightarrow> c
         | Some kind \<Rightarrow>
           if check_participant_identity identity kind pid incarnation \<noteq> ok_status then c
           else if kind = PK_Producer then run_call (Call_Register_Producer pid incarnation endpoint) c
           else run_call (Call_Register_Consumer pid incarnation endpoint selection) c))"
  by (simp add: handle_register_def split: sum.split prod.split option.split)

lemma congestion_coordinator:
  "snd (handle_congestion l d identity payload c) =
     (case run_reader read_congestion payload l of
        Inl _ \<Rightarrow> c
      | Inr (raw, report) \<Rightarrow>
        (case raw_kind raw of
           None \<Rightarrow> c
         | Some kind \<Rightarrow>
           if check_participant_identity identity kind (ci_reporter_id report) (ci_reporter_incarnation report) \<noteq> ok_status then c
           else run_call (Call_Congestion (report\<lparr>ci_reporter_kind := kind\<rparr>)) c))"
  by (simp add: handle_congestion_def Let_def split: sum.split prod.split option.split)

lemma apply_call_simps [simp]:
  "apply_call None c = c" "apply_call (Some call) c = run_call call c"
  by (simp_all add: apply_call_def)

lemma request_coordinator:
  "snd (handle_request l d identity type payload c) = apply_call (request_call l identity type payload) c"
  unfolding handle_request_def request_call_def
  by (simp only: if_distrib [of snd] if_distrib [of "\<lambda>x. apply_call x c"] sum.case_distrib [of "\<lambda>x. apply_call x c"]
      option.case_distrib [of "\<lambda>x. apply_call x c"] prod.case_distrib [of "\<lambda>x. apply_call x c"] apply_call_simps
      handler_coordinators register_coordinator congestion_coordinator snd_conv if_cancel cong: if_cong)

lemma handle_coordinator:
  assumes "handle d frame s next_wire c = (h, s', next_wire', c')"
  shows "c' = apply_call (frame_call s frame) c"
  using assms request_coordinator [of "ss_limits s" d "ss_identity s" "fh_type (df_header frame)" "df_payload frame" c]
  by (auto simp: handle_def frame_call_def Let_def split: if_splits prod.splits)

section \<open>Lemmas: requests and their payloads\<close>

lemma decodes_finish: "decodes_ok L k P \<Longrightarrow> decodes L (rd_finish k) P"
  by (auto simp: decodes_def decodes_ok_def rd_finish_def rd_require_end_def run_state_bind split: if_splits)

lemma run_reader_decodes:
  assumes "decodes L m P" "run_reader m data L = Inr v"
  shows "\<exists>xs. P v xs"
proof -
  have r: "rd_limits (mk_reader data L) = L" "rd_error (mk_reader data L) = Ok" by (simp_all add: mk_reader_def)
  obtain r' where "run_state m (mk_reader data L) = (Inr v, r')"
    using assms(2) by (cases "run_state m (mk_reader data L)") (simp add: run_reader_def)
  then show ?thesis using decodes_okD [OF decodes_imp_ok [OF assms(1)] r] by blast
qed

lemma registration_decoded:
  assumes "run_reader (read_registration l) payload l = Inr (raw, pid, incarnation, endpoint, selection)"
  shows "text_admitted (max_endpoint_bytes l) l endpoint \<and> selection_msg_admitted l l selection"
proof -
  have "decodes l (read_registration l) (\<lambda>(raw, pid, incarnation, endpoint, selection) xs.
      text_admitted (max_endpoint_bytes l) l endpoint \<and> selection_msg_admitted l l selection)"
    unfolding read_registration_def
    by (rule u8.decodes_step u64.decodes_step utf8_string.decodes_step selection_msg.decodes_step decodes_finish
        decodes_ok_value decodes_imp_ok)+ auto
  from run_reader_decodes [OF this assms] show ?thesis by simp
qed

lemma publication_decoded:
  assumes "run_reader (read_publication l) payload l = Inr encoded"
  shows "bytes_admitted (max_message_payload_bytes l) l encoded"
proof -
  have "decodes l (read_publication l) (\<lambda>encoded xs. bytes_admitted (max_message_payload_bytes l) l encoded)"
    unfolding read_publication_def
    by (rule byte_string.decodes_step decodes_check decodes_finish decodes_ok_value decodes_imp_ok)+ auto
  from run_reader_decodes [OF this assms] show ?thesis by simp
qed

lemma manifest_decoded:
  assumes "decode_manifest encoded l = Inr manifest" "bytes_admitted (max_message_payload_bytes l) l encoded"
  shows "manifest_record_admitted l l manifest"
  using assms by (auto simp: decode_manifest_iff manifest_record_admitted_def encode_manifest_def manifest_bytes_def split: sum.splits)

lemma request_call_decoded:
  assumes "request_call l identity type payload = Some call"
  shows "call_decoded l call"
  using assms unfolding request_call_def
  by (auto split: if_splits sum.splits prod.splits option.splits
      dest: registration_decoded publication_decoded manifest_decoded open_request.read_admits
      simp: request_msg.decode_exact)

lemma not_producer: "k \<noteq> PK_Producer \<longleftrightarrow> k = PK_Consumer"
  by (cases k) simp_all

lemma request_call_attributed:
  assumes "request_call l identity type payload = Some call"
  shows "call_attributed identity call"
  using assms unfolding request_call_def
  by (auto split: if_splits sum.splits prod.splits option.splits dest!: not_producer [THEN iffD1] simp: check_participant_identity_def)

section \<open>Lemmas: one turn\<close>

lemma trim_answers_eq: "trim_answers answers = drop (length answers - kAnswerCacheEntries) answers"
  by (induction answers) (auto simp: Suc_diff_le)

lemma length_trim_answers: "length (trim_answers answers) \<le> kAnswerCacheEntries"
  by (simp add: trim_answers_eq)

lemma handshake_identity_valid: "handshake_identity payload l = Inr i \<Longrightarrow> identity_valid i"
  by (auto simp: handshake_identity_def Let_def split: sum.splits option.splits prod.splits if_splits)

lemma handle_session:
  assumes "handle d frame s next_wire c = (h, s', next_wire', c')"
  shows "s' = s \<and> next_wire' = next_wire \<or>
    newly_bound next_wire next_wire' s s' \<and> c' = c \<and> (\<exists>i. s' = s\<lparr>ss_identity := i, ss_wire_id := next_wire, ss_bound := True\<rparr>)"
  using assms
  by (auto simp: handle_def handle_handshake_def newly_bound_def Let_def handshake_identity_valid split: if_splits prod.splits sum.splits)

lemma finish_reply_session:
  assumes "finish_reply d outcome frame type answer s = (t, s')"
  shows "\<exists>answers sent. s' = s\<lparr>ss_answers := answers, ss_sent := sent\<rparr> \<and>
    (length (ss_answers s) \<le> kAnswerCacheEntries \<longrightarrow> length answers \<le> kAnswerCacheEntries)"
proof (cases "encode_reply (ss_limits s) d type answer (ss_wire_id s) (fh_sequence (df_header frame))")
  case (Inl e)
  then show ?thesis using assms by (intro exI [of _ "ss_answers s"] exI [of _ "ss_sent s"]) (simp add: finish_reply_def Let_def)
next
  case (Inr reply)
  then have "s' = s\<lparr>ss_answers := trim_answers (ss_answers s @ [(fh_sequence (df_header frame), reply)]), ss_sent := ss_sent s @ [reply]\<rparr>"
    using assms by (auto simp: finish_reply_def Let_def send_frame_def remember_answer_def split: sum.splits if_splits)
  then show ?thesis using length_trim_answers by blast
qed

lemma serve_frame_parts:
  assumes "serve_frame d outcome frame s w = (t, s', w')"
  obtains mid answers sent where
    "s' = mid\<lparr>ss_answers := answers, ss_sent := sent\<rparr>"
    "ss_answers mid = ss_answers s" "ss_stream mid = ss_stream s" "ss_limits mid = ss_limits s" "ss_id mid = ss_id s"
    "length (ss_answers s) \<le> kAnswerCacheEntries \<Longrightarrow> length answers \<le> kAnswerCacheEntries"
    "same_session s mid \<and> sh_next_wire w' = sh_next_wire w \<or> newly_bound (sh_next_wire w) (sh_next_wire w') s mid"
    "sh_coordinator w' = apply_call
       (if fst (guard_accept (fh_sequence (df_header frame)) (ss_guard s)) = Inr True then frame_call s frame else None)
       (sh_coordinator w)"
    "sx_active_sessions (sh_stats w') = sx_active_sessions (sh_stats w)"
proof -
  let ?q = "fh_sequence (df_header frame)"
  obtain r g where g: "guard_accept ?q (ss_guard s) = (r, g)" by (cases "guard_accept ?q (ss_guard s)")
  let ?s = "s\<lparr>ss_guard := g\<rparr>"
  have stats: "sx_active_sessions (note_frame b x) = sx_active_sessions x"
    "sx_active_sessions (note_duplicate b x) = sx_active_sessions x" for b x
    by (simp_all add: note_frame_def note_duplicate_def Let_def)
  have call: "frame_call ?s frame = frame_call s frame" by (simp add: frame_call_def)
  have same: "same_session s ?s" by (simp add: same_session_def)
  note result = that
  have quiet: ?thesis if f: "finish_reply d outcome frame type answer ?s = (t', s')" and w: "w' = w\<lparr>sh_stats := x\<rparr>"
    "sx_active_sessions x = sx_active_sessions (sh_stats w)" and r: "r \<noteq> Inr True" for type answer t' x
  proof -
    obtain answers sent where a: "s' = ?s\<lparr>ss_answers := answers, ss_sent := sent\<rparr>"
      "length (ss_answers ?s) \<le> kAnswerCacheEntries \<longrightarrow> length answers \<le> kAnswerCacheEntries"
      using finish_reply_session [OF f] by blast
    show ?thesis by (rule result [where mid = ?s and answers = answers and sent = sent]) (use a w r g same in simp_all)
  qed
  consider (refused) e where "r = Inl e" | (duplicate) "r = Inr False" | (accepted) "r = Inr True"
    by (cases r) auto
  then show ?thesis
  proof cases
    case refused
    then obtain t' where "finish_reply d outcome frame ErrorResponse (write_error_envelope (ss_limits s) e (d e)) ?s = (t', s')"
      "w' = w\<lparr>sh_stats := note_frame False (sh_stats w)\<rparr>"
      using assms g by (auto simp: serve_frame_def Let_def split: prod.splits)
    then show ?thesis using quiet refused stats by simp
  next
    case duplicate
    show ?thesis
    proof (cases "cached_answer ?q s")
      case None
      then obtain t' where "finish_reply d outcome frame ErrorResponse (write_error_envelope (ss_limits s) DuplicateFrame (d DuplicateFrame)) ?s = (t', s')"
        "w' = w\<lparr>sh_stats := note_frame False (note_duplicate False (sh_stats w))\<rparr>"
        using assms g duplicate by (auto simp: serve_frame_def Let_def split: prod.splits)
      then show ?thesis using quiet duplicate stats by simp
    next
      case (Some cached)
      then have "s' = ?s\<lparr>ss_answers := ss_answers s, ss_sent := ss_sent s @ [cached]\<rparr>"
        "w' = w\<lparr>sh_stats := note_duplicate True (sh_stats w)\<rparr>"
        using assms g duplicate by (auto simp: serve_frame_def Let_def send_frame_def)
      then show ?thesis
        by (intro result [where mid = ?s and answers = "ss_answers s" and sent = "ss_sent s @ [cached]"])
          (use g duplicate same stats in simp_all)
    qed
  next
    case accepted
    obtain h mid nw c where h: "handle d frame ?s (sh_next_wire w) (sh_coordinator w) = (h, mid, nw, c)"
      by (cases "handle d frame ?s (sh_next_wire w) (sh_coordinator w)") auto
    then obtain t' where f: "finish_reply d outcome frame (hd_type h) (hd_answer h) mid = (t', s')"
      and w: "w' = w\<lparr>sh_coordinator := c, sh_next_wire := nw, sh_stats := note_frame (hd_served h) (sh_stats w)\<rparr>"
      using assms g accepted by (auto simp: serve_frame_def Let_def split: prod.splits)
    obtain answers sent where a: "s' = mid\<lparr>ss_answers := answers, ss_sent := sent\<rparr>"
      "length (ss_answers mid) \<le> kAnswerCacheEntries \<Longrightarrow> length answers \<le> kAnswerCacheEntries"
      using finish_reply_session [OF f] by blast
    have c: "c = apply_call (frame_call s frame) (sh_coordinator w)" using handle_coordinator [OF h] call by simp
    show ?thesis
    proof (rule result [where mid = mid and answers = answers and sent = sent])
      show "same_session s mid \<and> sh_next_wire w' = sh_next_wire w \<or> newly_bound (sh_next_wire w) (sh_next_wire w') s mid"
        using handle_session [OF h] w same by (auto simp: newly_bound_def)
    qed (use handle_session [OF h] w c g accepted stats a in auto)
  qed
qed

section \<open>Lemmas: turns inside the server\<close>

lemma stream_after:
  assumes "session_inv l s"
  shows "stream_inv (snd (stream_next (ss_stream s))) \<and> fs_limits (snd (stream_next (ss_stream s))) = l"
    "stream_inv (snd (stream_feed b (snd (stream_next (ss_stream s))))) \<and>
     fs_limits (snd (stream_feed b (snd (stream_next (ss_stream s))))) = l"
proof -
  have i: "stream_inv (ss_stream s)" "fs_limits (ss_stream s) = l" using assms by (auto simp: session_inv_def)
  show n: "stream_inv (snd (stream_next (ss_stream s))) \<and> fs_limits (snd (stream_next (ss_stream s))) = l"
    using stream_step_inv [OF step_next] i by simp
  then show "stream_inv (snd (stream_feed b (snd (stream_next (ss_stream s))))) \<and>
     fs_limits (snd (stream_feed b (snd (stream_next (ss_stream s))))) = l"
    using stream_step_inv [OF step_feed] by simp
qed

lemma serve_turn_effect:
  assumes i: "session_inv l s" and t: "serve_turn d io s w = (t, s', w')"
  shows "turn_effect l s s' w w'"
proof (cases "stream_next (ss_stream s)")
  case (Pair r st)
  have st: "stream_inv st" "fs_limits st = l" "stream_inv (snd (stream_feed b st))" "fs_limits (snd (stream_feed b st)) = l" for b
    using stream_after(1) [OF i] stream_after(2) [OF i, of b] Pair by simp_all
  show ?thesis
  proof (cases r)
    case (Inl e)
    have "w' = w \<and> (\<exists>st'. s' = s\<lparr>ss_stream := st'\<rparr> \<and> stream_inv st' \<and> fs_limits st' = l)"
    proof (cases "e = NoWorkAvailable")
      case True
      show ?thesis
      proof (cases "io_recv io")
        case (Inl e')
        then show ?thesis using t Pair \<open>r = Inl e\<close> True st by (auto simp: serve_turn_def)
      next
        case (Inr arrived)
        then show ?thesis
          using t Pair \<open>r = Inl e\<close> True st(3,4) [of arrived]
          by (cases "stream_feed arrived st") (auto simp: serve_turn_def split: sum.splits)
      qed
    next
      case False
      then show ?thesis using t Pair Inl st by (auto simp: serve_turn_def)
    qed
    then show ?thesis using i Pair Inl by (auto simp: turn_effect_def session_inv_def same_session_def turn_call_def)
  next
    case (Inr frame)
    then have f: "serve_frame d (io_send io) frame (s\<lparr>ss_stream := st\<rparr>) w = (t, s', w')"
      using t Pair by (simp add: serve_turn_def)
    have c: "frame_call (s\<lparr>ss_stream := st\<rparr>) frame = frame_call s frame" by (simp add: frame_call_def)
    show ?thesis
      by (rule serve_frame_parts [OF f])
        (use i st Pair Inr c in \<open>auto simp: turn_effect_def session_inv_def same_session_def newly_bound_def turn_call_def\<close>)
  qed
qed

section \<open>Lemmas: the registry of sessions\<close>

lemma session_split:
  assumes "map_of sessions key = Some s" "distinct (map fst sessions)"
  obtains xs ys where "sessions = xs @ (key, s) # ys" "key \<notin> set (map fst xs)" "key \<notin> set (map fst ys)"
proof -
  have "(key, s) \<in> set sessions" using assms(1) by (rule map_of_SomeD)
  then obtain xs ys where "sessions = xs @ (key, s) # ys" by (auto dest: split_list)
  then show ?thesis using that assms(2) by auto
qed

lemma put_session_other: "key \<notin> set (map fst xs) \<Longrightarrow> put_session key s xs = xs"
  by (induction xs) (auto simp: put_session_def)

lemma put_session_split:
  "key \<notin> set (map fst xs) \<Longrightarrow> key \<notin> set (map fst ys) \<Longrightarrow>
   put_session key s' (xs @ (key, s) # ys) = xs @ (key, s') # ys"
  using put_session_other [of key xs s'] put_session_other [of key ys s'] by (simp add: put_session_def)

lemma filter_other: "key \<notin> set (map fst xs) \<Longrightarrow> filter (\<lambda>(k, _). k \<noteq> key) xs = xs"
  by (induction xs) auto

lemma filter_split:
  "key \<notin> set (map fst xs) \<Longrightarrow> key \<notin> set (map fst ys) \<Longrightarrow> filter (\<lambda>(k, _). k \<noteq> key) (xs @ (key, s) # ys) = xs @ ys"
  using filter_other [of key xs] filter_other [of key ys] by simp

lemma registry_inv_mono: "registry_inv n sv \<Longrightarrow> n \<le> m \<Longrightarrow> registry_inv m sv"
  by (auto simp: registry_inv_def)

lemma unat_pred: "0 < (a :: u32) \<Longrightarrow> unat (a - 1) = unat a - 1"
  by (simp add: unat_minus_one word_neq_0_conv [symmetric])

lemma unat_next: "unat (a :: u64) + 1 < 2 ^ 64 \<Longrightarrow> unat (a + 1) = unat a + 1"
  by (simp add: unat_plus_if')

lemma finish_session_inv:
  assumes i: "registry_inv n sv" and p: "key \<notin> set (sv_pending sv)"
  shows "registry_inv n (finish_session key sv)"
proof (cases "map_of (sv_sessions sv) key")
  case None
  then show ?thesis using i by (simp add: finish_session_def)
next
  case (Some s)
  moreover have "distinct (map fst (sv_sessions sv))" using i by (simp add: registry_inv_def)
  ultimately obtain xs ys where s: "sv_sessions sv = xs @ (key, s) # ys" "key \<notin> set (map fst xs)" "key \<notin> set (map fst ys)"
    by (rule session_split)
  have a: "unat (sx_active_sessions (sv_stats sv)) = Suc (length (xs @ ys))" using i s by (simp add: registry_inv_def)
  then have pos: "0 < sx_active_sessions (sv_stats sv)" by (metis unat_0 word_gt_0 nat.simps(3))
  let ?sv = "finish_session key sv"
  have e: "?sv = sv\<lparr>sv_sessions := xs @ ys, sv_stats := (sv_stats sv)\<lparr>sx_active_sessions := sx_active_sessions (sv_stats sv) - 1\<rparr>\<rparr>"
    using Some pos filter_split [OF s(2,3)] s(1) by (simp add: finish_session_def)
  have u: "unat (sx_active_sessions (sv_stats sv) - 1) = length (xs @ ys)" using a unat_pred [OF pos] by simp
  show ?thesis using i s p u unfolding e registry_inv_def wire_ids_def by (cases "ss_bound s") auto
qed

lemma turn_state_inv:
  assumes i: "registry_inv n sv" and n: "n + 2 < 2 ^ 64" and s: "map_of (sv_sessions sv) key = Some s"
    and e: "turn_effect (so_limits (sv_options sv)) s s'
      \<lparr>sh_coordinator = sv_coordinator sv, sh_next_wire = sv_next_wire_session sv, sh_stats = sv_stats sv\<rparr> w'"
  shows "registry_inv (Suc n) (sv\<lparr>sv_coordinator := sh_coordinator w', sv_next_wire_session := sh_next_wire w',
    sv_stats := sh_stats w', sv_sessions := put_session key s' (sv_sessions sv)\<rparr>)"
proof -
  have d: "distinct (map fst (sv_sessions sv))" using i by (simp add: registry_inv_def)
  obtain xs ys where xy: "sv_sessions sv = xs @ (key, s) # ys" "key \<notin> set (map fst xs)" "key \<notin> set (map fst ys)"
    using session_split [OF s d] .
  have p: "put_session key s' (sv_sessions sv) = xs @ (key, s') # ys" using put_session_split [OF xy(2,3)] xy(1) by simp
  let ?nw = "sv_next_wire_session sv"
  have nw: "unat (?nw + 1) = unat ?nw + 1"
    using i n by (intro unat_next) (simp add: registry_inv_def)
  from e consider (same) "same_session s s'" "sh_next_wire w' = ?nw" | (bound) "newly_bound ?nw (sh_next_wire w') s s'"
    by (auto simp: turn_effect_def)
  then show ?thesis
  proof cases
    case same
    then show ?thesis using i e p xy
      by (cases "ss_bound s") (auto simp: registry_inv_def turn_effect_def wire_ids_def same_session_def)
  next
    case bound
    then show ?thesis using i e p xy nw
      by (auto simp: registry_inv_def turn_effect_def wire_ids_def newly_bound_def intro!: less_SucI)
  qed
qed

lemma session_turn_inv:
  assumes i: "registry_inv n sv" and n: "n + 2 < 2 ^ 64" and s: "map_of (sv_sessions sv) key = Some s"
    and p: "key \<notin> set (sv_pending sv)" and run: "sv_running sv"
  shows "registry_inv (Suc n) (session_turn d io key sv)"
    "sv_coordinator (session_turn d io key sv) = apply_call (turn_call s) (sv_coordinator sv)"
    "sv_options (session_turn d io key sv) = sv_options sv"
proof -
  let ?w = "\<lparr>sh_coordinator = sv_coordinator sv, sh_next_wire = sv_next_wire_session sv, sh_stats = sv_stats sv\<rparr>"
  obtain t s' w' where t: "serve_turn d io s ?w = (t, s', w')" by (cases "serve_turn d io s ?w") auto
  have "session_inv (so_limits (sv_options sv)) s"
    using i map_of_SomeD [OF s] by (force simp: registry_inv_def)
  note e = serve_turn_effect [OF this t]
  let ?sv = "sv\<lparr>sv_coordinator := sh_coordinator w', sv_next_wire_session := sh_next_wire w',
    sv_stats := sh_stats w', sv_sessions := put_session key s' (sv_sessions sv)\<rparr>"
  have r: "session_turn d io key sv = (if t = Ended then finish_session key ?sv else ?sv)"
    using s run t by (simp add: session_turn_def Let_def)
  show "registry_inv (Suc n) (session_turn d io key sv)"
    using turn_state_inv [OF i n s e] finish_session_inv [of "Suc n" ?sv key] p r by simp
  show "sv_coordinator (session_turn d io key sv) = apply_call (turn_call s) (sv_coordinator sv)"
    "sv_options (session_turn d io key sv) = sv_options sv"
    using r e by (simp_all add: finish_session_def turn_effect_def)
qed

lemma server_start_inv:
  assumes i: "registry_inv n sv"
  shows "registry_inv n (snd (server_start runtime local spawned sv))"
proof -
  have clamp: "1 \<le> unat (clamp v 1 kMaxWorkerThreads) \<and> unat (clamp v 1 kMaxWorkerThreads) \<le> 1024" for v
    by (simp add: clamp_def kMaxWorkerThreads_def word_less_nat_alt)
  let ?S = "sv\<lparr>sv_max_sessions := clamp (so_max_sessions (sv_options sv)) 1 kMaxWorkerThreads,
    sv_workers := clamp (max (so_worker_threads (sv_options sv)) (clamp (so_max_sessions (sv_options sv)) 1 kMaxWorkerThreads)) 1 kMaxWorkerThreads,
    sv_stats := mk_stats, sv_sessions := [], sv_pending := []\<rparr>"
  have S: "registry_inv n (?S\<lparr>sv_running := r, sv_bound_port := p\<rparr>)" for r p
    using i clamp by (simp add: registry_inv_def wire_ids_def mk_stats_def)
  show ?thesis
    by (cases "limits_validate (so_limits (sv_options sv))"; cases runtime; cases local; cases spawned)
      (use i S in \<open>simp_all add: server_start_def Let_def\<close>)
qed

lemma server_stop_inv: "registry_inv n sv \<Longrightarrow> registry_inv n (snd (server_stop sv))"
  by (simp add: server_stop_def registry_inv_def wire_ids_def)

lemma worker_take_Some:
  "worker_take sv = Some (key, sv') \<longleftrightarrow> sv_running sv \<and> (\<exists>rest. sv_pending sv = key # rest \<and> sv' = sv\<lparr>sv_pending := rest\<rparr>)"
  by (auto simp: worker_take_def split: list.splits)

lemma worker_take_inv: "registry_inv n sv \<Longrightarrow> worker_take sv = Some (key, sv') \<Longrightarrow> registry_inv n sv'"
  by (elim worker_take_Some [THEN iffD1, THEN conjE] exE conjE) (simp add: registry_inv_def wire_ids_def, blast)

lemma mk_session_inv: "session_inv l (mk_session key l)"
  by (simp add: session_inv_def mk_session_def stream_inv_def mk_stream_def buffered_def)

lemma server_accept_inv:
  assumes i: "registry_inv n sv" and n: "n + 2 < 2 ^ 64"
  shows "registry_inv (Suc n) (snd (server_accept d sv))"
proof (cases "sv_running sv \<and> length (sv_sessions sv) < unat (sv_max_sessions sv)")
  case True
  let ?k = "sv_next_session_key sv"
  have k: "unat (?k + 1) = unat ?k + 1" using i n by (intro unat_next) (simp add: registry_inv_def)
  have new: "?k \<notin> set (map fst (sv_sessions sv))" using i by (auto simp: registry_inv_def)
  then have m: "map_of (sv_sessions sv) ?k = None" by (simp add: map_of_eq_None_iff)
  have a: "unat (sx_active_sessions (sv_stats sv) + 1) = length (sv_sessions sv) + 1"
    using i True by (simp add: registry_inv_def unat_plus_if')
  have e: "snd (server_accept d sv) = sv\<lparr>sv_next_session_key := ?k + 1,
      sv_sessions := sv_sessions sv @ [(?k, mk_session ?k (so_limits (sv_options sv)))], sv_pending := sv_pending sv @ [?k],
      sv_stats := (sv_stats sv)\<lparr>sx_accepted_sessions := sx_accepted_sessions (sv_stats sv) + 1,
        sx_active_sessions := sx_active_sessions (sv_stats sv) + 1,
        sx_peak_sessions := max (sx_peak_sessions (sv_stats sv)) (sx_active_sessions (sv_stats sv) + 1)\<rparr>\<rparr>"
    using True m by (simp add: server_accept_def Let_def)
  have w: "\<not> ss_bound (mk_session key l)" for key l by (simp add: mk_session_def)
  show ?thesis using i True new k a mk_session_inv unfolding e registry_inv_def wire_ids_def
    by (auto simp: w intro: less_SucI)
next
  case False
  then have "registry_inv n (snd (server_accept d sv))"
    using i by (auto simp: server_accept_def registry_inv_def wire_ids_def)
  then show ?thesis by (rule registry_inv_mono) simp
qed

section \<open>Lemmas: runs of the server\<close>

lemma frame_call_attributed:
  assumes "frame_call s frame = Some call"
  shows "ss_bound s" "fh_session (df_header frame) = ss_wire_id s" "call_attributed (ss_identity s) call"
    "call_decoded (ss_limits s) call"
  using assms request_call_attributed request_call_decoded by (auto simp: frame_call_def split: if_splits)

lemma turn_call_of_participant:
  assumes "turn_call s = Some call" "session_inv l s"
  shows "call_of_participant l call"
proof -
  obtain frame where f: "frame_call s frame = Some call"
    using assms(1) by (auto simp: turn_call_def split: sum.splits if_splits)
  show ?thesis using frame_call_attributed [OF f] assms(2) by (auto simp: call_of_participant_def session_inv_def)
qed

lemma server_step_effect:
  assumes "server_step sv call sv'" "registry_inv n sv" "n + 2 < 2 ^ 64"
  shows "registry_inv (Suc n) sv' \<and> sv_options sv' = sv_options sv \<and>
    sv_coordinator sv' = apply_call call (sv_coordinator sv) \<and>
    (\<forall>made. call = Some made \<longrightarrow> call_of_participant (so_limits (sv_options sv)) made)"
  using assms(1,2)
proof (cases rule: server_step.cases)
  case (step_start runtime local spawned)
  then show ?thesis
    using registry_inv_mono [OF server_start_inv [OF assms(2)], of "Suc n"]
    by (auto simp: server_start_def Let_def split: sum.splits)
next
  case step_stop
  then show ?thesis using registry_inv_mono [OF server_stop_inv [OF assms(2)], of "Suc n"] by (simp add: server_stop_def)
next
  case (step_accept details)
  then show ?thesis using server_accept_inv [OF assms(2,3)] by (simp add: server_accept_def Let_def)
next
  case (step_take key)
  then show ?thesis
    using registry_inv_mono [OF worker_take_inv [OF assms(2)], of key sv' "Suc n"]
    by (auto simp: worker_take_def split: if_splits list.splits)
next
  case (step_turn key s details io)
  have "session_inv (so_limits (sv_options sv)) s"
    using assms(2) map_of_SomeD [OF step_turn(3)] by (force simp: registry_inv_def)
  then show ?thesis
    using session_turn_inv [OF assms(2,3) step_turn(3,4,5)] step_turn(1,2) turn_call_of_participant by auto
qed

lemma mk_server_inv: "registry_inv 0 (mk_server c options)"
  by (simp add: registry_inv_def mk_server_def wire_ids_def mk_stats_def)

lemma server_run_effect:
  assumes "server_run n (mk_server c options) calls sv" "n + 2 < 2 ^ 64"
  shows "registry_inv n sv \<and> sv_options sv = options \<and> sv_coordinator sv = fold run_call calls c \<and>
    list_all (call_of_participant (so_limits options)) calls"
  using assms
proof (induction n "mk_server c options" calls sv rule: server_run.induct)
  case run_none
  then show ?case using mk_server_inv by (simp add: mk_server_def)
next
  case (run_step n calls sv' call sv'')
  then have i: "registry_inv n sv' \<and> sv_options sv' = options \<and> sv_coordinator sv' = fold run_call calls c \<and>
    list_all (call_of_participant (so_limits options)) calls" by simp
  then show ?case
    using server_step_effect [OF run_step(3), of n] run_step(4) by (cases call) auto
qed

end
