(* ===== verification/Fabric_Client.thy ===== *)
theory Fabric_Client
  imports Fabric_Service
begin

text \<open>
  The client side of the coordinator service (\<open>service.cpp\<close>, \<open>CoordinatorClient\<close>): connecting with
  a handshake, one request frame out and exactly one reply frame in, and the remote calls.

  A socket is an argument: a \<open>transport\<close> says what sending and receiving do to the state of the peer.
  The loop that waits for a frame need not end, so \<open>receive_frame\<close> and everything above it return an
  option. The mutex of the client serialises its calls, so a call is one function of the client's state.
\<close>

section \<open>State\<close>

record 'p transport =
  tr_send :: "bytes \<Rightarrow> 'p \<Rightarrow> status \<times> 'p"
  tr_recv :: "'p \<Rightarrow> bytes result \<times> 'p"

record client_options =
  cn_limits :: limits
  cn_port :: u16
  cn_identity :: session_identity
  cn_connect_timeout_ms :: u32

record client =
  cl_options :: client_options
  cl_open :: bool
  cl_session :: u64
  cl_next_sequence :: u64
  cl_guard :: replay_guard
  cl_stream :: frame_stream
  cl_connected :: bool

definition default_options :: client_options where
  "default_options = \<lparr>cn_limits = default_limits, cn_port = 0, cn_identity = default_identity, cn_connect_timeout_ms = 2000\<rparr>"

definition mk_client :: client where
  "mk_client = \<lparr>cl_options = default_options, cl_open = False, cl_session = 0, cl_next_sequence = 1,
     cl_guard = mk_guard kReplayWindow, cl_stream = mk_stream default_limits, cl_connected = False\<rparr>"

abbreviation cl_limits :: "client \<Rightarrow> limits" where
  "cl_limits k \<equiv> cn_limits (cl_options k)"

section \<open>The connection\<close>

definition drop_connection :: "client \<Rightarrow> client" where
  "drop_connection k = k\<lparr>cl_connected := False, cl_open := False\<rparr>"

partial_function (option) receive_frame ::
  "'p transport \<Rightarrow> client \<Rightarrow> 'p \<Rightarrow> (decoded_frame result \<times> client \<times> 'p) option" where
  "receive_frame tr k p =
     (case stream_next (cl_stream k) of
        (Inr frame, st) \<Rightarrow> Some (Inr frame, k\<lparr>cl_stream := st\<rparr>, p)
      | (Inl e, st) \<Rightarrow>
          if e \<noteq> NoWorkAvailable then Some (Inl e, k\<lparr>cl_stream := st\<rparr>, p)
          else case tr_recv tr p of
            (Inl e', p') \<Rightarrow>
              Some (Inl (if e' = NoWorkAvailable then ConnectionFailure else e'), k\<lparr>cl_stream := st\<rparr>, p')
          | (Inr arrived, p') \<Rightarrow>
            (case stream_feed arrived st of
               (Inl e', st') \<Rightarrow> Some (Inl e', k\<lparr>cl_stream := st'\<rparr>, p')
             | (Inr _, st') \<Rightarrow> receive_frame tr (k\<lparr>cl_stream := st'\<rparr>) p'))"

definition request_header :: "message_type \<Rightarrow> u64 \<Rightarrow> u64 \<Rightarrow> frame_header" where
  "request_header type sid sequence = \<lparr>fh_version = kProtocolVersion, fh_type = type, fh_flags = 0,
     fh_session = sid, fh_sequence = sequence, fh_payload_length = 0, fh_payload_crc32c = 0\<rparr>"

definition read_handshake_reply :: "limits \<Rightarrow> message_type \<Rightarrow> unit result reader" where
  "read_handshake_reply l type =
     rd_sub (read_envelope l) (\<lambda>(code, detail).
       if code \<noteq> Ok then ret (Inl code)
       else if type = ErrorResponse then ret (Inl ProtocolViolation)
       else if type \<noteq> HandshakeResponse then ret (Inl ProtocolViolation)
       else rd_finish (ret ok_status))"

definition accept_handshake :: "decoded_frame \<Rightarrow> client \<Rightarrow> status \<times> client" where
  "accept_handshake reply k =
     (let header = df_header reply in
      if \<not> carries_response_flag header \<or> fh_sequence header \<noteq> 1 then (Inl ProtocolViolation, k)
      else case guard_accept (fh_sequence header) (cl_guard k) of
        (Inl e, g) \<Rightarrow> (Inl e, k\<lparr>cl_guard := g\<rparr>)
      | (Inr False, g) \<Rightarrow> (Inl ProtocolViolation, k\<lparr>cl_guard := g\<rparr>)
      | (Inr True, g) \<Rightarrow>
        (case run_reader (read_handshake_reply (cl_limits k) (fh_type header)) (df_payload reply) (cl_limits k) of
           Inl e \<Rightarrow> (Inl e, k\<lparr>cl_guard := g\<rparr>)
         | Inr _ \<Rightarrow>
             if fh_session header = 0 then (Inl ProtocolViolation, k\<lparr>cl_guard := g\<rparr>)
             else (ok_status, k\<lparr>cl_guard := g, cl_session := fh_session header, cl_next_sequence := 1 + 1\<rparr>)))"

definition handshake ::
  "'p transport \<Rightarrow> bytes \<Rightarrow> client \<Rightarrow> 'p \<Rightarrow> (status \<times> client \<times> 'p) option" where
  "handshake tr payload k p =
     (case encode_frame (request_header HandshakeRequest 0 1) payload [] (cl_limits k) of
        (Inl e, _) \<Rightarrow> Some (Inl e, k, p)
      | (Inr _, frame) \<Rightarrow>
        (case tr_send tr frame p of
           (Inl e, p1) \<Rightarrow> Some (Inl e, k, p1)
         | (Inr _, p1) \<Rightarrow>
           (case receive_frame tr k p1 of
              None \<Rightarrow> None
            | Some (Inl e, k1, p2) \<Rightarrow> Some (Inl e, k1, p2)
            | Some (Inr reply, k1, p2) \<Rightarrow> (case accept_handshake reply k1 of (r, k2) \<Rightarrow> Some (r, k2, p2)))))"

definition kMaxWaitMs :: u32 where "kMaxWaitMs = 600000"

definition check_connect :: "client_options \<Rightarrow> client \<Rightarrow> status" where
  "check_connect options k =
     (if cl_connected k then Inl InvalidState
      else case limits_validate (cn_limits options) of
        Inl e \<Rightarrow> Inl e
      | Inr _ \<Rightarrow>
        if \<not> identity_valid (cn_identity options) then Inl InvalidArgument
        else if cn_port options = 0 then Inl InvalidArgument
        else if cn_connect_timeout_ms options > kMaxWaitMs then Inl InvalidArgument
        else ok_status)"

definition handshake_payload :: "session_identity \<Rightarrow> bytes" where
  "handshake_payload identity =
     put_u8 (participant_kind_value (si_kind identity)) @ put_u64 (si_participant_id identity) @
     put_u64 (si_incarnation identity) @ put_u64 (si_boot_nonce identity)"

text \<open>\<open>candidate\<close> is the outcome of \<open>Socket::connect\<close>.\<close>

definition client_connect ::
  "'p transport \<Rightarrow> status \<Rightarrow> client_options \<Rightarrow> client \<Rightarrow> 'p \<Rightarrow> (status \<times> client \<times> 'p) option" where
  "client_connect tr candidate options k p =
     (case check_connect options k of
        Inl e \<Rightarrow> Some (Inl e, k, p)
      | Inr _ \<Rightarrow>
        (case candidate of
           Inl e \<Rightarrow> Some (Inl e, k, p)
         | Inr _ \<Rightarrow>
           (let k1 = k\<lparr>cl_open := True, cl_options := options, cl_stream := mk_stream (cn_limits options), cl_session := 0,
              cl_next_sequence := 1, cl_guard := mk_guard kReplayWindow\<rparr> in
            case handshake tr (handshake_payload (cn_identity options)) k1 p of
              None \<Rightarrow> None
            | Some (Inl e, k2, p') \<Rightarrow> Some (Inl e, drop_connection k2, p')
            | Some (Inr _, k2, p') \<Rightarrow> Some (ok_status, k2\<lparr>cl_connected := True\<rparr>, p'))))"

section \<open>One exchange\<close>

definition read_reply :: "limits \<Rightarrow> message_type \<Rightarrow> bytes \<Rightarrow> (bytes result) result" where
  "read_reply l type payload =
     (case run_state (read_envelope l) (mk_reader payload l) of
        (Inl _, _) \<Rightarrow> Inl ProtocolViolation
      | (Inr (code, detail), r) \<Rightarrow>
          if code \<noteq> Ok then
            (case fst (run_state rd_require_end r) of Inl _ \<Rightarrow> Inl ProtocolViolation | Inr _ \<Rightarrow> Inr (Inl code))
          else if type = ErrorResponse then Inl ProtocolViolation
          else if length payload < 2 + 4 + length detail then Inl ProtocolViolation
          else Inr (Inr (drop (2 + 4 + length detail) payload)))"

text \<open>The checks of a reply. \<open>violation\<close> drops the connection; any other outcome advances the sequence.\<close>

definition accept_reply ::
  "u64 \<Rightarrow> message_type \<Rightarrow> decoded_frame \<Rightarrow> client \<Rightarrow> bytes result \<times> client" where
  "accept_reply sequence response_type reply k =
     (let header = df_header reply; violation = (\<lambda>k. (Inl ProtocolViolation, drop_connection k)) in
      if \<not> carries_response_flag header then violation k
      else if fh_sequence header \<noteq> sequence then violation k
      else case guard_accept (fh_sequence header) (cl_guard k) of
        (fresh, g) \<Rightarrow>
          (let k1 = k\<lparr>cl_guard := g\<rparr> in
           if fresh \<noteq> Inr True then violation k1
           else if fh_session header \<noteq> cl_session k1 then violation k1
           else if fh_type header \<noteq> response_type \<and> fh_type header \<noteq> ErrorResponse then violation k1
           else case read_reply (cl_limits k1) (fh_type header) (df_payload reply) of
             Inl _ \<Rightarrow> violation k1
           | Inr outcome \<Rightarrow> (outcome, k1\<lparr>cl_next_sequence := sequence + 1\<rparr>)))"

definition transact ::
  "'p transport \<Rightarrow> message_type \<Rightarrow> message_type \<Rightarrow> bytes \<Rightarrow> client \<Rightarrow> 'p \<Rightarrow> (bytes result \<times> client \<times> 'p) option" where
  "transact tr request_type response_type payload k p =
     (if \<not> cl_connected k then Some (Inl SessionClosed, k, p)
      else
        (let sequence = cl_next_sequence k in
         case encode_frame (request_header request_type (cl_session k) sequence) payload [] (cl_limits k) of
           (Inl e, _) \<Rightarrow> Some (Inl e, k, p)
         | (Inr _, frame) \<Rightarrow>
           (case tr_send tr frame p of
              (Inl e, p1) \<Rightarrow> Some (Inl e, drop_connection k, p1)
            | (Inr _, p1) \<Rightarrow>
              (case receive_frame tr k p1 of
                 None \<Rightarrow> None
               | Some (Inl e, k1, p2) \<Rightarrow> Some (Inl e, drop_connection k1, p2)
               | Some (Inr reply, k1, p2) \<Rightarrow>
                 (case accept_reply sequence response_type reply k1 of (r, k2) \<Rightarrow> Some (r, k2, p2))))))"

text \<open>\<open>call\<close>: an exchange whose response has no body. \<open>round_trip\<close> with the reader of the body.\<close>

definition client_call ::
  "'p transport \<Rightarrow> message_type \<Rightarrow> message_type \<Rightarrow> bytes \<Rightarrow> client \<Rightarrow> 'p \<Rightarrow> (status \<times> client \<times> 'p) option" where
  "client_call tr request_type response_type payload k p =
     (case transact tr request_type response_type payload k p of
        None \<Rightarrow> None
      | Some (Inl e, k', p') \<Rightarrow> Some (Inl e, k', p')
      | Some (Inr body, k', p') \<Rightarrow>
          if body \<noteq> [] then Some (Inl ProtocolViolation, drop_connection k', p') else Some (ok_status, k', p'))"

definition round_trip ::
  "'p transport \<Rightarrow> message_type \<Rightarrow> message_type \<Rightarrow> 'a result reader \<Rightarrow> bytes \<Rightarrow> client \<Rightarrow> 'p \<Rightarrow>
   ('a result \<times> client \<times> 'p) option" where
  "round_trip tr request_type response_type reader payload k p =
     (case transact tr request_type response_type payload k p of
        None \<Rightarrow> None
      | Some (Inl e, k', p') \<Rightarrow> Some (Inl e, k', p')
      | Some (Inr body, k', p') \<Rightarrow> Some (run_reader reader body (cl_limits k), k', p'))"

definition client_close :: "'p transport \<Rightarrow> client \<Rightarrow> 'p \<Rightarrow> (status \<times> client \<times> 'p) option" where
  "client_close tr k p =
     (if \<not> cl_open k then Some (ok_status, k\<lparr>cl_connected := False\<rparr>, p)
      else if cl_connected k then
        (case transact tr CloseRequest CloseResponse [] k p of
           None \<Rightarrow> None
         | Some (_, k', p') \<Rightarrow> Some (ok_status, drop_connection k', p'))
      else Some (ok_status, drop_connection k, p))"

section \<open>The remote calls\<close>

definition client_open_shuffle ::
  "'p transport \<Rightarrow> open_request \<Rightarrow> client \<Rightarrow> 'p \<Rightarrow> (status \<times> client \<times> 'p) option" where
  "client_open_shuffle tr request =
     client_call tr OpenShuffleRequest OpenShuffleResponse
       (put_u64 (or_shuffle request) @ put_u64 (or_generation request) @ put_u32 (or_partition_count request) @
        encode_policy (or_policy request))"

definition read_registration_outcome :: "registration_outcome result reader" where
  "read_registration_outcome = do {
     topology_generation \<leftarrow> rd_u64;
     incarnation \<leftarrow> rd_u64;
     superseded_previous \<leftarrow> rd_boolean;
     rd_check (rd_finish (ret (Inr \<lparr>ro_topology_generation = topology_generation, ro_incarnation = incarnation,
       ro_superseded_previous = superseded_previous\<rparr>))) }"

definition client_register_participant ::
  "'p transport \<Rightarrow> participant_kind \<Rightarrow> u64 \<Rightarrow> incarnation_id \<Rightarrow> bytes \<Rightarrow> partition_selection \<Rightarrow> client \<Rightarrow> 'p \<Rightarrow>
   (registration_outcome result \<times> client \<times> 'p) option" where
  "client_register_participant tr kind pid incarnation endpoint selection k p =
     (case write_selection_msg selection (cl_limits k) of
        Inl e \<Rightarrow> Some (Inl e, k, p)
      | Inr encoded \<Rightarrow>
          round_trip tr RegisterParticipantRequest RegisterParticipantResponse read_registration_outcome
            (put_u8 (participant_kind_value kind) @ put_u64 pid @ put_u64 incarnation @
             write_text endpoint (max_endpoint_bytes (cl_limits k)) @ encoded) k p)"

definition read_acceptance :: "manifest_acceptance result reader" where
  "read_acceptance = do {
     manifest_digest \<leftarrow> rd_digest;
     partition_generation \<leftarrow> rd_u64;
     rd_check (rd_finish (ret (Inr \<lparr>ma_manifest_digest = manifest_digest, ma_partition_generation = partition_generation\<rparr>))) }"

definition client_publish_manifest ::
  "'p transport \<Rightarrow> partition_manifest \<Rightarrow> client \<Rightarrow> 'p \<Rightarrow> (manifest_acceptance result \<times> client \<times> 'p) option" where
  "client_publish_manifest tr manifest k p =
     (case encode_manifest manifest (cl_limits k) of
        Inl e \<Rightarrow> Some (Inl e, k, p)
      | Inr encoded \<Rightarrow>
          round_trip tr PublishManifestRequest PublishManifestResponse read_acceptance (put_byte_string encoded) k p)"

definition client_next_wave :: "'p transport \<Rightarrow> client \<Rightarrow> 'p \<Rightarrow> (wave_plan result \<times> client \<times> 'p) option" where
  "client_next_wave tr k =
     round_trip tr NextWaveRequest NextWaveResponse
       (rd_sub (read_wave_plan (cl_limits k)) (\<lambda>plan. rd_finish (ret (Inr plan)))) [] k"

definition read_commit_outcome :: "commit_outcome result reader" where
  "read_commit_outcome = do {
     newly_committed \<leftarrow> rd_boolean;
     edge_newly_completed \<leftarrow> rd_boolean;
     duplicate \<leftarrow> rd_boolean;
     sequence \<leftarrow> rd_u64;
     manifest_digest \<leftarrow> rd_digest;
     accounted_bytes \<leftarrow> rd_u64;
     shuffle_completed \<leftarrow> rd_boolean;
     rd_check (rd_finish (ret (Inr \<lparr>oc_receipt = \<lparr>rc_newly_committed = newly_committed,
       rc_edge_newly_completed = edge_newly_completed, rc_duplicate = duplicate, rc_sequence = sequence,
       rc_manifest_digest = manifest_digest, rc_accounted_bytes = accounted_bytes\<rparr>,
       oc_shuffle_completed = shuffle_completed\<rparr>))) }"

definition client_commit_transfer ::
  "'p transport \<Rightarrow> commit_request \<Rightarrow> client \<Rightarrow> 'p \<Rightarrow> (commit_outcome result \<times> client \<times> 'p) option" where
  "client_commit_transfer tr request =
     round_trip tr CommitTransferRequest CommitTransferResponse read_commit_outcome (write_commit_request_msg request)"

definition read_failure_outcome :: "failure_outcome result reader" where
  "read_failure_outcome = do {
     permanent \<leftarrow> rd_boolean;
     attempts \<leftarrow> rd_u32;
     ready_at \<leftarrow> rd_u64;
     rd_check (rd_finish (ret (Inr \<lparr>of_permanent = permanent, of_attempts = attempts, of_ready_at = ready_at\<rparr>))) }"

definition client_report_failure ::
  "'p transport \<Rightarrow> transfer_attempt_id \<Rightarrow> error_code \<Rightarrow> client \<Rightarrow> 'p \<Rightarrow> (failure_outcome result \<times> client \<times> 'p) option" where
  "client_report_failure tr attempt code =
     round_trip tr ReportFailureRequest ReportFailureResponse read_failure_outcome
       (put_u64 attempt @ put_u16 (code_value code))"

definition client_report_congestion ::
  "'p transport \<Rightarrow> congestion_intent \<Rightarrow> client \<Rightarrow> 'p \<Rightarrow> (status \<times> client \<times> 'p) option" where
  "client_report_congestion tr intent =
     client_call tr CongestionIntentRequest CongestionIntentResponse
       (put_u8 (participant_kind_value (ci_reporter_kind intent)) @ put_u64 (ci_reporter_id intent) @
        put_u64 (ci_reporter_incarnation intent) @ put_u64 (ci_producer intent) @ put_u64 (ci_consumer intent) @
        put_u32 (ci_level intent) @ put_u64 (ci_policy_generation intent) @ put_u64 (ci_observed_at intent))"

definition client_cancel_shuffle ::
  "'p transport \<Rightarrow> error_code \<Rightarrow> client \<Rightarrow> 'p \<Rightarrow> (status \<times> client \<times> 'p) option" where
  "client_cancel_shuffle tr reason =
     client_call tr CancelShuffleRequest CancelShuffleResponse (put_u16 (code_value reason))"

definition client_manifest ::
  "'p transport \<Rightarrow> partition_id \<Rightarrow> client \<Rightarrow> 'p \<Rightarrow> (partition_manifest result \<times> client \<times> 'p) option" where
  "client_manifest tr part k p =
     (case round_trip tr ManifestRequest ManifestResponse (read_publication (cl_limits k)) (put_u64 part) k p of
        None \<Rightarrow> None
      | Some (Inl e, k', p') \<Rightarrow> Some (Inl e, k', p')
      | Some (Inr encoded, k', p') \<Rightarrow> Some (decode_manifest encoded (cl_limits k), k', p'))"

definition client_progress :: "'p transport \<Rightarrow> client \<Rightarrow> 'p \<Rightarrow> (progress_snapshot result \<times> client \<times> 'p) option" where
  "client_progress tr =
     round_trip tr ProgressRequest ProgressResponse
       (rd_sub read_progress_snapshot (\<lambda>snapshot. rd_finish (ret (Inr snapshot)))) []"

definition client_explain ::
  "'p transport \<Rightarrow> u32 \<Rightarrow> client \<Rightarrow> 'p \<Rightarrow> (explain_entry list result \<times> client \<times> 'p) option" where
  "client_explain tr max_samples_per_code k =
     round_trip tr ExplainRequest ExplainResponse
       (rd_sub (read_explanation (cl_limits k)) (\<lambda>explanation. rd_finish (ret (Inr explanation)))) (put_u32 max_samples_per_code) k"

definition client_status :: "'p transport \<Rightarrow> client \<Rightarrow> 'p \<Rightarrow> (coordinator_status result \<times> client \<times> 'p) option" where
  "client_status tr =
     round_trip tr StatusRequest StatusResponse
       (rd_sub read_status (\<lambda>snapshot. rd_finish (ret (Inr snapshot)))) []"

section \<open>Lemmas: waiting for a reply\<close>

lemma next_no_work:
  assumes "stream_inv st" "stream_next st = (Inl NoWorkAvailable, st')"
  shows "stream_inv st' \<and> fs_limits st' = fs_limits st \<and> buffered st' = buffered st"
proof -
  have "stream_inv st' \<and> fs_limits st' = fs_limits st" using stream_step_inv [OF step_next] assms by (metis snd_conv)
  moreover have "st' = stream_compact st"
  proof (cases rule: next_cases [of st])
    case (frame f)
    then show ?thesis using next_frame(1) [OF frame] assms(2) by simp
  qed (use assms(2) in simp)
  ultimately show ?thesis by (simp add: buffered_content)
qed

lemma receive_returns:
  assumes recv: "\<And>p b p'. tr_recv tr p = (Inr b, p') \<Longrightarrow> b \<noteq> []"
  shows "stream_inv (cl_stream k) \<Longrightarrow> \<exists>r. receive_frame tr k p = Some r"
proof (induction "stream_capacity (cl_stream k) - buffered (cl_stream k)" arbitrary: k p rule: less_induct)
  case less
  obtain r st where n: "stream_next (cl_stream k) = (r, st)" by (cases "stream_next (cl_stream k)")
  show ?case
  proof (cases "r = Inl NoWorkAvailable")
    case False
    then show ?thesis using n by (subst receive_frame.simps) (auto split: sum.split)
  next
    case True
    note st = next_no_work [OF less.prems n [unfolded True]]
    obtain a p' where rc: "tr_recv tr p = (a, p')" by (cases "tr_recv tr p")
    show ?thesis
    proof (cases a)
      case (Inl e)
      then show ?thesis using n True rc by (subst receive_frame.simps) simp
    next
      case (Inr b)
      obtain f st' where fd: "stream_feed b st = (f, st')" by (cases "stream_feed b st")
      show ?thesis
      proof (cases f)
        case (Inl e)
        then show ?thesis using n True rc Inr fd by (subst receive_frame.simps) simp
      next
        case (Inr u)
        have s': "stream_inv st'" "fs_limits st' = fs_limits st"
          using stream_step_inv [OF step_feed, of st b] st fd by simp_all
        have "stream_content st' = stream_content st @ b"
          using feed_result [of b st st'] fd Inr st by (simp add: stream_inv_def)
        then have "buffered st' = buffered st + length b" by (simp add: buffered_content)
        moreover have "0 < length b" using recv rc \<open>a = Inr b\<close> by blast
        moreover have cap: "stream_capacity st' = stream_capacity (cl_stream k)" by (rule capacity_limits) (use s' st in simp)
        moreover have "buffered st' \<le> stream_capacity st'" using s' by (simp add: stream_inv_def)
        ultimately have "stream_capacity st' - buffered st' < stream_capacity (cl_stream k) - buffered (cl_stream k)"
          using st by linarith
        then have "\<exists>r. receive_frame tr (k\<lparr>cl_stream := st'\<rparr>) p' = Some r"
          using less.hyps [of "k\<lparr>cl_stream := st'\<rparr>" p'] s' by simp
        then show ?thesis using n True rc \<open>a = Inr b\<close> fd Inr by (subst receive_frame.simps) simp
      qed
    qed
  qed
qed

section \<open>Properties\<close>

text \<open>
  C26. Waiting for a reply ends: over every transport whose receives deliver at least one byte or fail,
  \<open>receive_frame\<close> returns a frame or an error, because the bounded stream fills up otherwise.
\<close>

theorem receive_frame_returns:
  assumes "\<And>p arrived p'. tr_recv tr p = (Inr arrived, p') \<Longrightarrow> arrived \<noteq> []" "stream_inv (cl_stream k)"
  shows "\<exists>r k' p'. receive_frame tr k p = Some (r, k', p')"
  using receive_returns [of tr k p] assms by (metis prod_cases3)

theorem receive_frame_returns_witness:
  "\<exists>r k' p'. receive_frame \<lparr>tr_send = (\<lambda>_ p. (ok_status, p)), tr_recv = (\<lambda>p. (Inr [0], p))\<rparr> mk_client () = Some (r, k', p')"
proof (rule receive_frame_returns)
  show "arrived \<noteq> []"
    if "tr_recv \<lparr>tr_send = (\<lambda>_ p. (ok_status, p)), tr_recv = (\<lambda>p. (Inr [0], p))\<rparr> p = (Inr arrived, p')" for p :: unit and arrived p'
    using that by auto
  show "stream_inv (cl_stream mk_client)" by (simp add: mk_client_def stream_inv_def mk_stream_def buffered_def)
qed

end
