(* ===== verification/Fabric_Remote.thy ===== *)
theory Fabric_Remote
  imports Fabric_Client
begin

text \<open>
  The two sides of the coordinator service together: a client linked to a session of the server by a
  connection that delivers what is sent (\<open>link\<close>), retransmission on one connection, and runs of the
  whole server. The lemmas on \<open>connected_to\<close> carry one exchange from the client's request to the
  client's outcome; the properties say that a remote call is the local call.
\<close>

section \<open>Specification\<close>

text \<open>The frame the receiver sees when a header and a payload are sent.\<close>

definition framed :: "frame_header \<Rightarrow> bytes \<Rightarrow> decoded_frame" where
  "framed header payload =
     \<lparr>df_header = header\<lparr>fh_payload_length := word_of_nat (length payload), fh_payload_crc32c := crc32c payload\<rparr>,
      df_payload = payload, df_consumed = 40 + length payload\<rparr>"

definition room_for :: "limits \<Rightarrow> nat \<Rightarrow> bool" where
  "room_for l n \<longleftrightarrow> n \<le> unat (max_frame_payload_bytes l) \<and> n < 2 ^ 32 \<and> 40 + n \<le> unat (max_allocation_bytes l)"

definition stream_idle :: "limits \<Rightarrow> frame_stream \<Rightarrow> bool" where
  "stream_idle l st \<longleftrightarrow> stream_content st = [] \<and> fs_limits st = l \<and> fs_consumed st \<le> length (fs_buffer st)"

text \<open>
  A connection inside one process: what the client sends, the session receives in one read and serves in
  the next turn; what the session sends waits until the client reads it. The state is the session, the
  shared part of the server and the frames on their way back.
\<close>

type_synonym 's link = "session \<times> 's shared \<times> bytes list"

definition link_send :: "(error_code \<Rightarrow> bytes) \<Rightarrow> bytes \<Rightarrow> 's link \<Rightarrow> status \<times> 's link" where
  "link_send details data p =
     (case p of (s, w, waiting) \<Rightarrow>
      (case serve_turn details \<lparr>io_send = ok_status, io_recv = Inr data\<rparr> s w of (_, s1, w1) \<Rightarrow>
       (case serve_turn details \<lparr>io_send = ok_status, io_recv = Inl NoWorkAvailable\<rparr> s1 w1 of (_, s2, w2) \<Rightarrow>
          (ok_status, s2, w2, waiting @ drop (length (ss_sent s)) (ss_sent s2)))))"

fun link_recv :: "'s link \<Rightarrow> bytes result \<times> 's link" where
  "link_recv (s, w, []) = (Inl NoWorkAvailable, s, w, [])"
| "link_recv (s, w, frame # waiting) = (Inr frame, s, w, waiting)"

definition link :: "(error_code \<Rightarrow> bytes) \<Rightarrow> 's link transport" where
  "link details = \<lparr>tr_send = link_send details, tr_recv = link_recv\<rparr>"

text \<open>A connected client and its session, both between two exchanges.\<close>

definition connected_to :: "limits \<Rightarrow> client \<Rightarrow> session \<Rightarrow> bool" where
  "connected_to l k s \<longleftrightarrow> cl_connected k \<and> cl_limits k = l \<and> ss_limits s = l \<and>
     stream_idle l (cl_stream k) \<and> stream_idle l (ss_stream s) \<and> ss_bound s \<and> ss_wire_id s = cl_session k \<and>
     ss_identity s = cn_identity (cl_options k) \<and>
     rg_highest (ss_guard s) + 1 = cl_next_sequence k \<and> rg_highest (cl_guard k) + 1 = cl_next_sequence k"

text \<open>The next exchange has a sequence number and \<open>l\<close> leaves room for a refusal with its text.\<close>

definition exchange_possible :: "limits \<Rightarrow> (error_code \<Rightarrow> bytes) \<Rightarrow> client \<Rightarrow> bool" where
  "exchange_possible l details k \<longleftrightarrow> cl_next_sequence k \<noteq> 0 \<and>
     max_frame_payload_bytes l \<le> max_message_payload_bytes l \<and> room_for l (64 + unat (max_string_bytes l)) \<and>
     (\<forall>e. is_valid_utf8 (take (unat (max_string_bytes l)) (details e)))"

text \<open>A reader that is given exactly \<open>xs\<close> and yields \<open>v\<close>.\<close>

definition finishes :: "limits \<Rightarrow> 'a reader \<Rightarrow> bytes \<Rightarrow> 'a \<Rightarrow> bool" where
  "finishes L m xs v \<longleftrightarrow>
     (\<forall>r. rd_limits r = L \<longrightarrow> rd_error r = Ok \<longrightarrow> rd_rest r = xs \<longrightarrow> rd_offset r \<le> length (rd_data r) \<longrightarrow> fst (run_state m r) = v)"

text \<open>
  What it means that a call made by the client over the link was the call made on the coordinator: the
  client has its result, the coordinator is in its state, and the connection is ready for the next call.
\<close>

definition answered ::
  "limits \<Rightarrow> client \<Rightarrow> ('a result \<times> client \<times> 's link) option \<Rightarrow> 'a result \<times> 's coordinator \<Rightarrow> bool" where
  "answered l k remote local \<longleftrightarrow>
     (\<exists>k' s' w'. remote = Some (fst local, k', s', w', []) \<and> sh_coordinator w' = snd local \<and>
        connected_to l k' s' \<and> cl_next_sequence k' = cl_next_sequence k + 1 \<and> cl_options k' = cl_options k)"

text \<open>An error the client knows.\<close>

definition known_outcome :: "'a result \<Rightarrow> bool" where
  "known_outcome outcome \<longleftrightarrow> (\<forall>e. outcome = Inl e \<longrightarrow> e \<noteq> Ok \<and> is_known_error_code (code_value e))"

text \<open>The frames of a connection served one after the other, every send succeeding; \<open>None\<close> once the session has ended.\<close>

fun serve_frames ::
  "(error_code \<Rightarrow> bytes) \<Rightarrow> decoded_frame list \<Rightarrow> session \<Rightarrow> 's shared \<Rightarrow> (session \<times> 's shared) option" where
  "serve_frames details [] s w = Some (s, w)"
| "serve_frames details (frame # frames) s w =
     (case serve_frame details ok_status frame s w of
        (Ended, _, _) \<Rightarrow> None
      | (Continue, s', w') \<Rightarrow> serve_frames details frames s' w')"

definition guard_wf :: "replay_guard \<Rightarrow> bool" where
  "guard_wf g \<longleftrightarrow> distinct (rg_recent g) \<and> rg_recent_set g = set (rg_recent g) \<and>
     (\<forall>x\<in>set (rg_recent g). x \<noteq> 0 \<and> x \<le> rg_highest g) \<and> rg_window g = kReplayWindow"

text \<open>\<open>x\<close> is among the last \<open>n + 1\<close> elements.\<close>

definition among_last :: "nat \<Rightarrow> 'a \<Rightarrow> 'a list \<Rightarrow> bool" where
  "among_last n x zs \<longleftrightarrow> (\<exists>xs ys. zs = xs @ x # ys \<and> length ys \<le> n)"

text \<open>The session would still recognise the sequence \<open>q\<close> and answer it with \<open>reply\<close>.\<close>

definition answer_kept :: "nat \<Rightarrow> u64 \<Rightarrow> bytes \<Rightarrow> (u64 \<times> bytes) list \<Rightarrow> bool" where
  "answer_kept n q reply answers \<longleftrightarrow> (\<exists>xs ys. answers = xs @ (q, reply) # ys \<and> q \<notin> fst ` set xs \<and> length ys \<le> n)"

definition answer_held :: "nat \<Rightarrow> u64 \<Rightarrow> bytes \<Rightarrow> session \<Rightarrow> bool" where
  "answer_held n q reply s \<longleftrightarrow> guard_wf (ss_guard s) \<and> among_last n q (rg_recent (ss_guard s)) \<and>
     answer_kept n q reply (ss_answers s)"

definition sample_options :: client_options where
  "sample_options = \<lparr>cn_limits = default_limits, cn_port = 7, cn_identity = \<lparr>si_kind = PK_Consumer, si_participant_id = 3,
     si_incarnation = 5, si_boot_nonce = 9\<rparr>, cn_connect_timeout_ms = 2000\<rparr>"

definition sample_shared :: "unit shared" where
  "sample_shared = \<lparr>sh_coordinator = mk_coordinator default_limits (Some volatile_sink), sh_next_wire = 1, sh_stats = mk_stats\<rparr>"

definition sample_request :: commit_request where
  "sample_request = \<lparr>rq_edge = EdgeKey 0 1 3, rq_attempt = 1, rq_wave = 1, rq_shuffle_generation = 1,
     rq_topology_generation = 1, rq_policy_generation = 1, rq_producer = 2, rq_producer_incarnation = 4, rq_consumer = 3,
     rq_consumer_incarnation = 5, rq_manifest_digest = zero_digest, rq_observed_partition_digest = zero_digest,
     rq_observed_chunk_digests = [], rq_bytes = 0, rq_integrity_verified = True\<rparr>"

definition sample_handshake :: decoded_frame where
  "sample_handshake = framed (request_header HandshakeRequest 0 1) (handshake_payload (cn_identity sample_options))"

definition sample_wave_request :: decoded_frame where
  "sample_wave_request = framed (request_header NextWaveRequest 1 2) []"

definition sample_server_options :: server_options where
  "sample_server_options = \<lparr>so_limits = default_limits, so_max_sessions = 4, so_worker_threads = 2, so_accept_backlog = 8\<rparr>"

section \<open>Lemmas: a frame across an idle connection\<close>

lemma framed_simps [simp]:
  "df_payload (framed h payload) = payload" "fh_type (df_header (framed h payload)) = fh_type h"
  "fh_session (df_header (framed h payload)) = fh_session h" "fh_sequence (df_header (framed h payload)) = fh_sequence h"
  "fh_flags (df_header (framed h payload)) = fh_flags h"
  by (simp_all add: framed_def)

lemma check_frame_plain:
  assumes "fh_version h = kProtocolVersion" "fh_flags h AND kFlagReservedMask = 0" "fh_payload_length h = 0" "fh_payload_crc32c h = 0"
  shows "check_frame h payload l = ok_status \<longleftrightarrow>
    is_known_message_type (fh_type h) \<and> fh_sequence h \<noteq> 0 \<and> room_for l (length payload)"
proof -
  have "(ucast (word_of_nat (length payload) :: u32) :: u64) \<le> max_frame_payload_bytes l \<longleftrightarrow> length payload \<le> unat (max_frame_payload_bytes l)"
    if "length payload < 2 ^ 32"
    using that by (simp add: word_le_nat_alt unat_of_length_u32)
  then show ?thesis using assms by (auto simp: check_frame_iff header_ok_def room_for_def)
qed

lemma plain_headers [simp]:
  "fh_version (request_header t sid q) = kProtocolVersion" "fh_version (reply_header t sid q) = kProtocolVersion"
  "fh_flags (request_header t sid q) = 0" "fh_flags (reply_header t sid q) = kFlagResponse"
  "fh_payload_length (request_header t sid q) = 0" "fh_payload_length (reply_header t sid q) = 0"
  "fh_payload_crc32c (request_header t sid q) = 0" "fh_payload_crc32c (reply_header t sid q) = 0"
  "fh_type (request_header t sid q) = t" "fh_type (reply_header t sid q) = t"
  "fh_session (request_header t sid q) = sid" "fh_session (reply_header t sid q) = sid"
  "fh_sequence (request_header t sid q) = q" "fh_sequence (reply_header t sid q) = q"
  by (simp_all add: request_header_def reply_header_def)

lemma check_request: "check_frame (request_header t sid q) payload l = ok_status \<longleftrightarrow>
    is_known_message_type t \<and> q \<noteq> 0 \<and> room_for l (length payload)"
  by (subst check_frame_plain) simp_all

lemma check_reply: "check_frame (reply_header t sid q) payload l = ok_status \<longleftrightarrow>
    is_known_message_type t \<and> q \<noteq> 0 \<and> room_for l (length payload)"
  by (subst check_frame_plain) (simp_all add: kFlagResponse_def kFlagReservedMask_def)

lemma encode_framed:
  assumes "check_frame h payload l = ok_status"
  shows "encode_frame h payload out l = (ok_status, frame_image (framed h payload))" "frame_ok l (framed h payload)"
proof -
  have len: "length payload < 2 ^ 32" using assms by (simp add: check_frame_iff)
  show "encode_frame h payload out l = (ok_status, frame_image (framed h payload))"
    using assms by (simp add: encode_frame_def frame_image_def framed_def frame_bytes_def)
  show "frame_ok l (framed h payload)"
    using assms len by (simp add: check_frame_iff frame_ok_def framed_def header_ok_def unat_of_length_u32)
qed

lemma capacity_holds_frame: "frame_ok l f \<Longrightarrow> fs_limits st = l \<Longrightarrow> 40 + length (df_payload f) \<le> stream_capacity st"
proof -
  assume f: "frame_ok l f" and l: "fs_limits st = l"
  have len: "length (df_payload f) \<le> unat (max_frame_payload_bytes l)" "length (df_payload f) < 2 ^ 32"
    using f unat32_bound [of "fh_payload_length (df_header f)"] by (auto simp: frame_ok_def header_ok_def word_le_nat_alt)
  show ?thesis
  proof (cases "checked_add (word_of_nat kFrameHeaderBytes) (max_frame_payload_bytes l)")
    case (Inl e)
    then show ?thesis using len l by (simp add: stream_capacity_def)
  next
    case (Inr whole)
    have "unat whole = 40 + unat (max_frame_payload_bytes l)"
      using checked_add_unat [OF Inr] by (simp add: kFrameHeaderBytes_def)
    then show ?thesis using len l Inr by (simp add: stream_capacity_def)
  qed
qed

lemma idle_next:
  assumes "stream_idle l st"
  shows "stream_next st = (Inl NoWorkAvailable, stream_compact st)" "stream_idle l (stream_compact st)"
proof -
  have "drop (fs_consumed (stream_compact st)) (fs_buffer (stream_compact st)) = []"
    using assms compact_content [of st] by (simp add: stream_idle_def stream_content_def)
  then show "stream_next st = (Inl NoWorkAvailable, stream_compact st)" by (simp add: stream_next_def Let_def)
  show "stream_idle l (stream_compact st)" using assms compact_consumed [of st] by (simp add: stream_idle_def)
qed

lemma idle_frame:
  assumes i: "stream_idle l st" and f: "frame_ok l f"
  obtains mid st' where "stream_feed (frame_image f) st = (ok_status, mid)" "stream_next mid = (Inr f, st')" "stream_idle l st'"
proof -
  have "buffered st + length (frame_image f) \<le> stream_capacity st"
    using capacity_holds_frame [OF f] i by (simp add: buffered_content stream_idle_def)
  then obtain mid where feed: "stream_feed (frame_image f) st = (ok_status, mid)"
    using feed_accepts [of st "frame_image f"] by (cases "stream_feed (frame_image f) st") simp
  have m: "stream_content mid = frame_image f" "fs_limits mid = l" "fs_consumed mid \<le> length (fs_buffer mid)"
    using feed_result [OF feed] i by (simp_all add: stream_idle_def)
  have d: "decode_frame_prefix (stream_content mid) (fs_limits mid) = Inr f"
    using f m by (auto simp: decode_frame_prefix_iff)
  obtain st' where n: "stream_next mid = (Inr f, st')" using next_frame(1) [OF d] by (cases "stream_next mid") simp
  have "stream_content st' = []" using next_frame(2) [OF d] n m f by (simp add: frame_ok_def)
  moreover have "fs_limits st' = l" "fs_consumed st' \<le> length (fs_buffer st')"
    using next_frame(3,4) [OF d] n m by simp_all
  ultimately show ?thesis using that feed n by (simp add: stream_idle_def)
qed

lemma guard_next:
  assumes "rg_highest g + 1 = q" "q \<noteq> 0"
  obtains g' where "guard_accept q g = (Inr True, g')" "rg_highest g' = q"
proof -
  have "unat (rg_highest g + 1) = unat (rg_highest g) + 1"
    using unatSuc [of "rg_highest g"] assms by (simp add: add.commute)
  then have less: "rg_highest g < q" using assms(1) by (simp add: word_less_nat_alt)
  moreover have "q - rg_highest g = 1" using assms(1) by (simp add: algebra_simps flip: assms(1))
  ultimately have "guard_accept q g = (Inr True, guard_remember q (g\<lparr>rg_highest := q\<rparr>))"
    using assms(2) by (auto simp: guard_accept_def kMaxForwardJump_def not_le)
  moreover have "rg_highest (guard_remember q (g\<lparr>rg_highest := q\<rparr>)) = q" by (simp add: guard_remember_def split: prod.split)
  ultimately show ?thesis using that by blast
qed

section \<open>Lemmas: one exchange\<close>

lemma serve_idle_turn:
  assumes "stream_idle l (ss_stream s)" "frame_ok l f"
  obtains mid st where
    "serve_turn d \<lparr>io_send = r, io_recv = Inr (frame_image f)\<rparr> s w = (Continue, s\<lparr>ss_stream := mid\<rparr>, w)"
    "serve_turn d io (s\<lparr>ss_stream := mid\<rparr>) w = serve_frame d (io_send io) f (s\<lparr>ss_stream := st\<rparr>) w"
    "stream_idle l st" "fst (stream_next mid) = Inr f"
proof -
  note n = idle_next [OF assms(1)]
  obtain mid st where m: "stream_feed (frame_image f) (stream_compact (ss_stream s)) = (ok_status, mid)"
    "stream_next mid = (Inr f, st)" "stream_idle l st"
    using idle_frame [OF n(2) assms(2)] .
  show ?thesis
    by (rule that [of mid st]) (use n m in \<open>simp_all add: serve_turn_def\<close>)
qed

lemma link_send_frame:
  assumes i: "stream_idle l (ss_stream s)" and f: "frame_ok l f"
    and served: "\<And>st. stream_idle l st \<Longrightarrow> serve_frame d ok_status f (s\<lparr>ss_stream := st\<rparr>) w = (t st, s' st, w')"
    and sent: "\<And>st. ss_sent (s' st) = ss_sent s @ [reply]"
  shows "\<exists>st. stream_idle l st \<and> tr_send (link d) (frame_image f) (s, w, []) = (ok_status, s' st, w', [reply])"
proof -
  obtain mid st where m:
    "serve_turn d \<lparr>io_send = ok_status, io_recv = Inr (frame_image f)\<rparr> s w = (Continue, s\<lparr>ss_stream := mid\<rparr>, w)"
    "serve_turn d \<lparr>io_send = ok_status, io_recv = Inl NoWorkAvailable\<rparr> (s\<lparr>ss_stream := mid\<rparr>) w =
       serve_frame d ok_status f (s\<lparr>ss_stream := st\<rparr>) w"
    "stream_idle l st" "fst (stream_next mid) = Inr f"
    using serve_idle_turn [OF i f, of d ok_status w "\<lparr>io_send = ok_status, io_recv = Inl NoWorkAvailable\<rparr>"] by auto
  then show ?thesis using served [OF m(3)] sent [of st] by (auto simp: link_def link_send_def)
qed

lemma receive_waiting:
  assumes i: "stream_idle l (cl_stream k)" and f: "frame_ok l f"
  obtains st where "receive_frame (link d) k (s, w, [frame_image f]) = Some (Inr f, k\<lparr>cl_stream := st\<rparr>, (s, w, []))" "stream_idle l st"
proof -
  note n = idle_next [OF i]
  obtain mid st where m: "stream_feed (frame_image f) (stream_compact (cl_stream k)) = (ok_status, mid)"
    "stream_next mid = (Inr f, st)" "stream_idle l st"
    using idle_frame [OF n(2) f] .
  have "receive_frame (link d) (k\<lparr>cl_stream := mid\<rparr>) (s, w, []) = Some (Inr f, k\<lparr>cl_stream := st\<rparr>, (s, w, []))"
    by (subst receive_frame.simps) (simp add: m)
  then have "receive_frame (link d) k (s, w, [frame_image f]) = Some (Inr f, k\<lparr>cl_stream := st\<rparr>, (s, w, []))"
    by (subst receive_frame.simps) (simp add: n m link_def)
  then show ?thesis using that m by blast
qed

lemma encode_reply_ok:
  assumes "check_frame (reply_header t wire q) answer l = ok_status"
  shows "encode_reply l d t answer wire q = Inr (frame_image (framed (reply_header t wire q) answer))"
  using encode_framed [OF assms] by (simp add: encode_reply_def)

text \<open>A new frame on a session: the handler runs once, its answer is remembered and sent.\<close>

lemma serve_new_frame:
  assumes g: "guard_accept (fh_sequence (df_header f)) (ss_guard s) = (Inr True, g)"
    and h: "handle d f (s\<lparr>ss_guard := g\<rparr>) (sh_next_wire w) (sh_coordinator w) = (h, s1, nw, c)"
    and e: "encode_reply (ss_limits s1) d (hd_type h) (hd_answer h) (ss_wire_id s1) (fh_sequence (df_header f)) = Inr reply"
    and ty: "fh_type (df_header f) \<noteq> CloseRequest"
  shows "serve_frame d ok_status f s w =
    (Continue, (remember_answer (fh_sequence (df_header f)) reply s1)\<lparr>ss_sent := ss_sent s1 @ [reply]\<rparr>,
     w\<lparr>sh_coordinator := c, sh_next_wire := nw, sh_stats := note_frame (hd_served h) (sh_stats w)\<rparr>)"
  using assms by (simp add: serve_frame_def finish_reply_def Let_def send_frame_def remember_answer_def)

lemma room_for_mono: "room_for l n \<Longrightarrow> m \<le> n \<Longrightarrow> room_for l m"
  by (auto simp: room_for_def)

lemma exchange_alloc: "exchange_possible l d k \<Longrightarrow> 32 \<le> max_allocation_bytes l"
  by (auto simp: exchange_possible_def room_for_def word_le_nat_alt)

lemma exchange:
  assumes c: "connected_to l k s" and possible: "exchange_possible l d k"
    and type: "is_known_message_type rt" "rt \<noteq> HandshakeRequest" "rt \<noteq> CloseRequest" and room: "room_for l (length payload)"
    and h: "handle_request l d (ss_identity s) rt payload (sh_coordinator w) = (h, c')"
    and reply: "room_for l (length (hd_answer h))" "is_known_message_type (hd_type h)" "hd_type h = pt \<or> hd_type h = ErrorResponse"
    and outcome: "read_reply l (hd_type h) (hd_answer h) = Inr outcome"
  shows "\<exists>k' s' w'. transact (link d) rt pt payload k (s, w, []) = Some (outcome, k', (s', w', [])) \<and>
    connected_to l k' s' \<and> sh_coordinator w' = c' \<and> cl_next_sequence k' = cl_next_sequence k + 1 \<and> cl_options k' = cl_options k"
proof -
  let ?q = "cl_next_sequence k"
  let ?f = "framed (request_header rt (cl_session k) ?q) payload"
  have q: "?q \<noteq> 0" using possible by (simp add: exchange_possible_def)
  have l: "cl_limits k = l" "ss_limits s = l" "cl_connected k" and wire: "ss_wire_id s = cl_session k" "ss_bound s"
    and idle: "stream_idle l (cl_stream k)" "stream_idle l (ss_stream s)"
    and guards: "rg_highest (ss_guard s) + 1 = ?q" "rg_highest (cl_guard k) + 1 = ?q"
    using c by (simp_all add: connected_to_def)
  have req: "check_frame (request_header rt (cl_session k) ?q) payload l = ok_status"
    using type room q by (simp add: check_request)
  obtain g where g: "guard_accept ?q (ss_guard s) = (Inr True, g)" "rg_highest g = ?q" using guard_next [OF guards(1) q] .
  obtain gk where gk: "guard_accept ?q (cl_guard k) = (Inr True, gk)" "rg_highest gk = ?q" using guard_next [OF guards(2) q] .
  have fits: "length payload \<le> unat (max_message_payload_bytes l)"
    using room possible by (auto simp: room_for_def exchange_possible_def word_le_nat_alt)
  have rep: "check_frame (reply_header (hd_type h) (cl_session k) ?q) (hd_answer h) l = ok_status"
    using reply q by (simp add: check_reply)
  let ?r = "framed (reply_header (hd_type h) (cl_session k) ?q) (hd_answer h)"
  let ?s = "\<lambda>st. (remember_answer ?q (frame_image ?r) (s\<lparr>ss_stream := st, ss_guard := g\<rparr>))\<lparr>ss_sent := ss_sent s @ [frame_image ?r]\<rparr>"
  let ?w = "w\<lparr>sh_coordinator := c', sh_next_wire := sh_next_wire w, sh_stats := note_frame (hd_served h) (sh_stats w)\<rparr>"
  have served: "serve_frame d ok_status ?f (s\<lparr>ss_stream := st\<rparr>) w = (Continue, ?s st, ?w)" for st
  proof -
    have "handle d ?f (s\<lparr>ss_stream := st, ss_guard := g\<rparr>) (sh_next_wire w) (sh_coordinator w) =
        (h, s\<lparr>ss_stream := st, ss_guard := g\<rparr>, sh_next_wire w, c')"
      using fits l wire type h by (simp add: handle_def Let_def not_less)
    from serve_new_frame [of ?f "s\<lparr>ss_stream := st\<rparr>" g d w, OF _ this] encode_reply_ok [OF rep]
    show ?thesis using g l wire type by simp
  qed
  have "\<exists>st. stream_idle l st \<and> tr_send (link d) (frame_image ?f) (s, w, []) = (ok_status, ?s st, ?w, [frame_image ?r])"
    by (rule link_send_frame [OF idle(2) encode_framed(2) [OF req] served]) simp
  then obtain st where st: "stream_idle l st" "tr_send (link d) (frame_image ?f) (s, w, []) = (ok_status, ?s st, ?w, [frame_image ?r])"
    by blast
  obtain stk where r: "receive_frame (link d) k (?s st, ?w, [frame_image ?r]) = Some (Inr ?r, k\<lparr>cl_stream := stk\<rparr>, (?s st, ?w, []))" "stream_idle l stk"
    using receive_waiting [OF idle(1) encode_framed(2) [OF rep]] .
  let ?k = "k\<lparr>cl_stream := stk, cl_guard := gk, cl_next_sequence := ?q + 1\<rparr>"
  have flag: "carries_response_flag (df_header ?r)" by (simp add: carries_response_flag_def kFlagResponse_def)
  have a: "accept_reply ?q pt ?r (k\<lparr>cl_stream := stk\<rparr>) = (outcome, ?k)"
    using flag gk reply(3) outcome l by (auto simp: accept_reply_def Let_def)
  have "transact (link d) rt pt payload k (s, w, []) = Some (outcome, ?k, (?s st, ?w, []))"
    using l encode_framed(1) [OF req] st r a by (simp add: transact_def Let_def)
  moreover have "connected_to l ?k (?s st)"
    using c st r g gk l by (simp add: connected_to_def remember_answer_def)
  ultimately show ?thesis by (intro exI [of _ ?k] exI [of _ "?s st"] exI [of _ ?w]) simp
qed

lemma run_envelope:
  assumes "envelope_admitted l l e"
  shows "run_state (read_envelope l) (mk_reader (envelope_bytes e @ rest) l) =
    (Inr e, rd_advance (length (envelope_bytes e)) (mk_reader (envelope_bytes e @ rest) l))"
  using envelope.complete [OF assms] unfolding parses_def by (simp add: mk_reader_def rd_rest_def)

lemma length_envelope: "length (envelope_bytes e) = 6 + length (snd e)"
  by (simp add: envelope_bytes_def put_string_def put_raw_def put_u16_le put_u32_le)

lemma ok_envelope_eq: "write_ok_envelope = envelope_bytes (Ok, [])"
  by (simp add: write_ok_envelope_def envelope_bytes_def)

lemma error_envelope_eq: "write_error_envelope l e detail = envelope_bytes (e, take (unat (max_string_bytes l)) detail)"
  by (simp add: write_error_envelope_def envelope_bytes_def)

lemma read_reply_body:
  assumes "4 \<le> max_allocation_bytes l" "type \<noteq> ErrorResponse"
  shows "read_reply l type (write_ok_envelope @ body) = Inr (Inr body)"
proof -
  have "envelope_admitted l l (Ok, [])"
    using assms by (simp add: envelope_admitted_def text_admitted_def is_known_error_code_def)
  from run_envelope [OF this, of body] show ?thesis
    using assms by (simp add: read_reply_def ok_envelope_eq length_envelope)
qed

lemma read_reply_refusal:
  assumes "envelope_admitted l l (e, take (unat (max_string_bytes l)) detail)" "e \<noteq> Ok"
  shows "read_reply l type (write_error_envelope l e detail) = Inr (Inl e)"
  using run_envelope [OF assms(1), of "[]"] assms(2)
  by (simp add: read_reply_def error_envelope_eq rd_require_end_def rd_advance_def mk_reader_def)

lemma refusal_admitted:
  assumes "exchange_possible l d k" "is_known_error_code (code_value e)"
  shows "envelope_admitted l l (e, take (unat (max_string_bytes l)) (d e))"
  using assms by (auto simp: envelope_admitted_def text_admitted_def exchange_possible_def room_for_def word_le_nat_alt)

text \<open>The client reads what \<open>respond\<close> wrote: the error code of a refusal or the body of a response.\<close>

lemma respond_read:
  assumes p: "exchange_possible l d k" and pt: "pt \<noteq> ErrorResponse" "is_known_message_type pt"
    and known: "\<And>e. outcome = Inl e \<Longrightarrow> e \<noteq> Ok \<and> is_known_error_code (code_value e)"
    and room: "\<And>v. outcome = Inr v \<Longrightarrow> room_for l (6 + length (body v))"
  shows "read_reply l (hd_type (respond l d pt body outcome)) (hd_answer (respond l d pt body outcome)) =
      Inr (case outcome of Inl e \<Rightarrow> Inl e | Inr v \<Rightarrow> Inr (body v))"
    "room_for l (length (hd_answer (respond l d pt body outcome)))"
    "is_known_message_type (hd_type (respond l d pt body outcome))"
    "hd_type (respond l d pt body outcome) = pt \<or> hd_type (respond l d pt body outcome) = ErrorResponse"
proof -
  have alloc: "4 \<le> max_allocation_bytes l" using exchange_alloc [OF p] by (simp add: word_le_nat_alt)
  have err: "is_known_message_type ErrorResponse" by (simp add: is_known_message_type_def kMessageTypes_def)
  have room_e: "room_for l (6 + length (take (unat (max_string_bytes l)) x))" for x :: bytes
    using p by (auto simp: exchange_possible_def intro: room_for_mono)
  show "read_reply l (hd_type (respond l d pt body outcome)) (hd_answer (respond l d pt body outcome)) =
      Inr (case outcome of Inl e \<Rightarrow> Inl e | Inr v \<Rightarrow> Inr (body v))"
    using read_reply_body [OF alloc pt(1)] read_reply_refusal refusal_admitted [OF p] known
    by (cases outcome) (auto simp: respond_def refuse_def)
  show "room_for l (length (hd_answer (respond l d pt body outcome)))"
    using room room_e by (cases outcome) (auto simp: respond_def refuse_def ok_envelope_eq error_envelope_eq length_envelope)
  show "is_known_message_type (hd_type (respond l d pt body outcome))"
    "hd_type (respond l d pt body outcome) = pt \<or> hd_type (respond l d pt body outcome) = ErrorResponse"
    using pt err by (cases outcome; simp add: respond_def refuse_def)+
qed

section \<open>Lemmas: readers at the end of their input\<close>

lemma finishes_bind:
  assumes "parses L m xs v" "finishes L (k v) ys w"
  shows "finishes L (m \<bind> k) (xs @ ys) w"
  unfolding finishes_def
proof (intro allI impI)
  fix r
  assume r: "rd_limits r = L" "rd_error r = Ok" "rd_rest r = xs @ ys" "rd_offset r \<le> length (rd_data r)"
  have "run_state m r = (v, rd_advance (length xs) r)" using assms(1) r unfolding parses_def by blast
  moreover have "length (rd_data r) - rd_offset r = length xs + length ys"
    using arg_cong [OF r(3), of length] by (simp add: rd_rest_def)
  then have "rd_offset (rd_advance (length xs) r) \<le> length (rd_data r)" using r(4) by (simp add: rd_advance_def)
  ultimately show "fst (run_state (m \<bind> k) r) = w"
    using assms(2) r by (simp add: run_state_bind finishes_def)
qed

lemma finishes_sub: "parses L m xs (Inr v) \<Longrightarrow> finishes L (k v) ys w \<Longrightarrow> finishes L (rd_sub m k) (xs @ ys) w"
  unfolding rd_sub_def by (rule finishes_bind) auto

lemma finishes_check: "finishes L k xs v \<Longrightarrow> finishes L (rd_check k) xs v"
  by (simp add: finishes_def rd_check_def rd_ok_def run_state_bind)

lemma finishes_end: "x = v \<Longrightarrow> finishes L (rd_finish (ret x)) [] v"
  by (auto simp: finishes_def rd_finish_def rd_require_end_def run_state_bind rd_rest_def)

lemma run_reader_finishes: "finishes l m data v \<Longrightarrow> run_reader m data l = v"
  by (simp add: finishes_def run_reader_def mk_reader_def rd_rest_def)

lemma run_reader_all: "run_reader (rd_sub m (\<lambda>v. rd_finish (ret (Inr v)))) data l = rd_all m data l"
  by (simp add: run_reader_def rd_all_def)

lemmas finishes_steps = finishes_bind [OF u8.complete] finishes_bind [OF u16.complete] finishes_bind [OF u32.complete]
  finishes_bind [OF u64.complete] finishes_bind [OF digest.complete] finishes_bind [OF boolean.complete]
  finishes_bind [OF utf8_string.complete] finishes_bind [OF byte_string.complete] finishes_sub [OF selection_msg.complete]

lemmas finishes_last = finishes_bind [OF u32.complete, where ys = "[]", simplified]
  finishes_bind [OF u64.complete, where ys = "[]", simplified] finishes_bind [OF boolean.complete, where ys = "[]", simplified]
  finishes_bind [OF u16.complete, where ys = "[]", simplified] finishes_bind [OF byte_string.complete, where ys = "[]", simplified]
  finishes_sub [OF selection_msg.complete, where ys = "[]", simplified]

section \<open>Lemmas: remote calls\<close>

lemma remote_round_trip:
  assumes c: "connected_to l k s" and p: "exchange_possible l d k"
    and type: "is_known_message_type rt" "rt \<noteq> HandshakeRequest" "rt \<noteq> CloseRequest" "is_known_message_type pt" "pt \<noteq> ErrorResponse"
    and room: "room_for l (length payload)"
    and h: "handle_request l d (ss_identity s) rt payload (sh_coordinator w) = (respond l d pt body outcome, c')"
    and known: "known_outcome outcome" and fits: "\<And>v. outcome = Inr v \<Longrightarrow> room_for l (6 + length (body v))"
    and read: "\<And>v. outcome = Inr v \<Longrightarrow> run_reader reader (body v) l = Inr v"
  shows "answered l k (round_trip (link d) rt pt reader payload k (s, w, [])) (outcome, c')"
proof -
  have known': "\<And>e. outcome = Inl e \<Longrightarrow> e \<noteq> Ok \<and> is_known_error_code (code_value e)"
    using known by (simp add: known_outcome_def)
  note a = respond_read [OF p type(5,4) known' fits]
  have l: "cl_limits k = l" using c by (simp add: connected_to_def)
  from exchange [OF c p type(1,2,3) room h a(2,3,4,1)] obtain k' s' w' where t:
    "transact (link d) rt pt payload k (s, w, []) = Some (case outcome of Inl e \<Rightarrow> Inl e | Inr v \<Rightarrow> Inr (body v), k', s', w', [])"
    "connected_to l k' s'" "sh_coordinator w' = c'" "cl_next_sequence k' = cl_next_sequence k + 1" "cl_options k' = cl_options k"
    by blast
  then show ?thesis using read l by (cases outcome) (simp_all add: round_trip_def answered_def)
qed

lemma message_types_known [simp]:
  "is_known_message_type CommitTransferRequest" "is_known_message_type CommitTransferResponse"
  "is_known_message_type NextWaveRequest" "is_known_message_type NextWaveResponse"
  "is_known_message_type RegisterParticipantRequest" "is_known_message_type RegisterParticipantResponse"
  "is_known_message_type PublishManifestRequest" "is_known_message_type PublishManifestResponse"
  "is_known_message_type StatusRequest" "is_known_message_type StatusResponse"
  "is_known_message_type HandshakeRequest" "is_known_message_type HandshakeResponse"
  by (simp_all add: is_known_message_type_def kMessageTypes_def)

lemma exchange_room: "exchange_possible l d k \<Longrightarrow> n \<le> 64 \<Longrightarrow> room_for l n"
  by (auto simp: exchange_possible_def intro: room_for_mono)

lemma alloc_32_all:
  "32 \<le> max_allocation_bytes L \<Longrightarrow> 8 \<le> max_allocation_bytes L \<and> 4 \<le> max_allocation_bytes L \<and>
    2 \<le> max_allocation_bytes L \<and> 1 \<le> max_allocation_bytes L"
  by (simp add: word_le_nat_alt)

lemma commit_outcome_read:
  assumes "32 \<le> max_allocation_bytes l" "digest_wf (rc_manifest_digest (oc_receipt v))"
  shows "run_reader read_commit_outcome (commit_outcome_body v) l = Inr v"
proof -
  have a: "8 \<le> max_allocation_bytes l" "1 \<le> max_allocation_bytes l" using alloc_32_all [OF assms(1)] by simp_all
  have d: "digest_wf (rc_manifest_digest (oc_receipt v)) \<and> 32 \<le> max_allocation_bytes l" using assms by simp
  show ?thesis
    unfolding read_commit_outcome_def commit_outcome_body_def Let_def
    by (rule run_reader_finishes, (rule finishes_bind [OF boolean.complete [OF a(2)]]
        finishes_bind [OF u64.complete [OF a(1)]] finishes_bind [OF digest.complete [OF d]]
        finishes_bind [OF boolean.complete [OF a(2)], where ys = "[]", simplified] finishes_check finishes_end)+) simp
qed

lemma commit_call_answered:
  assumes c: "connected_to l k s" and p: "exchange_possible l d k"
    and q: "request_msg_admitted l l q" "room_for l (length (write_commit_request_msg q))"
    and i: "commit_matches_identity (cn_identity (cl_options k)) q"
    and known: "known_outcome (fst (commit_transfer q (sh_coordinator w)))"
    and wf: "\<And>v. fst (commit_transfer q (sh_coordinator w)) = Inr v \<Longrightarrow> digest_wf (rc_manifest_digest (oc_receipt v))"
  shows "answered l k (client_commit_transfer (link d) q k (s, w, [])) (commit_transfer q (sh_coordinator w))"
proof -
  obtain outcome c' where o: "commit_transfer q (sh_coordinator w) = (outcome, c')" by (cases "commit_transfer q (sh_coordinator w)")
  have id: "ss_identity s = cn_identity (cl_options k)" using c by (simp add: connected_to_def)
  have h: "handle_request l d (ss_identity s) CommitTransferRequest (write_commit_request_msg q) (sh_coordinator w) =
      (respond l d CommitTransferResponse commit_outcome_body outcome, c')"
    using request_msg.decode_exact [of l "write_commit_request_msg q" l q] q i id o by (simp add: handle_request_def handle_commit_def)
  have "room_for l (6 + length (commit_outcome_body v))" if "outcome = Inr v" for v
    using exchange_room [OF p, of "6 + length (commit_outcome_body v)"] wf o that
    by (simp add: commit_outcome_body_def Let_def put_bool_def put_u8_def length_put_digest)
  then show ?thesis
    unfolding client_commit_transfer_def o
    using remote_round_trip [OF c p _ _ _ _ _ q(2) h, where reader = read_commit_outcome] known wf o
      commit_outcome_read [OF exchange_alloc [OF p]]
    by simp
qed

lemma wave_call_answered:
  assumes c: "connected_to l k s" and p: "exchange_possible l d k"
    and known: "known_outcome (fst (co_next_wave (sh_coordinator w)))"
    and fits: "\<And>plan. fst (co_next_wave (sh_coordinator w)) = Inr plan \<Longrightarrow>
      plan_admitted l l plan \<and> room_for l (6 + length (write_wave_plan plan l))"
  shows "answered l k (client_next_wave (link d) k (s, w, [])) (co_next_wave (sh_coordinator w))"
proof -
  obtain plan c' where o: "co_next_wave (sh_coordinator w) = (plan, c')" by (cases "co_next_wave (sh_coordinator w)")
  have l: "cl_limits k = l" using c by (simp add: connected_to_def)
  have "run_reader (rd_finish (ret (Inr ()))) [] l = Inr ()" by (rule run_reader_finishes [OF finishes_end]) simp
  then have h: "handle_request l d (ss_identity s) NextWaveRequest [] (sh_coordinator w) =
      (respond l d NextWaveResponse (\<lambda>plan. write_wave_plan plan l) plan, c')"
    using o by (simp add: handle_request_def handle_next_wave_def)
  show ?thesis
    unfolding client_next_wave_def o l
    by (rule remote_round_trip [OF c p _ _ _ _ _ _ h])
      (use known fits o exchange_room [OF p, of 0] in \<open>auto simp: run_reader_all wave_plan.decode_exact\<close>)
qed

lemma registration_outcome_read:
  assumes "8 \<le> max_allocation_bytes l"
  shows "run_reader read_registration_outcome (registration_body v) l = Inr v"
proof -
  have a: "1 \<le> max_allocation_bytes l" using alloc_8 [OF assms] by simp
  show ?thesis
    unfolding read_registration_outcome_def registration_body_def
    by (rule run_reader_finishes, (rule finishes_bind [OF u64.complete [OF assms]]
        finishes_bind [OF boolean.complete [OF a], where ys = "[]", simplified] finishes_check finishes_end)+) simp
qed

lemma registration_read:
  assumes "8 \<le> max_allocation_bytes l" "text_admitted (max_endpoint_bytes l) l endpoint" "selection_msg_admitted l l selection"
  shows "run_reader (read_registration l)
    (put_u8 raw @ put_u64 pid @ put_u64 incarnation @ put_string endpoint @ selection_msg_bytes selection) l =
    Inr (raw, pid, incarnation, endpoint, selection)"
proof -
  have a: "1 \<le> max_allocation_bytes l" using alloc_8 [OF assms(1)] by simp
  show ?thesis
    unfolding read_registration_def
    by (rule run_reader_finishes, (rule finishes_bind [OF u8.complete [OF a]] finishes_bind [OF u64.complete [OF assms(1)]]
        finishes_bind [OF utf8_string.complete [OF assms(2)]]
        finishes_sub [OF selection_msg.complete [OF assms(3)], where ys = "[]", simplified] finishes_end)+) simp
qed

lemma register_call_answered:
  assumes c: "connected_to l k s" and p: "exchange_possible l d k"
    and e: "text_admitted (max_endpoint_bytes l) l endpoint" "selection_msg_admitted l l selection"
    and room: "room_for l (29 + length endpoint + length (selection_msg_bytes selection))"
    and i: "cn_identity (cl_options k) = \<lparr>si_kind = kind, si_participant_id = pid, si_incarnation = incarnation, si_boot_nonce = nonce\<rparr>"
    and call: "local = (if kind = PK_Producer then co_register_producer pid incarnation endpoint (sh_coordinator w)
      else co_register_consumer pid incarnation endpoint selection (sh_coordinator w))"
    and known: "known_outcome (fst local)"
  shows "answered l k (client_register_participant (link d) kind pid incarnation endpoint selection k (s, w, [])) local"
proof -
  obtain outcome c' where o: "local = (outcome, c')" by (cases local)
  have l: "cl_limits k = l" and id: "ss_identity s = cn_identity (cl_options k)" using c by (simp_all add: connected_to_def)
  have a: "8 \<le> max_allocation_bytes l" using alloc_32_all [OF exchange_alloc [OF p]] by simp
  let ?payload = "put_u8 (participant_kind_value kind) @ put_u64 pid @ put_u64 incarnation @ put_string endpoint @ selection_msg_bytes selection"
  have h: "handle_request l d (ss_identity s) RegisterParticipantRequest ?payload (sh_coordinator w) =
      (respond l d RegisterParticipantResponse registration_body outcome, c')"
    using registration_read [OF a e] o call id i
    by (simp add: handle_request_def handle_register_def check_participant_identity_def)
  have w: "write_selection_msg selection l = Inr (selection_msg_bytes selection)"
    "write_text endpoint (max_endpoint_bytes l) = put_string endpoint"
    using e by (simp_all add: write_selection_msg_fits selection_msg_admitted_def write_text_fits text_admitted_def)
  have "length ?payload \<le> 29 + length endpoint + length (selection_msg_bytes selection)"
    by (simp add: put_u8_def put_string_def put_raw_def put_u32_le)
  then have fit: "room_for l (length ?payload)" using room room_for_mono by blast
  have body: "room_for l (6 + length (registration_body v))" for v
    by (rule exchange_room [OF p]) (simp add: registration_body_def put_bool_def put_u8_def)
  have "answered l k (round_trip (link d) RegisterParticipantRequest RegisterParticipantResponse read_registration_outcome
      ?payload k (s, w, [])) (outcome, c')"
    by (rule remote_round_trip [OF c p _ _ _ _ _ fit h]) (use known o body registration_outcome_read [OF a] in auto)
  then show ?thesis by (simp add: client_register_participant_def l w o)
qed

lemma status_call_answered:
  assumes c: "connected_to l k s" and p: "exchange_possible l d k" and room: "room_for l 300"
    and known: "known_outcome (co_status (sh_coordinator w))"
    and fits: "\<And>st. co_status (sh_coordinator w) = Inr st \<Longrightarrow> is_known_error_code (code_value (st_reason st))"
  shows "answered l k (client_status (link d) k (s, w, [])) (co_status (sh_coordinator w), sh_coordinator w)"
proof -
  have a: "8 \<le> max_allocation_bytes l" using alloc_32_all [OF exchange_alloc [OF p]] by simp
  have "run_reader (rd_finish (ret (Inr ()))) [] l = Inr ()" by (rule run_reader_finishes [OF finishes_end]) simp
  then have h: "handle_request l d (ss_identity s) StatusRequest [] (sh_coordinator w) =
      (respond l d StatusResponse write_status (co_status (sh_coordinator w)), sh_coordinator w)"
    by (simp add: handle_request_def handle_status_def)
  have "length (write_status st) = 3 + 8 * 7 + 12 + 3 + 160" for st
    by (simp add: write_status_def write_progress_snapshot_def put_u8_def put_bool_def put_u16_le put_u32_le)
  then have body: "room_for l (6 + length (write_status st))" for st using room by (auto intro: room_for_mono)
  show ?thesis
    unfolding client_status_def
    by (rule remote_round_trip [OF c p _ _ _ _ _ _ h])
      (use known fits a body exchange_room [OF p, of 0] in \<open>auto simp: run_reader_all status.decode_exact status_admitted_def\<close>)
qed

text \<open>Connecting: the handshake binds the identity and the session identifier on both sides.\<close>

lemma handshake_read:
  assumes "8 \<le> max_allocation_bytes l" "identity_valid i"
  shows "handshake_identity (handshake_payload i) l = Inr i"
proof -
  have a: "1 \<le> max_allocation_bytes l" using alloc_8 [OF assms(1)] by simp
  have "run_reader read_handshake (handshake_payload i) l =
      Inr (participant_kind_value (si_kind i), si_participant_id i, si_incarnation i, si_boot_nonce i)"
    unfolding read_handshake_def handshake_payload_def
    by (rule run_reader_finishes, (rule finishes_bind [OF u8.complete [OF a]] finishes_bind [OF u64.complete [OF assms(1)]]
        finishes_bind [OF u64.complete [OF assms(1)], where ys = "[]", simplified] finishes_end)+) simp
  then show ?thesis using assms(2) by (simp add: handshake_identity_def Let_def identity_valid_def)
qed

lemma handshake_reply_read:
  assumes "4 \<le> max_allocation_bytes l"
  shows "run_reader (read_handshake_reply l HandshakeResponse) write_ok_envelope l = Inr ()"
proof -
  have "envelope_admitted l l (Ok, [])"
    using assms by (simp add: envelope_admitted_def text_admitted_def is_known_error_code_def)
  from envelope.complete [OF this] show ?thesis
    unfolding read_handshake_reply_def ok_envelope_eq
    by (intro run_reader_finishes finishes_sub [where ys = "[]", simplified]) (auto intro: finishes_end)
qed

lemma mk_session_fields [simp]:
  "ss_limits (mk_session key l) = l" "ss_bound (mk_session key l) = False" "ss_guard (mk_session key l) = mk_guard kReplayWindow"
  "ss_stream (mk_session key l) = mk_stream l" "ss_sent (mk_session key l) = []"
  by (simp_all add: mk_session_def)

lemma mk_stream_idle: "stream_idle l (mk_stream l)"
  by (simp add: stream_idle_def mk_stream_def stream_content_def)

lemma mk_guard_first: "rg_highest (mk_guard window) + 1 = 1"
  by (simp add: mk_guard_def)

lemma serve_handshake:
  assumes i: "identity_valid i" and l: "max_frame_payload_bytes l \<le> max_message_payload_bytes l" "room_for l (64 + unat (max_string_bytes l))"
    and f: "f = framed (request_header HandshakeRequest 0 1) (handshake_payload i)"
    and r: "r = framed (reply_header HandshakeResponse (sh_next_wire w) 1) write_ok_envelope"
  obtains g where "rg_highest g = 1"
    "\<And>st. serve_frame d ok_status f ((mk_session key l)\<lparr>ss_stream := st\<rparr>) w =
      (Continue, (remember_answer 1 (frame_image r) ((mk_session key l)\<lparr>ss_stream := st, ss_guard := g, ss_identity := i,
         ss_wire_id := sh_next_wire w, ss_bound := True\<rparr>))\<lparr>ss_sent := [frame_image r]\<rparr>,
       w\<lparr>sh_next_wire := sh_next_wire w + 1, sh_stats := note_frame True (sh_stats w)\<rparr>)"
proof -
  have a: "8 \<le> max_allocation_bytes l" using l by (auto simp: room_for_def word_le_nat_alt)
  have len: "length (handshake_payload i) = 25" by (simp add: handshake_payload_def put_u8_def)
  obtain g where g: "guard_accept 1 (mk_guard kReplayWindow) = (Inr True, g)" "rg_highest g = 1"
    using guard_next [OF mk_guard_first] by auto
  have fits: "\<not> length (handshake_payload i) > unat (max_message_payload_bytes l)"
    using l by (auto simp: room_for_def word_le_nat_alt len)
  have rep: "check_frame (reply_header HandshakeResponse (sh_next_wire w) 1) write_ok_envelope l = ok_status"
    unfolding check_reply using l by (auto simp: ok_envelope_eq length_envelope intro: room_for_mono)
  have "serve_frame d ok_status f ((mk_session key l)\<lparr>ss_stream := st\<rparr>) w =
      (Continue, (remember_answer 1 (frame_image r) ((mk_session key l)\<lparr>ss_stream := st, ss_guard := g, ss_identity := i,
         ss_wire_id := sh_next_wire w, ss_bound := True\<rparr>))\<lparr>ss_sent := [frame_image r]\<rparr>,
       w\<lparr>sh_next_wire := sh_next_wire w + 1, sh_stats := note_frame True (sh_stats w)\<rparr>)" for st
  proof -
    have h: "handle d f ((mk_session key l)\<lparr>ss_stream := st, ss_guard := g\<rparr>) (sh_next_wire w) (sh_coordinator w) =
        (\<lparr>hd_type = HandshakeResponse, hd_answer = write_ok_envelope, hd_served = True\<rparr>,
         (mk_session key l)\<lparr>ss_stream := st, ss_guard := g, ss_identity := i, ss_wire_id := sh_next_wire w, ss_bound := True\<rparr>,
         sh_next_wire w + 1, sh_coordinator w)"
      using fits handshake_read [OF a i] by (simp add: f handle_def handle_handshake_def Let_def)
    from serve_new_frame [of f "(mk_session key l)\<lparr>ss_stream := st\<rparr>" g d w, OF _ this] encode_reply_ok [OF rep]
    show ?thesis using g by (simp add: f r)
  qed
  then show ?thesis using that g(2) by blast
qed

lemma connect_binds:
  assumes o: "limits_validate (cn_limits options) = ok_status" "identity_valid (cn_identity options)" "cn_port options \<noteq> 0"
      "cn_connect_timeout_ms options \<le> kMaxWaitMs"
    and l: "cn_limits options = l" "max_frame_payload_bytes l \<le> max_message_payload_bytes l" "room_for l (64 + unat (max_string_bytes l))"
    and nw: "sh_next_wire w \<noteq> 0"
  shows "\<exists>k s w'. client_connect (link d) ok_status options mk_client (mk_session key l, w, []) = Some (ok_status, k, s, w', []) \<and>
    connected_to l k s \<and> cl_session k = sh_next_wire w \<and> cl_options k = options \<and> cl_next_sequence k = 2 \<and>
    sh_coordinator w' = sh_coordinator w \<and> sh_next_wire w' = sh_next_wire w + 1"
proof -
  let ?i = "cn_identity options"
  let ?f = "framed (request_header HandshakeRequest 0 1) (handshake_payload ?i)"
  let ?r = "framed (reply_header HandshakeResponse (sh_next_wire w) 1) write_ok_envelope"
  let ?k = "mk_client\<lparr>cl_open := True, cl_options := options, cl_stream := mk_stream l, cl_session := 0,
    cl_next_sequence := 1, cl_guard := mk_guard kReplayWindow\<rparr>"
  obtain g where g: "rg_highest g = 1" and served: "\<And>st. serve_frame d ok_status ?f ((mk_session key l)\<lparr>ss_stream := st\<rparr>) w =
      (Continue, (remember_answer 1 (frame_image ?r) ((mk_session key l)\<lparr>ss_stream := st, ss_guard := g, ss_identity := ?i,
         ss_wire_id := sh_next_wire w, ss_bound := True\<rparr>))\<lparr>ss_sent := [frame_image ?r]\<rparr>,
       w\<lparr>sh_next_wire := sh_next_wire w + 1, sh_stats := note_frame True (sh_stats w)\<rparr>)"
    using serve_handshake [OF o(2) l(2,3) refl refl] by metis
  let ?s = "\<lambda>st. (remember_answer 1 (frame_image ?r) ((mk_session key l)\<lparr>ss_stream := st, ss_guard := g, ss_identity := ?i,
         ss_wire_id := sh_next_wire w, ss_bound := True\<rparr>))\<lparr>ss_sent := [frame_image ?r]\<rparr>"
  let ?w = "w\<lparr>sh_next_wire := sh_next_wire w + 1, sh_stats := note_frame True (sh_stats w)\<rparr>"
  have req: "check_frame (request_header HandshakeRequest 0 1) (handshake_payload ?i) l = ok_status"
    unfolding check_request using l by (auto simp: handshake_payload_def put_u8_def intro: room_for_mono)
  have rep: "check_frame (reply_header HandshakeResponse (sh_next_wire w) 1) write_ok_envelope l = ok_status"
    unfolding check_reply using l by (auto simp: ok_envelope_eq length_envelope intro: room_for_mono)
  have "\<exists>st. stream_idle l st \<and> tr_send (link d) (frame_image ?f) (mk_session key l, w, []) = (ok_status, ?s st, ?w, [frame_image ?r])"
    by (rule link_send_frame [OF _ encode_framed(2) [OF req] served]) (simp_all add: mk_stream_idle)
  then obtain st where st: "stream_idle l st"
    "tr_send (link d) (frame_image ?f) (mk_session key l, w, []) = (ok_status, ?s st, ?w, [frame_image ?r])" by blast
  have idle: "stream_idle l (cl_stream ?k)" by (simp add: mk_stream_idle)
  obtain stk where r: "receive_frame (link d) ?k (?s st, ?w, [frame_image ?r]) = Some (Inr ?r, ?k\<lparr>cl_stream := stk\<rparr>, (?s st, ?w, []))" "stream_idle l stk"
    using receive_waiting [OF idle encode_framed(2) [OF rep]] .
  obtain gk where gk: "guard_accept 1 (mk_guard kReplayWindow) = (Inr True, gk)" "rg_highest gk = 1"
    using guard_next [OF mk_guard_first] by auto
  have a: "4 \<le> max_allocation_bytes l" using l by (auto simp: room_for_def word_le_nat_alt)
  let ?k2 = "?k\<lparr>cl_stream := stk, cl_guard := gk, cl_session := sh_next_wire w, cl_next_sequence := 1 + 1\<rparr>"
  have acc: "accept_handshake ?r (?k\<lparr>cl_stream := stk\<rparr>) = (ok_status, ?k2)"
    using gk nw handshake_reply_read [OF a] l by (simp add: accept_handshake_def Let_def carries_response_flag_def kFlagResponse_def)
  have hs: "handshake (link d) (handshake_payload ?i) ?k (mk_session key l, w, []) = Some (ok_status, ?k2, ?s st, ?w, [])"
    using encode_framed(1) [OF req] st r acc l by (simp add: handshake_def)
  have chk: "check_connect options mk_client = ok_status"
    using o by (auto simp: check_connect_def mk_client_def not_less)
  have "client_connect (link d) ok_status options mk_client (mk_session key l, w, []) = Some (ok_status, ?k2\<lparr>cl_connected := True\<rparr>, ?s st, ?w, [])"
    using chk hs l by (simp add: client_connect_def Let_def)
  moreover have "connected_to l (?k2\<lparr>cl_connected := True\<rparr>) (?s st)"
    using st r g gk l by (simp add: connected_to_def remember_answer_def)
  ultimately show ?thesis by (intro exI conjI) (assumption | simp)+
qed

section \<open>Lemmas: retransmission\<close>

lemma among_last_in: "among_last n x zs \<Longrightarrow> x \<in> set zs"
  by (auto simp: among_last_def)

lemma among_last_snoc: "among_last n x zs \<Longrightarrow> among_last (Suc n) x (zs @ [y])"
  unfolding among_last_def by (metis Suc_le_mono append_Cons append_assoc length_append_singleton)

lemma among_last_Suc: "among_last n x zs \<Longrightarrow> among_last (Suc n) x zs"
  by (auto simp: among_last_def intro: le_SucI)

lemma among_last_drop:
  assumes "among_last n x zs" "n < w"
  shows "among_last n x (drop (length zs - w) zs)"
proof -
  obtain xs ys where z: "zs = xs @ x # ys" "length ys \<le> n" using assms(1) by (auto simp: among_last_def)
  then have "length zs - w \<le> length xs" using assms(2) by simp
  then have "drop (length zs - w) zs = drop (length zs - w) xs @ x # ys" using z by simp
  then show ?thesis using z(2) by (auto simp: among_last_def)
qed

lemma accept_recent:
  assumes wf: "guard_wf g" and a: "guard_accept x g = (r, g')"
  shows "guard_wf g'" "if r = Inr True then rg_recent g' = drop (length (rg_recent g @ [x]) - 1024) (rg_recent g @ [x]) else g' = g"
proof -
  have step: "guard_wf (guard_remember x (g\<lparr>rg_highest := h\<rparr>)) \<and>
      rg_recent (guard_remember x (g\<lparr>rg_highest := h\<rparr>)) = drop (length (rg_recent g @ [x]) - 1024) (rg_recent g @ [x])"
    if new: "x \<notin> set (rg_recent g)" "x \<noteq> 0" "x \<le> h" "rg_highest g \<le> h" for h
  proof -
    let ?zs = "rg_recent g @ [x]"
    have d: "distinct ?zs" "set ?zs = insert x (rg_recent_set g)" using wf new by (auto simp: guard_wf_def)
    have "evict 1024 ?zs (insert x (rg_recent_set g)) = (drop (length ?zs - 1024) ?zs, set (drop (length ?zs - 1024) ?zs))"
      using evict_distinct [OF d(1), of 1024] d(2) by simp
    moreover have "unat (rg_window g) = 1024" using wf by (simp add: guard_wf_def kReplayWindow_def)
    ultimately have e: "guard_remember x (g\<lparr>rg_highest := h\<rparr>) =
        g\<lparr>rg_highest := h, rg_recent := drop (length ?zs - 1024) ?zs, rg_recent_set := set (drop (length ?zs - 1024) ?zs)\<rparr>"
      by (simp add: guard_remember_def)
    have "y \<noteq> 0 \<and> y \<le> h" if "y \<in> set (drop (length ?zs - 1024) ?zs)" for y
      using in_set_dropD [OF that] wf new by (auto simp: guard_wf_def)
    then show ?thesis using wf d(1) unfolding e by (simp add: guard_wf_def distinct_drop del: drop_append)
  qed
  have "guard_wf g' \<and> (if r = Inr True then rg_recent g' = drop (length (rg_recent g @ [x]) - 1024) (rg_recent g @ [x]) else g' = g)"
    using a
  proof (cases rule: guard_accept_cases)
    case new
    have "x \<notin> set (rg_recent g)" using wf new(1,2) by (auto simp: guard_wf_def)
    then show ?thesis using step [of x] new by auto
  next
    case late
    then have "x \<notin> set (rg_recent g)" "x \<le> rg_highest g" using wf by (auto simp: guard_wf_def)
    from step [OF this(1) late(1) this(2)] show ?thesis using late by simp
  next
    case refused
    then show ?thesis using wf by simp
  qed
  then show "guard_wf g'" "if r = Inr True then rg_recent g' = drop (length (rg_recent g @ [x]) - 1024) (rg_recent g @ [x]) else g' = g"
    by simp_all
qed

lemma known_sequence:
  assumes "guard_wf g" "q \<in> set (rg_recent g)"
  shows "guard_accept q g = (Inr False, g)"
  using assms by (auto simp: guard_accept_def guard_wf_def)

lemma remembered:
  assumes "answer_kept n q reply (ss_answers s)" "Suc n < 32"
  shows "answer_kept (Suc n) q reply (ss_answers (remember_answer x frame s))"
proof -
  obtain xs ys where a: "ss_answers s = xs @ (q, reply) # ys" "q \<notin> fst ` set xs" "length ys \<le> n"
    using assms(1) by (auto simp: answer_kept_def)
  let ?n = "length (ss_answers s @ [(x, frame)]) - 32"
  have "?n \<le> length xs" using a assms(2) by simp
  then have "ss_answers (remember_answer x frame s) = drop ?n xs @ (q, reply) # (ys @ [(x, frame)])"
    using a by (simp add: remember_answer_def trim_answers_eq kAnswerCacheEntries_def)
  moreover have "q \<notin> fst ` set (drop ?n xs)" using a(2) set_drop_subset [of ?n xs] by blast
  ultimately show ?thesis using a(3) unfolding answer_kept_def by (metis Suc_le_mono length_append_singleton)
qed

lemma kept_Suc: "answer_kept n q reply answers \<Longrightarrow> answer_kept (Suc n) q reply answers"
  by (auto simp: answer_kept_def intro: le_SucI)

lemma kept_cached: "answer_kept n q reply (ss_answers s) \<Longrightarrow> cached_answer q s = Some reply"
  by (auto simp: answer_kept_def cached_answer_def map_add_def map_of_eq_None_iff [THEN iffD2])

lemma remembered_new:
  assumes "cached_answer q s = None"
  shows "answer_kept 0 q reply (ss_answers (remember_answer q reply s))"
proof -
  let ?n = "length (ss_answers s @ [(q, reply)]) - 32"
  have "?n \<le> length (ss_answers s)" by simp
  then have "ss_answers (remember_answer q reply s) = drop ?n (ss_answers s) @ [(q, reply)]"
    by (simp add: remember_answer_def trim_answers_eq kAnswerCacheEntries_def)
  moreover have "q \<notin> fst ` set (drop ?n (ss_answers s))"
    using assms set_drop_subset [of ?n "ss_answers s"] by (auto simp: cached_answer_def map_of_eq_None_iff)
  ultimately show ?thesis by (auto simp: answer_kept_def)
qed

text \<open>What serving any one frame leaves of the guard and the answers of a session.\<close>

lemma finish_continues:
  assumes "finish_reply d ok_status frame type answer s = (Continue, s')"
  obtains reply where "s' = (remember_answer (fh_sequence (df_header frame)) reply s)\<lparr>ss_sent := ss_sent s @ [reply]\<rparr>"
  using assms by (auto simp: finish_reply_def Let_def send_frame_def remember_answer_def split: sum.splits if_splits)

lemma serve_continues:
  assumes "serve_frame d ok_status frame s w = (Continue, s', w')"
  obtains r g where "guard_accept (fh_sequence (df_header frame)) (ss_guard s) = (r, g)" "ss_guard s' = g"
    "(\<exists>reply. ss_answers s' = ss_answers (remember_answer (fh_sequence (df_header frame)) reply s) \<and> ss_sent s' = ss_sent s @ [reply]) \<or>
     r \<noteq> Inr True \<and> ss_answers s' = ss_answers s"
proof -
  let ?q = "fh_sequence (df_header frame)"
  obtain r g where g: "guard_accept ?q (ss_guard s) = (r, g)" by fastforce
  have kept: "ss_answers (remember_answer ?q reply (s\<lparr>ss_guard := g\<rparr>)) = ss_answers (remember_answer ?q reply s)" for reply
    by (simp add: remember_answer_def)
  consider (bad) e where "r = Inl e" | (dup) "r = Inr False" | (new) "r = Inr True" by (cases r) auto
  then show thesis
  proof cases
    case bad
    then show ?thesis using assms g
      by (auto simp: serve_frame_def Let_def remember_answer_def split: prod.splits elim!: finish_continues intro!: that [OF g])
  next
    case dup
    then show ?thesis using assms g
      by (auto simp: serve_frame_def Let_def send_frame_def remember_answer_def split: prod.splits option.splits
          elim!: finish_continues intro!: that [OF g])
  next
    case new
    obtain h s1 nw c where h: "handle d frame (s\<lparr>ss_guard := g\<rparr>) (sh_next_wire w) (sh_coordinator w) = (h, s1, nw, c)"
      by (metis prod_cases4)
    have s1: "ss_guard s1 = g" "ss_answers s1 = ss_answers s" "ss_sent s1 = ss_sent s" using handle_session [OF h] by auto
    then show ?thesis using assms g new h
      by (auto simp: serve_frame_def Let_def remember_answer_def split: prod.splits elim!: finish_continues intro!: that [OF g])
  qed
qed

lemma held_step:
  assumes h: "answer_held n q reply s" and n: "Suc n < 32" and f: "serve_frame d ok_status frame s w = (Continue, s', w')"
  shows "answer_held (Suc n) q reply s'"
  using f
proof (rule serve_continues)
  fix r g
  assume a: "guard_accept (fh_sequence (df_header frame)) (ss_guard s) = (r, g)" and g: "ss_guard s' = g"
    and answers: "(\<exists>reply. ss_answers s' = ss_answers (remember_answer (fh_sequence (df_header frame)) reply s) \<and> ss_sent s' = ss_sent s @ [reply]) \<or>
     r \<noteq> Inr True \<and> ss_answers s' = ss_answers s"
  note g' = accept_recent [OF _ a]
  have "among_last (Suc n) q (rg_recent g)"
    using g' h n among_last_drop [OF among_last_snoc, of n q "rg_recent (ss_guard s)" 1024 "fh_sequence (df_header frame)"]
    by (cases "r = Inr True") (auto simp: answer_held_def among_last_Suc)
  moreover have "answer_kept (Suc n) q reply (ss_answers s')"
    using answers h n by (auto simp: answer_held_def remembered kept_Suc)
  ultimately show ?thesis using g g' h by (auto simp: answer_held_def)
qed

lemma held_run:
  assumes "answer_held n q reply s" "n + length frames < 32" "serve_frames d frames s w = Some (s', w')"
  shows "answer_held (n + length frames) q reply s'"
  using assms
proof (induction frames arbitrary: n s w)
  case (Cons frame frames)
  obtain s1 w1 where f: "serve_frame d ok_status frame s w = (Continue, s1, w1)" "serve_frames d frames s1 w1 = Some (s', w')"
    using Cons.prems(3) by (auto split: prod.splits turn.splits)
  show ?case using Cons.IH [OF held_step [OF Cons.prems(1) _ f(1)] _ f(2)] Cons.prems(2) by simp
qed simp

lemma held_first:
  assumes wf: "guard_wf (ss_guard s)" and c: "cached_answer (fh_sequence (df_header frame)) s = None"
    and a: "fst (guard_accept (fh_sequence (df_header frame)) (ss_guard s)) = Inr True"
    and f: "serve_frame d ok_status frame s w = (Continue, s', w')"
  obtains reply where "ss_sent s' = ss_sent s @ [reply]" "answer_held 0 (fh_sequence (df_header frame)) reply s'"
  using f
proof (rule serve_continues)
  fix r g
  assume g: "guard_accept (fh_sequence (df_header frame)) (ss_guard s) = (r, g)" "ss_guard s' = g"
    and answers: "(\<exists>reply. ss_answers s' = ss_answers (remember_answer (fh_sequence (df_header frame)) reply s) \<and> ss_sent s' = ss_sent s @ [reply]) \<or>
     r \<noteq> Inr True \<and> ss_answers s' = ss_answers s"
  have r: "r = Inr True" using a g by simp
  note g' = accept_recent [OF wf g(1)]
  have "among_last 0 (fh_sequence (df_header frame)) (rg_recent g)"
    using g'(2) r by (auto simp: among_last_def)
  then show thesis using answers r g g' that remembered_new [OF c] by (auto simp: answer_held_def)
qed

lemma held_answers:
  assumes "answer_held n (fh_sequence (df_header frame)) reply s"
  shows "serve_frame d ok_status frame s w =
    (Continue, s\<lparr>ss_sent := ss_sent s @ [reply]\<rparr>, w\<lparr>sh_stats := note_duplicate True (sh_stats w)\<rparr>)"
proof -
  have "guard_accept (fh_sequence (df_header frame)) (ss_guard s) = (Inr False, ss_guard s)"
    using assms by (auto simp: answer_held_def intro: known_sequence among_last_in)
  moreover have "cached_answer (fh_sequence (df_header frame)) s = Some reply"
    using assms kept_cached by (auto simp: answer_held_def)
  ultimately show ?thesis by (simp add: serve_frame_def Let_def send_frame_def)
qed

lemma run_guard_wf:
  assumes "guard_wf (ss_guard s)" "serve_frames d frames s w = Some (s', w')"
  shows "guard_wf (ss_guard s')"
  using assms
proof (induction frames arbitrary: s w)
  case (Cons frame frames)
  obtain s1 w1 where f: "serve_frame d ok_status frame s w = (Continue, s1, w1)" "serve_frames d frames s1 w1 = Some (s', w')"
    using Cons.prems(2) by (auto split: prod.splits turn.splits)
  have "guard_wf (ss_guard s1)" using f(1) accept_recent(1) [OF Cons.prems(1)] by (auto elim: serve_continues)
  then show ?case using Cons.IH f(2) by blast
qed simp

lemma mk_guard_wf: "guard_wf (mk_guard kReplayWindow)"
  by (simp add: guard_wf_def mk_guard_def kReplayWindow_def kMaxReplayWindow_def)

section \<open>Lemmas: sample connection\<close>

lemma sample_limits:
  "limits_validate default_limits = ok_status" "max_frame_payload_bytes default_limits \<le> max_message_payload_bytes default_limits"
  "room_for default_limits (64 + unat (max_string_bytes default_limits))"
  by (simp_all add: limits_validate_def default_limits_def room_for_def)

lemma sample_connected:
  obtains k s w where "client_connect (link (\<lambda>_. [])) ok_status sample_options mk_client (mk_session 1 default_limits, sample_shared, []) =
      Some (ok_status, k, s, w, [])"
    "connected_to default_limits k s" "exchange_possible default_limits (\<lambda>_. []) k" "cl_options k = sample_options"
    "sh_coordinator w = mk_coordinator default_limits (Some volatile_sink)"
proof -
  have o: "limits_validate (cn_limits sample_options) = ok_status" "identity_valid (cn_identity sample_options)"
    "cn_port sample_options \<noteq> 0" "cn_connect_timeout_ms sample_options \<le> kMaxWaitMs" "cn_limits sample_options = default_limits"
    by (simp_all add: sample_options_def sample_limits identity_valid_def kMaxWaitMs_def)
  from connect_binds [OF o sample_limits(2,3), of sample_shared "\<lambda>_. []" 1] show ?thesis
    using that sample_limits by (auto simp: sample_shared_def exchange_possible_def)
qed

lemma closed_commit: "fst (commit_transfer q (mk_coordinator l sink)) = Inl StaleAttempt"
  by (simp add: commit_transfer_def guarded_def check_transfer_def ensure_open_def mk_coordinator_def)

lemma sample_session:
  "\<exists>k s (w :: unit shared). connected_to default_limits k s \<and> exchange_possible default_limits (\<lambda>_. []) k \<and> cl_options k = sample_options \<and>
     sh_coordinator w = mk_coordinator default_limits (Some volatile_sink)"
  by (rule sample_connected) blast

section \<open>Lemmas: a sample run of the server\<close>

lemma sample_frames_ok: "frame_ok default_limits sample_handshake" "frame_ok default_limits sample_wave_request"
  unfolding sample_handshake_def sample_wave_request_def
  by (rule encode_framed(2); subst check_request; rule conjI [OF _ conjI [OF _ room_for_mono [OF sample_limits(3)]]];
      simp add: handshake_payload_def put_u8_def)+

lemma run_frame:
  assumes run: "server_run n sv0 calls sv" "sv_running sv" "sv_sessions sv = [(key, s)]" "sv_pending sv = []"
    and s: "stream_idle l (ss_stream s)" and f: "frame_ok l f"
  obtains st where "stream_idle l st"
    "\<exists>sv'. server_run (Suc (Suc n)) sv0
      (calls @ (if fst (guard_accept (fh_sequence (df_header f)) (ss_guard s)) = Inr True
         then case frame_call s f of None \<Rightarrow> [] | Some made \<Rightarrow> [made] else [])) sv' \<and>
      (case serve_frame d ok_status f (s\<lparr>ss_stream := st\<rparr>) \<lparr>sh_coordinator = sv_coordinator sv, sh_next_wire = sv_next_wire_session sv,
            sh_stats = sv_stats sv\<rparr> of
         (t, s', w) \<Rightarrow> t = Continue \<longrightarrow> sv_sessions sv' = [(key, s')] \<and> sv_running sv' \<and> sv_pending sv' = [] \<and>
           sv_coordinator sv' = sh_coordinator w \<and> sv_next_wire_session sv' = sh_next_wire w)"
proof -
  let ?io = "\<lparr>io_send = ok_status, io_recv = Inr (frame_image f)\<rparr>"
  let ?w = "\<lparr>sh_coordinator = sv_coordinator sv, sh_next_wire = sv_next_wire_session sv, sh_stats = sv_stats sv\<rparr>"
  obtain mid st where m: "serve_turn d ?io s ?w = (Continue, s\<lparr>ss_stream := mid\<rparr>, ?w)"
    "serve_turn d ?io (s\<lparr>ss_stream := mid\<rparr>) ?w = serve_frame d ok_status f (s\<lparr>ss_stream := st\<rparr>) ?w"
    "stream_idle l st" "fst (stream_next mid) = Inr f"
    using serve_idle_turn [OF s f, of d ok_status ?w ?io] by auto
  let ?sv1 = "session_turn d ?io key sv"
  have sv1: "?sv1 = sv\<lparr>sv_sessions := [(key, s\<lparr>ss_stream := mid\<rparr>)]\<rparr>"
    using m(1) run by (simp add: session_turn_def put_session_def Let_def)
  have idle: "turn_call s = None" using idle_next [OF s] by (simp add: turn_call_def)
  have r1: "server_run (Suc n) sv0 calls ?sv1"
    using run_step [OF run(1) step_turn [of sv key s d ?io]] run idle by simp
  let ?s1 = "s\<lparr>ss_stream := mid\<rparr>"
  have "server_run (Suc (Suc n)) sv0 (calls @ (case turn_call ?s1 of None \<Rightarrow> [] | Some made \<Rightarrow> [made])) (session_turn d ?io key ?sv1)"
    by (rule run_step [OF r1 step_turn]) (use run in \<open>simp_all add: sv1\<close>)
  moreover have "(case turn_call ?s1 of None \<Rightarrow> [] | Some made \<Rightarrow> [made]) =
      (if fst (guard_accept (fh_sequence (df_header f)) (ss_guard s)) = Inr True
       then case frame_call s f of None \<Rightarrow> [] | Some made \<Rightarrow> [made] else [])"
    using m(4) by (simp add: turn_call_def frame_call_def)
  moreover have "case serve_frame d ok_status f (s\<lparr>ss_stream := st\<rparr>) ?w of
         (t, s', w) \<Rightarrow> t = Continue \<longrightarrow> sv_sessions (session_turn d ?io key ?sv1) = [(key, s')] \<and>
           sv_running (session_turn d ?io key ?sv1) \<and> sv_pending (session_turn d ?io key ?sv1) = [] \<and>
           sv_coordinator (session_turn d ?io key ?sv1) = sh_coordinator w \<and>
           sv_next_wire_session (session_turn d ?io key ?sv1) = sh_next_wire w"
  proof -
    obtain t s' w where t: "serve_frame d ok_status f (s\<lparr>ss_stream := st\<rparr>) ?w = (t, s', w)" by (metis prod_cases3)
    then have "session_turn d ?io key ?sv1 = sv\<lparr>sv_sessions := [(key, s')], sv_coordinator := sh_coordinator w,
        sv_next_wire_session := sh_next_wire w, sv_stats := sh_stats w\<rparr>" if "t = Continue"
      using m(2) run that unfolding sv1 by (simp add: session_turn_def put_session_def Let_def)
    then show ?thesis using t run by auto
  qed
  ultimately show thesis by (intro that [OF m(3)] exI [of _ "session_turn d ?io key ?sv1"] conjI) (assumption | simp only:)+
qed

text \<open>A server starts, accepts a connection and serves a handshake and a request for a wave on it.\<close>

lemma sample_accepted:
  fixes c :: "'s coordinator"
  obtains sv where "server_run 3 (mk_server c sample_server_options) [] sv"
    "sv_running sv" "sv_sessions sv = [(1, mk_session 1 default_limits)]" "sv_pending sv = []" "sv_next_wire_session sv = 1"
    "sv_coordinator sv = c"
proof -
  let ?sv0 = "mk_server c sample_server_options"
  let ?sv1 = "snd (server_start ok_status (Inr 7000) ok_status ?sv0)"
  let ?sv2 = "snd (server_accept (\<lambda>_. []) ?sv1)"
  let ?sv3 = "?sv2\<lparr>sv_pending := []\<rparr>"
  have e1: "?sv1 = ?sv0\<lparr>sv_max_sessions := 4, sv_workers := 4, sv_running := True, sv_bound_port := 7000\<rparr>"
    by (simp add: server_start_def mk_server_def sample_server_options_def sample_limits kMaxListenBacklog_def clamp_def
        kMaxWorkerThreads_def Let_def max_def)
  have e2: "sv_running ?sv2" "sv_sessions ?sv2 = [(1, mk_session 1 default_limits)]" "sv_pending ?sv2 = [1]"
    "sv_next_wire_session ?sv2 = 1" "sv_coordinator ?sv2 = c"
    unfolding e1 by (simp_all add: server_accept_def mk_server_def sample_server_options_def Let_def)
  have "worker_take ?sv2 = Some (1, ?sv3)" by (simp add: worker_take_def e2)
  from run_step [OF run_step [OF run_step [OF run_none step_start] step_accept] step_take [OF this]]
  have "server_run 3 ?sv0 [] ?sv3" by (simp add: eval_nat_numeral)
  then show thesis using that e2 by simp
qed

lemma sample_run:
  fixes c :: "'s coordinator"
  shows "\<exists>sv. server_run 7 (mk_server c sample_server_options) [Call_Next_Wave] sv"
proof -
  let ?sv0 = "mk_server c sample_server_options"
  let ?l = default_limits and ?i = "cn_identity sample_options"
  obtain sv where sv: "server_run 3 ?sv0 [] sv" "sv_running sv" "sv_sessions sv = [(1, mk_session 1 ?l)]" "sv_pending sv = []"
    and nw: "sv_next_wire_session sv = 1" "sv_coordinator sv = c"
    by (rule sample_accepted)
  let ?w = "\<lparr>sh_coordinator = sv_coordinator sv, sh_next_wire = sv_next_wire_session sv, sh_stats = sv_stats sv\<rparr>"
  have i: "identity_valid ?i" by (simp add: sample_options_def identity_valid_def)
  have idle: "stream_idle ?l (ss_stream (mk_session 1 ?l))" by (simp add: mk_stream_idle)
  have none: "frame_call (mk_session 1 ?l) sample_handshake = None" by (simp add: frame_call_def)
  let ?r = "frame_image (framed (reply_header HandshakeResponse (sh_next_wire ?w) 1) write_ok_envelope)"
  let ?s = "\<lambda>g st. (remember_answer 1 ?r ((mk_session 1 ?l)\<lparr>ss_stream := st, ss_guard := g, ss_identity := ?i,
         ss_wire_id := sh_next_wire ?w, ss_bound := True\<rparr>))\<lparr>ss_sent := [?r]\<rparr>"
  obtain g where g: "rg_highest g = 1" and served: "\<And>st. serve_frame (\<lambda>_. []) ok_status sample_handshake ((mk_session 1 ?l)\<lparr>ss_stream := st\<rparr>) ?w =
      (Continue, ?s g st, ?w\<lparr>sh_next_wire := sh_next_wire ?w + 1, sh_stats := note_frame True (sh_stats ?w)\<rparr>)"
    by (rule serve_handshake [OF i sample_limits(2,3) sample_handshake_def refl, where d = "\<lambda>_. []" and key = 1 and w = ?w]) blast
  obtain st sv' where st: "stream_idle ?l st" and sv': "server_run 5 ?sv0 [] sv'" "sv_running sv'" "sv_sessions sv' = [(1, ?s g st)]" "sv_pending sv' = []"
  proof (rule run_frame [OF sv idle sample_frames_ok(1), of "\<lambda>_. []"])
    fix st
    assume st: "stream_idle ?l st"
    assume "\<exists>sv'. server_run (Suc (Suc 3)) ?sv0
      ([] @ (if fst (guard_accept (fh_sequence (df_header sample_handshake)) (ss_guard (mk_session 1 ?l))) = Inr True
         then case frame_call (mk_session 1 ?l) sample_handshake of None \<Rightarrow> [] | Some made \<Rightarrow> [made] else [])) sv' \<and>
      (case serve_frame (\<lambda>_. []) ok_status sample_handshake ((mk_session 1 ?l)\<lparr>ss_stream := st\<rparr>) ?w of
         (t, s', w) \<Rightarrow> t = Continue \<longrightarrow> sv_sessions sv' = [(1, s')] \<and> sv_running sv' \<and> sv_pending sv' = [] \<and>
           sv_coordinator sv' = sh_coordinator w \<and> sv_next_wire_session sv' = sh_next_wire w)"
    then obtain sv' where "server_run (Suc (Suc 3)) ?sv0 [] sv'" "sv_running sv'" "sv_sessions sv' = [(1, ?s g st)]" "sv_pending sv' = []"
      unfolding served none option.case if_cancel append_Nil by auto
    then show thesis using that [OF st] by (simp add: eval_nat_numeral)
  qed
  have s: "stream_idle ?l (ss_stream (?s g st))" using st by (simp add: remember_answer_def)
  have "run_reader (rd_finish (ret (Inr ()))) [] ?l = Inr ()" by (rule run_reader_finishes [OF finishes_end]) simp
  then have call: "frame_call (?s g st) sample_wave_request = Some Call_Next_Wave"
    by (simp add: frame_call_def sample_wave_request_def remember_answer_def request_call_def nw)
  obtain g2 where "guard_accept 2 g = (Inr True, g2)" using guard_next [of g 2] g by auto
  then have acc: "fst (guard_accept (fh_sequence (df_header sample_wave_request)) (ss_guard (?s g st))) = Inr True"
    by (simp add: sample_wave_request_def remember_answer_def)
  show ?thesis
    by (rule run_frame [OF sv' s sample_frames_ok(2), of "\<lambda>_. []"]) (use acc call in \<open>auto simp: eval_nat_numeral\<close>)
qed

section \<open>Properties\<close>

text \<open>
  C25. Connecting binds both sides: a client with a valid identity that connects to a fresh session of
  the server is connected afterwards, the session is bound to exactly that identity, both carry the
  session identifier the server assigned, and the coordinator has not been touched.
\<close>

theorem connect_binds_session:
  assumes "limits_validate l = ok_status" "identity_valid (cn_identity options)" "cn_port options \<noteq> 0"
      "cn_connect_timeout_ms options \<le> kMaxWaitMs" "cn_limits options = l"
    and "room_for l (64 + unat (max_string_bytes l))" "sh_next_wire w \<noteq> 0"
  shows "\<exists>k s w'. client_connect (link details) ok_status options mk_client (mk_session key l, w, []) = Some (ok_status, k, s, w', []) \<and>
    connected_to l k s \<and> ss_identity s = cn_identity options \<and> cl_session k = sh_next_wire w \<and>
    sh_coordinator w' = sh_coordinator w \<and> sh_next_wire w' = sh_next_wire w + 1"
proof -
  have "max_frame_payload_bytes l \<le> max_message_payload_bytes l"
    using assms(1) by (auto simp: limits_validate_def not_less split: if_splits)
  from connect_binds [of options l w details key] assms this show ?thesis by (fastforce simp: connected_to_def)
qed

theorem connect_binds_session_witness:
  "\<exists>k s w. client_connect (link (\<lambda>_. [])) ok_status sample_options mk_client (mk_session 1 default_limits, sample_shared, []) =
     Some (ok_status, k, s, w, []) \<and> ss_identity s = cn_identity sample_options \<and> cl_session k = 1"
proof -
  have "\<exists>k s w'. client_connect (link (\<lambda>_. [])) ok_status sample_options mk_client (mk_session 1 default_limits, sample_shared, []) =
      Some (ok_status, k, s, w', []) \<and> connected_to default_limits k s \<and> ss_identity s = cn_identity sample_options \<and>
      cl_session k = sh_next_wire sample_shared \<and> sh_coordinator w' = sh_coordinator sample_shared \<and>
      sh_next_wire w' = sh_next_wire sample_shared + 1"
    by (rule connect_binds_session)
      (simp_all add: sample_limits sample_options_def sample_shared_def identity_valid_def kMaxWaitMs_def)
  then show ?thesis by (auto simp: sample_shared_def)
qed

text \<open>
  C8. A remote completion is the local one: a consumer or producer that commits a transfer over its
  connection, in its own name, receives exactly the outcome or the error \<open>commit_transfer\<close> has on the
  coordinator, which ends in exactly the state of that call, and the connection is ready for the next.
\<close>

theorem remote_commit_transparent:
  assumes "connected_to l k s" "exchange_possible l details k"
    and "request_msg_admitted l l q" "room_for l (length (write_commit_request_msg q))"
    and "commit_matches_identity (cn_identity (cl_options k)) q"
    and "known_outcome (fst (commit_transfer q (sh_coordinator w)))"
    and "\<And>v. fst (commit_transfer q (sh_coordinator w)) = Inr v \<Longrightarrow> digest_wf (rc_manifest_digest (oc_receipt v))"
  shows "answered l k (client_commit_transfer (link details) q k (s, w, [])) (commit_transfer q (sh_coordinator w))"
  using assms by (rule commit_call_answered)

theorem remote_commit_transparent_witness:
  "\<exists>k s (w :: unit shared). cl_connected k \<and> answered default_limits k (client_commit_transfer (link (\<lambda>_. [])) sample_request k (s, w, []))
     (commit_transfer sample_request (mk_coordinator default_limits (Some volatile_sink)))"
proof -
  obtain k s and w :: "unit shared" where c: "connected_to default_limits k s" "exchange_possible default_limits (\<lambda>_. []) k" "cl_options k = sample_options"
    "sh_coordinator w = mk_coordinator default_limits (Some volatile_sink)"
    using sample_session by blast
  have q: "request_msg_admitted default_limits default_limits sample_request"
    by (simp add: request_msg_admitted_def sample_request_def default_limits_def digest_wf_def zero_digest_def)
  have "answered default_limits k (client_commit_transfer (link (\<lambda>_. [])) sample_request k (s, w, []))
      (commit_transfer sample_request (sh_coordinator w))"
  proof (rule remote_commit_transparent [OF c(1,2) q])
    show "room_for default_limits (length (write_commit_request_msg sample_request))"
      by (simp add: write_commit_request_msg_def sample_request_def put_bool_def put_u8_def put_u32_le put_digest_def put_raw_def
          zero_digest_def room_for_def default_limits_def)
    show "commit_matches_identity (cn_identity (cl_options k)) sample_request"
      by (simp add: c sample_options_def commit_matches_identity_def sample_request_def)
    show "known_outcome (fst (commit_transfer sample_request (sh_coordinator w)))"
      by (simp add: c closed_commit known_outcome_def is_known_error_code_def)
    show "digest_wf (rc_manifest_digest (oc_receipt v))" if "fst (commit_transfer sample_request (sh_coordinator w)) = Inr v" for v
      using that by (simp add: c closed_commit)
  qed
  then show ?thesis using c by (auto simp: connected_to_def)
qed

text \<open>
  C9. A request is served at most once. Whatever a connection has carried before, when a frame with a new
  sequence number has been served and at most 31 more frames have followed it, any frame that repeats
  the sequence number is answered with exactly the bytes of the first answer, and neither the
  coordinator nor the session's guard, binding and cache are touched.
\<close>

theorem retransmission_answered_from_cache:
  assumes "serve_frames details before (mk_session key l) w0 = Some (s, w)"
    and "fst (guard_accept (fh_sequence (df_header frame)) (ss_guard s)) = Inr True"
      "cached_answer (fh_sequence (df_header frame)) s = None"
    and "serve_frame details ok_status frame s w = (Continue, s1, w1)"
    and "serve_frames details after s1 w1 = Some (s2, w2)" "length after < 32"
    and "fh_sequence (df_header again) = fh_sequence (df_header frame)"
  shows "serve_frame details ok_status again s2 w2 =
    (Continue, s2\<lparr>ss_sent := ss_sent s2 @ [last (ss_sent s1)]\<rparr>, w2\<lparr>sh_stats := note_duplicate True (sh_stats w2)\<rparr>)"
proof -
  have wf: "guard_wf (ss_guard s)" by (rule run_guard_wf [OF _ assms(1)]) (simp add: mk_guard_wf)
  obtain reply where r: "ss_sent s1 = ss_sent s @ [reply]" "answer_held 0 (fh_sequence (df_header frame)) reply s1"
    using held_first [OF wf assms(3,2,4)] .
  have "answer_held (length after) (fh_sequence (df_header again)) reply s2"
    using held_run [OF r(2) _ assms(5)] assms(6,7) by simp
  from held_answers [OF this] show ?thesis using r(1) by simp
qed

theorem retransmission_answered_from_cache_witness:
  "\<exists>s1 w1. serve_frame (\<lambda>_. []) ok_status sample_handshake (mk_session 1 default_limits) sample_shared = (Continue, s1, w1) \<and>
    serve_frame (\<lambda>_. []) ok_status sample_handshake s1 w1 =
      (Continue, s1\<lparr>ss_sent := ss_sent s1 @ [last (ss_sent s1)]\<rparr>, w1\<lparr>sh_stats := note_duplicate True (sh_stats w1)\<rparr>)"
proof -
  let ?l = default_limits and ?s = "mk_session 1 default_limits"
  have i: "identity_valid (cn_identity sample_options)" by (simp add: sample_options_def identity_valid_def)
  have st: "?s\<lparr>ss_stream := mk_stream ?l\<rparr> = ?s" by (simp add: mk_session_def)
  obtain s1 w1 where f: "serve_frame (\<lambda>_. []) ok_status sample_handshake ?s sample_shared = (Continue, s1, w1)"
    using serve_handshake [OF i sample_limits(2,3) sample_handshake_def refl, where d = "\<lambda>_. []" and key = 1 and w = sample_shared] st by metis
  have q: "fh_sequence (df_header sample_handshake) = 1" by (simp add: sample_handshake_def)
  have "fst (guard_accept (fh_sequence (df_header sample_handshake)) (ss_guard ?s)) = Inr True"
    using guard_next [OF mk_guard_first] by (metis fst_conv mk_session_fields(3) q zero_neq_one)
  moreover have "cached_answer (fh_sequence (df_header sample_handshake)) ?s = None"
    by (simp add: cached_answer_def mk_session_def)
  ultimately have "serve_frame (\<lambda>_. []) ok_status sample_handshake s1 w1 =
      (Continue, s1\<lparr>ss_sent := ss_sent s1 @ [last (ss_sent s1)]\<rparr>, w1\<lparr>sh_stats := note_duplicate True (sh_stats w1)\<rparr>)"
    by (intro retransmission_answered_from_cache [where before = "[]" and after = "[]" and l = ?l, OF _ _ _ f]) simp_all
  then show ?thesis using f by blast
qed



text \<open>
  C24. The server stays within its bounds: in every reachable state there are at most as many sessions
  as configured, the counter of active sessions is exact, the queue holds registered sessions once
  each, no two bound sessions carry the same identifier on the wire and none carries zero, and every
  session caches at most 32 answers and buffers at most one maximal frame.
\<close>

theorem sessions_bounded:
  assumes "server_run n (mk_server c options) calls sv" "n + 2 < 2 ^ 64"
  shows "length (sv_sessions sv) \<le> unat (sv_max_sessions sv) \<and>
    unat (sx_active_sessions (sv_stats sv)) = length (sv_sessions sv) \<and>
    distinct (sv_pending sv) \<and> set (sv_pending sv) \<subseteq> fst ` set (sv_sessions sv) \<and>
    distinct (wire_ids sv) \<and> 0 \<notin> set (wire_ids sv) \<and>
    (\<forall>s \<in> snd ` set (sv_sessions sv). length (ss_answers s) \<le> 32 \<and>
       buffered (ss_stream s) \<le> stream_capacity (mk_stream (so_limits options)))"
proof -
  have i: "registry_inv n sv" "sv_options sv = options" using server_run_effect [OF assms] by auto
  have "length (ss_answers s) \<le> 32 \<and> buffered (ss_stream s) \<le> stream_capacity (mk_stream (so_limits options))"
    if "s \<in> snd ` set (sv_sessions sv)" for s
  proof -
    have "session_inv (so_limits options) s" using i that by (auto simp: registry_inv_def)
    then show ?thesis
      using capacity_limits [of "ss_stream s" "mk_stream (so_limits options)"]
      by (auto simp: session_inv_def stream_inv_def kAnswerCacheEntries_def mk_stream_def)
  qed
  moreover have "0 \<notin> set (wire_ids sv)" using i by (fastforce simp: registry_inv_def)
  ultimately show ?thesis using i by (auto simp: registry_inv_def)
qed

theorem sessions_bounded_witness:
  "\<exists>sv. server_run 3 (mk_server (mk_coordinator default_limits (Some volatile_sink)) sample_server_options) [] sv \<and>
    length (sv_sessions sv) = 1 \<and> length (sv_sessions sv) \<le> unat (sv_max_sessions sv)"
proof -
  obtain sv where sv: "server_run 3 (mk_server (mk_coordinator default_limits (Some volatile_sink)) sample_server_options) [] sv"
    "sv_sessions sv = [(1, mk_session 1 default_limits)]"
    by (rule sample_accepted)
  from sv sessions_bounded [OF sv(1)] show ?thesis by auto
qed

end
