(* ===== verification/Spec2Isabelle.thy ===== *)
theory Spec2Isabelle
  imports Fabric_Journal Fabric_Remote
begin

text \<open>
  Verification of the shuffle fabric: a coordinator that plans, schedules and accounts the
  delivery of partitions from producers to consumers. The library under \<open>src/src\<close> and
  \<open>src/include/shuffle/fabric\<close> is modelled component by component; the theories follow the
  call graph, from bytes to the recovery of a crashed coordinator and the service in front of it.

  \<^bold>\<open>Foundations.\<close>
  \<^item> \<open>Fabric_Prelude\<close>: machine words, byte strings and the ordered vectors of the code
    (\<open>lower_bound\<close>, \<open>insert_at\<close>, \<open>found_at\<close>), with the generic lemmas on them.
  \<^item> \<open>Fabric_Error\<close>: error codes with their numeric values, result types and retry classes
    (\<open>error.cpp\<close>). Detail texts are not carried.
  \<^item> \<open>Fabric_Bytes\<close>: checked 64-bit arithmetic, limits, identifiers and their decimal text,
    the logical clock (\<open>bytes.cpp\<close>, \<open>identity.hpp\<close>).
  \<^item> \<open>Fabric_Hash\<close>, \<open>Fabric_Vectors\<close>: SHA-256 with its buffered state, CRC-32C with its
    table and hexadecimal digests (\<open>hash.cpp\<close>, \<open>digest.cpp\<close>), against one-shot reference
    definitions; the published vector of \<open>abc\<close> evaluated in the kernel.
  \<^item> \<open>Fabric_Codec\<close>: byte writers and the reader with a sticky error and allocation limits
    (\<open>codec.cpp\<close>) as a state monad. Its locales \<open>wire_codec\<close>, \<open>record_codec\<close> and \<open>record_reader\<close>
    state what a writer and a reader promise each other; every primitive interprets the first,
    every record of the library the second or the third.

  \<^bold>\<open>What the coordinator decides about.\<close>
  \<^item> \<open>Fabric_Manifest\<close>: partition manifests (\<open>manifest.cpp\<close>): validation, encoding, content
    verification and construction. Decoding inverts encoding exactly, and a manifest determines
    the content it verifies unless SHA-256 collides.
  \<^item> \<open>Fabric_Policy\<close>: the policy envelope and its codec (\<open>policy.cpp\<close>).
  \<^item> \<open>Fabric_Edge\<close>: edge keys, statuses and participant states (\<open>edge.cpp\<close>); the locale
    \<open>completion_view\<close> is what the scheduler relies on of a ledger.
  \<^item> \<open>Fabric_Topology\<close>: selections, registrations, pattern interning, ownership, fan-in and
    fan-out, planned edges, and the evaluation of a policy on a topology (\<open>topology.cpp\<close>). The
    invariant of reachable topologies makes the closed-form counts exact.
  \<^item> \<open>Fabric_Ledger\<close>: the completion ledger (\<open>ledger.cpp\<close>): a delivery is accounted once, a
    superseded generation is refused, a committed claim does not change.
  \<^item> \<open>Fabric_Schedule\<close>: the wave scheduler (\<open>schedule.cpp\<close>): what a grant guarantees, exact
    in-flight books, the bounds of a wave and what a completed pass says.

  \<^bold>\<open>The coordinator and its history.\<close>
  \<^item> \<open>Fabric_Records\<close>: the six durable records and their codecs (\<open>records.cpp\<close>).
  \<^item> \<open>Fabric_Coordinator\<close>: every call of the coordinator (\<open>coordinator.cpp\<close>): the checks, the
    durable record, its application, the snapshot and \<open>recover\<close>. The durable sink is a field of
    the state with an arbitrary \<open>persist\<close>.
  \<^item> \<open>Fabric_Replay\<close>: the locale \<open>durable_log\<close>, what a sink promises (a persisted record is
    appended to the log, a refused one is not), and, inside it, that every call keeps the
    coordinator \<open>tracked\<close>: replaying the log gives its durable part.
  \<^item> \<open>Fabric_Recovery\<close>: runs of calls, recovery from a log, the authority behind an accepted
    completion, and the finality of a settled shuffle.
  \<^item> \<open>Fabric_Store\<close>: the durable store (\<open>durable_store.cpp\<close>, POSIX branches) over a host whose
    script of events fails, interrupts or cuts short any system call, and the sink of the
    coordinator tool (\<open>tools/shuffle-fabric-coordinator.cpp\<close>).
  \<^item> \<open>Fabric_Journal\<close>: the store implements \<open>durable_log\<close> (the interpretation \<open>store\<close>), so the
    lemmas of \<open>Fabric_Replay\<close> hold of the coordinator over the real journal; acknowledged records
    survive a crash, and a compaction keeps a complete snapshot whatever fails.
  \<^item> this theory: the ledger as the scheduler's \<open>completion_view\<close>, and the three properties that
    span components.

  \<^bold>\<open>The service in front of it.\<close>
  \<^item> \<open>Fabric_Frame\<close>: wire frames with both checksums, the bounded stream reader and the replay
    guard (\<open>frame.cpp\<close>). Decoding inverts encoding exactly, a changed byte is refused, and the
    frames of a connection do not depend on how its bytes are cut into reads.
  \<^item> \<open>Fabric_Messages\<close>: the payloads of the protocol (\<open>service.cpp\<close>, lines 120 to 573), each an
    interpretation of \<open>record_codec\<close> or \<open>record_reader\<close>.
  \<^item> \<open>Fabric_Service\<close>: the server (\<open>CoordinatorServer::Impl\<close>). A session and the server are
    records; \<open>handle\<close> and its branches, \<open>serve_frame\<close>, \<open>serve_turn\<close>, \<open>server_start\<close>,
    \<open>server_accept\<close>, \<open>worker_take\<close>, \<open>finish_session\<close> and \<open>server_stop\<close> are the methods. The step
    relation \<open>server_step\<close> interleaves them, labelled with the coordinator call a step makes.
    The invariant \<open>registry_inv\<close> holds of every run; its number of steps is kept below
    \<open>2 ^ 64 - 2\<close>, so that the 64-bit counters of sessions do not wrap.
  \<^item> \<open>Fabric_Client\<close>: the client (\<open>CoordinatorClient::Impl\<close>) over a \<open>transport\<close>, from
    \<open>receive_frame\<close> to the remote calls. \<open>receive_frame\<close> is a \<open>partial_function\<close>, and it is proved
    to return over every transport whose receives deliver something or fail.
  \<^item> \<open>Fabric_Remote\<close>: both sides linked. Connecting binds the identity, a remote completion is the
    local one (the same lemma is proved for registration, waves and status), a retransmitted request
    is answered from the cache, and a run of the server is a run of coordinator calls made in the
    name of authenticated participants.

  Unsigned integers are words of their width, so wrap-around is part of the model. Fallible
  operations return a sum type; stateful ones return the new state beside the result. Loops
  are total functions with their termination proofs and no fuel: the transfer loops of the
  store consume a byte or an event in each round, the journal scan consumes a record header,
  a wave consumes its examination budget.

  Concurrency in the service is interleaving: one mutex serialises the coordinator and another the
  registry and the counters, nothing else is shared between sessions, so a turn of a session's loop
  is one step. A turn receives the outcomes of its send and of its receive as arguments, and the
  sockets themselves do not appear.

  \<^bold>\<open>Not modelled.\<close> Detail texts of errors (where the service puts one on the wire it is an
  argument, a function of the error code); the Windows branches of the store; sockets, threads,
  timeouts and the waking of workers (\<open>socket.cpp\<close>, the condition variable and the joins of
  \<open>service.cpp\<close>); argument parsing, the chunk transfer loop and output of the tools; the examples.
  \<open>restart_resumes_run\<close> is about recovery from the journal of a first run: the restarted coordinator
  holds suspended participants that no record describes, so a second restart replays to the topology
  before the suspension and suspends again; and the sink of the tool never writes a snapshot
  (\<open>sink_never_compacts\<close>), so recovery from a snapshot is modelled but not part of it.
\<close>

section \<open>The scheduler over the ledger\<close>

interpretation ledger_waves: completion_view edge_status
  "\<lambda>lg. ledger_inv lg \<and> max_retained_generations (ld_limits lg) \<noteq> 0" deliver_commit "\<lambda>(request, now). delivered_edge request"
  by (rule ledger_completion_view)

text \<open>
  The one thing the wire does not check about a registration and the journal does: a list of partitions
  is sorted and without repetition.
\<close>

fun canonical_registration :: "coordinator_call \<Rightarrow> bool" where
  "canonical_registration (Call_Register_Consumer cid incarnation endpoint selection) \<longleftrightarrow> selection_durable selection"
| "canonical_registration call \<longleftrightarrow> True"

section \<open>Lemmas: the coordinator behind the service\<close>

lemma decoded_admitted: "call_decoded l call \<Longrightarrow> canonical_registration call \<Longrightarrow> call_admitted l call"
  by (cases call) (auto simp: text_admitted_def selection_msg_admitted_def selection_admitted_def is_known_error_code_def)

lemma served_calls_admitted:
  assumes "list_all (call_of_participant l) calls" "list_all canonical_registration calls"
  shows "list_all (call_admitted l) calls"
  using assms by (auto simp: list_all_iff call_of_participant_def intro: decoded_admitted)

section \<open>Properties\<close>





text \<open>
  C6. The whole service is durable: a server over the durable store, whatever its clients send and its
  host does, keeps the coordinator determined by the journal. As long as every consumer registers a
  canonical selection, the acknowledged records replay without an error to everything durable in the
  coordinator behind the server, and the coordinator satisfies its invariant.
\<close>

theorem served_run_durable:
  assumes "store_sound l k" "store_log k = []" "limits_validate l = ok_status" "32 \<le> max_allocation_bytes l"
    and "server_run n (mk_server (fresh_coordinator l (sink_persist (Some (Inl InvalidState))) True k) options) calls sv"
    and "so_limits options = l" "n + 2 < 2 ^ 64" "list_all canonical_registration calls"
  shows "tracked (sink_persist (Some (Inl InvalidState))) store_log (store_sound l) (sv_coordinator sv)"
proof -
  let ?c = "fresh_coordinator l (sink_persist (Some (Inl InvalidState))) True k"
  have r: "sv_coordinator sv = fold run_call calls ?c" "list_all (call_admitted l) calls"
    using server_run_effect [OF assms(5,7)] served_calls_admitted [OF _ assms(8)] assms(6) by auto
  show ?thesis
    unfolding r(1) by (rule store.tracked_run [OF store.tracked_fresh [OF assms(1-4)]]) (use r(2) in \<open>simp add: fresh_coordinator_def\<close>)
qed

theorem served_run_durable_witness:
  "\<exists>sv. server_run 7 (mk_server (fresh_coordinator default_limits (sink_persist (Some (Inl InvalidState))) True empty_sink)
       sample_server_options) [Call_Next_Wave] sv \<and>
     tracked (sink_persist (Some (Inl InvalidState))) store_log (store_sound default_limits) (sv_coordinator sv)"
proof -
  let ?c = "fresh_coordinator default_limits (sink_persist (Some (Inl InvalidState))) True empty_sink"
  obtain sv where sv: "server_run 7 (mk_server ?c sample_server_options) [Call_Next_Wave] sv"
    using sample_run [of ?c] by blast
  have "tracked (sink_persist (Some (Inl InvalidState))) store_log (store_sound default_limits) (sv_coordinator sv)"
    by (rule served_run_durable [OF empty_sink_sound _ _ sv])
      (simp_all add: default_limits_def limits_validate_def sample_server_options_def)
  then show ?thesis using sv by blast
qed

end
